(* ===== verification/Prelude.thy ===== *)
theory Prelude
  imports Main "HOL-Library.Word" "HOL-Library.Monad_Syntax"
begin

unbundle bit_operations_syntax

section \<open>Prelude: machine integers, byte buffers, faults\<close>

text \<open>
  What every component shares.  The C integer types of \<^verbatim>\<open>native/os2types.h\<close> are words of their
  width.  A buffer the code reaches through a pointer is the list of its bytes, and an access is
  checked: an access outside the buffer, a failed \<^verbatim>\<open>assert\<close> or a call of \<^verbatim>\<open>abort\<close> is the value
  \<open>None\<close> (called a \<^emph>\<open>fault\<close> below), so that a theorem saying a result is \<open>Some\<close> is a theorem
  of memory safety.  A C function that reports failure by its return value returns that value
  inside \<open>Some\<close>.
\<close>

type_synonym u8 = "8 word"
type_synonym u16 = "16 word"
type_synonym u32 = "32 word"
type_synonym bytes = "u8 list"

text \<open>Facts about single accesses, and facts that carry a bound from a guard.\<close>

named_theorems access_simps
named_theorems bound_intros

subsection \<open>Reading\<close>

definition rd8 :: "bytes \<Rightarrow> nat \<Rightarrow> u8 option" where
  "rd8 bs i = (if i < length bs then Some (bs ! i) else None)"

definition le16 :: "u8 \<Rightarrow> u8 \<Rightarrow> u16" where
  "le16 a b = ucast a OR push_bit 8 (ucast b)"

definition le32 :: "u8 \<Rightarrow> u8 \<Rightarrow> u8 \<Rightarrow> u8 \<Rightarrow> u32" where
  "le32 a b c d = ucast a OR push_bit 8 (ucast b) OR push_bit 16 (ucast c) OR push_bit 24 (ucast d)"

definition rd16 :: "bytes \<Rightarrow> nat \<Rightarrow> u16 option" where
  "rd16 bs i = (if i + 2 \<le> length bs then Some (le16 (bs ! i) (bs ! (i + 1))) else None)"

definition rd32 :: "bytes \<Rightarrow> nat \<Rightarrow> u32 option" where
  "rd32 bs i = (if i + 4 \<le> length bs
     then Some (le32 (bs ! i) (bs ! (i + 1)) (bs ! (i + 2)) (bs ! (i + 3))) else None)"

definition rd_blk :: "bytes \<Rightarrow> nat \<Rightarrow> nat \<Rightarrow> bytes option" where
  "rd_blk bs i n = (if i + n \<le> length bs then Some (take n (drop i bs)) else None)"

subsection \<open>Writing\<close>

definition blit :: "'a list \<Rightarrow> nat \<Rightarrow> 'a list \<Rightarrow> 'a list" where
  "blit dst i xs = take i dst @ xs @ drop (i + length xs) dst"

definition wr_blk :: "'a list \<Rightarrow> nat \<Rightarrow> 'a list \<Rightarrow> 'a list option" where
  "wr_blk dst i xs = (if i + length xs \<le> length dst then Some (blit dst i xs) else None)"

definition wr8 :: "bytes \<Rightarrow> nat \<Rightarrow> u8 \<Rightarrow> bytes option" where
  "wr8 dst i v = (if i < length dst then Some (dst[i := v]) else None)"

definition bytes16 :: "u16 \<Rightarrow> bytes" where
  "bytes16 v = [ucast v, ucast (drop_bit 8 v)]"

definition bytes32 :: "u32 \<Rightarrow> bytes" where
  "bytes32 v = [ucast v, ucast (drop_bit 8 v), ucast (drop_bit 16 v), ucast (drop_bit 24 v)]"

definition guard :: "bool \<Rightarrow> unit option" where
  "guard b = (if b then Some () else None)"

lemma rd8_Some [access_simps]: "i < length bs \<Longrightarrow> rd8 bs i = Some (bs ! i)"
  by (simp add: rd8_def)

lemma rd16_Some [access_simps]: "i + 2 \<le> length bs \<Longrightarrow> rd16 bs i = Some (le16 (bs ! i) (bs ! (i + 1)))"
  by (simp add: rd16_def)

lemma rd32_Some [access_simps]: "i + 4 \<le> length bs \<Longrightarrow>
    rd32 bs i = Some (le32 (bs ! i) (bs ! (i + 1)) (bs ! (i + 2)) (bs ! (i + 3)))"
  by (simp add: rd32_def)

lemma rd_blk_Some [access_simps]: "i + n \<le> length bs \<Longrightarrow> rd_blk bs i n = Some (take n (drop i bs))"
  by (simp add: rd_blk_def)

lemma wr_blk_Some [access_simps]: "i + length xs \<le> length dst \<Longrightarrow> wr_blk dst i xs = Some (blit dst i xs)"
  by (simp add: wr_blk_def)

lemma wr8_Some [access_simps]: "i < length dst \<Longrightarrow> wr8 dst i v = Some (dst[i := v])"
  by (simp add: wr8_def)

lemma rd8_eq_Some_iff: "rd8 bs i = Some b \<longleftrightarrow> i < length bs \<and> bs ! i = b"
  by (auto simp: rd8_def)

lemma rd16_eq_Some_iff: "rd16 bs i = Some v \<longleftrightarrow> i + 2 \<le> length bs \<and> v = le16 (bs ! i) (bs ! (i + 1))"
  by (auto simp: rd16_def)

lemma rd32_eq_Some_iff: "rd32 bs i = Some v \<longleftrightarrow>
    i + 4 \<le> length bs \<and> v = le32 (bs ! i) (bs ! (i + 1)) (bs ! (i + 2)) (bs ! (i + 3))"
  by (auto simp: rd32_def)

lemma rd_blk_eq_Some_iff: "rd_blk bs i n = Some xs \<longleftrightarrow> i + n \<le> length bs \<and> xs = take n (drop i bs)"
  by (auto simp: rd_blk_def)

lemma wr_blk_eq_Some_iff: "wr_blk d i xs = Some d' \<longleftrightarrow> i + length xs \<le> length d \<and> d' = blit d i xs"
  by (auto simp: wr_blk_def)

lemma wr8_eq_Some_iff: "wr8 d i v = Some d' \<longleftrightarrow> i < length d \<and> d' = d[i := v]"
  by (auto simp: wr8_def)

lemmas access_iffs = rd8_eq_Some_iff rd16_eq_Some_iff rd32_eq_Some_iff rd_blk_eq_Some_iff
  wr_blk_eq_Some_iff wr8_eq_Some_iff

lemma guard_Some [simp]: "guard b = Some u \<longleftrightarrow> b" "guard b = None \<longleftrightarrow> \<not> b"
  by (auto simp: guard_def)

lemma guard_simps [simp]: "guard True = Some ()" "guard False = None"
  by (auto simp: guard_def)

subsection \<open>Block writes\<close>

lemma length_blit [simp]: "i + length xs \<le> length dst \<Longrightarrow> length (blit dst i xs) = length dst"
  by (simp add: blit_def)

lemma take_blit [simp]: "i \<le> length dst \<Longrightarrow> take i (blit dst i xs) = take i dst"
  by (simp add: blit_def)

lemma take_blit_add: "i \<le> length dst \<Longrightarrow> take (i + length xs) (blit dst i xs) = take i dst @ xs"
  by (simp add: blit_def)

lemma take_blit_less: "k \<le> i \<Longrightarrow> i \<le> length dst \<Longrightarrow> take k (blit dst i xs) = take k dst"
  by (simp add: blit_def min_def)

lemma drop_blit: "i \<le> length dst \<Longrightarrow> drop (i + length xs) (blit dst i xs) = drop (i + length xs) dst"
  by (simp add: blit_def)

lemma min_sub [simp]: "i + n \<le> m \<Longrightarrow> min (m - i) n = (n :: nat)"
  by simp

lemma drop_blit_ge: "i \<le> length dst \<Longrightarrow> i + length xs \<le> k \<Longrightarrow> drop k (blit dst i xs) = drop k dst"
  by (simp add: blit_def min_def)

lemma blit_Nil [simp]: "blit dst i [] = dst"
  by (simp add: blit_def)

lemma blit_at_length: "blit (xs @ ys) (length xs) zs = xs @ zs @ drop (length zs) ys"
  by (simp add: blit_def)

lemma nth_blit: "i + length xs \<le> length dst \<Longrightarrow> k < length dst \<Longrightarrow>
    blit dst i xs ! k = (if k < i then dst ! k else if k < i + length xs then xs ! (k - i) else dst ! k)"
  by (auto simp: blit_def nth_append)

lemma blit_blit: "d + length xs + length ys \<le> length dst \<Longrightarrow>
    blit (blit dst d xs) (d + length xs) ys = blit dst d (xs @ ys)"
  by (simp add: blit_def ac_simps)

text \<open>Several block writes, and when none of them overlaps another.\<close>

fun writes :: "(nat \<times> 'a list) list \<Rightarrow> 'a list \<Rightarrow> 'a list" where
  "writes [] m = m"
| "writes ((i, b) # ws) m = writes ws (blit m i b)"

lemma writes_Cons: "writes (w # ws) m = writes ws (writes [w] m)"
  by (cases w) simp

definition apart :: "nat \<times> 'a list \<Rightarrow> nat \<times> 'a list \<Rightarrow> bool" where
  "apart = (\<lambda>(i, b) (j, c). i + length b \<le> j \<or> j + length c \<le> i)"

definition within :: "'a list \<Rightarrow> nat \<times> 'a list \<Rightarrow> bool" where
  "within m = (\<lambda>(i, b). i + length b \<le> length m)"

lemma within_blit [simp]: "i + length b \<le> length m \<Longrightarrow> within (blit m i b) w \<longleftrightarrow> within m w"
  by (simp add: within_def split: prod.splits)

lemma length_writes: "\<forall>w \<in> set ws. within m w \<Longrightarrow> length (writes ws m) = length m"
  by (induction ws arbitrary: m) (auto simp: within_def split: prod.splits)

lemma nth_writes_outside:
  "\<forall>w \<in> set ws. within m w \<Longrightarrow> \<forall>(i, b) \<in> set ws. k < i \<or> i + length b \<le> k \<Longrightarrow> k < length m \<Longrightarrow>
    writes ws m ! k = m ! k"
proof (induction ws arbitrary: m)
  case (Cons w ws)
  obtain i b where w: "w = (i, b)" by (cases w)
  have "i + length b \<le> length m" using Cons.prems(1) by (simp add: w within_def)
  then show ?case using Cons by (auto simp: w nth_blit)
qed simp

lemma block_eqI: "i + length b \<le> length m \<Longrightarrow> (\<And>k. k < length b \<Longrightarrow> m ! (i + k) = b ! k) \<Longrightarrow>
    take (length b) (drop i m) = b"
  by (rule nth_equalityI) auto

lemma writes_block:
  "\<forall>w \<in> set ws. within m w \<Longrightarrow> sorted_wrt apart ws \<Longrightarrow> (i, b) \<in> set ws \<Longrightarrow>
    take (length b) (drop i (writes ws m)) = b"
proof (induction ws arbitrary: m)
  case (Cons w ws)
  obtain j c where w: "w = (j, c)" by (cases w)
  have j: "j + length c \<le> length m" using Cons.prems(1) by (simp add: w within_def)
  have rest: "\<forall>w \<in> set ws. within (blit m j c) w" using Cons.prems(1) j by simp
  show ?case
  proof (cases "(i, b) \<in> set ws")
    case True
    then show ?thesis using Cons.IH [OF rest _ True] Cons.prems(2) by (simp add: w)
  next
    case False
    then have eq: "i = j" "b = c" using Cons.prems(3) by (auto simp: w)
    show ?thesis
    proof (rule block_eqI)
      show "i + length b \<le> length (writes (w # ws) m)" using length_writes [OF Cons.prems(1)] j eq by simp
      fix k assume k: "k < length b"
      have "writes ws (blit m j c) ! (j + k) = blit m j c ! (j + k)"
      proof (rule nth_writes_outside [OF rest])
        show "\<forall>(i', b') \<in> set ws. j + k < i' \<or> i' + length b' \<le> j + k"
          using Cons.prems(2) k eq by (fastforce simp: w apart_def)
      qed (use j k eq in simp)
      then show "writes (w # ws) m ! (i + k) = b ! k" using j k eq by (simp add: w nth_blit)
    qed
  qed
qed simp

text \<open>Reading out of a block that is known.\<close>

lemma rd_blk_nth:
  assumes "rd_blk m p (length b) = Some b" "i < length b"
  shows "p + i < length m" "m ! (p + i) = b ! i"
proof -
  have m: "p + length b \<le> length m" and b: "b = take (length b) (drop p m)"
    using assms(1) by (auto simp: rd_blk_def split: if_splits)
  then show "p + i < length m" using assms(2) by simp
  have "b ! i = take (length b) (drop p m) ! i" using b by simp
  then show "m ! (p + i) = b ! i" using assms(2) m by simp
qed

lemma rd_blk_reads:
  assumes "rd_blk m p (length b) = Some b"
  shows "i < length b \<Longrightarrow> rd8 m (p + i) = Some (b ! i)"
    and "i + 1 < length b \<Longrightarrow> rd16 m (p + i) = Some (le16 (b ! i) (b ! (i + 1)))"
    and "i + 3 < length b \<Longrightarrow> rd32 m (p + i) = Some (le32 (b ! i) (b ! (i + 1)) (b ! (i + 2)) (b ! (i + 3)))"
  using rd_blk_nth [OF assms, of i] rd_blk_nth [OF assms, of "i + 1"] rd_blk_nth [OF assms, of "i + 2"]
    rd_blk_nth [OF assms, of "i + 3"]
  by (simp_all add: rd8_def rd16_def rd32_def add.assoc)

lemma rd_blk_append:
  "rd_blk m p (length (xs @ ys)) = Some (xs @ ys) \<longleftrightarrow>
    rd_blk m p (length xs) = Some xs \<and> rd_blk m (p + length xs) (length ys) = Some ys"
proof -
  have "take (length xs + length ys) (drop p m)
      = take (length xs) (drop p m) @ take (length ys) (drop (p + length xs) m)"
    by (simp add: take_add add.commute)
  then show ?thesis by (auto simp: rd_blk_def)
qed

subsection \<open>Words\<close>

lemma le16_bytes16: "le16 (ucast v) (ucast (drop_bit 8 v)) = (v :: u16)"
  unfolding le16_def
  by (rule bit_eqI) (auto simp: bit_simps)

lemma le32_bytes32:
  "le32 (ucast v) (ucast (drop_bit 8 v)) (ucast (drop_bit 16 v)) (ucast (drop_bit 24 v)) = (v :: u32)"
  unfolding le32_def
proof (rule bit_word_eqI)
  fix n :: nat
  assume "n < LENGTH(32)"
  moreover have "24 \<le> n \<Longrightarrow> 24 + (n - 24) = n" "16 \<le> n \<Longrightarrow> 16 + (n - 16) = n" by simp_all
  ultimately show "bit (ucast (ucast v :: u8) OR push_bit 8 (ucast (ucast (drop_bit 8 v) :: u8)) OR
      push_bit 16 (ucast (ucast (drop_bit 16 v) :: u8)) OR
      push_bit 24 (ucast (ucast (drop_bit 24 v) :: u8)) :: u32) n = bit v n"
    by (cases "24 \<le> n"; cases "16 \<le> n") (auto simp: bit_simps)
qed

lemma length_bytes16 [simp]: "length (bytes16 v) = 2"
  by (simp add: bytes16_def)

lemma length_bytes32 [simp]: "length (bytes32 v) = 4"
  by (simp add: bytes32_def)

lemma rd16_bytes16: "i + 2 \<le> length d \<Longrightarrow> rd16 (blit d i (bytes16 v)) i = Some v"
  by (simp add: rd16_def nth_blit) (simp add: bytes16_def le16_bytes16)

lemma rd32_bytes32: "i + 4 \<le> length d \<Longrightarrow> rd32 (blit d i (bytes32 v)) i = Some v"
  by (simp add: rd32_def nth_blit) (simp add: bytes32_def le32_bytes32)

lemma and_mask_nums:
  "(x :: 'a::len word) AND 1 = take_bit 1 x"
  "(x :: 'a::len word) AND 3 = take_bit 2 x"
  "(x :: 'a::len word) AND 7 = take_bit 3 x"
  "(x :: 'a::len word) AND 15 = take_bit 4 x"
  "(x :: 'a::len word) AND 63 = take_bit 6 x"
  "(x :: 'a::len word) AND 127 = take_bit 7 x"
  "(x :: 'a::len word) AND 255 = take_bit 8 x"
  by (simp_all add: take_bit_eq_mask mask_eq_exp_minus_1)

lemma unat_take_bit_word: "unat (take_bit n (x :: 'a::len word)) = unat x mod 2 ^ n"
  by (simp add: unsigned_take_bit_eq flip: take_bit_eq_mod)

lemma unat_drop_bit_word: "unat (drop_bit n (x :: 'a::len word)) = unat x div 2 ^ n"
  by (simp add: unat_drop_bit_eq flip: drop_bit_eq_div)

lemma unat_u8_less [simp, intro]: "unat (x :: u8) < 256" "unat (x :: u8) \<le> 255"
proof -
  have "unat x < 2 ^ LENGTH(8)" by (rule unsigned_less)
  then show "unat x < 256" "unat x \<le> 255" by simp_all
qed

lemma unat_u16_less [simp, intro]: "unat (x :: u16) < 65536" "unat (x :: u16) \<le> 65535"
proof -
  have "unat x < 2 ^ LENGTH(16)" by (rule unsigned_less)
  then show "unat x < 65536" "unat x \<le> 65535" by simp_all
qed

lemma unat_u32_less [simp, intro]: "unat (x :: u32) < 4294967296" "unat (x :: u32) \<le> 4294967295"
proof -
  have "unat x < 2 ^ LENGTH(32)" by (rule unsigned_less)
  then show "unat x < 4294967296" "unat x \<le> 4294967295" by simp_all
qed

lemma unat_ucast_u8_u16: "unat (ucast (x :: u16) :: u8) = unat x mod 256"
  by (simp add: unsigned_ucast_eq take_bit_eq_mod)

lemma unat_ucast_u16_u32 [simp]: "unat (ucast (x :: u16) :: u32) = unat x"
  by (simp add: unsigned_ucast_eq take_bit_nat_eq_self order.strict_trans1 [OF unat_u16_less(2)])

lemma unat_ucast_u8_u16_up [simp]: "unat (ucast (x :: u8) :: u16) = unat x"
  by (simp add: unsigned_ucast_eq take_bit_nat_eq_self order.strict_trans1 [OF unat_u8_less(2)])

lemma unat_ucast_u8_u32 [simp]: "unat (ucast (x :: u8) :: u32) = unat x"
  by (simp add: unsigned_ucast_eq take_bit_nat_eq_self order.strict_trans1 [OF unat_u8_less(2)])

lemma unat_of_nat_u16: "n < 65536 \<Longrightarrow> unat (of_nat n :: u16) = n"
  by (simp add: unsigned_of_nat take_bit_nat_eq_self)

lemma unat_of_nat_u8: "n < 256 \<Longrightarrow> unat (of_nat n :: u8) = n"
  by (simp add: unsigned_of_nat take_bit_nat_eq_self)

lemma unat_of_nat_u32: "n < 4294967296 \<Longrightarrow> unat (of_nat n :: u32) = n"
  by (simp add: unsigned_of_nat take_bit_nat_eq_self)

lemma unat_add_small: "unat a + unat b < 4294967296 \<Longrightarrow> unat (a + b :: u32) = unat a + unat b"
  by (simp add: unat_word_ariths)

lemma unat_diff_u32: "unat b \<le> unat a \<Longrightarrow> unat (a - b :: u32) = unat a - unat b"
  by (subst unat_sub) (simp_all add: word_le_nat_alt)

lemma unat_le16: "unat (le16 a b) = unat a + 256 * unat b"
proof -
  have "unat (le16 a b) = unat a OR push_bit 8 (unat b)"
  proof (rule bit_eqI)
    fix n
    show "bit (unat (le16 a b)) n = bit (unat a OR push_bit 8 (unat b)) n"
      unfolding le16_def
      by (auto simp: bit_simps dest: bit_imp_le_length)
  qed
  also have "\<dots> = unat a + push_bit 8 (unat b)"
  proof (rule disjunctive_add [symmetric])
    fix n show "\<not> bit (unat a) n \<or> \<not> bit (push_bit 8 (unat b)) n"
      by (auto simp: bit_simps dest: bit_imp_le_length)
  qed
  finally show ?thesis by (simp add: push_bit_eq_mult)
qed

subsection \<open>Strings in a buffer\<close>

text \<open>The bytes up to the next NUL.\<close>

definition cstr_at :: "bytes \<Rightarrow> nat \<Rightarrow> bytes option" where
  "cstr_at env p = (if 0 \<in> set (drop p env) then Some (takeWhile (\<lambda>c. c \<noteq> 0) (drop p env)) else None)"

lemma cstr_at_bound: "cstr_at env p = Some s \<Longrightarrow> p + length s < length env"
proof -
  assume "cstr_at env p = Some s"
  then have z: "0 \<in> set (drop p env)" and s: "s = takeWhile (\<lambda>c. c \<noteq> 0) (drop p env)"
    by (auto simp: cstr_at_def split: if_splits)
  have "takeWhile (\<lambda>c. c \<noteq> 0) (drop p env) \<noteq> drop p env" using z by (auto simp: takeWhile_eq_all_conv)
  then have "length s < length (drop p env)" unfolding s
    by (metis length_takeWhile_le le_neq_implies_less takeWhile_eq_take take_all_iff le_refl)
  then show ?thesis by simp
qed

lemma cstr_at_string: "0 \<notin> set s \<Longrightarrow> cstr_at (pre @ s @ 0 # r) (length pre) = Some s"
proof -
  assume "0 \<notin> set s"
  then have "\<forall>c \<in> set s. c \<noteq> 0" by auto
  then have "takeWhile (\<lambda>c. c \<noteq> 0) (s @ 0 # r) = s" by (simp add: takeWhile_append2)
  then show ?thesis by (simp add: cstr_at_def)
qed

end
