(* ===== verification/Decompress.thy ===== *)
theory Decompress
  imports Prelude
begin

section \<open>Page decompression (\<^verbatim>\<open>lx_loader.c\<close>: linearmove, decompressExePack2, decompressIterated)\<close>

text \<open>
  The two packed page formats the loader unpacks.  A pointer plus an offset is an index into the
  list of bytes the pointer leads to.  \<open>srclen\<close> and \<open>dstlen\<close> are the C arguments and are kept
  apart from the lengths of the buffers: that no access leaves the buffers is proved, not built in.
  \<open>sOf\<close> and \<open>dOf\<close> are \<^verbatim>\<open>sint32\<close> in C and natural numbers here; \<open>exepack2_step_bounds\<close> shows
  that they never exceed \<open>srclen\<close> and \<open>dstlen\<close>, which the loader keeps below \<open>2 ^ 16\<close> and
  \<open>4096\<close>, so the C arithmetic on them does not wrap.
\<close>

subsection \<open>The byte-by-byte copy\<close>

fun linearmove :: "bytes \<Rightarrow> nat \<Rightarrow> nat \<Rightarrow> nat \<Rightarrow> bytes option" where
  "linearmove buf d s 0 = Some buf"
| "linearmove buf d s (Suc len) = do {
     b \<leftarrow> rd8 buf s;
     buf' \<leftarrow> wr8 buf d b;
     linearmove buf' (d + 1) (s + 1) len }"

subsection \<open>One turn of the exepack2 loop\<close>

datatype xp_step = Return0 | Continue nat nat bytes

definition srcavail :: "nat \<Rightarrow> nat \<Rightarrow> nat \<Rightarrow> bool" where
  "srcavail srclen sOf n \<longleftrightarrow> sOf + n \<le> srclen"

definition dstavail :: "nat \<Rightarrow> nat \<Rightarrow> nat \<Rightarrow> bool" where
  "dstavail dstlen dOf n \<longleftrightarrow> dOf + n \<le> dstlen"

text \<open>Case 0: a run of one byte, the end mark of a chunk, or a literal.\<close>

definition xp_case0 :: "bytes \<Rightarrow> nat \<Rightarrow> nat \<Rightarrow> u8 \<Rightarrow> nat \<Rightarrow> nat \<Rightarrow> bytes \<Rightarrow> xp_step option" where
  "xp_case0 src srclen dstlen b1 sOf dOf dst =
    (if b1 = 0 then
       if srcavail srclen sOf 2 then do {
         n \<leftarrow> rd8 src (sOf + 1);
         if n = 0 then Some (Continue (sOf + 2) dOf dst)
         else if srcavail srclen sOf 3 \<and> dstavail dstlen dOf (unat n) then do {
           v \<leftarrow> rd8 src (sOf + 2);
           dst' \<leftarrow> wr_blk dst dOf (replicate (unat n) v);
           Some (Continue (sOf + 3) (dOf + unat n) dst') }
         else Some Return0 }
       else Some Return0
     else
       let n = unat (drop_bit 2 b1) in
       if srcavail srclen sOf (n + 1) \<and> dstavail dstlen dOf n then do {
         xs \<leftarrow> rd_blk src (sOf + 1) n;
         dst' \<leftarrow> wr_blk dst dOf xs;
         Some (Continue (sOf + (n + 1)) (dOf + n) dst') }
       else Some Return0)"

text \<open>
  Cases 1 and 3 share their tail: \<open>b1\<close> literal bytes from the source, then \<open>b2\<close> bytes from
  \<open>bOf\<close> bytes back in the output.
\<close>

definition xp_literal_match ::
  "bytes \<Rightarrow> nat \<Rightarrow> nat \<Rightarrow> nat \<Rightarrow> nat \<Rightarrow> nat \<Rightarrow> nat \<Rightarrow> nat \<Rightarrow> bytes \<Rightarrow> xp_step option" where
  "xp_literal_match src srclen dstlen b1 b2 bOf sOf dOf dst =
    (if srcavail srclen sOf b1 \<and> dstavail dstlen dOf (b1 + b2) \<and> int dOf + int b1 - int bOf \<ge> 0 then do {
       xs \<leftarrow> rd_blk src sOf b1;
       dst1 \<leftarrow> wr_blk dst dOf xs;
       dst2 \<leftarrow> linearmove dst1 (dOf + b1) (dOf + b1 - bOf) b2;
       Some (Continue (sOf + b1) (dOf + b1 + b2) dst2) }
     else Some Return0)"

definition xp_case1 :: "bytes \<Rightarrow> nat \<Rightarrow> nat \<Rightarrow> u8 \<Rightarrow> nat \<Rightarrow> nat \<Rightarrow> bytes \<Rightarrow> xp_step option" where
  "xp_case1 src srclen dstlen b1 sOf dOf dst =
    (if \<not> srcavail srclen sOf 2 then Some Return0
     else do {
       w \<leftarrow> rd16 src sOf;
       let bOf = unat (drop_bit 7 w);
       let b2 = unat ((drop_bit 4 b1 AND 7) + 3);
       let b1' = unat (drop_bit 2 b1 AND 3);
       xp_literal_match src srclen dstlen b1' b2 bOf (sOf + 2) dOf dst })"

definition xp_case2 :: "bytes \<Rightarrow> nat \<Rightarrow> nat \<Rightarrow> u8 \<Rightarrow> nat \<Rightarrow> nat \<Rightarrow> bytes \<Rightarrow> xp_step option" where
  "xp_case2 src srclen dstlen b1 sOf dOf dst =
    (if \<not> srcavail srclen sOf 2 then Some Return0
     else do {
       w \<leftarrow> rd16 src sOf;
       let bOf = unat (drop_bit 4 w);
       let n = unat ((drop_bit 2 b1 AND 3) + 3);
       if dstavail dstlen dOf n \<and> int dOf - int bOf \<ge> 0 then do {
         dst' \<leftarrow> linearmove dst dOf (dOf - bOf) n;
         Some (Continue (sOf + 2) (dOf + n) dst') }
       else Some Return0 })"

definition xp_case3 :: "bytes \<Rightarrow> nat \<Rightarrow> nat \<Rightarrow> nat \<Rightarrow> nat \<Rightarrow> bytes \<Rightarrow> xp_step option" where
  "xp_case3 src srclen dstlen sOf dOf dst =
    (if \<not> srcavail srclen sOf 3 then Some Return0
     else do {
       w \<leftarrow> rd16 src sOf;
       let b2 = unat (drop_bit 6 w AND 0x3F);
       c \<leftarrow> rd8 src sOf;
       let b1 = unat (drop_bit 2 c AND 0x0F);
       w' \<leftarrow> rd16 src (sOf + 1);
       let bOf = unat (drop_bit 4 w');
       xp_literal_match src srclen dstlen b1 b2 bOf (sOf + 3) dOf dst })"

definition exepack2_step :: "bytes \<Rightarrow> nat \<Rightarrow> nat \<Rightarrow> nat \<Rightarrow> nat \<Rightarrow> bytes \<Rightarrow> xp_step option" where
  "exepack2_step src srclen dstlen sOf dOf dst = do {
     b1 \<leftarrow> rd8 src sOf;
     if b1 AND 3 = 0 then xp_case0 src srclen dstlen b1 sOf dOf dst
     else if b1 AND 3 = 1 then xp_case1 src srclen dstlen b1 sOf dOf dst
     else if b1 AND 3 = 2 then xp_case2 src srclen dstlen b1 sOf dOf dst
     else xp_case3 src srclen dstlen sOf dOf dst }"

lemmas xp_defs = xp_case0_def xp_case1_def xp_case2_def xp_case3_def xp_literal_match_def
  srcavail_def dstavail_def Let_def

text \<open>Every turn that goes on has consumed at least one source byte and stays inside both lengths.\<close>

lemma xp_case0_bounds: "xp_case0 src srclen dstlen b1 sOf dOf dst = Some (Continue s' d' dst') \<Longrightarrow>
    sOf < s' \<and> s' \<le> srclen \<and> dOf \<le> d' \<and> (dOf \<le> dstlen \<longrightarrow> d' \<le> dstlen)"
  by (auto simp: xp_defs bind_eq_Some_conv split: if_splits)

lemma xp_literal_match_bounds:
  "xp_literal_match src srclen dstlen b1 b2 bOf sOf dOf dst = Some (Continue s' d' dst') \<Longrightarrow>
    sOf \<le> s' \<and> s' \<le> srclen \<and> dOf \<le> d' \<and> d' \<le> dstlen"
  by (auto simp: xp_defs bind_eq_Some_conv split: if_splits)

lemma exepack2_step_bounds:
  assumes "exepack2_step src srclen dstlen sOf dOf dst = Some (Continue s' d' dst')"
  shows "sOf < s' \<and> s' \<le> srclen \<and> dOf \<le> d' \<and> (dOf \<le> dstlen \<longrightarrow> d' \<le> dstlen)"
  using assms unfolding exepack2_step_def xp_case1_def xp_case2_def xp_case3_def Let_def
  by (auto simp: bind_eq_Some_conv srcavail_def dstavail_def
      dest!: xp_case0_bounds xp_literal_match_bounds split: if_splits)

subsection \<open>The loop\<close>

function exepack2_loop :: "bytes \<Rightarrow> nat \<Rightarrow> nat \<Rightarrow> nat \<Rightarrow> nat \<Rightarrow> bytes \<Rightarrow> (bool \<times> nat \<times> bytes) option" where
  "exepack2_loop src srclen dstlen sOf dOf dst =
    (if \<not> srcavail srclen sOf 1 then Some (True, dOf, dst)
     else case exepack2_step src srclen dstlen sOf dOf dst of
       None \<Rightarrow> None
     | Some Return0 \<Rightarrow> Some (False, dOf, dst)
     | Some (Continue s' d' dst') \<Rightarrow>
         if d' < dstlen then exepack2_loop src srclen dstlen s' d' dst'
         else Some (True, d', dst'))"
  by pat_completeness auto
termination
  by (relation "measure (\<lambda>(src, srclen, dstlen, sOf, dOf, dst). srclen - sOf)")
    (auto simp: srcavail_def dest!: exepack2_step_bounds)

declare exepack2_loop.simps [simp del]

definition decompressExePack2 :: "bytes \<Rightarrow> nat \<Rightarrow> bytes \<Rightarrow> nat \<Rightarrow> (u32 \<times> bytes) option" where
  "decompressExePack2 dst dstlen src srclen = do {
     (ok, dOf, dst') \<leftarrow> exepack2_loop src srclen dstlen 0 0 dst;
     if \<not> ok then Some (0, dst')
     else if dOf \<noteq> dstlen then do {
       dst'' \<leftarrow> wr_blk dst' dOf (replicate (nat ((int dstlen - int dOf) mod 2 ^ 32)) 0);
       Some (1, dst'') }
     else Some (1, dst') }"

subsection \<open>The copy within the output\<close>

fun lz_copy :: "bytes \<Rightarrow> nat \<Rightarrow> nat \<Rightarrow> bytes" where
  "lz_copy out off 0 = out"
| "lz_copy out off (Suc n) = lz_copy (out @ [out ! (length out - off)]) off n"

lemma length_lz_copy [simp]: "length (lz_copy out off n) = length out + n"
  by (induction n arbitrary: out) auto

lemma linearmove_total:
  "s + n \<le> length buf \<Longrightarrow> d + n \<le> length buf \<Longrightarrow>
    \<exists>buf'. linearmove buf d s n = Some buf' \<and> length buf' = length buf"
proof (induction n arbitrary: buf d s)
  case (Suc n)
  then show ?case using Suc.IH [of "Suc s" "buf[d := buf ! s]" "Suc d"]
    by (simp add: access_simps)
qed simp

lemma linearmove_frame:
  "linearmove buf d s n = Some buf' \<Longrightarrow>
    length buf' = length buf \<and> take d buf' = take d buf \<and> drop (d + n) buf' = drop (d + n) buf"
proof (induction n arbitrary: buf d s)
  case (Suc n)
  from Suc.prems obtain b where b: "s < length buf" "d < length buf" "b = buf ! s"
    and rest: "linearmove (buf[d := b]) (d + 1) (s + 1) n = Some buf'"
    by (auto simp: bind_eq_Some_conv access_iffs)
  from Suc.IH [OF rest] have IH: "length buf' = length buf"
    "take (d + 1) buf' = take (d + 1) (buf[d := b])" "drop (d + 1 + n) buf' = drop (d + 1 + n) (buf[d := b])"
    by auto
  have "take d buf' = take d (take (d + 1) buf')" by simp
  also have "\<dots> = take d (take (d + 1) (buf[d := b]))" by (simp only: IH(2))
  also have "\<dots> = take d buf" by simp
  finally show ?case using IH by simp
qed simp

lemma linearmove_lz_copy:
  "0 < off \<Longrightarrow> off \<le> d \<Longrightarrow> d + n \<le> length buf \<Longrightarrow>
    \<exists>buf'. linearmove buf d (d - off) n = Some buf' \<and> take (d + n) buf' = lz_copy (take d buf) off n"
proof (induction n arbitrary: buf d)
  case (Suc n)
  let ?b = "buf ! (d - off)"
  have tk: "take (d + 1) (buf[d := ?b]) = take d buf @ [take d buf ! (d - off)]"
    using Suc.prems by (simp add: take_Suc_conv_app_nth)
  obtain buf' where "linearmove (buf[d := ?b]) (d + 1) (d + 1 - off) n = Some buf'"
    "take (d + 1 + n) buf' = lz_copy (take (d + 1) (buf[d := ?b])) off n"
    using Suc.IH [of "d + 1" "buf[d := ?b]"] Suc.prems by auto
  then show ?case
    using Suc.prems by (simp add: access_simps tk [simplified] Suc_diff_le)
qed simp

subsection \<open>Memory safety\<close>

definition xp_safe :: "nat \<Rightarrow> bytes \<Rightarrow> xp_step option \<Rightarrow> bool" where
  "xp_safe dstlen dst r \<longleftrightarrow> (case r of
      None \<Rightarrow> False
    | Some Return0 \<Rightarrow> True
    | Some (Continue s' d' dst') \<Rightarrow> length dst' = length dst \<and> drop dstlen dst' = drop dstlen dst)"

lemma xp_safe_simps [simp]:
  "xp_safe dstlen dst (Some Return0)"
  "xp_safe dstlen dst (Some (Continue s' d' dst')) \<longleftrightarrow>
     length dst' = length dst \<and> drop dstlen dst' = drop dstlen dst"
  "\<not> xp_safe dstlen dst None"
  by (simp_all add: xp_safe_def)

lemma xp_safe_write [simp]:
  "d + length xs \<le> dstlen \<Longrightarrow> dstlen \<le> length dst \<Longrightarrow>
    xp_safe dstlen dst (wr_blk dst d xs \<bind> (\<lambda>dst'. Some (Continue s' d' dst')))"
  by (simp add: access_simps drop_blit_ge)

lemma linearmove_safe:
  assumes "s + n \<le> length buf" "d + n \<le> length buf" "d + n \<le> k"
  shows "\<exists>buf'. linearmove buf d s n = Some buf' \<and> length buf' = length buf \<and> drop k buf' = drop k buf"
proof -
  obtain buf' where b: "linearmove buf d s n = Some buf'"
    using linearmove_total [OF assms(1,2)] by blast
  have dk: "drop k xs = drop (k - (d + n)) (drop (d + n) xs)" for xs :: bytes
    using assms(3) by simp
  from linearmove_frame [OF b] have "drop k buf' = drop k buf" by (simp only: dk)
  with b linearmove_frame [OF b] show ?thesis by blast
qed

lemma xp_case0_safe:
  "sOf < srclen \<Longrightarrow> srclen \<le> length src \<Longrightarrow> dOf \<le> dstlen \<Longrightarrow> dstlen \<le> length dst \<Longrightarrow>
    xp_safe dstlen dst (xp_case0 src srclen dstlen b1 sOf dOf dst)"
  by (auto simp: xp_defs access_simps drop_blit_ge)

lemma xp_literal_match_safe:
  assumes "srclen \<le> length src" "dOf \<le> dstlen" "dstlen \<le> length dst"
  shows "xp_safe dstlen dst (xp_literal_match src srclen dstlen b1 b2 bOf sOf dOf dst)"
proof (cases "srcavail srclen sOf b1 \<and> dstavail dstlen dOf (b1 + b2) \<and> int dOf + int b1 - int bOf \<ge> 0")
  case True
  define dst1 where "dst1 = blit dst dOf (take b1 (drop sOf src))"
  from True assms have rd: "rd_blk src sOf b1 = Some (take b1 (drop sOf src))"
    by (simp add: srcavail_def access_simps)
  have len: "length (take b1 (drop sOf src)) = b1" using True assms by (auto simp: srcavail_def)
  from True assms len have wr: "wr_blk dst dOf (take b1 (drop sOf src)) = Some dst1"
    by (simp add: dstavail_def dst1_def access_simps)
  from True assms len have l1: "length dst1 = length dst" "drop dstlen dst1 = drop dstlen dst"
    by (simp_all add: dst1_def dstavail_def drop_blit_ge)
  have "dOf + b1 + b2 \<le> dstlen" using True by (simp add: dstavail_def)
  with assms l1 have "dOf + b1 - bOf + b2 \<le> length dst1" "dOf + b1 + b2 \<le> length dst1" "dOf + b1 + b2 \<le> dstlen"
    by simp_all
  from linearmove_safe [OF this] l1 obtain dst2 where "linearmove dst1 (dOf + b1) (dOf + b1 - bOf) b2 = Some dst2"
    "length dst2 = length dst" "drop dstlen dst2 = drop dstlen dst"
    by auto
  with True rd wr show ?thesis by (simp add: xp_literal_match_def)
qed (auto simp: xp_literal_match_def)

lemma xp_case2_safe:
  assumes "srclen \<le> length src" "dOf \<le> dstlen" "dstlen \<le> length dst"
  shows "xp_safe dstlen dst (xp_case2 src srclen dstlen b1 sOf dOf dst)"
proof (cases "srcavail srclen sOf 2 \<and> dstavail dstlen dOf (unat ((drop_bit 2 b1 AND 3) + 3)) \<and>
    unat (drop_bit 4 (le16 (src ! sOf) (src ! (sOf + 1)))) \<le> dOf")
  case True
  let ?n = "unat ((drop_bit 2 b1 AND 3) + 3)"
  let ?o = "unat (drop_bit 4 (le16 (src ! sOf) (src ! (sOf + 1))))"
  have "dOf + ?n \<le> dstlen" using True by (simp add: dstavail_def)
  with assms have "dOf - ?o + ?n \<le> length dst" "dOf + ?n \<le> length dst" "dOf + ?n \<le> dstlen" by simp_all
  from linearmove_safe [OF this] obtain dst2 where "linearmove dst dOf (dOf - ?o) ?n = Some dst2"
    "length dst2 = length dst" "drop dstlen dst2 = drop dstlen dst"
    by blast
  with True assms show ?thesis by (simp add: xp_case2_def srcavail_def access_simps Let_def)
next
  case False
  with assms show ?thesis by (auto simp: xp_case2_def srcavail_def access_simps Let_def)
qed

lemma exepack2_step_safe:
  assumes "sOf < srclen" "srclen \<le> length src" "dOf \<le> dstlen" "dstlen \<le> length dst"
  shows "xp_safe dstlen dst (exepack2_step src srclen dstlen sOf dOf dst)"
  using assms
  by (auto simp: exepack2_step_def xp_case0_safe xp_case2_safe xp_case1_def xp_case3_def
      xp_literal_match_safe access_simps srcavail_def Let_def)

lemma exepack2_loop_safe:
  assumes "srclen \<le> length src" "dOf \<le> dstlen" "dstlen \<le> length dst"
  shows "\<exists>ok d' dst'. exepack2_loop src srclen dstlen sOf dOf dst = Some (ok, d', dst') \<and>
    d' \<le> dstlen \<and> length dst' = length dst \<and> drop dstlen dst' = drop dstlen dst"
  using assms
proof (induction src srclen dstlen sOf dOf dst rule: exepack2_loop.induct)
  case (1 src srclen dstlen sOf dOf dst)
  show ?case
  proof (cases "srcavail srclen sOf 1")
    case True
    then have "sOf < srclen" by (simp add: srcavail_def)
    then have safe: "xp_safe dstlen dst (exepack2_step src srclen dstlen sOf dOf dst)"
      using "1.prems" by (rule exepack2_step_safe)
    show ?thesis
    proof (cases "exepack2_step src srclen dstlen sOf dOf dst")
      case None
      with safe show ?thesis by simp
    next
      case (Some r)
      show ?thesis
      proof (cases r)
        case Return0
        with Some True "1.prems" show ?thesis by (auto simp: exepack2_loop.simps [of src])
      next
        case (Continue s' d' dst')
        with Some safe have *: "length dst' = length dst" "drop dstlen dst' = drop dstlen dst" by auto
        from Some Continue exepack2_step_bounds "1.prems" have "d' \<le> dstlen" by blast
        with "1.IH" [of r s' d' dst'] True Some Continue "1.prems" * show ?thesis
          by (auto simp: exepack2_loop.simps [of src srclen dstlen sOf])
      qed
    qed
  next
    case False
    with "1.prems" show ?thesis by (auto simp: exepack2_loop.simps [of src])
  qed
qed

lemma decompressExePack2_safe:
  assumes "srclen \<le> length src" "dstlen \<le> length dst" "dstlen < 2 ^ 32"
  shows "\<exists>rc dst'. decompressExePack2 dst dstlen src srclen = Some (rc, dst') \<and> rc \<in> {0, 1} \<and>
    length dst' = length dst \<and> drop dstlen dst' = drop dstlen dst"
proof -
  obtain ok d' dst' where l: "exepack2_loop src srclen dstlen 0 0 dst = Some (ok, d', dst')"
    "d' \<le> dstlen" "length dst' = length dst" "drop dstlen dst' = drop dstlen dst"
    using exepack2_loop_safe [of srclen src 0 dstlen dst 0] assms by auto
  have "(int dstlen - int d') mod 2 ^ 32 = int (dstlen - d')"
    using l(2) assms(3) by (simp add: of_nat_diff)
  then have "nat ((int dstlen - int d') mod 2 ^ 32) = dstlen - d'" by simp
  with l assms show ?thesis
    by (simp add: decompressExePack2_def access_simps drop_blit_ge)
qed

text \<open>
  C1.  Unpacking a page never leaves the buffers, always returns, and writes nothing past the
  page: for any packed bytes at all, with \<open>srclen\<close> and \<open>dstlen\<close> no longer than the buffers,
  \<^verbatim>\<open>decompressExePack2\<close> returns 0 or 1, keeps the length of the destination and leaves every
  byte from \<open>dstlen\<close> on as it was.
\<close>

theorem decompressExePack2_memory_safe:
  assumes "srclen \<le> length src" "dstlen \<le> length dst" "dstlen < 2 ^ 32"
  shows "\<exists>rc dst'. decompressExePack2 dst dstlen src srclen = Some (rc, dst') \<and> rc \<in> {0, 1} \<and>
    length dst' = length dst \<and> drop dstlen dst' = drop dstlen dst"
  using assms by (rule decompressExePack2_safe)

theorem decompressExePack2_memory_safe_witness:
  "\<exists>rc dst'. decompressExePack2 (replicate 8 7) 4 [0, 3, 9] 3 = Some (rc, dst') \<and> rc \<in> {0, 1} \<and>
    length dst' = length (replicate 8 (7 :: u8)) \<and> drop 4 dst' = drop 4 (replicate 8 7)"
  by (rule decompressExePack2_memory_safe) simp_all

subsection \<open>What a packed page means\<close>

text \<open>
  The packed format as a list of instructions that extend the output: the abstract specification
  of the page format.  A match reads \<open>n\<close> bytes starting \<open>off\<close> bytes back, one at a time, so it
  may overlap what it writes.
\<close>

datatype xp_op =
    XEnd
  | XFill nat u8
  | XLits bytes
  | XShort nat nat
  | XMid bytes nat nat
  | XLong bytes nat nat

fun xp_exec :: "bytes \<Rightarrow> xp_op \<Rightarrow> bytes" where
  "xp_exec out XEnd = out"
| "xp_exec out (XFill n v) = out @ replicate n v"
| "xp_exec out (XLits bs) = out @ bs"
| "xp_exec out (XShort off n) = lz_copy out off n"
| "xp_exec out (XMid lits off n) = lz_copy (out @ lits) off n"
| "xp_exec out (XLong lits off n) = lz_copy (out @ lits) off n"

fun xp_oplen :: "xp_op \<Rightarrow> nat" where
  "xp_oplen XEnd = 0"
| "xp_oplen (XFill n v) = n"
| "xp_oplen (XLits bs) = length bs"
| "xp_oplen (XShort off n) = n"
| "xp_oplen (XMid lits off n) = length lits + n"
| "xp_oplen (XLong lits off n) = length lits + n"

text \<open>The instructions the format can hold after \<open>d\<close> bytes of output.\<close>

fun xp_ok :: "nat \<Rightarrow> xp_op \<Rightarrow> bool" where
  "xp_ok d XEnd = True"
| "xp_ok d (XFill n v) = (0 < n \<and> n < 256)"
| "xp_ok d (XLits bs) = (0 < length bs \<and> length bs < 64)"
| "xp_ok d (XShort off n) = (0 < off \<and> off < 4096 \<and> off \<le> d \<and> 3 \<le> n \<and> n < 7)"
| "xp_ok d (XMid lits off n) = (length lits < 4 \<and> 0 < off \<and> off < 512 \<and> off \<le> d + length lits \<and> 3 \<le> n \<and> n < 11)"
| "xp_ok d (XLong lits off n) = (length lits < 16 \<and> 0 < off \<and> off < 4096 \<and> off \<le> d + length lits \<and> n < 64)"

fun xp_encode :: "xp_op \<Rightarrow> bytes" where
  "xp_encode XEnd = [0, 0]"
| "xp_encode (XFill n v) = [0, of_nat n, v]"
| "xp_encode (XLits bs) = of_nat (length bs * 4) # bs"
| "xp_encode (XShort off n) = bytes16 (of_nat (off * 16 + (n - 3) * 4 + 2))"
| "xp_encode (XMid lits off n) = bytes16 (of_nat (off * 128 + (n - 3) * 16 + length lits * 4 + 1)) @ lits"
| "xp_encode (XLong lits off n) =
     [of_nat (n mod 4 * 64 + length lits * 4 + 3), of_nat (off mod 16 * 16 + n div 4), of_nat (off div 16)] @ lits"

fun xp_run :: "bytes \<Rightarrow> xp_op list \<Rightarrow> bytes" where
  "xp_run out [] = out"
| "xp_run out (x # xs) = xp_run (xp_exec out x) xs"

fun xp_ok_run :: "nat \<Rightarrow> xp_op list \<Rightarrow> bool" where
  "xp_ok_run d [] = True"
| "xp_ok_run d (x # xs) = (xp_ok d x \<and> xp_ok_run (d + xp_oplen x) xs)"

lemma length_xp_exec [simp]: "length (xp_exec out x) = length out + xp_oplen x"
  by (cases x) auto

lemma length_xp_run: "length (xp_run out xs) = length out + sum_list (map xp_oplen xs)"
  by (induction xs arbitrary: out) auto

lemma linearmove_after:
  assumes "0 < off" "off \<le> d" "d + n \<le> k" "k \<le> length buf" "take d buf = out" "length out = d"
  shows "\<exists>buf'. linearmove buf d (d - off) n = Some buf' \<and> take (d + n) buf' = lz_copy out off n"
  using linearmove_lz_copy [of off d n buf] assms by auto

lemma take_blit_out: "take d dst = out \<Longrightarrow> d + length xs \<le> length dst \<Longrightarrow>
    take (d + length xs) (blit dst d xs) = out @ xs"
  by (simp add: take_blit_add)

definition xp_advances :: "nat \<Rightarrow> bytes \<Rightarrow> nat \<Rightarrow> nat \<Rightarrow> nat \<Rightarrow> xp_op \<Rightarrow> xp_step option \<Rightarrow> bool" where
  "xp_advances dstlen dst sOf slen dOf x r \<longleftrightarrow>
     (\<exists>dst'. r = Some (Continue (sOf + slen) (dOf + xp_oplen x) dst') \<and>
        take (dOf + xp_oplen x) dst' = xp_exec (take dOf dst) x)"

lemma xp_literal_match_advances:
  assumes "sOf + length lits \<le> srclen" "srclen \<le> length src" "take (length lits) (drop sOf src) = lits"
    "dOf + length lits + n \<le> dstlen" "dstlen \<le> length dst" "0 < off" "off \<le> dOf + length lits"
  shows "\<exists>dst'. xp_literal_match src srclen dstlen (length lits) n off sOf dOf dst =
       Some (Continue (sOf + length lits) (dOf + length lits + n) dst') \<and>
     take (dOf + length lits + n) dst' = lz_copy (take dOf dst @ lits) off n"
proof -
  let ?d1 = "blit dst dOf lits"
  have l1: "length ?d1 = length dst" using assms by simp
  have t1: "take (dOf + length lits) ?d1 = take dOf dst @ lits"
    using assms by (simp add: take_blit_add)
  obtain dst2 where "linearmove ?d1 (dOf + length lits) (dOf + length lits - off) n = Some dst2"
    "take (dOf + length lits + n) dst2 = lz_copy (take dOf dst @ lits) off n"
    using linearmove_lz_copy [of off "dOf + length lits" n ?d1] assms l1 t1 by auto
  then show ?thesis
    using assms by (auto simp: xp_literal_match_def srcavail_def dstavail_def access_simps)
qed

text \<open>Each encoded instruction is one turn of the loop with that instruction's effect.\<close>


lemma xp_word_le16:
  "N < 65536 \<Longrightarrow> le16 (ucast (of_nat N :: u16)) (ucast (drop_bit 8 (of_nat N :: u16))) = of_nat N"
  by (simp add: le16_bytes16)

lemma unat_low_byte: "N < 65536 \<Longrightarrow> unat (ucast (of_nat N :: u16) :: u8) = N mod 256"
  by (simp add: unat_ucast_u8_u16 unat_of_nat_u16)

lemma and3_eq: "(b :: u8) AND 3 = k \<longleftrightarrow> unat b mod 4 = unat k"
  by (simp add: and_mask_nums word_unat_eq_iff unat_take_bit_word)

lemma unat_field3: "unat ((drop_bit k (b :: u8) AND 7) + 3) = unat b div 2 ^ k mod 8 + 3"
  by (simp add: and_mask_nums unat_word_ariths unat_take_bit_word unat_drop_bit_word)

lemma unat_field2: "unat ((drop_bit k (b :: u8) AND 3) + 3) = unat b div 2 ^ k mod 4 + 3"
  by (simp add: and_mask_nums unat_word_ariths unat_take_bit_word unat_drop_bit_word)

lemma byte_fields:
  "N mod 256 mod 4 = N mod (4 :: nat)"
  "N mod 256 div 4 mod 4 = N div 4 mod (4 :: nat)"
  "N mod 256 div 16 mod 8 = N div 16 mod (8 :: nat)"
proof -
  show "N mod 256 mod 4 = N mod 4" by (simp add: mod_mod_cancel)
  have "N mod 256 div 4 = N div 4 mod 64" using mod_mult2_eq [of N 4 64] by simp
  then show "N mod 256 div 4 mod 4 = N div 4 mod 4" by (simp add: mod_mod_cancel)
  have "N mod 256 div 16 = N div 16 mod 16" using mod_mult2_eq [of N 16 16] by simp
  then show "N mod 256 div 16 mod 8 = N div 16 mod 8" by (simp add: mod_mod_cancel)
qed

lemma xp_step_short:
  assumes "xp_ok (length (take dOf dst)) (XShort off n)" "dOf + n \<le> dstlen" "dstlen \<le> length dst"
    "src = pre @ xp_encode (XShort off n) @ suf"
  shows "xp_advances dstlen dst (length pre) 2 dOf (XShort off n)
    (exepack2_step src (length src) dstlen (length pre) dOf dst)"
proof -
  define N where "N = off * 16 + (n - 3) * 4 + 2"
  obtain m where m: "n = m + 3" "m < 4" using assms(1) by (auto simp: le_iff_add algebra_simps)
  have N: "N < 65536" "N div 16 = off" "N mod 256 mod 4 = 2" "N mod 256 div 4 mod 4 + 3 = n"
  proof -
    have b: "off < 4096" using assms(1) by auto
    have d: "N div 16 = off" "N div 4 = m + off * 4"
      by (rule div_nat_eqI; use m b in \<open>simp add: N_def\<close>)+
    have "N = 2 + (m + off * 4) * 4" using m by (simp add: N_def)
    then have "N mod 4 = 2 mod 4" by (simp only: mod_mult_self1)
    with d m b show "N < 65536" "N div 16 = off" "N mod 256 mod 4 = 2" "N mod 256 div 4 mod 4 + 3 = n"
      unfolding byte_fields d mod_mult_self1 by (simp_all add: N_def)
  qed
  have src: "src = pre @ bytes16 (of_nat N) @ suf" using assms(4) by (simp add: N_def)
  have nth: "src ! length pre = ucast (of_nat N :: u16)"
    "src ! Suc (length pre) = ucast (drop_bit 8 (of_nat N :: u16))" "length pre + 2 \<le> length src"
    by (simp_all add: src bytes16_def nth_append)
  obtain dst' where d: "linearmove dst dOf (dOf - off) n = Some dst'"
    "take (dOf + n) dst' = lz_copy (take dOf dst) off n"
    using linearmove_lz_copy [of off dOf n dst] assms by auto
  then show ?thesis
    using assms nth N
    by (auto simp: xp_advances_def exepack2_step_def xp_case2_def access_simps srcavail_def dstavail_def
        Let_def and3_eq unat_low_byte xp_word_le16 unat_drop_bit_word unat_of_nat_u16 unat_field2)
qed

lemma xp_step_mid:
  assumes "xp_ok (length (take dOf dst)) (XMid lits off n)" "dOf + length lits + n \<le> dstlen"
    "dstlen \<le> length dst" "src = pre @ xp_encode (XMid lits off n) @ suf"
  shows "xp_advances dstlen dst (length pre) (2 + length lits) dOf (XMid lits off n)
    (exepack2_step src (length src) dstlen (length pre) dOf dst)"
proof -
  define N where "N = off * 128 + (n - 3) * 16 + length lits * 4 + 1"
  obtain m where m: "n = m + 3" "m < 8" using assms(1) by (auto simp: le_iff_add algebra_simps)
  have N: "N < 65536" "N div 128 = off" "N mod 256 mod 4 = 1" "N mod 256 div 16 mod 8 + 3 = n"
    "N mod 256 div 4 mod 4 = length lits"
  proof -
    have b: "off < 512" "length lits < 4" using assms(1) by auto
    have d: "N div 128 = off" "N div 16 = m + off * 8" "N div 4 = length lits + (m + off * 8) * 4"
      by (rule div_nat_eqI; use m b in \<open>simp add: N_def\<close>)+
    have "N = 1 + (length lits + (m + off * 8) * 4) * 4" using m by (simp add: N_def)
    then have "N mod 4 = 1 mod 4" by (simp only: mod_mult_self1)
    with d m b show "N < 65536" "N div 128 = off" "N mod 256 mod 4 = 1" "N mod 256 div 16 mod 8 + 3 = n"
      "N mod 256 div 4 mod 4 = length lits"
      unfolding byte_fields d mod_mult_self1 by (simp_all add: N_def)
  qed
  have src: "src = pre @ bytes16 (of_nat N) @ lits @ suf" using assms(4) by (simp add: N_def)
  have nth: "src ! length pre = ucast (of_nat N :: u16)"
    "src ! Suc (length pre) = ucast (drop_bit 8 (of_nat N :: u16))" "length pre + 2 + length lits \<le> length src"
    "take (length lits) (drop (length pre + 2) src) = lits"
    by (simp_all add: src bytes16_def nth_append)
  have f2: "unat (drop_bit 2 (b :: u8) AND 3) = unat b div 4 mod 4" for b
    by (simp add: and_mask_nums unat_take_bit_word unat_drop_bit_word)
  have "\<exists>dst'. xp_literal_match src (length src) dstlen (length lits) n off (length pre + 2) dOf dst =
       Some (Continue (length pre + 2 + length lits) (dOf + length lits + n) dst') \<and>
     take (dOf + length lits + n) dst' = lz_copy (take dOf dst @ lits) off n"
    by (rule xp_literal_match_advances) (use assms nth in auto)
  then show ?thesis
    using assms nth N
    by (auto simp: xp_advances_def exepack2_step_def xp_case1_def access_simps srcavail_def
        Let_def and3_eq unat_low_byte xp_word_le16 unat_drop_bit_word unat_of_nat_u16 unat_field3 f2 add.assoc)
qed

lemma xp_step_long:
  assumes "xp_ok (length (take dOf dst)) (XLong lits off n)" "dOf + length lits + n \<le> dstlen"
    "dstlen \<le> length dst" "src = pre @ xp_encode (XLong lits off n) @ suf"
  shows "xp_advances dstlen dst (length pre) (3 + length lits) dOf (XLong lits off n)
    (exepack2_step src (length src) dstlen (length pre) dOf dst)"
proof -
  let ?A = "n mod 4 * 64 + length lits * 4 + 3" and ?B = "off mod 16 * 16 + n div 4" and ?C = "off div 16"
  have small: "length lits < 16" "off < 4096" "n < 64" using assms(1) by auto
  obtain n0 n1 where n: "n = n0 + n1 * 4" "n0 < 4" "n1 < 16" "n mod 4 = n0" "n div 4 = n1"
    using that [of "n mod 4" "n div 4"] small by (simp add: less_mult_imp_div_less)
  obtain o0 o1 where off: "off = o0 + o1 * 16" "o0 < 16" "o1 < 256" "off mod 16 = o0" "off div 16 = o1"
    using that [of "off mod 16" "off div 16"] small by (simp add: less_mult_imp_div_less)
  have bytes: "?A < 256" "?B < 256" "?C < 256" using small n off by simp_all
  have nth: "src ! length pre = of_nat ?A" "src ! Suc (length pre) = of_nat ?B"
    "src ! Suc (Suc (length pre)) = of_nat ?C" "length pre + 3 + length lits \<le> length src"
    "take (length lits) (drop (length pre + 3) src) = lits"
    using assms(4) by (simp_all add: nth_append)
  have u: "unat (of_nat ?A :: u8) = ?A" "unat (of_nat ?B :: u8) = ?B" "unat (of_nat ?C :: u8) = ?C"
    using bytes by (simp_all only: unat_of_nat_u8)
  have "?A mod 4 = 3" unfolding n(4) by presburger
  then have c: "(of_nat ?A :: u8) AND 3 \<noteq> 0" "(of_nat ?A :: u8) AND 3 \<noteq> 1" "(of_nat ?A :: u8) AND 3 \<noteq> 2"
    unfolding and3_eq u by simp_all
  have "(?A + 256 * ?B) div 64 = n + o0 * 64"
    unfolding n(4,5) off(4,5) by (rule div_nat_eqI) (use small n off in simp_all)
  then have f2: "unat (drop_bit 6 (le16 (of_nat ?A) (of_nat ?B)) AND 63) = n"
    unfolding and_mask_nums unat_take_bit_word unat_drop_bit_word unat_le16 u using small by simp
  have "?A div 4 = length lits + n0 * 16"
    unfolding n(4,5) by (rule div_nat_eqI) (use small n in simp_all)
  then have f3: "unat (drop_bit 2 (of_nat ?A :: u8) AND 15) = length lits"
    unfolding and_mask_nums unat_take_bit_word unat_drop_bit_word u using small by simp
  have "(?B + 256 * ?C) div 16 = off"
    unfolding n(4,5) off(4,5) by (rule div_nat_eqI) (use small n off in simp_all)
  then have f4: "unat (drop_bit 4 (le16 (of_nat ?B) (of_nat ?C))) = off"
    unfolding unat_drop_bit_word unat_le16 u by simp
  have m: "\<exists>dst'. xp_literal_match src (length src) dstlen (length lits) n off (length pre + 3) dOf dst =
       Some (Continue (length pre + 3 + length lits) (dOf + length lits + n) dst') \<and>
     take (dOf + length lits + n) dst' = lz_copy (take dOf dst @ lits) off n"
    by (rule xp_literal_match_advances) (use assms nth in auto)
  have "exepack2_step src (length src) dstlen (length pre) dOf dst =
      xp_literal_match src (length src) dstlen (length lits) n off (length pre + 3) dOf dst"
    using nth c f2 f3 f4 by (simp add: exepack2_step_def xp_case3_def access_simps srcavail_def Let_def)
  with m show ?thesis by (auto simp: xp_advances_def add.assoc)
qed

lemma xp_step_plain:
  assumes "xp_ok (length (take dOf dst)) x" "dOf + xp_oplen x \<le> dstlen" "dstlen \<le> length dst"
    "src = pre @ xp_encode x @ suf" "x = XEnd \<or> x = XFill n v \<or> x = XLits bs"
  shows "xp_advances dstlen dst (length pre) (length (xp_encode x)) dOf x
    (exepack2_step src (length src) dstlen (length pre) dOf dst)"
  using assms(5)
proof (elim disjE)
  assume x: "x = XEnd"
  with assms show ?thesis
    by (simp add: xp_advances_def exepack2_step_def xp_case0_def access_simps srcavail_def nth_append)
next
  assume x: "x = XFill n v"
  have n: "(of_nat n :: u8) \<noteq> 0" using assms(1) x
    by (auto simp: word_unat_eq_iff unat_of_nat_u8)
  with x assms show ?thesis
    using take_blit_out [of dOf dst "take dOf dst" "replicate n v"]
    by (simp add: xp_advances_def exepack2_step_def xp_case0_def access_simps srcavail_def dstavail_def
        nth_append unat_of_nat_u8)
next
  assume x: "x = XLits bs"
  let ?b = "of_nat (length bs * 4) :: u8"
  have len: "0 < length bs" "length bs < 64" using assms(1) x by auto
  then have b: "unat ?b = length bs * 4" by (subst unat_of_nat_u8) auto
  then have "?b \<noteq> 0" "?b AND 3 = 0" "unat (drop_bit 2 ?b) = length bs"
    unfolding and3_eq unat_drop_bit_word using len by (simp_all add: word_unat_eq_iff del: of_nat_mult)
  with x assms show ?thesis
    using take_blit_out [of dOf dst "take dOf dst" bs]
    by (simp add: xp_advances_def exepack2_step_def xp_case0_def access_simps srcavail_def dstavail_def
        nth_append Let_def del: of_nat_mult)
qed

lemma xp_step_encoded:
  assumes "xp_ok (length (take dOf dst)) x" "dOf + xp_oplen x \<le> dstlen" "dstlen \<le> length dst"
    "src = pre @ xp_encode x @ suf"
  shows "xp_advances dstlen dst (length pre) (length (xp_encode x)) dOf x
    (exepack2_step src (length src) dstlen (length pre) dOf dst)"
proof (cases x)
  case (XShort off n)
  have "length (xp_encode x) = 2" by (simp add: XShort)
  with xp_step_short [of dOf dst off n dstlen src pre suf] assms show ?thesis
    by (simp only: XShort xp_oplen.simps)
next
  case (XMid lits off n)
  have "length (xp_encode x) = 2 + length lits" by (simp add: XMid)
  with xp_step_mid [of dOf dst lits off n dstlen src pre suf] assms show ?thesis
    by (simp only: XMid xp_oplen.simps add.assoc)
next
  case (XLong lits off n)
  have "length (xp_encode x) = 3 + length lits" by (simp add: XLong)
  with xp_step_long [of dOf dst lits off n dstlen src pre suf] assms show ?thesis
    by (simp only: XLong xp_oplen.simps add.assoc)
next
  case XEnd show ?thesis by (rule xp_step_plain [OF assms, of 0 0 "[]"]) (simp add: XEnd)
next
  case (XFill n v) show ?thesis by (rule xp_step_plain [OF assms, of n v "[]"]) (simp add: XFill)
next
  case (XLits bs) show ?thesis by (rule xp_step_plain [OF assms, of 0 0 bs]) (simp add: XLits)
qed

lemma xp_run_full:
  "sum_list (map xp_oplen xs) = 0 \<Longrightarrow> xp_run out xs = out"
  by (induction xs arbitrary: out) (auto elim: xp_oplen.elims)

lemma exepack2_loop_encoded:
  assumes "xp_ok_run dOf xs" "dOf + sum_list (map xp_oplen xs) \<le> dstlen" "dstlen \<le> length dst"
    "src = pre @ concat (map xp_encode xs)"
  shows "\<exists>d' dst'. exepack2_loop src (length src) dstlen (length pre) dOf dst = Some (True, d', dst') \<and>
    d' = dOf + sum_list (map xp_oplen xs) \<and> take d' dst' = xp_run (take dOf dst) xs"
  using assms
proof (induction xs arbitrary: pre dOf dst)
  case Nil
  then have "src = pre" by simp
  with Nil show ?case by (simp add: exepack2_loop.simps [of pre] srcavail_def)
next
  case (Cons x xs)
  let ?pre = "pre @ xp_encode x" and ?d = "dOf + xp_oplen x"
  have src: "src = pre @ xp_encode x @ concat (map xp_encode xs)" using Cons.prems by simp
  have d: "dOf \<le> length dst" using Cons.prems by simp
  have enc: "0 < length (xp_encode x)" by (cases x) (simp_all add: bytes16_def)
  have "xp_advances dstlen dst (length pre) (length (xp_encode x)) dOf x
      (exepack2_step src (length src) dstlen (length pre) dOf dst)"
    using Cons.prems d by (intro xp_step_encoded [OF _ _ _ src]) (simp_all add: min_absorb2)
  then obtain dst1 where st: "exepack2_step src (length src) dstlen (length pre) dOf dst =
      Some (Continue (length ?pre) ?d dst1)" and tk: "take ?d dst1 = xp_exec (take dOf dst) x"
    by (auto simp: xp_advances_def)
  have l0: "length pre < length src" using enc by (auto simp: src)
  then have av: "srcavail (length src) (length pre) 1" by (simp add: srcavail_def)
  have "dOf \<le> dstlen" using Cons.prems by simp
  from exepack2_step_safe [OF l0 order_refl this Cons.prems(3)] st
  have l1: "length dst1 = length dst" by simp
  show ?case
  proof (cases "?d < dstlen")
    case True
    have step: "exepack2_loop src (length src) dstlen (length pre) dOf dst =
        exepack2_loop src (length src) dstlen (length ?pre) ?d dst1"
      using st av True by (subst exepack2_loop.simps) simp
    obtain d' dst' where "exepack2_loop src (length src) dstlen (length ?pre) ?d dst1 = Some (True, d', dst')"
      "d' = ?d + sum_list (map xp_oplen xs)" "take d' dst' = xp_run (take ?d dst1) xs"
      using Cons.IH [of ?d dst1 ?pre] Cons.prems l1 by auto
    then show ?thesis by (simp add: step tk)
  next
    case False
    then have z: "sum_list (map xp_oplen xs) = 0"
      using Cons.prems(2) by (simp del: sum_list_eq_0_iff)
    have "exepack2_loop src (length src) dstlen (length pre) dOf dst = Some (True, ?d, dst1)"
      using st av False by (subst exepack2_loop.simps) simp
    with z show ?thesis by (simp add: tk xp_run_full)
  qed
qed

text \<open>
  C2.  The unpacker implements the format: a page packed as any sequence of instructions the
  format allows, of at most \<open>dstlen\<close> bytes of output, unpacks to exactly the bytes the
  instructions denote, followed by zeroes up to \<open>dstlen\<close>, and the bytes behind the page are kept.
\<close>

theorem decompressExePack2_roundtrip:
  assumes "xp_ok_run 0 xs" "length (xp_run [] xs) \<le> dstlen" "dstlen \<le> length dst" "dstlen < 2 ^ 32"
  shows "decompressExePack2 dst dstlen (concat (map xp_encode xs)) (length (concat (map xp_encode xs))) =
    Some (1, xp_run [] xs @ replicate (dstlen - length (xp_run [] xs)) 0 @ drop dstlen dst)"
proof -
  let ?src = "concat (map xp_encode xs)" and ?n = "length (xp_run [] xs)"
  have n: "?n = sum_list (map xp_oplen xs)" by (simp add: length_xp_run)
  obtain d' dst' where l: "exepack2_loop ?src (length ?src) dstlen 0 0 dst = Some (True, d', dst')"
    "d' = ?n" "take d' dst' = xp_run [] xs"
    using exepack2_loop_encoded [of 0 xs dstlen dst ?src "[]"] assms n by auto
  obtain ok d2 dst2 where "exepack2_loop ?src (length ?src) dstlen 0 0 dst = Some (ok, d2, dst2)"
    "d2 \<le> dstlen" "length dst2 = length dst" "drop dstlen dst2 = drop dstlen dst"
    using exepack2_loop_safe [of "length ?src" ?src 0 dstlen dst 0] assms by auto
  with l have s: "?n \<le> dstlen" "length dst' = length dst" "drop dstlen dst' = drop dstlen dst" by auto
  have w: "nat ((int dstlen - int ?n) mod 2 ^ 32) = dstlen - ?n"
    using s(1) assms(4) by (simp add: of_nat_diff)
  show ?thesis
  proof (cases "?n = dstlen")
    case True
    with l s have "dst' = xp_run [] xs @ drop dstlen dst" by (metis append_take_drop_id)
    with True l show ?thesis by (simp add: decompressExePack2_def)
  next
    case False
    with l s w assms show ?thesis
      by (simp add: decompressExePack2_def access_simps blit_def)
  qed
qed

theorem decompressExePack2_roundtrip_witness:
  "decompressExePack2 (replicate 12 7) 10 (concat (map xp_encode [XLits [1, 2], XShort 1 3, XEnd, XFill 2 9]))
     (length (concat (map xp_encode [XLits [1, 2], XShort 1 3, XEnd, XFill 2 9]))) =
   Some (1, [1, 2, 2, 2, 2, 9, 9, 0, 0, 0, 7, 7])"
proof -
  let ?xs = "[XLits [1, 2], XShort 1 3, XEnd, XFill 2 9]"
  have ok: "xp_ok_run 0 ?xs" "length (xp_run [] ?xs) \<le> 10" by code_simp+
  have out: "xp_run [] ?xs @ replicate (10 - length (xp_run [] ?xs)) 0 @ drop 10 (replicate 12 7) =
      [1, 2, 2, 2, 2, 9, 9, 0, 0, 0, 7, 7]" by code_simp
  from decompressExePack2_roundtrip [OF ok, of "replicate 12 7"] show ?thesis
    unfolding out by simp
qed

subsection \<open>Iterated pages\<close>

fun iter_copy :: "nat \<Rightarrow> bytes \<Rightarrow> nat \<Rightarrow> bytes \<Rightarrow> nat \<Rightarrow> nat \<Rightarrow> bytes option" where
  "iter_copy 0 dst d src s len = Some dst"
| "iter_copy (Suc i) dst d src s len = do {
     xs \<leftarrow> rd_blk src s len;
     dst' \<leftarrow> wr_blk dst d xs;
     iter_copy i dst' (d + len) src s len }"

text \<open>
  \<open>iterations * len\<close> is computed in C as an \<^verbatim>\<open>int\<close> and compared as a \<^verbatim>\<open>uint32\<close>: the low 32
  bits of the product of two 16-bit values, which is the product itself.
\<close>

function iterated_loop :: "bytes \<Rightarrow> nat \<Rightarrow> nat \<Rightarrow> bytes \<Rightarrow> nat \<Rightarrow> nat \<Rightarrow> (u32 \<times> nat \<times> nat \<times> bytes) option" where
  "iterated_loop dst d dstlen src s srclen =
    (if srclen = 0 then Some (1, d, dstlen, dst)
     else if srclen < 4 then Some (0, d, dstlen, dst)
     else case rd16 src s of None \<Rightarrow> None | Some iterations \<Rightarrow>
       (case rd16 src (s + 2) of None \<Rightarrow> None | Some len \<Rightarrow>
         if dstlen < unat (ucast iterations * ucast len :: u32) then Some (0, d, dstlen, dst)
         else if srclen - 4 < unat len then Some (0, d, dstlen, dst)
         else case iter_copy (unat iterations) dst d src (s + 4) (unat len) of None \<Rightarrow> None | Some dst' \<Rightarrow>
           iterated_loop dst' (d + unat iterations * unat len) (dstlen - unat iterations * unat len)
             src (s + 4 + unat len) (srclen - 4 - unat len)))"
  by pat_completeness auto
termination by (relation "measure (\<lambda>(dst, d, dstlen, src, s, srclen). srclen)") auto

declare iterated_loop.simps [simp del]

definition decompressIterated :: "bytes \<Rightarrow> nat \<Rightarrow> bytes \<Rightarrow> nat \<Rightarrow> (u32 \<times> bytes) option" where
  "decompressIterated dst dstlen src srclen = do {
     (rc, d, dstlen', dst') \<leftarrow> iterated_loop dst 0 dstlen src 0 srclen;
     if rc = 0 then Some (0, dst')
     else if 0 < dstlen' then do {
       dst'' \<leftarrow> wr_blk dst' d (replicate dstlen' 0);
       Some (1, dst'') }
     else Some (1, dst') }"

lemma unat_product: "unat (ucast (a :: u16) * ucast (b :: u16) :: u32) = unat a * unat b"
proof -
  have "unat a * unat b \<le> 65535 * 65535" by (rule mult_le_mono) simp_all
  then have "unat a * unat b < 2 ^ 32" by simp
  then show ?thesis by (simp add: unat_word_ariths)
qed

lemma iter_copy_eq:
  "s + len \<le> length src \<Longrightarrow> d + n * len \<le> length dst \<Longrightarrow>
    iter_copy n dst d src s len = Some (blit dst d (concat (replicate n (take len (drop s src)))))"
proof (induction n arbitrary: dst d)
  case (Suc n)
  let ?xs = "take len (drop s src)"
  have l: "length ?xs = len" using Suc.prems by simp
  have lc: "length (concat (replicate k ?xs)) = k * len" for k
    using l by (induction k) auto
  have w: "wr_blk dst d ?xs = Some (blit dst d ?xs)" "length (blit dst d ?xs) = length dst"
    using Suc.prems l by (simp_all add: access_simps)
  have IH: "iter_copy n (blit dst d ?xs) (d + len) src s len =
      Some (blit (blit dst d ?xs) (d + len) (concat (replicate n ?xs)))"
    by (rule Suc.IH) (use Suc.prems w in simp_all)
  have "blit (blit dst d ?xs) (d + len) (concat (replicate n ?xs)) =
      blit dst d (concat (replicate (Suc n) ?xs))"
    using Suc.prems l lc [of n] blit_blit [of d ?xs "concat (replicate n ?xs)" dst] by simp
  with IH w Suc.prems show ?case by (simp add: access_simps)
qed simp

lemma concat_replicate_length: "length (concat (replicate n xs)) = n * length xs"
  by (induction n) auto

lemma iterated_loop_safe:
  assumes "s + srclen \<le> length src" "d + dstlen = k" "k \<le> length dst"
  shows "\<exists>rc d' n' dst'. iterated_loop dst d dstlen src s srclen = Some (rc, d', n', dst') \<and>
    rc \<in> {0, 1} \<and> d' + n' = k \<and> length dst' = length dst \<and> drop k dst' = drop k dst"
  using assms
proof (induction dst d dstlen src s srclen rule: iterated_loop.induct)
  case (1 dst d dstlen src s srclen)
  show ?case
  proof (cases "srclen < 4")
    case True
    with "1.prems" show ?thesis by (auto simp: iterated_loop.simps [of dst])
  next
    case False
    define it where "it = le16 (src ! s) (src ! (s + 1))"
    define len where "len = le16 (src ! (s + 2)) (src ! (s + 2 + 1))"
    have rd: "rd16 src s = Some it" "rd16 src (s + 2) = Some len"
      using False "1.prems" by (simp_all add: it_def len_def access_simps)
    show ?thesis
    proof (cases "dstlen < unat it * unat len \<or> srclen - 4 < unat len")
      case True
      with False "1.prems" rd show ?thesis
        by (auto simp: iterated_loop.simps [of dst] unat_product)
    next
      case ok: False
      let ?xs = "concat (replicate (unat it) (take (unat len) (drop (s + 4) src)))"
      have b: "s + 4 + unat len \<le> length src" "d + unat it * unat len \<le> length dst"
        using ok False "1.prems" by auto
      have lx: "length ?xs = unat it * unat len" using b by (simp add: concat_replicate_length)
      have cp: "iter_copy (unat it) dst d src (s + 4) (unat len) = Some (blit dst d ?xs)"
        using b by (rule iter_copy_eq)
      have "\<exists>rc d' n' dst'. iterated_loop (blit dst d ?xs) (d + unat it * unat len)
            (dstlen - unat it * unat len) src (s + 4 + unat len) (srclen - 4 - unat len) = Some (rc, d', n', dst') \<and>
          rc \<in> {0, 1} \<and> d' + n' = k \<and> length dst' = length (blit dst d ?xs) \<and> drop k dst' = drop k (blit dst d ?xs)"
        by (rule "1.IH" [OF _ _ rd]) (use False ok "1.prems" cp lx in \<open>auto simp: unat_product\<close>)
      moreover have "length (blit dst d ?xs) = length dst" "drop k (blit dst d ?xs) = drop k dst"
        using b ok lx "1.prems" by (auto simp: drop_blit_ge)
      ultimately show ?thesis using False ok rd cp
        by (simp add: iterated_loop.simps [of dst] unat_product)
    qed
  qed
qed

lemma decompressIterated_safe:
  assumes "srclen \<le> length src" "dstlen \<le> length dst"
  shows "\<exists>rc dst'. decompressIterated dst dstlen src srclen = Some (rc, dst') \<and> rc \<in> {0, 1} \<and>
    length dst' = length dst \<and> drop dstlen dst' = drop dstlen dst"
proof -
  obtain rc d' n' dst' where l: "iterated_loop dst 0 dstlen src 0 srclen = Some (rc, d', n', dst')"
    "rc \<in> {0, 1}" "d' + n' = dstlen" "length dst' = length dst" "drop dstlen dst' = drop dstlen dst"
    using iterated_loop_safe [of 0 srclen src 0 dstlen dstlen dst] assms by auto
  then show ?thesis using assms
    by (auto simp: decompressIterated_def access_simps drop_blit_ge)
qed

text \<open>
  C3.  The iterated format is unpacked safely for any packed bytes: the routine returns 0 or 1
  without leaving either buffer, keeps the length of the destination and every byte from
  \<open>dstlen\<close> on.
\<close>

theorem decompressIterated_memory_safe:
  assumes "srclen \<le> length src" "dstlen \<le> length dst"
  shows "\<exists>rc dst'. decompressIterated dst dstlen src srclen = Some (rc, dst') \<and> rc \<in> {0, 1} \<and>
    length dst' = length dst \<and> drop dstlen dst' = drop dstlen dst"
  using assms by (rule decompressIterated_safe)

theorem decompressIterated_memory_safe_witness:
  "\<exists>rc dst'. decompressIterated (replicate 8 7) 6 [2, 0, 1, 0, 5] 5 = Some (rc, dst') \<and> rc \<in> {0, 1} \<and>
    length dst' = length (replicate 8 (7 :: u8)) \<and> drop 6 dst' = drop 6 (replicate 8 7)"
  by (rule decompressIterated_memory_safe) simp_all

definition it_encode :: "nat \<times> bytes \<Rightarrow> bytes" where
  "it_encode r = bytes16 (of_nat (fst r)) @ bytes16 (of_nat (length (snd r))) @ snd r"

definition it_expand :: "nat \<times> bytes \<Rightarrow> bytes" where
  "it_expand r = concat (replicate (fst r) (snd r))"

definition it_ok :: "nat \<times> bytes \<Rightarrow> bool" where
  "it_ok r \<longleftrightarrow> fst r < 65536 \<and> length (snd r) < 65536"

lemma iterated_loop_encoded:
  assumes "list_all it_ok rs" "length (concat (map it_expand rs)) \<le> dstlen" "d + dstlen \<le> length dst"
    "src = pre @ concat (map it_encode rs)"
  shows "iterated_loop dst d dstlen src (length pre) (length (concat (map it_encode rs))) =
    Some (1, d + length (concat (map it_expand rs)), dstlen - length (concat (map it_expand rs)),
      blit dst d (concat (map it_expand rs)))"
  using assms
proof (induction rs arbitrary: pre d dstlen dst)
  case Nil
  then show ?case by (simp add: iterated_loop.simps [of dst])
next
  case (Cons r rs)
  obtain n bs where r: "r = (n, bs)" by (cases r)
  let ?rest = "concat (map it_encode rs)" and ?e = "concat (replicate n bs)"
  have nb: "n < 65536" "length bs < 65536" using Cons.prems r by (auto simp: it_ok_def)
  have src: "src = pre @ bytes16 (of_nat n) @ bytes16 (of_nat (length bs)) @ bs @ ?rest"
    using Cons.prems(4) by (simp add: r it_encode_def [of "(n, bs)"])
  have rd: "rd16 src (length pre) = Some (of_nat n)" "rd16 src (length pre + 2) = Some (of_nat (length bs))"
    by (simp_all add: src rd16_def bytes16_def nth_append le16_bytes16)
  have tk: "take (length bs) (drop (length pre + 4) src) = bs"
    by (simp add: src bytes16_def)
  have le: "length ?e = n * length bs" by (rule concat_replicate_length)
  have fit: "n * length bs + length (concat (map it_expand rs)) \<le> dstlen"
    using Cons.prems(2) le by (simp add: r it_expand_def [of "(n, bs)"])
  have cp: "iter_copy n dst d src (length pre + 4) (length bs) = Some (blit dst d ?e)"
    using iter_copy_eq [of "length pre + 4" "length bs" src d n dst] fit Cons.prems tk by (simp add: src)
  let ?pre = "pre @ it_encode r"
  have lpre: "length ?pre = length pre + 4 + length bs" by (simp add: it_encode_def r)
  have IH: "iterated_loop (blit dst d ?e) (d + n * length bs) (dstlen - n * length bs) src
      (length ?pre) (length ?rest) =
    Some (1, d + n * length bs + length (concat (map it_expand rs)),
      dstlen - n * length bs - length (concat (map it_expand rs)),
      blit (blit dst d ?e) (d + n * length bs) (concat (map it_expand rs)))"
    by (rule Cons.IH) (use Cons.prems fit le in \<open>auto simp: r\<close>)
  have bb: "blit (blit dst d ?e) (d + n * length bs) (concat (map it_expand rs)) =
      blit dst d (concat (map it_expand (r # rs)))"
    using Cons.prems(3) fit le blit_blit [of d ?e "concat (map it_expand rs)" dst]
    by (simp add: it_expand_def [of "(n, bs)"] r)
  have "iterated_loop dst d dstlen src (length pre) (length (concat (map it_encode (r # rs)))) =
      iterated_loop (blit dst d ?e) (d + n * length bs) (dstlen - n * length bs) src (length pre + 4 + length bs) (length ?rest)"
    using rd cp nb fit
    by (subst iterated_loop.simps)
      (simp add: it_encode_def [of "(n, bs)"] r unat_product unat_of_nat_u16 add.assoc [symmetric])
  then show ?case using IH bb le lpre by (simp add: it_expand_def [of "(n, bs)"] r add.assoc)
qed

text \<open>
  C4.  A page packed as repeated runs unpacks to those runs one after the other, followed by
  zeroes up to \<open>dstlen\<close>; the bytes behind are kept.
\<close>

theorem decompressIterated_roundtrip:
  assumes "list_all it_ok rs" "length (concat (map it_expand rs)) \<le> dstlen" "dstlen \<le> length dst"
  shows "decompressIterated dst dstlen (concat (map it_encode rs)) (length (concat (map it_encode rs))) =
    Some (1, concat (map it_expand rs) @ replicate (dstlen - length (concat (map it_expand rs))) 0 @ drop dstlen dst)"
  using iterated_loop_encoded [of rs dstlen 0 dst "concat (map it_encode rs)" "[]"] assms
  by (auto simp: decompressIterated_def access_simps blit_def simp del: length_concat)

theorem decompressIterated_roundtrip_witness:
  "decompressIterated (replicate 9 7) 8 (concat (map it_encode [(3, [1, 2]), (1, [5])]))
     (length (concat (map it_encode [(3, [1, 2]), (1, [5])]))) =
   Some (1, [1, 2, 1, 2, 1, 2, 5, 0, 7])"
proof -
  let ?rs = "[(3, [1, 2]), (1, [5])] :: (nat \<times> bytes) list"
  have ok: "list_all it_ok ?rs" by (simp add: it_ok_def)
  have ex: "concat (map it_expand ?rs) = [1, 2, 1, 2, 1, 2, 5]" by code_simp
  have len: "length (concat (map it_expand ?rs)) \<le> 8" unfolding ex by simp
  have out: "concat (map it_expand ?rs) @ replicate (8 - length (concat (map it_expand ?rs))) 0 @
      drop 8 (replicate 9 7) = [1, 2, 1, 2, 1, 2, 5, 0, 7]"
    unfolding ex by code_simp
  have l: "8 \<le> length (replicate 9 (7 :: u8))" by simp
  from decompressIterated_roundtrip [OF ok len l] show ?thesis unfolding out .
qed

end
