(* ===== verification/Ldt.thy ===== *)
theory Ldt
  imports Prelude
begin

section \<open>16-bit selectors (\<^verbatim>\<open>lx_loader.c\<close>: the LDT table and the 16:16 address conversions)\<close>

text \<open>
  The loader keeps, for each LDT slot, the linear address its 64k tile starts at
  (\<^verbatim>\<open>GLoaderState.ldt\<close>, 0 for a free slot) and asks the kernel for the matching descriptor
  (\<^verbatim>\<open>modify_ldt\<close>).  The kernel is the parameter \<open>sys\<close> (does the call succeed for this
  entry?); a successful call installs the entry in \<open>hw\<close>, as the call is documented to do.
  The mappings of the loaded modules, in list order, are the parameter \<open>mods\<close>.
\<close>

definition LX_MAX_LDT_SLOTS :: nat where
  "LX_MAX_LDT_SLOTS = 8192"

record user_desc =
  ud_entry_number :: u32
  ud_base_addr :: u32
  ud_limit :: u32
  ud_seg_32bit :: bool
  ud_contents :: nat
  ud_read_exec_only :: bool
  ud_limit_in_pages :: bool
  ud_seg_not_present :: bool
  ud_useable :: bool

record LxMmaps =
  mm_mapped :: u32
  mm_addr :: u32
  mm_size :: u32
  mm_prot :: nat
  mm_alias :: u16

record ldt_state =
  ldt :: "nat \<Rightarrow> u32"
  hw :: "nat \<Rightarrow> user_desc option"
  baseaddr :: u32

definition MODIFY_LDT_CONTENTS_DATA :: nat where "MODIFY_LDT_CONTENTS_DATA = 0"
definition MODIFY_LDT_CONTENTS_CODE :: nat where "MODIFY_LDT_CONTENTS_CODE = 2"
definition PROT_READ :: nat where "PROT_READ = 1"
definition PROT_WRITE :: nat where "PROT_WRITE = 2"
definition PROT_EXEC :: nat where "PROT_EXEC = 4"

subsection \<open>Operations\<close>

definition lxSelectorToSegment :: "u16 \<Rightarrow> u16" where
  "lxSelectorToSegment selector = push_bit 3 selector OR 7"

definition allocateSelector ::
  "(user_desc \<Rightarrow> bool) \<Rightarrow> u16 \<Rightarrow> u32 \<Rightarrow> u32 \<Rightarrow> nat \<Rightarrow> bool \<Rightarrow> ldt_state \<Rightarrow> (bool \<times> ldt_state) option" where
  "allocateSelector sys selector pages addr contents is32bit st =
    (if \<not> unat selector < LX_MAX_LDT_SLOTS then None
     else if ldt st (unat selector) \<noteq> 0 then Some (False, st)
     else
       let entry = \<lparr>ud_entry_number = ucast selector, ud_base_addr = addr, ud_limit = pages,
             ud_seg_32bit = is32bit, ud_contents = contents, ud_read_exec_only = False,
             ud_limit_in_pages = True, ud_seg_not_present = False, ud_useable = True\<rparr>
       in if \<not> sys entry then Some (False, st)
          else Some (True, st\<lparr>ldt := (ldt st)(unat selector := addr),
                              hw := (hw st)(unat selector := Some entry)\<rparr>))"

text \<open>Does the tile that starts at \<open>tile\<close> hold \<open>addr\<close>?  (32-bit arithmetic, as in C.)\<close>

definition tile_covers :: "u32 \<Rightarrow> u32 \<Rightarrow> bool" where
  "tile_covers tile addr \<longleftrightarrow> tile \<le> addr \<and> tile + 0x10000 > addr"

fun scan_slots :: "(nat \<Rightarrow> u32) \<Rightarrow> u32 \<Rightarrow> nat list \<Rightarrow> int \<Rightarrow> nat option \<times> int" where
  "scan_slots tbl addr [] available = (None, available)"
| "scan_slots tbl addr (i # is) available =
    (let tile = tbl i in
     if tile = 0 then scan_slots tbl addr is (int i)
     else if tile_covers tile addr then (Some i, available)
     else scan_slots tbl addr is available)"

fun mmaps_iscode :: "u32 \<Rightarrow> LxMmaps list \<Rightarrow> int" where
  "mmaps_iscode addr [] = -1"
| "mmaps_iscode addr (m # ms) =
    (let lo = mm_addr m; hi = lo + mm_size m in
     if addr \<ge> lo \<and> addr \<le> hi then (if mm_prot m AND PROT_EXEC \<noteq> 0 then 1 else 0)
     else mmaps_iscode addr ms)"

fun modules_iscode :: "u32 \<Rightarrow> LxMmaps list list \<Rightarrow> int \<Rightarrow> int" where
  "modules_iscode addr [] iscode = iscode"
| "modules_iscode addr (ms # mods) iscode =
    (if iscode = -1 then modules_iscode addr mods (mmaps_iscode addr ms) else iscode)"

definition lxFindSelector ::
  "(user_desc \<Rightarrow> bool) \<Rightarrow> LxMmaps list list \<Rightarrow> u32 \<Rightarrow> int \<Rightarrow> ldt_state
     \<Rightarrow> ((u16 \<times> u16) option \<times> ldt_state) option" where
  "lxFindSelector sys mods addr iscode0 st =
    (if addr < 4096 then Some (None, st)
     else
       let idx = (ucast (drop_bit 16 addr) :: u16);
           tiled = addr < 1024 * 1024 * 512;
           tile = ldt st (unat idx);
           preferred = (if tiled \<and> tile = 0 then int (unat idx) else -1)
       in if tiled \<and> tile \<noteq> 0 \<and> tile_covers tile addr
          then Some (Some (idx, ucast (addr - tile)), st)
          else case scan_slots (ldt st) addr [0..<LX_MAX_LDT_SLOTS] preferred of
            (Some i, _) \<Rightarrow> Some (Some (of_nat i, ucast (addr - ldt st i)), st)
          | (None, available) \<Rightarrow>
              if available = -1 then Some (None, st)
              else
                let iscode1 = modules_iscode addr mods iscode0;
                    iscode = (if iscode1 = -1 then 0 else iscode1);
                    diff = addr mod 0x10000;
                    base = addr - diff;
                    selector = (of_int (if preferred \<noteq> -1 then preferred else available) :: u16)
                in case allocateSelector sys selector 16 base
                     (if iscode \<noteq> 0 then MODIFY_LDT_CONTENTS_CODE else MODIFY_LDT_CONTENTS_DATA) False st of
                  None \<Rightarrow> None
                | Some (False, st') \<Rightarrow> Some (None, st')
                | Some (True, st') \<Rightarrow> Some (Some (selector, ucast diff), st'))"

definition lxFreeSelector :: "(user_desc \<Rightarrow> bool) \<Rightarrow> u16 \<Rightarrow> ldt_state \<Rightarrow> ldt_state option" where
  "lxFreeSelector sys selector st =
    (if \<not> unat selector < LX_MAX_LDT_SLOTS then None
     else if ldt st (unat selector) = 0 then Some st
     else
       let entry = \<lparr>ud_entry_number = ucast selector, ud_base_addr = 0, ud_limit = 0,
             ud_seg_32bit = False, ud_contents = 0, ud_read_exec_only = True,
             ud_limit_in_pages = False, ud_seg_not_present = True, ud_useable = False\<rparr>
       in if \<not> sys entry then Some st
          else Some (st\<lparr>ldt := (ldt st)(unat selector := 0), hw := (hw st)(unat selector := None)\<rparr>))"

definition lxConvert1616to32 :: "ldt_state \<Rightarrow> u32 \<Rightarrow> u32 option" where
  "lxConvert1616to32 st addr1616 =
    (if addr1616 = 0 then Some 0
     else
       let selector = (ucast (drop_bit 19 addr1616) :: u16);
           offset = (ucast (addr1616 mod 0x10000) :: u16)
       in if ldt st (unat selector) = 0 then None
          else Some (ldt st (unat selector) + ucast offset))"

definition lxConvert32to1616 ::
  "(user_desc \<Rightarrow> bool) \<Rightarrow> LxMmaps list list \<Rightarrow> u32 \<Rightarrow> ldt_state \<Rightarrow> (u32 \<times> ldt_state) option" where
  "lxConvert32to1616 sys mods addr32 st =
    (if addr32 = 0 then Some (0, st)
     else case lxFindSelector sys mods addr32 (-1) st of
       None \<Rightarrow> None
     | Some (None, st') \<Rightarrow> Some (0, st')
     | Some (Some (selector, offset), st') \<Rightarrow>
         Some (push_bit 16 (ucast (lxSelectorToSegment selector)) OR ucast offset, st'))"

definition lxConvertSegmentOffsetto32 :: "ldt_state \<Rightarrow> u16 \<Rightarrow> u16 \<Rightarrow> u32 option" where
  "lxConvertSegmentOffsetto32 st seg off = lxConvert1616to32 st (push_bit 16 (ucast seg) OR ucast off)"

text \<open>
  The loop over the stack's tiles.  \<open>stacklen\<close> was rounded up to a multiple of 64k, so the C
  \<^verbatim>\<open>while (stacklen)\<close> runs once per 64k: the recursion counts these turns.
\<close>

fun stack_tiles ::
  "(user_desc \<Rightarrow> bool) \<Rightarrow> bool \<Rightarrow> nat \<Rightarrow> u32 \<Rightarrow> ldt_state \<Rightarrow> ldt_state option" where
  "stack_tiles sys deinit 0 addr st = Some st"
| "stack_tiles sys deinit (Suc n) addr st =
    (let selector = (ucast (drop_bit 16 addr) :: u16) in
     case (if deinit then lxFreeSelector sys selector st
           else map_option snd (allocateSelector sys selector 16 addr MODIFY_LDT_CONTENTS_DATA False st)) of
       None \<Rightarrow> None
     | Some st' \<Rightarrow> stack_tiles sys deinit n (addr + 0x10000) st')"

definition initOs2StackSegments ::
  "(user_desc \<Rightarrow> bool) \<Rightarrow> u32 \<Rightarrow> u32 \<Rightarrow> bool \<Rightarrow> ldt_state \<Rightarrow> ldt_state option" where
  "initOs2StackSegments sys addr0 stacklen0 deinit st =
    (let diff = addr0 mod 0x10000;
         addr = addr0 - diff;
         stacklen1 = stacklen0 + diff;
         stacklen = (if stacklen1 mod 0x10000 \<noteq> 0 then stacklen1 + (0x10000 - stacklen1 mod 0x10000) else stacklen1)
     in stack_tiles sys deinit (unat stacklen div 0x10000) addr st)"

text \<open>
  \<^verbatim>\<open>mmap\<close> is the parameter \<open>mmap\<close>: the address the kernel returns for a fixed mapping request,
  or \<open>None\<close> for \<^verbatim>\<open>MAP_FAILED\<close>.
\<close>

definition lxAllocSegment ::
  "(user_desc \<Rightarrow> bool) \<Rightarrow> (u32 \<Rightarrow> u32 option) \<Rightarrow> LxMmaps list list \<Rightarrow> int \<Rightarrow> ldt_state
     \<Rightarrow> ((u32 \<times> u16) option \<times> ldt_state) option" where
  "lxAllocSegment sys mmap mods iscode st =
    (case mmap (baseaddr st) of
       None \<Rightarrow> Some (None, st)
     | Some segment \<Rightarrow>
         if segment \<noteq> baseaddr st then Some (None, st)
         else
           let st1 = st\<lparr>baseaddr := baseaddr st + 0x10000\<rparr> in
           case lxFindSelector sys mods segment iscode st1 of
             None \<Rightarrow> None
           | Some (None, st2) \<Rightarrow> None
           | Some (Some (selector, offset), st2) \<Rightarrow>
               if selector = 0xFFFF \<or> offset \<noteq> 0 then None
               else Some (Some (segment, selector), st2))"

definition lxFreeSegment :: "(user_desc \<Rightarrow> bool) \<Rightarrow> u16 \<Rightarrow> ldt_state \<Rightarrow> (u32 option \<times> ldt_state) option" where
  "lxFreeSegment sys selector st =
    (if \<not> unat selector < LX_MAX_LDT_SLOTS then None
     else
       let addr32 = ldt st (unat selector) in
       if addr32 \<noteq> 0 then map_option (\<lambda>st'. (Some addr32, st')) (lxFreeSelector sys selector st)
       else Some (None, st))"

subsection \<open>What the table promises\<close>

text \<open>
  Every slot in use starts on a 64k border, only the 8192 slots of the table are used, and the
  kernel has a present descriptor with that base for exactly the slots in use.
\<close>

definition aligned64k :: "u32 \<Rightarrow> bool" where
  "aligned64k a \<longleftrightarrow> a mod 0x10000 = 0"

definition ldt_inv :: "ldt_state \<Rightarrow> bool" where
  "ldt_inv st \<longleftrightarrow>
     (\<forall>i. LX_MAX_LDT_SLOTS \<le> i \<longrightarrow> ldt st i = 0) \<and>
     (\<forall>i. aligned64k (ldt st i)) \<and>
     (\<forall>i. ldt st i \<noteq> 0 \<longrightarrow> (\<exists>e. hw st i = Some e \<and> ud_base_addr e = ldt st i \<and> \<not> ud_seg_not_present e))"

lemma unat_mod64k: "unat ((a :: u32) mod 0x10000) = unat a mod 65536"
  by (simp add: unat_mod)

lemma unat_round64k: "unat ((a :: u32) - a mod 0x10000) = unat a - unat a mod 65536"
  by (subst unat_sub) (simp_all add: word_le_nat_alt unat_mod64k)

lemma aligned64k_round [simp]: "aligned64k (a - a mod 0x10000)"
proof -
  have "(unat a - unat a mod 65536) mod 65536 = 0"
    by (simp add: minus_mod_eq_mult_div)
  then show ?thesis
    by (simp add: aligned64k_def word_unat_eq_iff unat_mod64k unat_round64k)
qed

lemma aligned64k_0 [simp]: "aligned64k 0"
  by (simp add: aligned64k_def)

lemma tile_covers_unat: "tile_covers t a \<Longrightarrow> unat t \<le> unat a \<and> unat a < unat t + 65536"
  unfolding tile_covers_def
  using unat_u32_less(1) [of a] unat_u32_less(1) [of t]
  by (auto simp: word_le_nat_alt word_less_nat_alt unat_word_ariths split: if_splits)

lemma ucast_u16_u32_small: "unat (x :: u32) < 65536 \<Longrightarrow> ucast (ucast x :: u16) = x"
  by (simp add: word_unat_eq_iff unsigned_ucast_eq take_bit_nat_eq_self unat_take_bit_word)

lemma tile_offset: "tile_covers t a \<Longrightarrow> t + ucast (ucast (a - t) :: u16) = a"
proof -
  assume c: "tile_covers t a"
  then have "unat (a - t) < 65536"
    using tile_covers_unat [OF c] by (subst unat_sub) (auto simp: word_le_nat_alt)
  then show ?thesis by (simp add: ucast_u16_u32_small)
qed

lemma scan_slots_Some: "scan_slots tbl a is av = (Some i, v) \<Longrightarrow>
    i \<in> set is \<and> tbl i \<noteq> 0 \<and> tile_covers (tbl i) a"
  by (induction tbl a "is" av rule: scan_slots.induct) (auto simp: Let_def split: if_splits)

lemma scan_slots_None: "scan_slots tbl a is av = (None, v) \<Longrightarrow>
    (\<forall>i \<in> set is. tbl i = 0 \<or> \<not> tile_covers (tbl i) a) \<and> (v = av \<or> (\<exists>i \<in> set is. v = int i \<and> tbl i = 0))"
  by (induction tbl a "is" av rule: scan_slots.induct) (auto simp: Let_def split: if_splits)

lemma allocateSelector_cases:
  assumes "allocateSelector sys selector pages addr contents b st = Some (ok, st')"
  shows "unat selector < LX_MAX_LDT_SLOTS"
    "\<not> ok \<Longrightarrow> st' = st"
    "ok \<Longrightarrow> ldt st (unat selector) = 0 \<and> ldt st' = (ldt st)(unat selector := addr) \<and>
       baseaddr st' = baseaddr st \<and>
       (\<exists>e. hw st' = (hw st)(unat selector := Some e) \<and> ud_base_addr e = addr \<and> \<not> ud_seg_not_present e)"
  using assms by (auto simp: allocateSelector_def Let_def split: if_splits)

lemma allocateSelector_inv:
  assumes "allocateSelector sys selector pages addr contents b st = Some (ok, st')" "ldt_inv st" "aligned64k addr"
  shows "ldt_inv st'"
proof (cases ok)
  case True
  with allocateSelector_cases(1,3) [OF assms(1)] assms(2,3) show ?thesis
    unfolding ldt_inv_def by auto
next
  case False
  with allocateSelector_cases(2) [OF assms(1)] assms(2) show ?thesis by simp
qed

lemma lxFreeSelector_inv: "lxFreeSelector sys selector st = Some st' \<Longrightarrow> ldt_inv st \<Longrightarrow> ldt_inv st'"
  by (auto simp: lxFreeSelector_def ldt_inv_def Let_def split: if_splits)

text \<open>What a successful lookup did: found a tile, or made one in a free slot.\<close>

lemma lxFindSelector_cases:
  assumes "lxFindSelector sys mods addr iscode st = Some (Some (sel, off), st')"
  obtains (found) "st' = st" "unat sel < LX_MAX_LDT_SLOTS" "ldt st (unat sel) \<noteq> 0"
      "tile_covers (ldt st (unat sel)) addr" "off = ucast (addr - ldt st (unat sel))"
    | (made) contents where "4096 \<le> addr"
      "allocateSelector sys sel 16 (addr - addr mod 0x10000) contents False st = Some (True, st')"
      "off = ucast (addr mod 0x10000)"
      "\<forall>i < LX_MAX_LDT_SLOTS. ldt st i = 0 \<or> \<not> tile_covers (ldt st i) addr"
proof -
  define idx where "idx = (ucast (drop_bit 16 addr) :: u16)"
  define tiled where "tiled \<longleftrightarrow> addr < 1024 * 1024 * 512"
  define pref where "pref = (if tiled \<and> ldt st (unat idx) = 0 then int (unat idx) else -1)"
  have a: "\<not> addr < 4096" using assms by (auto simp: lxFindSelector_def)
  have idx: "unat idx < LX_MAX_LDT_SLOTS" if tiled
  proof -
    have "unat addr < 536870912" using that by (simp add: tiled_def word_less_nat_alt)
    then have "unat addr div 65536 < 8192" by (simp add: less_mult_imp_div_less)
    then show ?thesis
      by (simp add: idx_def LX_MAX_LDT_SLOTS_def unsigned_ucast_eq unat_drop_bit_word take_bit_nat_eq_self)
  qed
  show ?thesis
  proof (cases "tiled \<and> ldt st (unat idx) \<noteq> 0 \<and> tile_covers (ldt st (unat idx)) addr")
    case True
    then have "sel = idx" "off = ucast (addr - ldt st (unat idx))" "st' = st"
      using assms a by (auto simp: lxFindSelector_def Let_def idx_def tiled_def)
    with True idx show ?thesis by (intro found) auto
  next
    case False
    obtain r v where sc: "scan_slots (ldt st) addr [0..<LX_MAX_LDT_SLOTS] pref = (r, v)" by fastforce
    have E: "lxFindSelector sys mods addr iscode st =
        (case (r, v) of
            (Some i, _) \<Rightarrow> Some (Some (of_nat i, ucast (addr - ldt st i)), st)
          | (None, available) \<Rightarrow>
              if available = -1 then Some (None, st)
              else
                let iscode1 = modules_iscode addr mods iscode;
                    iscode = (if iscode1 = -1 then 0 else iscode1);
                    diff = addr mod 0x10000;
                    base = addr - diff;
                    selector = (of_int (if pref \<noteq> -1 then pref else available) :: u16)
                in case allocateSelector sys selector 16 base
                     (if iscode \<noteq> 0 then MODIFY_LDT_CONTENTS_CODE else MODIFY_LDT_CONTENTS_DATA) False st of
                  None \<Rightarrow> None
                | Some (False, st') \<Rightarrow> Some (None, st')
                | Some (True, st') \<Rightarrow> Some (Some (selector, ucast diff), st'))"
      using a False sc
      unfolding lxFindSelector_def Let_def idx_def [symmetric] tiled_def [symmetric] pref_def [symmetric]
      by (simp only: if_False if_True)
    show ?thesis
    proof (cases r)
      case (Some i)
      with sc have "i < LX_MAX_LDT_SLOTS" "ldt st i \<noteq> 0" "tile_covers (ldt st i) addr"
        using scan_slots_Some [of "ldt st" addr "[0..<LX_MAX_LDT_SLOTS]" pref i v] by auto
      moreover from this(1) have "unat (of_nat i :: u16) = i"
        by (intro unat_of_nat_u16) (simp add: LX_MAX_LDT_SLOTS_def)
      ultimately show ?thesis using E Some assms by (intro found) auto
    next
      case None
      from E None assms obtain sl c where sl: "allocateSelector sys sl 16 (addr - addr mod 0x10000) c False st = Some (True, st')"
        "sel = sl" "off = ucast (addr mod 0x10000)"
        by (auto simp: Let_def split: if_splits option.splits prod.splits bool.splits)
      moreover have "\<forall>i < LX_MAX_LDT_SLOTS. ldt st i = 0 \<or> \<not> tile_covers (ldt st i) addr"
        using scan_slots_None [OF sc [unfolded None]] by auto
      ultimately show ?thesis using a by (intro made [of c]) auto
    qed
  qed
qed

lemma lxFindSelector_fails: "lxFindSelector sys mods addr iscode st = Some (None, st') \<Longrightarrow> st' = st"
  by (auto simp: lxFindSelector_def Let_def dest: allocateSelector_cases(2)
      split: if_splits option.splits prod.splits bool.splits)

subsection \<open>The interface the rest of the system uses\<close>

text \<open>
  \<^verbatim>\<open>GLoaderState.findSelector\<close>, the table behind it and the two conversions are an interface
  with two providers: the loader's, and the one \<^verbatim>\<open>lib2ine.c\<close> installs for native programs.
  A client may rely on three laws: a selector that was found leads back to its address, a lookup
  never moves a tile that is in use, and lookups keep the provider's invariant.
\<close>

locale selector_table =
  fixes base :: "'s \<Rightarrow> nat \<Rightarrow> u32"
    and inv :: "'s \<Rightarrow> bool"
    and find :: "u32 \<Rightarrow> 's \<Rightarrow> ((u16 \<times> u16) option \<times> 's) option"
  assumes find_hit: "inv s \<Longrightarrow> 0x10000 \<le> a \<Longrightarrow> find a s = Some (Some (sel, off), s') \<Longrightarrow>
      unat sel < LX_MAX_LDT_SLOTS \<and> base s' (unat sel) \<noteq> 0 \<and> base s' (unat sel) + ucast off = a"
    and find_keeps: "inv s \<Longrightarrow> find a s = Some (r, s') \<Longrightarrow> base s i \<noteq> 0 \<Longrightarrow> base s' i = base s i"
    and find_inv: "inv s \<Longrightarrow> find a s = Some (r, s') \<Longrightarrow> inv s'"
begin

text \<open>Lookups one after the other.\<close>

primrec finds :: "u32 list \<Rightarrow> 's \<Rightarrow> 's option" where
  "finds [] s = Some s"
| "finds (a # as) s = (case find a s of None \<Rightarrow> None | Some (r, s') \<Rightarrow> finds as s')"

lemma finds_keep: "inv s \<Longrightarrow> finds as s = Some s' \<Longrightarrow> base s i \<noteq> 0 \<Longrightarrow> base s' i = base s i"
proof (induction "as" arbitrary: s)
  case (Cons a "as")
  then obtain r s1 where f: "find a s = Some (r, s1)" "finds as s1 = Some s'"
    by (auto split: option.splits prod.splits)
  with Cons.prems have "base s1 i = base s i" by (intro find_keeps)
  with Cons.IH [OF find_inv [OF Cons.prems(1) f(1)] f(2)] Cons.prems show ?case by simp
qed simp

lemma far_pointer_stable:
  assumes "inv s" "0x10000 \<le> a" "find a s = Some (Some (sel, off), s1)" "finds as s1 = Some s2"
  shows "base s2 (unat sel) + ucast off = a" "base s2 (unat sel) \<noteq> 0"
  using find_hit [OF assms(1-3)] finds_keep [OF find_inv [OF assms(1,3)] assms(4), of "unat sel"] by auto

end

text \<open>The loader's table.\<close>

lemma lxFindSelector_hit:
  assumes "ldt_inv st" "0x10000 \<le> a" "lxFindSelector sys mods a iscode st = Some (Some (sel, off), st')"
  shows "unat sel < LX_MAX_LDT_SLOTS \<and> ldt st' (unat sel) \<noteq> 0 \<and> ldt st' (unat sel) + ucast off = a"
  using assms(3)
proof (cases rule: lxFindSelector_cases)
  case found
  then show ?thesis by (simp add: tile_offset)
next
  case (made c)
  have "unat (a mod 0x10000) < 65536" by (simp add: unat_mod64k)
  then have off: "ucast off = a mod 0x10000" by (simp add: made(3) ucast_u16_u32_small)
  have "a - a mod 0x10000 \<noteq> 0"
  proof -
    have "65536 \<le> unat a" using assms(2) by (simp add: word_le_nat_alt)
    then have "unat a - unat a mod 65536 \<noteq> 0"
      using mod_less_divisor [of 65536 "unat a"] by linarith
    then show ?thesis by (metis unat_0 unat_round64k)
  qed
  with made(2) off show ?thesis
    using allocateSelector_cases(1,3) [OF made(2)] by auto
qed

lemma lxFindSelector_keeps:
  assumes "lxFindSelector sys mods a iscode st = Some (r, st')" "ldt st i \<noteq> 0"
  shows "ldt st' i = ldt st i"
proof (cases r)
  case None
  with assms show ?thesis using lxFindSelector_fails by blast
next
  case (Some p)
  obtain sel off where "r = Some (sel, off)" using Some by (cases p) auto
  from assms(1) [unfolded this] show ?thesis
  proof (cases rule: lxFindSelector_cases)
    case (made c)
    then show ?thesis using allocateSelector_cases(3) [OF made(2)] assms(2) by auto
  qed simp
qed

lemma lxFindSelector_inv:
  assumes "lxFindSelector sys mods a iscode st = Some (r, st')" "ldt_inv st"
  shows "ldt_inv st'"
proof (cases r)
  case None
  with assms show ?thesis using lxFindSelector_fails by blast
next
  case (Some p)
  obtain sel off where "r = Some (sel, off)" using Some by (cases p) auto
  from assms(1) [unfolded this] show ?thesis
    by (cases rule: lxFindSelector_cases)
      (use assms(2) in \<open>auto intro: allocateSelector_inv\<close>)
qed

interpretation lx_table: selector_table ldt ldt_inv "\<lambda>a. lxFindSelector sys mods a iscode"
  for sys mods iscode
proof
  fix s a sel off s'
  assume "ldt_inv s" "0x10000 \<le> a" "lxFindSelector sys mods a iscode s = Some (Some (sel, off), s')"
  then show "unat sel < LX_MAX_LDT_SLOTS \<and> ldt s' (unat sel) \<noteq> 0 \<and> ldt s' (unat sel) + ucast off = a"
    by (rule lxFindSelector_hit)
next
  fix s a r s' i
  assume "lxFindSelector sys mods a iscode s = Some (r, s')" "ldt s i \<noteq> 0"
  then show "ldt s' i = ldt s i" by (rule lxFindSelector_keeps)
next
  fix s a r s'
  assume "ldt_inv s" "lxFindSelector sys mods a iscode s = Some (r, s')"
  then show "ldt_inv s'" by (simp add: lxFindSelector_inv)
qed

text \<open>The provider \<^verbatim>\<open>lib2ine.c\<close> installs before a loader takes over: every call fails.\<close>

definition findSelector_lib2ine :: "u32 \<Rightarrow> 's \<Rightarrow> ((u16 \<times> u16) option \<times> 's) option" where
  "findSelector_lib2ine addr s = Some (None, s)"

definition convert1616to32_lib2ine :: "u32 \<Rightarrow> u32" where
  "convert1616to32_lib2ine addr1616 = 0"

definition convert32to1616_lib2ine :: "u32 \<Rightarrow> u32" where
  "convert32to1616_lib2ine addr32 = 0"

definition allocSegment_lib2ine :: "u32 \<times> u16" where
  "allocSegment_lib2ine = (0, 0xFFFF)"

interpretation lib2ine_table: selector_table "\<lambda>s i. 0" "\<lambda>s. True" findSelector_lib2ine
  by unfold_locales (simp_all add: findSelector_lib2ine_def)

subsection \<open>Far pointers\<close>

definition far_pointer :: "u16 \<Rightarrow> u16 \<Rightarrow> u32" where
  "far_pointer sel off = push_bit 16 (ucast (lxSelectorToSegment sel)) OR ucast off"

lemma sel_bits: "unat (sel :: u16) < 8192 \<Longrightarrow> bit sel n \<Longrightarrow> n < 13"
proof -
  assume "unat sel < 8192" "bit sel n"
  then have "take_bit 13 sel = sel"
    by (simp add: word_unat_eq_iff unat_take_bit_word)
  then show ?thesis using \<open>bit sel n\<close> by (metis bit_take_bit_iff)
qed

lemma bit_7_iff: "bit (7 :: 'a::len word) n \<longleftrightarrow> n < 3 \<and> n < LENGTH('a)"
proof -
  have "(7 :: 'a word) = mask 3" by (simp add: mask_eq_exp_minus_1)
  then show ?thesis by (simp only: bit_mask_iff) auto
qed

lemma bit_segment: "bit (lxSelectorToSegment sel) k \<longleftrightarrow> k < 16 \<and> (k < 3 \<or> bit sel (k - 3))"
  unfolding lxSelectorToSegment_def by (simp only: bit_or_iff bit_push_bit_iff bit_7_iff) auto

lemma bit_far_pointer: "bit (far_pointer sel off) k \<longleftrightarrow>
    k < 32 \<and> (bit off k \<or> 16 \<le> k \<and> (k < 19 \<or> bit sel (k - 19)))"
  unfolding far_pointer_def
  by (auto simp: bit_or_iff bit_push_bit_iff bit_ucast_iff bit_segment)

lemma far_pointer_sel: "unat sel < LX_MAX_LDT_SLOTS \<Longrightarrow> ucast (drop_bit 19 (far_pointer sel off)) = sel"
  unfolding LX_MAX_LDT_SLOTS_def
  by (rule bit_word_eqI) (auto simp: bit_ucast_iff bit_drop_bit_eq bit_far_pointer dest: sel_bits bit_imp_le_length)

lemma far_pointer_off: "ucast (far_pointer sel off mod 0x10000) = off"
proof -
  have "far_pointer sel off mod 0x10000 = take_bit 16 (far_pointer sel off)"
    by (simp add: take_bit_eq_mod)
  also have "\<dots> = ucast off"
    by (rule bit_word_eqI) (auto simp: bit_take_bit_iff bit_far_pointer bit_ucast_iff dest: bit_imp_le_length)
  finally show ?thesis by (simp add: bit_eq_iff bit_simps)
qed

lemma far_pointer_nonzero: "far_pointer sel off \<noteq> 0"
proof
  assume "far_pointer sel off = 0"
  then have "\<not> bit (far_pointer sel off) 16" by simp
  then show False by (simp add: bit_far_pointer)
qed

lemma lxConvert1616to32_far:
  assumes "unat sel < LX_MAX_LDT_SLOTS" "ldt st (unat sel) \<noteq> 0"
  shows "lxConvert1616to32 st (far_pointer sel off) = Some (ldt st (unat sel) + ucast off)"
  using assms far_pointer_sel [OF assms(1), of off] far_pointer_off [of sel off]
  by (simp add: lxConvert1616to32_def far_pointer_nonzero)

lemma lxConvertSegmentOffsetto32_far:
  assumes "unat sel < LX_MAX_LDT_SLOTS" "ldt st (unat sel) \<noteq> 0"
  shows "lxConvertSegmentOffsetto32 st (lxSelectorToSegment sel) off = Some (ldt st (unat sel) + ucast off)"
  using lxConvert1616to32_far [OF assms] by (simp add: lxConvertSegmentOffsetto32_def far_pointer_def)

fun convert_all :: "(user_desc \<Rightarrow> bool) \<Rightarrow> LxMmaps list list \<Rightarrow> u32 list \<Rightarrow> ldt_state \<Rightarrow> ldt_state option" where
  "convert_all sys mods [] st = Some st"
| "convert_all sys mods (a # as) st =
    (case lxConvert32to1616 sys mods a st of None \<Rightarrow> None | Some (p, st') \<Rightarrow> convert_all sys mods as st')"

lemma convert_all_finds:
  "convert_all sys mods as st = lx_table.finds sys mods (-1) (filter (\<lambda>a. a \<noteq> 0) as) st"
  by (induction "as" arbitrary: st)
    (auto simp: lxConvert32to1616_def split: option.splits prod.splits)

text \<open>
  C5.  A 16:16 pointer made from a linear address leads back to that address, and goes on doing
  so after any number of other conversions: for an address from 64k up, if
  \<^verbatim>\<open>lxConvert32to1616\<close> gives a non-zero pointer then \<^verbatim>\<open>lxConvert1616to32\<close> maps it back to the
  address, in the state right after and in every later one.
\<close>

theorem lxConvert_roundtrip:
  assumes "ldt_inv st" "0x10000 \<le> a" "lxConvert32to1616 sys mods a st = Some (p, st1)" "p \<noteq> 0"
    "convert_all sys mods as st1 = Some st2"
  shows "lxConvert1616to32 st2 p = Some a"
proof -
  obtain sel off where f: "lxFindSelector sys mods a (-1) st = Some (Some (sel, off), st1)"
    and p: "p = far_pointer sel off"
    using assms(3,4) by (auto simp: lxConvert32to1616_def far_pointer_def split: if_splits option.splits prod.splits)
  have fs: "lx_table.finds sys mods (-1) (filter (\<lambda>a. a \<noteq> 0) as) st1 = Some st2"
    using assms(5) by (simp add: convert_all_finds)
  have "unat sel < LX_MAX_LDT_SLOTS" using lx_table.find_hit [OF assms(1,2) f] by simp
  with lx_table.far_pointer_stable [OF assms(1,2) f fs] p show ?thesis
    by (simp add: lxConvert1616to32_far)
qed

definition ldt_empty :: ldt_state where
  "ldt_empty = \<lparr>ldt = (\<lambda>_. 0), hw = (\<lambda>_. None), baseaddr = 136 * 1024 * 1024\<rparr>"

lemma ldt_inv_empty: "ldt_inv ldt_empty"
  by (simp add: ldt_inv_def ldt_empty_def)

text \<open>A table with one tile, for concrete runs.\<close>

definition ldt_one :: "nat \<Rightarrow> u32 \<Rightarrow> ldt_state" where
  "ldt_one i b = ldt_empty\<lparr>ldt := (\<lambda>_. 0)(i := b), hw := (\<lambda>_. None)(i := Some
     \<lparr>ud_entry_number = of_nat i, ud_base_addr = b, ud_limit = 16, ud_seg_32bit = False, ud_contents = 0,
      ud_read_exec_only = False, ud_limit_in_pages = True, ud_seg_not_present = False, ud_useable = True\<rparr>)\<rparr>"

lemma ldt_inv_one: "i < LX_MAX_LDT_SLOTS \<Longrightarrow> aligned64k b \<Longrightarrow> ldt_inv (ldt_one i b)"
  by (simp add: ldt_inv_def ldt_one_def ldt_empty_def)

theorem lxConvert_roundtrip_witness: "lxConvert1616to32 (ldt_one 2 0x20000) 0x00171234 = Some 0x21234"
proof -
  have inv: "ldt_inv (ldt_one 2 0x20000)"
    by (rule ldt_inv_one) (simp_all add: LX_MAX_LDT_SLOTS_def aligned64k_def)
  have c: "lxConvert32to1616 (\<lambda>_. True) [] 0x21234 (ldt_one 2 0x20000) = Some (0x00171234, ldt_one 2 0x20000)"
    by (simp add: lxConvert32to1616_def lxFindSelector_def ldt_one_def tile_covers_def lxSelectorToSegment_def Let_def)
  show ?thesis
    by (rule lxConvert_roundtrip [OF inv _ c, of "[]"]) simp_all
qed

subsection \<open>One address, one far pointer\<close>

definition ldt_unique :: "ldt_state \<Rightarrow> bool" where
  "ldt_unique st \<longleftrightarrow> (\<forall>i j. ldt st i \<noteq> 0 \<longrightarrow> ldt st i = ldt st j \<longrightarrow> i = j)"

lemma tile_covers_aligned: "aligned64k t \<Longrightarrow> tile_covers t a \<Longrightarrow> t = a - a mod 0x10000"
proof -
  assume al: "aligned64k t" and c: "tile_covers t a"
  have m: "unat t mod 65536 = 0"
    using al unat_mod64k [of t] by (simp add: aligned64k_def)
  then have e: "unat t = unat t div 65536 * 65536" by auto
  have "unat a div 65536 = unat t div 65536"
  proof (rule div_nat_eqI)
    show "65536 * (unat t div 65536) \<le> unat a" using tile_covers_unat [OF c] e by linarith
    have "unat a < 65536 + 65536 * (unat t div 65536)" using tile_covers_unat [OF c] e by linarith
    then show "unat a < 65536 * Suc (unat t div 65536)" by simp
  qed
  then have "unat a - unat a mod 65536 = unat t" using e
    by (simp add: minus_mod_eq_div_mult)
  then show ?thesis by (simp add: word_unat_eq_iff unat_round64k)
qed

lemma tile_covers_round:
  assumes "a < 0xFFFF0000" shows "tile_covers (a - a mod 0x10000) a"
proof -
  let ?t = "a - a mod 0x10000"
  have t: "unat ?t = unat a - unat a mod 65536" by (rule unat_round64k)
  have "unat a < 4294901760" using assms by (simp add: word_less_nat_alt)
  then have "unat (?t + 0x10000) = unat ?t + 65536"
    using t by (simp add: unat_word_ariths)
  moreover have "unat a < unat ?t + 65536" "unat ?t \<le> unat a"
    unfolding t using mod_less_divisor [of 65536 "unat a"] by linarith+
  ultimately show ?thesis by (simp add: tile_covers_def word_le_nat_alt word_less_nat_alt)
qed

lemma lxFindSelector_covers:
  assumes "ldt_inv st" "0x10000 \<le> a" "a < 0xFFFF0000"
    "lxFindSelector sys mods a iscode st = Some (Some (sel, off), st')"
  shows "unat sel < LX_MAX_LDT_SLOTS" "ldt st' (unat sel) \<noteq> 0" "tile_covers (ldt st' (unat sel)) a"
    "off = ucast (a - ldt st' (unat sel))"
proof -
  show s: "unat sel < LX_MAX_LDT_SLOTS" "ldt st' (unat sel) \<noteq> 0"
    using lxFindSelector_hit [OF assms(1,2,4)] by auto
  from assms(4) show "tile_covers (ldt st' (unat sel)) a"
  proof (cases rule: lxFindSelector_cases)
    case (made c)
    then show ?thesis using allocateSelector_cases(3) [OF made(2)] tile_covers_round [OF assms(3)] by auto
  qed simp
  from assms(4) show "off = ucast (a - ldt st' (unat sel))"
  proof (cases rule: lxFindSelector_cases)
    case (made c)
    then show ?thesis using allocateSelector_cases(3) [OF made(2)] by auto
  qed simp
qed

lemma lxFindSelector_unique:
  assumes "ldt_inv st" "ldt_unique st" "a < 0xFFFF0000" "lxFindSelector sys mods a iscode st = Some (Some (sel, off), st')"
  shows "ldt_unique st'"
  using assms(4)
proof (cases rule: lxFindSelector_cases)
  case found
  with assms(2) show ?thesis by simp
next
  case (made c)
  have free: "ldt st i \<noteq> a - a mod 0x10000 \<or> ldt st i = 0" for i
  proof (cases "i < LX_MAX_LDT_SLOTS")
    case True
    with made(4) tile_covers_round [OF assms(3)] show ?thesis by metis
  next
    case False
    with assms(1) show ?thesis by (auto simp: ldt_inv_def)
  qed
  with assms(2) allocateSelector_cases(3) [OF made(2)] show ?thesis
    unfolding ldt_unique_def by (auto simp: fun_upd_def) metis+
qed

lemma scan_slots_finds:
  "i \<in> set is \<Longrightarrow> tbl i \<noteq> 0 \<Longrightarrow> tile_covers (tbl i) a \<Longrightarrow> \<exists>j v. scan_slots tbl a is av = (Some j, v)"
  by (induction tbl a "is" av rule: scan_slots.induct) (auto simp: Let_def)

lemma lxFindSelector_known:
  assumes "ldt_inv st" "ldt_unique st" "0x10000 \<le> a" "unat sel < LX_MAX_LDT_SLOTS" "ldt st (unat sel) \<noteq> 0"
    "tile_covers (ldt st (unat sel)) a"
  shows "lxFindSelector sys mods a iscode st = Some (Some (sel, ucast (a - ldt st (unat sel))), st)"
proof -
  have only: "i = unat sel" if "ldt st i \<noteq> 0" "tile_covers (ldt st i) a" for i
    using that assms tile_covers_aligned unfolding ldt_inv_def ldt_unique_def by metis
  have big: "\<not> a < 4096" using assms(3) by (simp add: word_le_nat_alt word_less_nat_alt)
  define idx where "idx = (ucast (drop_bit 16 a) :: u16)"
  show ?thesis
  proof (cases "a < 1024 * 1024 * 512 \<and> ldt st (unat idx) \<noteq> 0 \<and> tile_covers (ldt st (unat idx)) a")
    case True
    with only have "unat idx = unat sel" by simp
    then have i: "idx = sel" by (simp add: word_unat_eq_iff)
    with True big show ?thesis
      unfolding lxFindSelector_def Let_def idx_def [symmetric] by (simp only: if_False if_True simp_thms)
  next
    case False
    obtain j v where sc: "scan_slots (ldt st) a [0..<LX_MAX_LDT_SLOTS]
        (if a < 1024 * 1024 * 512 \<and> ldt st (unat idx) = 0 then int (unat idx) else -1) = (Some j, v)"
      using scan_slots_finds [of "unat sel" "[0..<LX_MAX_LDT_SLOTS]" "ldt st" a] assms by fastforce
    with scan_slots_Some only have "j = unat sel" by blast
    with sc False big show ?thesis
      unfolding lxFindSelector_def Let_def idx_def [symmetric]
      by (simp only: if_False if_True) simp
  qed
qed

text \<open>
  C6.  Looking an address up is repeatable: once \<^verbatim>\<open>lxFindSelector\<close> has answered for an address,
  asking again, whatever the modules and the kernel say by then, gives the same selector and
  offset and allocates nothing; and no two slots ever hold the same tile.
\<close>

theorem lxFindSelector_repeat:
  assumes "ldt_inv st" "ldt_unique st" "0x10000 \<le> a" "a < 0xFFFF0000"
    "lxFindSelector sys mods a iscode st = Some (Some p, st')"
  shows "ldt_unique st' \<and> lxFindSelector sys' mods' a iscode' st' = Some (Some p, st')"
proof -
  obtain sel off where p: "p = (sel, off)" by (cases p)
  note f = assms(5) [unfolded p]
  have u: "ldt_unique st'" by (rule lxFindSelector_unique [OF assms(1,2,4) f])
  show ?thesis
    using u lxFindSelector_covers [OF assms(1,3,4) f] p assms(3)
      lxFindSelector_known [OF lxFindSelector_inv [OF f assms(1)] u]
    by simp
qed

lemma scan_slots_empty: "(\<forall>i \<in> set is. tbl i = 0) \<Longrightarrow>
    scan_slots tbl a is av = (None, if is = [] then av else int (last is))"
  by (induction tbl a "is" av rule: scan_slots.induct) auto

text \<open>The first lookup in an empty table takes the slot of the address's own 64k tile.\<close>

lemma lxFindSelector_empty:
  assumes "0x10000 \<le> a" "a < 1024 * 1024 * 512" "sys = (\<lambda>_. True)" "ldt st = (\<lambda>_. 0)"
  shows "\<exists>st'. lxFindSelector sys mods a iscode st =
    Some (Some (ucast (drop_bit 16 a), ucast (a mod 0x10000)), st')"
proof -
  define idx where "idx = (ucast (drop_bit 16 a) :: u16)"
  have big: "\<not> a < 4096" using assms(1) by (simp add: word_le_nat_alt word_less_nat_alt)
  have "unat a < 536870912" using assms(2) by (simp add: word_less_nat_alt)
  then have i: "unat idx < LX_MAX_LDT_SLOTS"
    by (simp add: idx_def LX_MAX_LDT_SLOTS_def unsigned_ucast_eq unat_drop_bit_word take_bit_nat_eq_self
        less_mult_imp_div_less)
  have sc: "scan_slots (\<lambda>_. 0) a [0..<LX_MAX_LDT_SLOTS] v = (None, 8191)" for v
    by (subst scan_slots_empty) (simp_all add: LX_MAX_LDT_SLOTS_def)
  have w: "uint idx \<noteq> -1" using uint_ge_0 [of idx] by linarith
  show ?thesis
    using big assms(2-4) i sc w
    unfolding lxFindSelector_def Let_def idx_def [symmetric]
    by (simp add: allocateSelector_def)
qed

theorem lxFindSelector_repeat_witness:
  "\<exists>st'. lxFindSelector (\<lambda>_. False) [] 0x21234 0 st' = Some (Some (2, 0x1234), st')"
proof -
  obtain st' where f: "lxFindSelector (\<lambda>_. True) [] 0x21234 (-1) ldt_empty = Some (Some (2, 0x1234), st')"
    using lxFindSelector_empty [where a = "0x21234" and sys = "\<lambda>_. True" and st = ldt_empty]
    by (force simp: ldt_empty_def)
  have u: "ldt_unique ldt_empty" by (simp add: ldt_unique_def ldt_empty_def)
  have "lxFindSelector (\<lambda>_. False) [] 0x21234 0 st' = Some (Some (2, 0x1234), st')"
    using lxFindSelector_repeat [OF ldt_inv_empty u _ _ f] by simp
  then show ?thesis by blast
qed

subsection \<open>Tiling the stack\<close>

definition tile_at :: "nat \<Rightarrow> u32" where
  "tile_at i = of_nat (i * 65536)"

lemma unat_tile_at: "i < 8192 \<Longrightarrow> unat (tile_at i) = i * 65536"
  by (simp add: tile_at_def unat_of_nat_u32 del: of_nat_mult)

lemma tile_at_nonzero: "0 < i \<Longrightarrow> i < 8192 \<Longrightarrow> tile_at i \<noteq> 0"
  using unat_tile_at [of i] by auto

lemma tile_at_selector: "i < 8192 \<Longrightarrow> unat (ucast (drop_bit 16 (tile_at i)) :: u16) = i"
  by (simp add: unsigned_ucast_eq unat_drop_bit_word unat_tile_at take_bit_nat_eq_self)

lemma tile_at_Suc: "tile_at i + 0x10000 = tile_at (Suc i)"
  by (simp add: tile_at_def algebra_simps)

lemma stack_tiles_alloc:
  assumes "\<forall>e. sys e" "b + n \<le> 8192" "\<forall>i. b \<le> i \<and> i < b + n \<longrightarrow> ldt st i = 0"
  shows "\<exists>st'. stack_tiles sys False n (tile_at b) st = Some st' \<and>
    ldt st' = (\<lambda>i. if b \<le> i \<and> i < b + n then tile_at i else ldt st i)"
  using assms
proof (induction n arbitrary: b st)
  case 0
  then show ?case by (auto simp: fun_eq_iff)
next
  case (Suc n)
  define sel where "sel = (ucast (drop_bit 16 (tile_at b)) :: u16)"
  have sel: "unat sel = b" using Suc.prems tile_at_selector [of b] by (simp add: sel_def)
  then have free: "ldt st (unat sel) = 0" using Suc.prems by simp
  obtain st1 where a: "allocateSelector sys sel 16 (tile_at b) MODIFY_LDT_CONTENTS_DATA False st = Some (True, st1)"
    using Suc.prems sel free by (simp add: allocateSelector_def LX_MAX_LDT_SLOTS_def)
  have l1: "ldt st1 = (ldt st)(b := tile_at b)" using allocateSelector_cases(3) [OF a] sel by simp
  have p: "Suc b + n \<le> 8192" "\<forall>i. Suc b \<le> i \<and> i < Suc b + n \<longrightarrow> ldt st1 i = 0"
    using Suc.prems(2,3) l1 by auto
  obtain st' where "stack_tiles sys False n (tile_at (Suc b)) st1 = Some st'"
    "ldt st' = (\<lambda>i. if Suc b \<le> i \<and> i < Suc b + n then tile_at i else ldt st1 i)"
    using Suc.IH [OF Suc.prems(1) p] by blast
  moreover have "(\<lambda>i. if Suc b \<le> i \<and> i < Suc b + n then tile_at i else ldt st1 i) =
      (\<lambda>i. if b \<le> i \<and> i < b + Suc n then tile_at i else ldt st i)" by (auto simp: fun_eq_iff l1)
  ultimately show ?case using a by (simp add: sel_def [symmetric] tile_at_Suc)
qed

text \<open>The number of 64k turns \<^verbatim>\<open>initOs2StackSegments\<close> makes, and where it starts.\<close>

lemma ucast_of_nat_u16: "m < 65536 \<Longrightarrow> (ucast (of_nat m :: u32) :: u16) = of_nat m"
  by (simp add: word_unat_eq_iff unat_of_nat_u16 unat_of_nat_u32 unsigned_ucast_eq unat_take_bit_word take_bit_nat_eq_self)

lemma round64k_tile_at: "addr - addr mod 0x10000 = tile_at (unat addr div 65536)"
proof -
  have "unat addr div 65536 < 65536"
    using unat_u32_less(1) [of addr] by (simp add: less_mult_imp_div_less)
  then have "unat (tile_at (unat addr div 65536)) = unat addr div 65536 * 65536"
    unfolding tile_at_def by (subst unat_of_nat_u32) (simp_all del: of_nat_mult)
  then show ?thesis
    unfolding word_unat_eq_iff unat_round64k by (simp add: minus_mod_eq_div_mult)
qed

lemma padded_tiles:
  assumes "unat l1 = L" "L \<le> 8192 * 65536"
  shows "unat (if l1 mod 0x10000 \<noteq> 0 then l1 + (0x10000 - l1 mod 0x10000) else (l1 :: u32)) div 65536 =
    (L + 65535) div 65536"
proof -
  obtain q r where L: "L = 65536 * q + r" "r < 65536" "L mod 65536 = r"
    using that [of "L div 65536" "L mod 65536"] by simp
  have m: "unat (l1 mod 0x10000) = r" using assms(1) L(3) by (simp add: unat_mod64k)
  show ?thesis
  proof (cases "l1 mod 0x10000 = 0")
    case True
    then have "r = 0" using m by simp
    moreover have "(65536 * q + 65535) div 65536 = q" by (rule div_nat_eqI) simp_all
    ultimately show ?thesis using True assms(1) L(1) by simp
  next
    case False
    then have r: "0 < r" using m by (metis gr0I unat_0_iff)
    have d: "unat (0x10000 - l1 mod 0x10000) = 65536 - r"
      using L(2) m by (subst unat_diff_u32) simp_all
    have "unat (l1 + (0x10000 - l1 mod 0x10000)) = L + (65536 - r)"
      by (subst unat_add_small) (use assms d in simp_all)
    then have "unat (l1 + (0x10000 - l1 mod 0x10000)) = 65536 * (q + 1)"
      using L(1,2) by simp
    moreover have "(L + 65535) div 65536 = q + 1"
      unfolding L(1) by (rule div_nat_eqI) (use r L(2) in simp_all)
    ultimately show ?thesis using False by simp
  qed
qed

lemma initOs2StackSegments_tiles:
  assumes "unat addr + unat len \<le> 8192 * 65536"
  shows "initOs2StackSegments sys addr len deinit st =
    stack_tiles sys deinit ((unat addr mod 65536 + unat len + 65535) div 65536) (tile_at (unat addr div 65536)) st"
proof -
  have L: "unat addr mod 65536 + unat len \<le> 8192 * 65536"
    using assms mod_less_eq_dividend [of "unat addr" 65536] by linarith
  have l1: "unat (len + addr mod 0x10000) = unat addr mod 65536 + unat len"
    by (subst unat_add_small) (use L in \<open>simp_all add: unat_mod64k\<close>)
  show ?thesis
    unfolding initOs2StackSegments_def Let_def round64k_tile_at padded_tiles [OF l1 L] ..
qed

lemma div64k_range:
  fixes x len a :: nat
  assumes "x \<le> a" "a < x + len"
  shows "x div 65536 \<le> a div 65536" "a div 65536 < x div 65536 + (x mod 65536 + len + 65535) div 65536"
proof -
  show "x div 65536 \<le> a div 65536" using assms(1) by (rule div_le_mono)
  have "a < 65536 * (x div 65536) + (x mod 65536 + len)" using assms(2) by simp
  also have "\<dots> \<le> 65536 * (x div 65536) + 65536 * ((x mod 65536 + len + 65535) div 65536)"
  proof -
    have "65536 * ((x mod 65536 + len + 65535) div 65536) + (x mod 65536 + len + 65535) mod 65536 =
        x mod 65536 + len + 65535" by simp
    moreover have "(x mod 65536 + len + 65535) mod 65536 < 65536" by simp
    ultimately show ?thesis by linarith
  qed
  finally have "a < 65536 * (x div 65536 + (x mod 65536 + len + 65535) div 65536)" by simp
  then show "a div 65536 < x div 65536 + (x mod 65536 + len + 65535) div 65536"
    by (simp add: div_less_iff_less_mult mult.commute)
qed

lemma div64k_bound:
  fixes x len :: nat
  assumes "x + len \<le> 8192 * 65536"
  shows "x div 65536 + (x mod 65536 + len + 65535) div 65536 \<le> 8192"
proof -
  have gen: "A + B \<le> 8192" if "65536 * B \<le> m + len + 65535" "65536 * A + m = x" for A B m :: nat
    using that assms by linarith
  show ?thesis by (rule gen [of _ "x mod 65536"]) simp_all
qed

text \<open>
  C7.  The stack is tiled so that shifting a stack address gives its selector, as the EMX runtime
  assumes: for a stack below 512 MB whose slots are free, and a kernel that grants descriptors,
  \<^verbatim>\<open>initOs2StackSegments\<close> does not fail, and afterwards every address of the stack has selector
  \<open>address div 64k\<close> and offset \<open>address mod 64k\<close>, at no further allocation.
\<close>

theorem initOs2StackSegments_tiled:
  assumes "\<forall>e. sys e" "65536 \<le> unat addr" "unat addr + unat len \<le> 8192 * 65536"
    "\<forall>i. unat addr div 65536 \<le> i \<longrightarrow> ldt st i = 0"
  shows "\<exists>st'. initOs2StackSegments sys addr len False st = Some st' \<and>
    (\<forall>a. unat addr \<le> unat a \<longrightarrow> unat a < unat addr + unat len \<longrightarrow>
      lxFindSelector sys' mods a iscode st' =
        Some (Some (of_nat (unat a div 65536), of_nat (unat a mod 65536)), st'))"
proof -
  let ?b = "unat addr div 65536" and ?n = "(unat addr mod 65536 + unat len + 65535) div 65536"
  have bn: "?b + ?n \<le> 8192" using assms(3) by (rule div64k_bound)
  obtain st' where s: "stack_tiles sys False ?n (tile_at ?b) st = Some st'"
    "ldt st' = (\<lambda>i. if ?b \<le> i \<and> i < ?b + ?n then tile_at i else ldt st i)"
    using stack_tiles_alloc [OF assms(1) bn, of st] assms(4) by auto
  have "lxFindSelector sys' mods a iscode st' = Some (Some (of_nat (unat a div 65536), of_nat (unat a mod 65536)), st')"
    if a: "unat addr \<le> unat a" "unat a < unat addr + unat len" for a
  proof -
    let ?i = "unat a div 65536"
    define idx where "idx = (ucast (drop_bit 16 a) :: u16)"
    from div64k_range [OF a] have i: "?b \<le> ?i" "?i < ?b + ?n" by simp_all
    have i8: "?i < 8192" using i(2) bn by (rule less_le_trans)
    have idx: "unat idx = ?i" "idx = of_nat ?i"
      using i8 by (simp_all add: idx_def unsigned_ucast_eq unat_drop_bit_word take_bit_nat_eq_self
          word_unat_eq_iff unat_of_nat_u16)
    have t: "ldt st' (unat idx) = tile_at ?i" using s(2) i idx by simp
    have ut: "unat (tile_at ?i) = unat a - unat a mod 65536"
      using i8 by (simp add: unat_tile_at minus_mod_eq_div_mult)
    then have te: "tile_at ?i = a - a mod 0x10000" by (simp add: word_unat_eq_iff unat_round64k)
    have small: "unat a < 536870912" using a assms(3) by simp
    have c: "tile_covers (tile_at ?i) a"
      unfolding te by (rule tile_covers_round) (use small in \<open>simp add: word_less_nat_alt\<close>)
    have nz: "tile_at ?i \<noteq> 0" using i8 a(1) assms(2) by (intro tile_at_nonzero) auto
    have off: "a - tile_at ?i = of_nat (unat a mod 65536)"
    proof -
      have "a - tile_at ?i = a mod 0x10000" by (simp add: te)
      also have "\<dots> = of_nat (unat a mod 65536)"
        by (simp add: word_unat_eq_iff unat_mod64k unat_of_nat_u32 less_trans [OF mod_less_divisor])
      finally show ?thesis .
    qed
    have uoff: "(ucast (of_nat (unat a mod 65536) :: u32) :: u16) = of_nat (unat a mod 65536)"
      by (rule ucast_of_nat_u16) simp
    have "\<not> a < 4096" "a < 1024 * 1024 * 512"
      using a(1) assms(2) small by (simp_all add: word_less_nat_alt)
    with c nz t off uoff idx(2) show ?thesis
      unfolding lxFindSelector_def Let_def idx_def [symmetric] by simp
  qed
  with s(1) initOs2StackSegments_tiles [OF assms(3), of sys False st] show ?thesis by auto
qed

theorem initOs2StackSegments_tiled_witness:
  "\<exists>st'. initOs2StackSegments (\<lambda>_. True) 0x12340 0x20000 False ldt_empty = Some st' \<and>
    lxFindSelector (\<lambda>_. True) [] 0x2ABCD (-1) st' = Some (Some (2, 0xABCD), st')"
proof -
  have "\<exists>st'. initOs2StackSegments (\<lambda>_. True) 0x12340 0x20000 False ldt_empty = Some st' \<and>
    (\<forall>a. unat (0x12340 :: u32) \<le> unat a \<longrightarrow> unat a < unat (0x12340 :: u32) + unat (0x20000 :: u32) \<longrightarrow>
      lxFindSelector (\<lambda>_. True) [] a (-1) st' =
        Some (Some (of_nat (unat a div 65536), of_nat (unat a mod 65536)), st'))"
    by (rule initOs2StackSegments_tiled) (simp_all add: ldt_empty_def)
  then obtain st' where "initOs2StackSegments (\<lambda>_. True) 0x12340 0x20000 False ldt_empty = Some st'"
    and f: "unat (0x12340 :: u32) \<le> unat (0x2ABCD :: u32) \<longrightarrow>
      unat (0x2ABCD :: u32) < unat (0x12340 :: u32) + unat (0x20000 :: u32) \<longrightarrow>
      lxFindSelector (\<lambda>_. True) [] 0x2ABCD (-1) st' =
        Some (Some (of_nat (unat (0x2ABCD :: u32) div 65536), of_nat (unat (0x2ABCD :: u32) mod 65536)), st')"
    by blast
  moreover from f have "lxFindSelector (\<lambda>_. True) [] 0x2ABCD (-1) st' = Some (Some (2, 0xABCD), st')" by simp
  ultimately show ?thesis by blast
qed

subsection \<open>Where the table goes wrong: the first 64k\<close>

text \<open>
  C8.  For an address of the first 64k (from 4096, the first the lookup accepts) the lookup
  reports success, but the tile's base is 0, which the table reads as a free slot: converting the
  pointer it made back runs into the assertion of \<^verbatim>\<open>lxConvert1616to32\<close>.
\<close>

theorem lxConvert_low_address_aborts:
  assumes "4096 \<le> a" "a < 0x10000"
  shows "\<exists>p st'. lxConvert32to1616 (\<lambda>_. True) mods a ldt_empty = Some (p, st') \<and> p \<noteq> 0 \<and>
    ldt st' = ldt ldt_empty \<and> lxConvert1616to32 st' p = None"
proof -
  have a: "\<not> a < 4096" "a \<noteq> 0" "a < 1024 * 1024 * 512"
    using assms by (auto simp: word_le_nat_alt word_less_nat_alt)
  have "unat a < 65536" using assms(2) by (simp add: word_less_nat_alt)
  then have r: "a mod 0x10000 = a" "ucast (drop_bit 16 a) = (0 :: u16)"
    by (simp_all add: word_unat_eq_iff unat_mod64k unsigned_ucast_eq unat_drop_bit_word)
  have sc: "scan_slots (\<lambda>_. 0) a [0..<LX_MAX_LDT_SLOTS] v = (None, 8191)" for v
    by (subst scan_slots_empty) (simp_all add: LX_MAX_LDT_SLOTS_def)
  obtain off st' where "lxFindSelector (\<lambda>_. True) mods a (-1) ldt_empty = Some (Some (0, off), st')"
    "ldt st' = ldt ldt_empty"
    using a sc r unfolding lxFindSelector_def Let_def r(2)
    by (simp add: ldt_empty_def allocateSelector_def LX_MAX_LDT_SLOTS_def fun_upd_idem)
  then have "lxConvert32to1616 (\<lambda>_. True) mods a ldt_empty = Some (far_pointer 0 off, st')"
      "ldt st' = ldt ldt_empty" using a(2)
    by (simp_all add: lxConvert32to1616_def far_pointer_def)
  moreover from this(2) have "lxConvert1616to32 st' (far_pointer 0 off) = None"
    by (simp add: lxConvert1616to32_def far_pointer_nonzero ldt_empty_def)
  ultimately show ?thesis using far_pointer_nonzero by blast
qed

theorem lxConvert_low_address_aborts_witness:
  "\<exists>p st'. lxConvert32to1616 (\<lambda>_. True) [] 0x1234 ldt_empty = Some (p, st') \<and> p \<noteq> 0 \<and>
    ldt st' = ldt ldt_empty \<and> lxConvert1616to32 st' p = None"
  by (rule lxConvert_low_address_aborts) simp_all

subsection \<open>Segments\<close>

text \<open>
  C9.  A segment from \<^verbatim>\<open>lxAllocSegment\<close> is addressable through its selector: every offset of the
  segment, with the segment word \<^verbatim>\<open>lxSelectorToSegment\<close> makes of the selector, converts to the
  linear address that many bytes into the segment; the next segment starts 64k further; and
  \<^verbatim>\<open>lxFreeSegment\<close> then unmaps that segment and, when the kernel agrees, frees the slot.
\<close>

theorem lxAllocSegment_addressable:
  assumes "ldt_inv st" "0x10000 \<le> baseaddr st"
    "lxAllocSegment sys mmap mods iscode st = Some (Some (seg, sel), st')"
  shows "seg = baseaddr st \<and> baseaddr st' = baseaddr st + 0x10000 \<and> ldt_inv st' \<and>
    (\<forall>off. lxConvertSegmentOffsetto32 st' (lxSelectorToSegment sel) off = Some (seg + ucast off)) \<and>
    (\<exists>st''. lxFreeSegment (\<lambda>_. True) sel st' = Some (Some seg, st'') \<and> ldt st'' (unat sel) = 0)"
proof -
  define st1 where "st1 = st\<lparr>baseaddr := baseaddr st + 0x10000\<rparr>"
  have inv1: "ldt_inv st1" using assms(1) by (simp add: st1_def ldt_inv_def)
  obtain off where f: "lxFindSelector sys mods seg iscode st1 = Some (Some (sel, off), st')"
    and s: "seg = baseaddr st" "off = 0"
    using assms(3) by (auto simp: lxAllocSegment_def st1_def Let_def split: option.splits if_splits)
  have hit: "unat sel < LX_MAX_LDT_SLOTS" "ldt st' (unat sel) \<noteq> 0" "ldt st' (unat sel) = seg"
    using lxFindSelector_hit [OF inv1 _ f] assms(2) s by auto
  have "baseaddr st' = baseaddr st1"
    using f by (cases rule: lxFindSelector_cases) (use allocateSelector_cases(3) in blast)+
  moreover have "\<exists>st''. lxFreeSegment (\<lambda>_. True) sel st' = Some (Some seg, st'') \<and> ldt st'' (unat sel) = 0"
    using hit by (simp add: lxFreeSegment_def lxFreeSelector_def)
  ultimately show ?thesis
    using hit s lxConvertSegmentOffsetto32_far [OF hit(1,2)] lxFindSelector_inv [OF f inv1]
    by (simp add: st1_def)
qed

theorem lxAllocSegment_addressable_witness:
  "\<exists>sel st'. lxAllocSegment (\<lambda>_. True) Some [] 1 ldt_empty = Some (Some (0x8800000, sel), st') \<and>
    lxConvertSegmentOffsetto32 st' (lxSelectorToSegment sel) 5 = Some 0x8800005"
proof -
  define st1 where "st1 = ldt_empty\<lparr>baseaddr := 0x8810000\<rparr>"
  obtain st2 where "lxFindSelector (\<lambda>_. True) [] 0x8800000 1 st1 = Some (Some (0x880, 0), st2)"
    using lxFindSelector_empty [where a = "0x8800000" and sys = "\<lambda>_. True" and mods = "[]" and iscode = 1 and st = st1]
    by (auto simp: st1_def ldt_empty_def)
  then have a: "lxAllocSegment (\<lambda>_. True) Some [] 1 ldt_empty =
      Some (Some (0x8800000, 0x880), st2)"
    by (simp add: lxAllocSegment_def ldt_empty_def st1_def)
  from lxAllocSegment_addressable [OF ldt_inv_empty _ a] show ?thesis
    using a by (auto simp: ldt_empty_def)
qed

end
