(* ===== verification/Headers.thy ===== *)
theory Headers
  imports Prelude
begin

section \<open>Module headers and their sanity checks (\<^verbatim>\<open>lib2ine.h\<close>, \<^verbatim>\<open>lx_loader.c\<close>)\<close>

text \<open>
  The packed structures of the LX and NE formats, read field by field from the bytes of the
  file, and the checks \<^verbatim>\<open>sanityCheckModule\<close> makes before a module is loaded.  The file is a list of
  bytes; a pointer into it is an offset.
\<close>

record LxHeader =
  magic_l :: u8
  magic_x :: u8
  byte_order :: u8
  word_order :: u8
  lx_version :: u32
  cpu_type :: u16
  os_type :: u16
  module_version :: u32
  module_flags :: u32
  module_num_pages :: u32
  eip_object :: u32
  lx_eip :: u32
  esp_object :: u32
  lx_esp :: u32
  page_size :: u32
  page_offset_shift :: u32
  fixup_section_size :: u32
  fixup_section_checksum :: u32
  loader_section_size :: u32
  loader_section_checksum :: u32
  object_table_offset :: u32
  module_num_objects :: u32
  object_page_table_offset :: u32
  object_iter_pages_offset :: u32
  resource_table_offset :: u32
  num_resource_table_entries :: u32
  resident_name_table_offset :: u32
  entry_table_offset :: u32
  module_directives_offset :: u32
  num_module_directives :: u32
  fixup_page_table_offset :: u32
  fixup_record_table_offset :: u32
  import_module_table_offset :: u32
  num_import_mod_entries :: u32
  import_proc_table_offset :: u32
  per_page_checksum_offset :: u32
  data_pages_offset :: u32
  num_preload_pages :: u32
  non_resident_name_table_offset :: u32
  non_resident_name_table_len :: u32
  non_resident_name_table_checksum :: u32
  auto_ds_object_num :: u32
  debug_info_offset :: u32
  debug_info_len :: u32
  num_instance_preload :: u32
  num_instance_demand :: u32
  heapsize :: u32

definition sizeof_LxHeader :: nat where "sizeof_LxHeader = 172"

definition read_LxHeader :: "bytes \<Rightarrow> nat \<Rightarrow> LxHeader option" where
  "read_LxHeader exe p =
    (if p + sizeof_LxHeader \<le> length exe then
       let b = (\<lambda>k. exe ! (p + k));
           w = (\<lambda>k. le16 (exe ! (p + k)) (exe ! (p + k + 1)));
           d = (\<lambda>k. le32 (exe ! (p + k)) (exe ! (p + k + 1)) (exe ! (p + k + 2)) (exe ! (p + k + 3)))
       in Some \<lparr>magic_l = b 0, magic_x = b 1, byte_order = b 2, word_order = b 3,
         lx_version = d 4, cpu_type = w 8, os_type = w 10, module_version = d 12, module_flags = d 16,
         module_num_pages = d 20, eip_object = d 24, lx_eip = d 28, esp_object = d 32, lx_esp = d 36,
         page_size = d 40, page_offset_shift = d 44, fixup_section_size = d 48,
         fixup_section_checksum = d 52, loader_section_size = d 56, loader_section_checksum = d 60,
         object_table_offset = d 64, module_num_objects = d 68, object_page_table_offset = d 72,
         object_iter_pages_offset = d 76, resource_table_offset = d 80,
         num_resource_table_entries = d 84, resident_name_table_offset = d 88, entry_table_offset = d 92,
         module_directives_offset = d 96, num_module_directives = d 100, fixup_page_table_offset = d 104,
         fixup_record_table_offset = d 108, import_module_table_offset = d 112,
         num_import_mod_entries = d 116, import_proc_table_offset = d 120, per_page_checksum_offset = d 124,
         data_pages_offset = d 128, num_preload_pages = d 132, non_resident_name_table_offset = d 136,
         non_resident_name_table_len = d 140, non_resident_name_table_checksum = d 144,
         auto_ds_object_num = d 148, debug_info_offset = d 152, debug_info_len = d 156,
         num_instance_preload = d 160, num_instance_demand = d 164, heapsize = d 168\<rparr>
     else None)"

record LxObjectTableEntry =
  virtual_size :: u32
  reloc_base_addr :: u32
  object_flags :: u32
  page_table_index :: u32
  num_page_table_entries :: u32
  ote_reserved :: u32

definition read_LxObjectTableEntry :: "bytes \<Rightarrow> nat \<Rightarrow> LxObjectTableEntry option" where
  "read_LxObjectTableEntry exe p = do {
     a \<leftarrow> rd32 exe p; b \<leftarrow> rd32 exe (p + 4); c \<leftarrow> rd32 exe (p + 8);
     d \<leftarrow> rd32 exe (p + 12); e \<leftarrow> rd32 exe (p + 16); f \<leftarrow> rd32 exe (p + 20);
     Some \<lparr>virtual_size = a, reloc_base_addr = b, object_flags = c, page_table_index = d,
       num_page_table_entries = e, ote_reserved = f\<rparr> }"

record LxObjectPageTableEntry =
  page_data_offset :: u32
  opt_data_size :: u16
  opt_flags :: u16

definition read_LxObjectPageTableEntry :: "bytes \<Rightarrow> nat \<Rightarrow> LxObjectPageTableEntry option" where
  "read_LxObjectPageTableEntry exe p = do {
     a \<leftarrow> rd32 exe p; b \<leftarrow> rd16 exe (p + 4); c \<leftarrow> rd16 exe (p + 6);
     Some \<lparr>page_data_offset = a, opt_data_size = b, opt_flags = c\<rparr> }"

record NeHeader =
  magic_n :: u8
  magic_e :: u8
  linker_version :: u8
  linker_revision :: u8
  ne_entry_table_offset :: u16
  ne_entry_table_size :: u16
  ne_crc32 :: u32
  ne_module_flags :: u16
  auto_data_segment :: u16
  dynamic_heap_size :: u16
  stack_size :: u16
  reg_ip :: u16
  reg_cs :: u16
  reg_sp :: u16
  reg_ss :: u16
  num_segment_table_entries :: u16
  num_module_ref_table_entries :: u16
  non_resident_name_table_size :: u16
  segment_table_offset :: u16
  ne_resource_table_offset :: u16
  ne_resident_name_table_offset :: u16
  module_reference_table_offset :: u16
  imported_names_table_offset :: u16
  ne_non_resident_name_table_offset :: u32
  num_movable_entries :: u16
  sector_alignment_shift_count :: u16
  num_resource_entries :: u16
  exe_type :: u8
  os2_exe_flags :: u8

definition sizeof_NeHeader :: nat where "sizeof_NeHeader = 64"

definition read_NeHeader :: "bytes \<Rightarrow> nat \<Rightarrow> NeHeader option" where
  "read_NeHeader exe p =
    (if p + sizeof_NeHeader \<le> length exe then
       let b = (\<lambda>k. exe ! (p + k));
           w = (\<lambda>k. le16 (exe ! (p + k)) (exe ! (p + k + 1)));
           d = (\<lambda>k. le32 (exe ! (p + k)) (exe ! (p + k + 1)) (exe ! (p + k + 2)) (exe ! (p + k + 3)))
       in Some \<lparr>magic_n = b 0, magic_e = b 1, linker_version = b 2, linker_revision = b 3,
         ne_entry_table_offset = w 4, ne_entry_table_size = w 6, ne_crc32 = d 8, ne_module_flags = w 12,
         auto_data_segment = w 14, dynamic_heap_size = w 16, stack_size = w 18, reg_ip = w 20,
         reg_cs = w 22, reg_sp = w 24, reg_ss = w 26, num_segment_table_entries = w 28,
         num_module_ref_table_entries = w 30, non_resident_name_table_size = w 32,
         segment_table_offset = w 34, ne_resource_table_offset = w 36,
         ne_resident_name_table_offset = w 38, module_reference_table_offset = w 40,
         imported_names_table_offset = w 42, ne_non_resident_name_table_offset = d 44,
         num_movable_entries = w 48, sector_alignment_shift_count = w 50, num_resource_entries = w 52,
         exe_type = b 54, os2_exe_flags = b 55\<rparr>
     else None)"

record NeSegmentTableEntry =
  seg_offset :: u16
  seg_size :: u16
  segment_flags :: u16
  minimum_allocation :: u16

definition read_NeSegmentTableEntry :: "bytes \<Rightarrow> nat \<Rightarrow> NeSegmentTableEntry option" where
  "read_NeSegmentTableEntry exe p = do {
     a \<leftarrow> rd16 exe p; b \<leftarrow> rd16 exe (p + 2); c \<leftarrow> rd16 exe (p + 4); d \<leftarrow> rd16 exe (p + 6);
     Some \<lparr>seg_offset = a, seg_size = b, segment_flags = c, minimum_allocation = d\<rparr> }"

subsection \<open>The checks\<close>

definition sanityCheckLxModule :: "bytes \<Rightarrow> nat \<Rightarrow> u32 \<Rightarrow> bool option" where
  "sanityCheckLxModule file p exelen =
    (if sizeof_LxHeader \<ge> unat exelen then Some False
     else do {
       lx \<leftarrow> read_LxHeader file p;
       if byte_order lx \<noteq> 0 \<or> word_order lx \<noteq> 0 then Some False
       else if lx_version lx \<noteq> 0 then Some False
       else if cpu_type lx > 3 then Some False
       else if os_type lx \<noteq> 1 then Some False
       else if page_size lx \<noteq> 4096 then Some False
       else if module_flags lx AND 0x2000 \<noteq> 0 then Some False
       else Some True })"

definition sanityCheckNeModule :: "bytes \<Rightarrow> nat \<Rightarrow> u32 \<Rightarrow> bool option" where
  "sanityCheckNeModule file p exelen =
    (if sizeof_NeHeader \<ge> unat exelen then Some False
     else do {
       ne \<leftarrow> read_NeHeader file p;
       if exe_type ne > 1 then Some False else Some True })"

text \<open>
  The result is whether the module passed, where its header is, how many bytes the code thinks
  are left there, and whether it is an LX module.  \<^verbatim>\<open>*_exe + header_offset\<close> is pointer arithmetic
  and \<^verbatim>\<open>*_exelen -= header_offset\<close> wraps.  \<open>file\<close> is the buffer the module was read to, and \<open>None\<close> an access outside
  it: the code does not check the header offset, and what it reads behind the buffer is undefined in C (often a fault, but it
  may be memory in which the code goes on).  A result \<open>Some\<close> is that of a run whose reads are all inside.
\<close>

definition sanityCheckModule :: "bytes \<Rightarrow> u32 \<Rightarrow> (bool \<times> nat \<times> u32 \<times> bool) option" where
  "sanityCheckModule file exelen =
    (if exelen < 62 then Some (False, 0, exelen, False)
     else do {
       header_offset \<leftarrow> rd32 file 0x3C;
       let p = unat header_offset;
       let len = exelen - header_offset;
       m0 \<leftarrow> rd8 file p;
       m1 \<leftarrow> (if m0 = 0x4C \<or> m0 = 0x4E then rd8 file (p + 1) else Some 0);
       if m0 = 0x4C \<and> m1 = 0x58 then do {
         ok \<leftarrow> sanityCheckLxModule file p len; Some (ok, p, len, True) }
       else if m0 = 0x4E \<and> m1 = 0x45 then do {
         ok \<leftarrow> sanityCheckNeModule file p len; Some (ok, p, len, False) }
       else Some (False, p, len, False) })"

subsection \<open>What an accepted module guarantees, and what the checks miss\<close>

text \<open>
  A module that passes \<^verbatim>\<open>sanityCheckModule\<close> as LX without a read outside the buffer has, at the offset the DOS stub names, more bytes left
  than a header, and one signed LX, little-endian, of version 0, for a 286 to 486 and OS/2, with 4096-byte pages and without the
  not-loadable flag.
\<close>

lemma sanityCheckModule_accepts_lx:
  assumes "sanityCheckModule file exelen = Some (True, p, len, True)"
  shows "rd32 file 0x3C = Some (of_nat p) \<and> len = exelen - of_nat p \<and> 172 < unat len \<and>
    (\<exists>lx. read_LxHeader file p = Some lx \<and> magic_l lx = 0x4C \<and> magic_x lx = 0x58 \<and>
      byte_order lx = 0 \<and> word_order lx = 0 \<and> lx_version lx = 0 \<and> cpu_type lx \<le> 3 \<and> os_type lx = 1 \<and>
      page_size lx = 4096 \<and> module_flags lx AND 0x2000 = 0)"
proof -
  obtain h where h: "rd32 file 0x3C = Some h" "p = unat h"
    and m: "rd8 file p = Some 0x4C" "rd8 file (p + 1) = Some 0x58"
    and ok: "sanityCheckLxModule file p len = Some True"
    using assms by (auto simp: sanityCheckModule_def bind_eq_Some_conv Let_def split: if_splits)
  obtain lx where lx: "read_LxHeader file p = Some lx"
    and f: "byte_order lx = 0" "word_order lx = 0" "lx_version lx = 0" "cpu_type lx \<le> 3" "os_type lx = 1"
      "page_size lx = 4096" "module_flags lx AND 0x2000 = 0"
    using ok by (auto simp: sanityCheckLxModule_def bind_eq_Some_conv not_less split: if_splits)
  have len: "len = exelen - of_nat p" "172 < unat len" using assms ok h
    by (auto simp: sanityCheckModule_def sanityCheckLxModule_def sizeof_LxHeader_def bind_eq_Some_conv Let_def not_le split: if_splits)
  have "magic_l lx = file ! p" "magic_x lx = file ! (p + 1)"
    using lx by (auto simp: read_LxHeader_def Let_def split: if_splits)
  with h m lx f len show ?thesis by (auto simp: rd8_eq_Some_iff)
qed

text \<open>A minimal LX file: a DOS stub whose header offset is 64, then the header.\<close>

definition lx_stub :: bytes where
  "lx_stub = replicate 60 0 @ [64, 0, 0, 0]"

definition lx_min_header :: bytes where
  "lx_min_header = [0x4C, 0x58, 0, 0, 0, 0, 0, 0, 2, 0, 1, 0] @ replicate 28 0 @ [0, 0x10, 0, 0] @ replicate 129 0"

lemma sanityCheckModule_accepts_lx_demo:
  "\<exists>lx. read_LxHeader (lx_stub @ lx_min_header) 64 = Some lx \<and> page_size lx = 4096"
proof -
  have "sanityCheckModule (lx_stub @ lx_min_header) 237 = Some (True, 64, 173, True)"
    by code_simp
  from sanityCheckModule_accepts_lx [OF this] show ?thesis by blast
qed

text \<open>
  C11.  The checks read outside the file they were given: for a file of 62 or 63 bytes, which
  passes the length test but ends inside the header offset at 0x3C, and for any file whose
  header offset lies at or past its end, \<^verbatim>\<open>sanityCheckModule\<close> reads past the buffer (and in the
  second case goes on with a length that has wrapped around).
\<close>

theorem sanityCheckModule_reads_outside:
  assumes "62 \<le> length file" "length file < 2 ^ 32"
    "length file < 64 \<or> length file \<le> unat (le32 (file ! 0x3C) (file ! 0x3D) (file ! 0x3E) (file ! 0x3F))"
  shows "sanityCheckModule file (of_nat (length file)) = None"
proof -
  have l: "\<not> (of_nat (length file) :: u32) < 62"
    using assms(1,2) by (simp add: word_less_nat_alt unat_of_nat_u32)
  show ?thesis
  proof (cases "length file < 64")
    case True
    with l show ?thesis by (simp add: sanityCheckModule_def rd32_def)
  next
    case False
    with assms(3) have "length file \<le> unat (le32 (file ! 60) (file ! 61) (file ! 62) (file ! 63))" by simp
    with False l show ?thesis
      by (simp add: sanityCheckModule_def rd32_def rd8_def Let_def)
  qed
qed

theorem sanityCheckModule_reads_outside_witness:
  "sanityCheckModule (replicate 62 0) 62 = None"
  using sanityCheckModule_reads_outside [of "replicate 62 0"] by simp

end
