(* ===== verification/Exports.thy ===== *)
theory Exports
  imports Headers Ldt
begin

section \<open>Exports: entry tables, name tables, lookup (\<^verbatim>\<open>lx_loader.c\<close>)\<close>

text \<open>
  How the loader turns a module's entry table into its array of exports, names them from the
  name tables, and looks an export up by ordinal or by name.  A pointer into the file is an
  offset; a read past the end of the file is a fault.  \<^verbatim>\<open>LxExport.object\<close> points to one of the
  module's mappings; the model keeps the mapping itself.
\<close>

record LxExport =
  ex_ordinal :: u32
  ex_name :: "bytes option"
  ex_addr :: u32
  ex_object :: "LxMmaps option"

subsection \<open>LX entry tables\<close>

text \<open>First pass: how many exports there will be.\<close>

function lx_count_ordinals :: "bytes \<Rightarrow> nat \<Rightarrow> nat \<Rightarrow> nat option" where
  "lx_count_ordinals exe p nord =
    (case rd8 exe p of None \<Rightarrow> None | Some numentries \<Rightarrow>
      if numentries = 0 then Some nord
      else (case rd8 exe (p + 1) of None \<Rightarrow> None | Some t \<Rightarrow>
        let bundletype = t AND NOT 0x80 in
        if bundletype \<noteq> 0
        then lx_count_ordinals exe (p + 2 + (2 + (if bundletype = 1 then 3 else 5) * unat numentries))
               (nord + unat numentries)
        else lx_count_ordinals exe (p + 2) nord))"
  by pat_completeness auto
termination
  by (relation "measure (\<lambda>(exe, p, nord). length exe - p)") (auto simp: rd8_eq_Some_iff)

declare lx_count_ordinals.simps [simp del]

text \<open>The entries of one bundle: \<open>w\<close> is 2 for 16-bit offsets and 4 for 32-bit ones.\<close>

fun lx_entries :: "bytes \<Rightarrow> bool \<Rightarrow> LxMmaps \<Rightarrow> nat \<Rightarrow> nat \<Rightarrow> u32 \<Rightarrow> LxExport list option" where
  "lx_entries exe wide obj 0 p ordinal = Some []"
| "lx_entries exe wide obj (Suc n) p ordinal = do {
     off \<leftarrow> (if wide then rd32 exe (p + 1) else map_option ucast (rd16 exe (p + 1)));
     rest \<leftarrow> lx_entries exe wide obj n (p + 1 + (if wide then 4 else 2)) (ordinal + 1);
     Some (\<lparr>ex_ordinal = ordinal, ex_name = None, ex_addr = mm_addr obj + off, ex_object = Some obj\<rparr> # rest) }"

text \<open>Second pass.  \<open>None\<close> inside is the code's failure return; \<open>None\<close> outside is a fault.\<close>

function lx_build_exports :: "bytes \<Rightarrow> LxMmaps list \<Rightarrow> nat \<Rightarrow> u32 \<Rightarrow> LxExport list \<Rightarrow> LxExport list option option" where
  "lx_build_exports exe mmaps p ordinal acc =
    (case rd8 exe p of None \<Rightarrow> None | Some numentries \<Rightarrow>
      if numentries = 0 then Some (Some acc)
      else (case rd8 exe (p + 1) of None \<Rightarrow> None | Some t \<Rightarrow>
        let bundletype = t AND NOT 0x80; n = unat numentries in
        if bundletype = 0 then lx_build_exports exe mmaps (p + 2) (ordinal + ucast numentries) acc
        else if bundletype = 1 \<or> bundletype = 3 then
          (case rd16 exe (p + 2) of None \<Rightarrow> None | Some oi \<Rightarrow>
            let objidx = unat (oi - 1) in
            if \<not> objidx < length mmaps then None
            else (case lx_entries exe (bundletype = 3) (mmaps ! objidx) n (p + 4) ordinal of None \<Rightarrow> None
              | Some es \<Rightarrow> lx_build_exports exe mmaps (p + 4 + (if bundletype = 3 then 5 else 3) * n)
                  (ordinal + ucast numentries) (acc @ es)))
        else Some None))"
  by pat_completeness auto
termination
  by (relation "measure (\<lambda>(exe, mmaps, p, ordinal, acc). length exe - p)") (auto simp: rd8_eq_Some_iff)

declare lx_build_exports.simps [simp del]

subsection \<open>NE entry tables\<close>

function ne_count_ordinals :: "bytes \<Rightarrow> nat \<Rightarrow> nat \<Rightarrow> nat option" where
  "ne_count_ordinals exe p nord =
    (case rd8 exe p of None \<Rightarrow> None | Some numentries \<Rightarrow>
      if numentries = 0 then Some nord
      else (case rd8 exe (p + 1) of None \<Rightarrow> None | Some bundletype \<Rightarrow>
        if bundletype \<noteq> 0
        then ne_count_ordinals exe (p + 2 + (if bundletype = 0xFF then 6 else 3) * unat numentries)
               (nord + unat numentries)
        else ne_count_ordinals exe (p + 2) (nord + unat numentries)))"
  by pat_completeness auto
termination
  by (relation "measure (\<lambda>(exe, p, nord). length exe - p)") (auto simp: rd8_eq_Some_iff)

declare ne_count_ordinals.simps [simp del]

fun ne_movable_entries :: "bytes \<Rightarrow> LxMmaps list \<Rightarrow> nat \<Rightarrow> nat \<Rightarrow> u32 \<Rightarrow> LxExport list option" where
  "ne_movable_entries exe mmaps 0 p ordinal = Some []"
| "ne_movable_entries exe mmaps (Suc n) p ordinal = do {
     s \<leftarrow> rd8 exe (p + 3);
     offset \<leftarrow> rd16 exe (p + 4);
     let segment = unat (s - 1);
     guard (segment < length mmaps);
     rest \<leftarrow> ne_movable_entries exe mmaps n (p + 6) (ordinal + 1);
     Some (\<lparr>ex_ordinal = ordinal, ex_name = None, ex_addr = mm_addr (mmaps ! segment) + ucast offset,
       ex_object = Some (mmaps ! segment)\<rparr> # rest) }"

fun ne_fixed_entries :: "bytes \<Rightarrow> LxMmaps list \<Rightarrow> u8 \<Rightarrow> nat \<Rightarrow> nat \<Rightarrow> u32 \<Rightarrow> LxExport list option" where
  "ne_fixed_entries exe mmaps bundletype 0 p ordinal = Some []"
| "ne_fixed_entries exe mmaps bundletype (Suc n) p ordinal = do {
     let segment = unat (bundletype - 1);
     offset \<leftarrow> rd16 exe (p + 1);
     guard (segment < length mmaps);
     rest \<leftarrow> ne_fixed_entries exe mmaps bundletype n (p + 3) (ordinal + 1);
     Some (\<lparr>ex_ordinal = ordinal, ex_name = None, ex_addr = mm_addr (mmaps ! segment) + ucast offset,
       ex_object = Some (mmaps ! segment)\<rparr> # rest) }"

function ne_build_exports :: "bytes \<Rightarrow> LxMmaps list \<Rightarrow> nat \<Rightarrow> u32 \<Rightarrow> LxExport list \<Rightarrow> LxExport list option" where
  "ne_build_exports exe mmaps p ordinal acc =
    (case rd8 exe p of None \<Rightarrow> None | Some numentries \<Rightarrow>
      if numentries = 0 then Some acc
      else (case rd8 exe (p + 1) of None \<Rightarrow> None | Some bundletype \<Rightarrow>
        let n = unat numentries in
        if bundletype = 0 then ne_build_exports exe mmaps (p + 2) (ordinal + ucast numentries) acc
        else (case (if bundletype = 0xFF then ne_movable_entries exe mmaps n (p + 2) ordinal
                    else ne_fixed_entries exe mmaps bundletype n (p + 2) ordinal) of None \<Rightarrow> None
          | Some es \<Rightarrow> ne_build_exports exe mmaps (p + 2 + (if bundletype = 0xFF then 6 else 3) * n)
              (ordinal + ucast numentries) (acc @ es))))"
  by pat_completeness auto
termination
  by (relation "measure (\<lambda>(exe, mmaps, p, ordinal, acc). length exe - p)") (auto simp: rd8_eq_Some_iff)

declare ne_build_exports.simps [simp del]

subsection \<open>Name tables\<close>

text \<open>
  The inner loop: the first export with the ordinal gets the name.  A name is a C string, so it
  ends at its first zero byte.
\<close>

fun name_first :: "u16 \<Rightarrow> bytes \<Rightarrow> LxExport list \<Rightarrow> LxExport list" where
  "name_first ordinal name [] = []"
| "name_first ordinal name (e # es) =
    (if ex_ordinal e = ucast ordinal then e\<lparr>ex_name := Some name\<rparr> # es
     else e # name_first ordinal name es)"

function loadLxNameTable :: "bytes \<Rightarrow> nat \<Rightarrow> LxExport list \<Rightarrow> LxExport list option" where
  "loadLxNameTable exe p exports =
    (case rd8 exe p of None \<Rightarrow> None | Some namelen \<Rightarrow>
      if namelen = 0 then Some exports
      else (case rd_blk exe (p + 1) (unat namelen) of None \<Rightarrow> None | Some name \<Rightarrow>
        (case rd16 exe (p + 1 + unat namelen) of None \<Rightarrow> None | Some ordinal \<Rightarrow>
          loadLxNameTable exe (p + 1 + unat namelen + 2)
            (if ordinal = 0 then exports else name_first ordinal (takeWhile (\<lambda>c. c \<noteq> 0) name) exports))))"
  by pat_completeness auto
termination
  by (relation "measure (\<lambda>(exe, p, exports). length exe - p)") (auto simp: rd8_eq_Some_iff)

declare loadLxNameTable.simps [simp del]

subsection \<open>Lookup\<close>

text \<open>
  The answer of a lookup: the export and the address the code returns for it, or the request for
  a trampoline that reports the missing entry point.  \<open>deref\<close> reads the pointer at an address
  (16-bit bridges store one there).
\<close>

datatype proc = Proc u32 LxExport | Missing

definition bridged :: "LxExport \<Rightarrow> bool" where
  "bridged e \<longleftrightarrow> (case ex_object e of None \<Rightarrow> False | Some m \<Rightarrow> mm_alias m \<noteq> 0xFFFF)"

fun getModuleProcAddrByOrdinal :: "(u32 \<Rightarrow> u32 option) \<Rightarrow> LxExport list \<Rightarrow> u32 \<Rightarrow> bool \<Rightarrow> proc option" where
  "getModuleProcAddrByOrdinal deref [] ordinal native = Some Missing"
| "getModuleProcAddrByOrdinal deref (e # es) ordinal native =
    (if ex_ordinal e = ordinal then
       if native \<and> bridged e then map_option (\<lambda>a. Proc a e) (deref (ex_addr e))
       else Some (Proc (ex_addr e) e)
     else getModuleProcAddrByOrdinal deref es ordinal native)"

text \<open>\<^verbatim>\<open>strcmp\<close> on an export without a name (a null pointer) is a fault.\<close>

fun getModuleProcAddrByName :: "(u32 \<Rightarrow> u32 option) \<Rightarrow> LxExport list \<Rightarrow> bytes \<Rightarrow> proc option" where
  "getModuleProcAddrByName deref [] name = Some Missing"
| "getModuleProcAddrByName deref (e # es) name =
    (case ex_name e of None \<Rightarrow> None | Some n \<Rightarrow>
       if n = name then
         if bridged e then map_option (\<lambda>a. Proc a e) (deref (ex_addr e))
         else Some (Proc (ex_addr e) e)
       else getModuleProcAddrByName deref es name)"

subsection \<open>The two passes agree\<close>

text \<open>
  The ordinals of a run of exports: strictly ascending, all at least \<open>a\<close> and less than \<open>b\<close>.
\<close>

definition ordinals_in :: "nat \<Rightarrow> nat \<Rightarrow> LxExport list \<Rightarrow> bool" where
  "ordinals_in a b es \<longleftrightarrow> sorted_wrt (<) (map (\<lambda>e. unat (ex_ordinal e)) es)
     \<and> (\<forall>e \<in> set es. a \<le> unat (ex_ordinal e) \<and> unat (ex_ordinal e) < b)"

lemma ordinals_in_Nil [simp]: "ordinals_in a b []"
  by (simp add: ordinals_in_def)

lemma ordinals_in_append:
  "ordinals_in a b xs \<Longrightarrow> ordinals_in b c ys \<Longrightarrow> a \<le> b \<Longrightarrow> b \<le> c \<Longrightarrow> ordinals_in a c (xs @ ys)"
  unfolding ordinals_in_def by (fastforce simp: sorted_wrt_append)

lemma ordinals_in_mono: "ordinals_in a b xs \<Longrightarrow> b \<le> c \<Longrightarrow> ordinals_in a c xs"
  unfolding ordinals_in_def by fastforce

lemma ordinals_in_Cons:
  "unat (ex_ordinal e) = a \<Longrightarrow> ordinals_in (Suc a) b es \<Longrightarrow> a < b \<Longrightarrow> ordinals_in a b (e # es)"
  unfolding ordinals_in_def by (auto simp: less_eq_Suc_le)

lemma ordinals_in_distinct: "ordinals_in a b es \<Longrightarrow> distinct (map ex_ordinal es)"
  unfolding ordinals_in_def
  by (induction es) (auto simp: word_less_nat_alt)

lemma unat_add_of_nat: "unat a + n < 4294967296 \<Longrightarrow> unat (a + of_nat n :: u32) = unat a + n"
  by (subst unat_add_small) (simp_all add: unat_of_nat_u32)

lemma unat_inc_u32: "unat a + 1 < 4294967296 \<Longrightarrow> unat (a + 1 :: u32) = Suc (unat a)"
  using unat_add_of_nat [of a 1] by simp

lemma lx_entries_facts:
  "lx_entries exe wide obj n p ordinal = Some es \<Longrightarrow> unat ordinal + n < 4294967296 \<Longrightarrow>
    length es = n \<and> ordinals_in (unat ordinal) (unat ordinal + n) es \<and> (\<forall>e \<in> set es. ex_object e = Some obj)"
proof (induction exe wide obj n p ordinal arbitrary: es rule: lx_entries.induct)
  case (2 exe wide obj n p ordinal)
  then show ?case
    by (auto simp: unat_inc_u32 bind_eq_Some_conv split: if_splits intro!: ordinals_in_Cons)
qed simp

lemma ne_movable_entries_facts:
  "ne_movable_entries exe mmaps n p ordinal = Some es \<Longrightarrow> unat ordinal + n < 4294967296 \<Longrightarrow>
    length es = n \<and> ordinals_in (unat ordinal) (unat ordinal + n) es
      \<and> (\<forall>e \<in> set es. \<exists>m \<in> set mmaps. ex_object e = Some m)"
proof (induction exe mmaps n p ordinal arbitrary: es rule: ne_movable_entries.induct)
  case (2 exe mmaps n p ordinal)
  then show ?case
    by (auto simp: unat_inc_u32 bind_eq_Some_conv Let_def intro!: ordinals_in_Cons)
qed simp

lemma ne_fixed_entries_facts:
  "ne_fixed_entries exe mmaps bt n p ordinal = Some es \<Longrightarrow> unat ordinal + n < 4294967296 \<Longrightarrow>
    length es = n \<and> ordinals_in (unat ordinal) (unat ordinal + n) es
      \<and> (\<forall>e \<in> set es. \<exists>m \<in> set mmaps. ex_object e = Some m)"
proof (induction exe mmaps bt n p ordinal arbitrary: es rule: ne_fixed_entries.induct)
  case (2 exe mmaps bt n p ordinal)
  then show ?case
    by (auto simp: unat_inc_u32 bind_eq_Some_conv Let_def intro!: ordinals_in_Cons)
qed simp

text \<open>A table cannot make the 32-bit ordinal wrap when it has at most 32 MiB.\<close>

lemma lx_build_exports_facts:
  "lx_build_exports exe mmaps p ordinal acc = Some (Some es) \<Longrightarrow> lx_count_ordinals exe p k = Some n \<Longrightarrow>
    unat ordinal + 128 * (length exe - p) < 4294967296 \<Longrightarrow> ordinals_in 1 (unat ordinal) acc \<Longrightarrow>
    1 \<le> unat ordinal \<Longrightarrow>
    length es + k = length acc + n \<and> ordinals_in 1 4294967296 es"
proof (induction exe mmaps p ordinal acc arbitrary: k rule: lx_build_exports.induct)
  case (1 exe mmaps p ordinal acc)
  note IH = "1.IH" and build = "1.prems"(1) and cnt = "1.prems"(2)
    and room = "1.prems"(3) and acc = "1.prems"(4) and pos = "1.prems"(5)
  obtain ne where ne: "rd8 exe p = Some ne"
    using build by (subst (asm) lx_build_exports.simps) (auto split: option.splits)
  show ?case
  proof (cases "ne = 0")
    case True
    then show ?thesis using build cnt ne acc
      by (subst (asm) lx_build_exports.simps, subst (asm) lx_count_ordinals.simps)
        (auto intro: ordinals_in_mono [OF _ less_imp_le [OF unat_u32_less(1)]])
  next
    case False
    obtain t where t: "rd8 exe (p + 1) = Some t"
      using build ne False by (subst (asm) lx_build_exports.simps) (auto split: option.splits)
    have p: "Suc p < length exe" using t by (simp add: rd8_eq_Some_iff)
    have small: "unat ordinal + unat ne < 4294967296" 
      using room p unat_u8_less(1) [of ne] by linarith
    have ord: "unat (ordinal + ucast ne) = unat ordinal + unat ne"
      using small by (simp add: unat_add_small)
    have room': "unat (ordinal + ucast ne) + 128 * (length exe - q) < 4294967296" if "p + 2 \<le> q" for q
    proof -
      have "length exe - q \<le> length exe - p - 2" using that by simp
      then show ?thesis using room p unat_u8_less(1) [of ne] unfolding ord by linarith
    qed
    let ?b = "t AND NOT 0x80"
    show ?thesis
    proof (cases "?b = 0")
      case True
      have b: "lx_build_exports exe mmaps (p + 2) (ordinal + ucast ne) acc = Some (Some es)"
        using build ne t False True by (subst (asm) lx_build_exports.simps) simp
      have c: "lx_count_ordinals exe (p + 2) k = Some n"
        using cnt ne t False True by (subst (asm) lx_count_ordinals.simps) simp
      show ?thesis
        by (rule IH(1) [OF ne False t refl refl True b c room'])
          (use acc pos in \<open>auto simp: ord intro: ordinals_in_mono\<close>)
    next
      case nz: False
      have b13: "?b = 1 \<or> ?b = 3"
        using build ne t False nz by (subst (asm) lx_build_exports.simps) (auto simp: Let_def split: if_splits)
      obtain oi where oi: "rd16 exe (p + 2) = Some oi"
        using build ne t False nz b13 by (subst (asm) lx_build_exports.simps) (auto simp: Let_def split: option.splits)
      have idx: "unat (oi - 1) < length mmaps"
        using build ne t False nz b13 oi by (subst (asm) lx_build_exports.simps) (auto simp: Let_def split: if_splits)
      obtain xs where xs: "lx_entries exe (?b = 3) (mmaps ! unat (oi - 1)) (unat ne) (p + 4) ordinal = Some xs"
        using build ne t False nz b13 oi idx
        by (subst (asm) lx_build_exports.simps) (auto simp: Let_def split: option.splits)
      have b: "lx_build_exports exe mmaps (p + 4 + (if ?b = 3 then 5 else 3) * unat ne) (ordinal + ucast ne) (acc @ xs)
          = Some (Some es)"
        using build ne t False nz b13 oi idx xs by (subst (asm) lx_build_exports.simps) (simp add: Let_def)
      have c: "lx_count_ordinals exe (p + 4 + (if ?b = 3 then 5 else 3) * unat ne) (k + unat ne) = Some n"
        using cnt ne t False nz b13 by (subst (asm) lx_count_ordinals.simps) (auto simp: ac_simps numeral_eq_Suc)
      note f = lx_entries_facts [OF xs small]
      have "length es + (k + unat ne) = length (acc @ xs) + n \<and> ordinals_in 1 4294967296 es"
      proof (rule IH(2) [OF ne False t refl refl nz b13 oi refl _ xs b c room'])
        show "\<not> \<not> unat (oi - 1) < length mmaps" using idx by simp
        show "ordinals_in 1 (unat (ordinal + ucast ne)) (acc @ xs)"
          unfolding ord using acc f pos by (auto intro: ordinals_in_append)
      qed (use pos in \<open>auto simp: ord\<close>)
      then show ?thesis using f by simp
    qed
  qed
qed

lemma ne_build_exports_facts:
  "ne_build_exports exe mmaps p ordinal acc = Some es \<Longrightarrow> ne_count_ordinals exe p k = Some n \<Longrightarrow>
    unat ordinal + 128 * (length exe - p) < 4294967296 \<Longrightarrow> ordinals_in 1 (unat ordinal) acc \<Longrightarrow>
    1 \<le> unat ordinal \<Longrightarrow>
    length es + k \<le> length acc + n \<and> ordinals_in 1 4294967296 es"
proof (induction exe mmaps p ordinal acc arbitrary: k rule: ne_build_exports.induct)
  case (1 exe mmaps p ordinal acc)
  note IH = "1.IH" and build = "1.prems"(1) and cnt = "1.prems"(2)
    and room = "1.prems"(3) and acc = "1.prems"(4) and pos = "1.prems"(5)
  obtain ne where ne: "rd8 exe p = Some ne"
    using build by (subst (asm) ne_build_exports.simps) (auto split: option.splits)
  show ?case
  proof (cases "ne = 0")
    case True
    then show ?thesis using build cnt ne acc
      by (subst (asm) ne_build_exports.simps, subst (asm) ne_count_ordinals.simps)
        (auto intro: ordinals_in_mono [OF _ less_imp_le [OF unat_u32_less(1)]])
  next
    case False
    obtain t where t: "rd8 exe (p + 1) = Some t"
      using build ne False by (subst (asm) ne_build_exports.simps) (auto split: option.splits)
    have p: "Suc p < length exe" using t by (simp add: rd8_eq_Some_iff)
    have small: "unat ordinal + unat ne < 4294967296" 
      using room p unat_u8_less(1) [of ne] by linarith
    have ord: "unat (ordinal + ucast ne) = unat ordinal + unat ne"
      using small by (simp add: unat_add_small)
    have room': "unat (ordinal + ucast ne) + 128 * (length exe - q) < 4294967296" if "p + 2 \<le> q" for q
    proof -
      have "length exe - q \<le> length exe - p - 2" using that by simp
      then show ?thesis using room p unat_u8_less(1) [of ne] unfolding ord by linarith
    qed
    show ?thesis
    proof (cases "t = 0")
      case True
      have b: "ne_build_exports exe mmaps (p + 2) (ordinal + ucast ne) acc = Some es"
        using build ne t False True by (subst (asm) ne_build_exports.simps) simp
      have c: "ne_count_ordinals exe (p + 2) (k + unat ne) = Some n"
        using cnt ne t False True by (subst (asm) ne_count_ordinals.simps) simp
      have "length es + (k + unat ne) \<le> length acc + n \<and> ordinals_in 1 4294967296 es"
        by (rule IH(1) [OF ne False t refl True b c room'])
          (use acc pos in \<open>auto simp: ord intro: ordinals_in_mono\<close>)
      then show ?thesis by simp
    next
      case nz: False
      let ?es = "if t = 0xFF then ne_movable_entries exe mmaps (unat ne) (p + 2) ordinal
                 else ne_fixed_entries exe mmaps t (unat ne) (p + 2) ordinal"
      obtain xs where xs: "?es = Some xs"
        using build ne t False nz by (subst (asm) ne_build_exports.simps) (auto simp: Let_def split: option.splits)
      have b: "ne_build_exports exe mmaps (p + 2 + (if t = 0xFF then 6 else 3) * unat ne) (ordinal + ucast ne) (acc @ xs)
          = Some es"
        using build ne t False nz xs by (subst (asm) ne_build_exports.simps) (simp add: Let_def)
      have c: "ne_count_ordinals exe (p + 2 + (if t = 0xFF then 6 else 3) * unat ne) (k + unat ne) = Some n"
        using cnt ne t False nz by (subst (asm) ne_count_ordinals.simps) simp
      have f: "length xs = unat ne \<and> ordinals_in (unat ordinal) (unat ordinal + unat ne) xs"
        using xs small by (auto split: if_splits dest: ne_movable_entries_facts ne_fixed_entries_facts)
      have "length es + (k + unat ne) \<le> length (acc @ xs) + n \<and> ordinals_in 1 4294967296 es"
      proof (rule IH(2) [OF ne False t refl nz xs b c room'])
        show "ordinals_in 1 (unat (ordinal + ucast ne)) (acc @ xs)"
          unfolding ord using acc f pos by (auto intro: ordinals_in_append)
      qed (use pos in \<open>auto simp: ord\<close>)
      then show ?thesis using f by simp
    qed
  qed
qed

subsection \<open>Names change nothing but names\<close>

text \<open>What a name table must keep: number, ordinals, addresses and objects, in their order.\<close>

definition nameless :: "LxExport list \<Rightarrow> LxExport list" where
  "nameless = map (\<lambda>e. e\<lparr>ex_name := None\<rparr>)"

lemma nameless_name_first [simp]: "nameless (name_first ordinal name es) = nameless es"
  by (induction es) (auto simp: nameless_def)

lemma nameless_ordinals: "map ex_ordinal es = map ex_ordinal (nameless es)"
  by (simp add: nameless_def)

lemma nameless_length: "length es = length (nameless es)"
  by (simp add: nameless_def)

lemma nameless_loadLxNameTable: "loadLxNameTable exe p es = Some es' \<Longrightarrow> nameless es' = nameless es"
proof (induction exe p es rule: loadLxNameTable.induct)
  case (1 exe p es)
  show ?case using "1.prems"
    by (subst (asm) loadLxNameTable.simps) (auto simp: "1.IH" split: option.splits if_splits)
qed

lemma nameless_eqD:
  assumes "nameless es' = nameless es"
  shows "length es' = length es" "map ex_ordinal es' = map ex_ordinal es"
  using assms nameless_length nameless_ordinals by metis+

lemma ordinals_in_nameless: "nameless es' = nameless es \<Longrightarrow> ordinals_in a b es \<Longrightarrow> ordinals_in a b es'"
proof -
  assume eq: "nameless es' = nameless es" and o: "ordinals_in a b es"
  have m: "map (\<lambda>e. unat (ex_ordinal e)) es' = map (\<lambda>e. unat (ex_ordinal e)) es"
    using nameless_eqD(2) [OF eq] by (metis (no_types) list.map_comp [unfolded comp_def, of unat ex_ordinal])
  have "(\<lambda>e. unat (ex_ordinal e)) ` set es' = (\<lambda>e. unat (ex_ordinal e)) ` set es"
    using m by (metis list.set_map)
  moreover have "\<forall>k \<in> (\<lambda>e. unat (ex_ordinal e)) ` set es. a \<le> k \<and> k < b"
    using o by (auto simp: ordinals_in_def)
  ultimately have "\<forall>k \<in> (\<lambda>e. unat (ex_ordinal e)) ` set es'. a \<le> k \<and> k < b" by simp
  then show ?thesis using o m unfolding ordinals_in_def by simp
qed

subsection \<open>Lookup finds what was built\<close>

lemma getModuleProcAddrByOrdinal_found:
  "distinct (map ex_ordinal es) \<Longrightarrow> e \<in> set es \<Longrightarrow>
    getModuleProcAddrByOrdinal deref es (ex_ordinal e) native =
      (if native \<and> bridged e then map_option (\<lambda>a. Proc a e) (deref (ex_addr e)) else Some (Proc (ex_addr e) e))"
  by (induction es) auto

lemma getModuleProcAddrByOrdinal_missing:
  "ordinal \<notin> ex_ordinal ` set es \<Longrightarrow> getModuleProcAddrByOrdinal deref es ordinal native = Some Missing"
  by (induction es) auto

lemma getModuleProcAddrByName_found:
  "distinct (map ex_name es) \<Longrightarrow> \<forall>x \<in> set es. ex_name x \<noteq> None \<Longrightarrow> e \<in> set es \<Longrightarrow> ex_name e = Some name \<Longrightarrow>
    getModuleProcAddrByName deref es name =
      (if bridged e then map_option (\<lambda>a. Proc a e) (deref (ex_addr e)) else Some (Proc (ex_addr e) e))"
  by (induction es) (auto split: option.splits simp: image_iff)

text \<open>
  C12.  An LX module's export array.  The first pass over the entry table sizes the array and the
  second fills it: the second writes exactly as many exports as the first counted, so the heap
  block is neither overrun nor left with unwritten entries.  The ordinals are distinct, and after
  a name table has been read every export is still found under its ordinal with its address.
\<close>

theorem lx_exports_fit:
  assumes "lx_count_ordinals exe p 0 = Some n"
    and "lx_build_exports exe mmaps p 1 [] = Some (Some es)"
    and "loadLxNameTable exe' q es = Some es'"
    and "length exe < 33554432"
  shows "length es' = n \<and> distinct (map ex_ordinal es')
    \<and> (\<forall>e \<in> set es'. getModuleProcAddrByOrdinal deref es' (ex_ordinal e) False = Some (Proc (ex_addr e) e))"
proof -
  have "length es + 0 = length ([] :: LxExport list) + n \<and> ordinals_in 1 4294967296 es"
    by (rule lx_build_exports_facts [OF assms(2,1)]) (use assms(4) in auto)
  then have es: "length es = n" "ordinals_in 1 4294967296 es" by auto
  have nl: "nameless es' = nameless es" by (rule nameless_loadLxNameTable [OF assms(3)])
  have d: "distinct (map ex_ordinal es')"
    by (rule ordinals_in_distinct [OF ordinals_in_nameless [OF nl es(2)]])
  show ?thesis using d es nameless_eqD(1) [OF nl] by (simp add: getModuleProcAddrByOrdinal_found)
qed

definition demo_mmap :: LxMmaps where
  "demo_mmap = \<lparr>mm_mapped = 0x10000, mm_addr = 0x10000, mm_size = 0x1000, mm_prot = 5, mm_alias = 0xFFFF\<rparr>"

definition demo_entries :: bytes where
  "demo_entries = [2, 3, 1, 0, 3, 0x10, 0, 0, 0, 3, 0x20, 0, 0, 0, 4, 0, 1, 1, 1, 0, 3, 0x30, 0, 0]"

definition demo_names :: bytes where
  "demo_names = [2, 0x41, 0x42, 1, 0, 1, 0x43, 7, 0, 0]"

definition demo_exports :: "LxExport list" where
  "demo_exports =
    [\<lparr>ex_ordinal = 1, ex_name = None, ex_addr = 0x10010, ex_object = Some demo_mmap\<rparr>,
     \<lparr>ex_ordinal = 2, ex_name = None, ex_addr = 0x10020, ex_object = Some demo_mmap\<rparr>,
     \<lparr>ex_ordinal = 7, ex_name = None, ex_addr = 0x10030, ex_object = Some demo_mmap\<rparr>]"

definition demo_named :: "LxExport list" where
  "demo_named =
    [\<lparr>ex_ordinal = 1, ex_name = Some [0x41, 0x42], ex_addr = 0x10010, ex_object = Some demo_mmap\<rparr>,
     \<lparr>ex_ordinal = 2, ex_name = None, ex_addr = 0x10020, ex_object = Some demo_mmap\<rparr>,
     \<lparr>ex_ordinal = 7, ex_name = Some [0x43], ex_addr = 0x10030, ex_object = Some demo_mmap\<rparr>]"

lemma demo_count: "lx_count_ordinals demo_entries 0 0 = Some 3"
  by code_simp

lemma demo_build: "lx_build_exports demo_entries [demo_mmap] 0 1 [] = Some (Some demo_exports)"
  by code_simp

lemma demo_load: "loadLxNameTable demo_names 0 demo_exports = Some demo_named"
  by code_simp

theorem lx_exports_fit_witness:
  "length demo_named = 3 \<and> distinct (map ex_ordinal demo_named)
    \<and> list_all (\<lambda>e. getModuleProcAddrByOrdinal (\<lambda>_. None) demo_named (ex_ordinal e) False = Some (Proc (ex_addr e) e)) demo_named"
  using lx_exports_fit [OF demo_count demo_build demo_load, of "\<lambda>_. None"]
  by (simp add: list_all_iff demo_entries_def)

text \<open>
  C13.  The same for an NE module, whose first pass also counts the unused ordinals: the second
  pass never writes past the array.
\<close>

theorem ne_exports_fit:
  assumes "ne_count_ordinals exe p 0 = Some n"
    and "ne_build_exports exe mmaps p 1 [] = Some es"
    and "loadLxNameTable exe' q es = Some es'"
    and "length exe < 33554432"
  shows "length es' \<le> n \<and> distinct (map ex_ordinal es')
    \<and> (\<forall>e \<in> set es'. getModuleProcAddrByOrdinal deref es' (ex_ordinal e) False = Some (Proc (ex_addr e) e))"
proof -
  have "length es + 0 \<le> length ([] :: LxExport list) + n \<and> ordinals_in 1 4294967296 es"
    by (rule ne_build_exports_facts [OF assms(2,1)]) (use assms(4) in auto)
  then have es: "length es \<le> n" "ordinals_in 1 4294967296 es" by auto
  have nl: "nameless es' = nameless es" by (rule nameless_loadLxNameTable [OF assms(3)])
  have d: "distinct (map ex_ordinal es')"
    by (rule ordinals_in_distinct [OF ordinals_in_nameless [OF nl es(2)]])
  show ?thesis using d es nameless_eqD(1) [OF nl] by (simp add: getModuleProcAddrByOrdinal_found)
qed

definition demo_ne_entries :: bytes where
  "demo_ne_entries = [2, 1, 3, 0x10, 0, 3, 0x20, 0, 4, 0, 1, 0xFF, 3, 0xCD, 0x3F, 1, 0x30, 0, 0]"

lemma demo_ne_count: "ne_count_ordinals demo_ne_entries 0 0 = Some 7"
  by code_simp

lemma demo_ne_build: "ne_build_exports demo_ne_entries [demo_mmap] 0 1 [] = Some demo_exports"
  by code_simp

theorem ne_exports_fit_witness:
  "length demo_named \<le> 7 \<and> distinct (map ex_ordinal demo_named)
    \<and> list_all (\<lambda>e. getModuleProcAddrByOrdinal (\<lambda>_. None) demo_named (ex_ordinal e) False = Some (Proc (ex_addr e) e)) demo_named"
  using ne_exports_fit [OF demo_ne_count demo_ne_build demo_load, of "\<lambda>_. None"]
  by (simp add: list_all_iff demo_ne_entries_def)

subsection \<open>Name tables round trip\<close>

text \<open>A name table as the linker writes it.\<close>

definition enc_name :: "bytes \<times> u16 \<Rightarrow> bytes" where
  "enc_name = (\<lambda>(name, ordinal). of_nat (length name) # name @ bytes16 ordinal)"

definition enc_names :: "(bytes \<times> u16) list \<Rightarrow> bytes" where
  "enc_names ns = concat (map enc_name ns) @ [0]"

definition good_name :: "bytes \<times> u16 \<Rightarrow> bool" where
  "good_name = (\<lambda>(name, ordinal). 0 < length name \<and> length name < 256 \<and> 0 \<notin> set name \<and> ordinal \<noteq> 0)"

lemma takeWhile_no_zero: "0 \<notin> set xs \<Longrightarrow> takeWhile (\<lambda>c. c \<noteq> 0) xs = (xs :: bytes)"
  by (induction xs) auto

lemma nonzero_length_byte: "0 < n \<Longrightarrow> n < 256 \<Longrightarrow> (of_nat n :: u8) \<noteq> 0"
  using unat_of_nat_u8 [of n] by (metis less_irrefl unsigned_0)

lemma rd_at_prefix:
  "rd8 (pre @ b # xs) (length pre) = Some b"
  "rd_blk (pre @ b # xs @ ys) (length pre + 1) (length xs) = Some xs"
  "rd16 (pre @ b # xs @ bytes16 v @ zs) (length pre + 1 + length xs) = Some v"
  by (simp_all add: rd8_def rd_blk_def rd16_def nth_append bytes16_def le16_bytes16)

lemma loadLxNameTable_enc:
  "\<forall>x \<in> set ns. good_name x \<Longrightarrow>
    loadLxNameTable (pre @ enc_names ns @ post) (length pre) es
      = Some (fold (\<lambda>(name, ordinal). name_first ordinal name) ns es)"
proof (induction ns arbitrary: pre es)
  case Nil
  show ?case by (subst loadLxNameTable.simps) (simp add: enc_names_def rd8_def nth_append)
next
  case (Cons x ns)
  obtain name ord where x: "x = (name, ord)" by (cases x)
  have g: "0 < length name" "length name < 256" "0 \<notin> set name" "ord \<noteq> 0"
    using Cons.prems by (auto simp: x good_name_def)
  let ?t = "pre @ enc_names (x # ns) @ post"
  have t: "?t = pre @ of_nat (length name) # name @ bytes16 ord @ enc_names ns @ post"
    by (simp add: x enc_names_def enc_name_def)
  have t': "?t = (pre @ of_nat (length name) # name @ bytes16 ord) @ enc_names ns @ post"
    by (simp add: t)
  have "loadLxNameTable ?t (length pre) es
      = loadLxNameTable ?t (length pre + 1 + length name + 2) (name_first ord name es)"
    unfolding t
    by (subst loadLxNameTable.simps)
      (simp add: rd_at_prefix [simplified] unat_of_nat_u8 g nonzero_length_byte [OF g(1,2)] takeWhile_no_zero)
  also have "length pre + 1 + length name + 2 = length (pre @ of_nat (length name) # name @ bytes16 ord)"
    by simp
  also have "loadLxNameTable ?t (length (pre @ of_nat (length name) # name @ bytes16 ord)) (name_first ord name es)
      = Some (fold (\<lambda>(name, ordinal). name_first ordinal name) ns (name_first ord name es))"
    unfolding t' by (rule Cons.IH) (use Cons.prems in auto)
  finally show ?case by (simp add: x)
qed

definition with_name :: "(u16 \<rightharpoonup> bytes) \<Rightarrow> LxExport \<Rightarrow> LxExport" where
  "with_name f e = (if unat (ex_ordinal e) < 65536
     then (case f (ucast (ex_ordinal e)) of None \<Rightarrow> e | Some name \<Rightarrow> e\<lparr>ex_name := Some name\<rparr>) else e)"

lemma ucast_eq_iff_u32: "x = (ucast (v :: u16) :: u32) \<longleftrightarrow> unat x < 65536 \<and> ucast x = v"
proof
  assume r: "unat x < 65536 \<and> ucast x = v"
  have "unat (ucast x :: u16) = unat x"
    using conjunct1 [OF r] by (simp add: unsigned_ucast_eq take_bit_nat_eq_self)
  then show "x = ucast v" using r by (metis unat_ucast_u16_u32 word_unat_eq_iff)
qed (auto simp: word_unat_eq_iff unsigned_ucast_eq take_bit_nat_eq_self)

lemma with_name_single:
  "with_name [ordinal \<mapsto> name] e = (if ex_ordinal e = ucast ordinal then e\<lparr>ex_name := Some name\<rparr> else e)"
  by (auto simp: with_name_def ucast_eq_iff_u32)

lemma name_first_with_name:
  "distinct (map ex_ordinal es) \<Longrightarrow> name_first ordinal name es = map (with_name [ordinal \<mapsto> name]) es"
proof (induction es)
  case (Cons e es)
  have "map (\<lambda>a. if ex_ordinal a = ucast ordinal then a\<lparr>ex_name := Some name\<rparr> else a) es = es" if "ex_ordinal e = ucast ordinal"
    using Cons.prems that by (intro map_idI) (force simp: with_name_single image_iff)
  then show ?case using Cons by (cases "ex_ordinal e = ucast ordinal") (simp_all add: with_name_single del: fun_upd_apply)
qed simp

lemma ordinal_with_name [simp]: "ex_ordinal (with_name f e) = ex_ordinal e"
  by (simp add: with_name_def split: option.splits)

lemma with_name_with_name: "with_name g (with_name f e) = with_name (f ++ g) e"
  by (auto simp: with_name_def map_add_def split: option.splits)

lemma with_name_empty [simp]: "with_name Map.empty = (\<lambda>e. e)"
  by (simp add: with_name_def fun_eq_iff)

lemma fold_name_first:
  "distinct (map ex_ordinal es) \<Longrightarrow>
    fold (\<lambda>(name, ordinal). name_first ordinal name) ns es
      = map (with_name (map_of (rev (map prod.swap ns)))) es"
proof (induction ns arbitrary: es)
  case (Cons x ns)
  obtain name ord where x: "x = (name, ord)" by (cases x)
  have d: "distinct (map ex_ordinal (map (with_name [ord \<mapsto> name]) es))"
    using Cons.prems by (simp add: comp_def)
  show ?case
    using Cons.IH [OF d] name_first_with_name [OF Cons.prems]
    by (simp add: x with_name_with_name)
qed simp

text \<open>
  C14.  Reading a name table and looking names up again.  For a table with distinct names and
  distinct ordinals that names every export of the module, reading it succeeds, and looking up a
  name of the table afterwards finds the export with the ordinal the table gives it.
\<close>

theorem name_lookup_roundtrip:
  assumes names: "\<forall>x \<in> set ns. good_name x" "distinct (map fst ns)" "distinct (map snd ns)"
    and es: "distinct (map ex_ordinal es)"
    and all: "\<forall>e \<in> set es. \<exists>x \<in> set ns. ex_ordinal e = ucast (snd x)"
    and here: "(name, ordinal) \<in> set ns" "e \<in> set es" "ex_ordinal e = ucast ordinal" "\<not> bridged e"
  shows "\<exists>es'. loadLxNameTable (pre @ enc_names ns @ post) (length pre) es = Some es'
    \<and> getModuleProcAddrByName deref es' name = Some (Proc (ex_addr e) (e\<lparr>ex_name := Some name\<rparr>))"
proof -
  let ?m = "map_of (rev (map prod.swap ns))"
  have fsts: "map fst (map prod.swap ns) = map snd ns" by (simp add: comp_def)
  have keys: "distinct (map fst (rev (map prod.swap ns)))"
    using names(3) by (simp only: rev_map [symmetric] distinct_rev fsts)
  have m: "?m k = Some n \<longleftrightarrow> (n, k) \<in> set ns" for k n
    using map_of_eq_Some_iff [OF keys, of k n] by force
  have wn: "with_name ?m x = x\<lparr>ex_name := Some n\<rparr>" if "(n, k) \<in> set ns" "ex_ordinal x = ucast k" for x n k
    using that m [of k n] by (simp add: with_name_def ucast_eq_iff_u32)
  let ?es = "map (with_name ?m) es"
  have load: "loadLxNameTable (pre @ enc_names ns @ post) (length pre) es = Some ?es"
    using loadLxNameTable_enc [OF names(1)] fold_name_first [OF es] by simp
  have nm: "\<exists>n k. (n, k) \<in> set ns \<and> ex_ordinal x = ucast k \<and> ex_name (with_name ?m x) = Some n" if "x \<in> set es" for x
    using all that wn by fastforce
  have "inj_on (\<lambda>x. ex_name (with_name ?m x)) (set es)"
  proof (rule inj_onI)
    fix x y assume xy: "x \<in> set es" "y \<in> set es" "ex_name (with_name ?m x) = ex_name (with_name ?m y)"
    obtain n k where a: "(n, k) \<in> set ns" "ex_ordinal x = ucast k" "ex_name (with_name ?m x) = Some n"
      using nm [OF xy(1)] by blast
    obtain n' k' where b: "(n', k') \<in> set ns" "ex_ordinal y = ucast k'" "ex_name (with_name ?m y) = Some n'"
      using nm [OF xy(2)] by blast
    have "k = k'" using names(2) a b xy(3) by (metis eq_key_imp_eq_value option.inject)
    then have "ex_ordinal x = ex_ordinal y" using a b by simp
    then show "x = y" using es xy by (auto simp: distinct_map inj_on_def)
  qed
  then have dist: "distinct (map ex_name ?es)"
    using es by (simp add: distinct_map comp_def)
  have some: "\<forall>x \<in> set ?es. ex_name x \<noteq> None" using nm by fastforce
  have e: "e\<lparr>ex_name := Some name\<rparr> \<in> set ?es"
    using wn [OF here(1,3)] here(2) by (metis image_eqI list.set_map)
  have "\<not> bridged (e\<lparr>ex_name := Some name\<rparr>)" using here(4) by (simp add: bridged_def)
  then have "getModuleProcAddrByName deref ?es name = Some (Proc (ex_addr e) (e\<lparr>ex_name := Some name\<rparr>))"
    using getModuleProcAddrByName_found [OF dist some e] by simp
  then show ?thesis using load by blast
qed

definition demo_names_list :: "(bytes \<times> u16) list" where
  "demo_names_list = [([0x41], 2), ([0x42, 0x43], 1), ([0x44], 7)]"

theorem name_lookup_roundtrip_witness:
  "\<exists>es'. loadLxNameTable ([9] @ enc_names demo_names_list @ []) (length [9 :: u8]) demo_exports = Some es'
    \<and> getModuleProcAddrByName (\<lambda>_. None) es' [0x42, 0x43]
      = Some (Proc (ex_addr (hd demo_exports)) ((hd demo_exports)\<lparr>ex_name := Some [0x42, 0x43]\<rparr>))"
  by (rule name_lookup_roundtrip [where ordinal = 1])
    (simp_all add: demo_names_list_def demo_exports_def good_name_def bridged_def demo_mmap_def)

text \<open>
  An export without a name (an entry only exported by ordinal) is a null pointer to
  \<^verbatim>\<open>strcmp\<close>: a lookup by name that is not answered before it faults, also when a later export has
  the name.
\<close>

theorem getModuleProcAddrByName_unnamed_faults:
  assumes "\<forall>x \<in> set xs. ex_name x \<noteq> Some name" and "ex_name e = None"
  shows "getModuleProcAddrByName deref (xs @ e # ys) name = None"
  using assms(1)
proof (induction xs)
  case Nil
  show ?case using assms(2) by simp
next
  case (Cons x xs)
  then show ?case by (cases "ex_name x") auto
qed

theorem getModuleProcAddrByName_unnamed_faults_witness:
  "getModuleProcAddrByName (\<lambda>_. None) ([hd demo_named] @ hd (tl demo_named) # tl (tl demo_named)) [0x43] = None"
  by (rule getModuleProcAddrByName_unnamed_faults) (simp_all add: demo_named_def)

end
