(* ===== verification/Trampolines.thy ===== *)
theory Trampolines
  imports Exports
begin

section \<open>Trampolines for missing entry points (\<^verbatim>\<open>lx_loader.c\<close>)\<close>

text \<open>
  An import nobody provides gets a few bytes of generated code that call
  \<^verbatim>\<open>missingEntryPointCalled(module, entry)\<close>.  32-bit importers get it in a page of such code,
  16-bit importers in a 64k segment, with a switch back to 32-bit mode in front.  The state is
  the current page and the current segment with their bytes, the pages and segments already full,
  and the selector table.  \<open>host\<close> holds what comes from outside: the kernel's answers, the
  addresses \<^verbatim>\<open>strdup\<close> returns, the address of \<^verbatim>\<open>missingEntryPointCalled\<close> and the segment registers
  the loader was started with.  A store through a failed \<^verbatim>\<open>mmap\<close> is a fault.
\<close>

record host =
  h_sys :: "user_desc \<Rightarrow> bool"
  h_mmap :: "u32 \<Rightarrow> u32 option"
  h_page :: "nat \<Rightarrow> u32 option"
  h_pagesize :: u32
  h_strdup :: "bytes \<Rightarrow> u32"
  h_missing :: u32
  h_cs :: u16
  h_ss :: u16
  h_ds :: u16
  h_es :: u16

record tramps =
  t_page :: u32
  t_used :: u32
  t_mem :: bytes
  t_pages :: nat
  t_seg :: u32
  t_segused :: u32
  t_segmem :: bytes
  t_sel :: u16
  t_full :: "(u32 \<times> bytes) list"
  t_ldt :: ldt_state

subsection \<open>The code that is generated\<close>

definition call_missing :: "host \<Rightarrow> u32 \<Rightarrow> u32 \<Rightarrow> bytes" where
  "call_missing h module entry =
    [0x68] @ bytes32 entry @ [0x68] @ bytes32 module @ [0xB8] @ bytes32 (h_missing h) @ [0xFF, 0xD0]"

definition tramp32_code :: "host \<Rightarrow> u32 \<Rightarrow> u32 \<Rightarrow> bytes" where
  "tramp32_code h module entry = [0x55, 0x89, 0xE5] @ call_missing h module entry"

definition tramp16_code :: "host \<Rightarrow> u32 \<Rightarrow> u32 \<Rightarrow> u32 \<Rightarrow> bytes" where
  "tramp16_code h trampoline module entry =
    [0x89, 0xE1] @
    [0x66, 0xEA] @ bytes32 (trampoline + 4 + 6) @ bytes16 (h_cs h) @
    [0x66, 0x8C, 0xD0] @
    [0x66, 0xC1, 0xE8, 0x03] @
    [0xC1, 0xE0, 0x10] @
    [0x66, 0x89, 0xC8] @
    [0x66, 0xB9] @ bytes16 (h_ss h) @
    [0x8E, 0xD1] @
    [0x89, 0xC4] @
    (if h_ss h \<noteq> h_ds h then [0x66, 0xB9] @ bytes16 (h_ds h) else []) @
    [0x8E, 0xD9] @
    (if h_es h \<noteq> h_ds h then [0x66, 0xB9] @ bytes16 (h_es h) else []) @
    [0x8E, 0xC1] @
    call_missing h module entry"

text \<open>The fill level is kept a multiple of four.\<close>

definition align4 :: "u32 \<Rightarrow> u32" where
  "align4 used = (if used mod 4 \<noteq> 0 then used + (4 - used mod 4) else used)"

subsection \<open>Generating it\<close>

text \<open>A page, or a segment, with room for one more trampoline.\<close>

definition page_ready :: "host \<Rightarrow> tramps \<Rightarrow> tramps option" where
  "page_ready h st =
    (if t_page st = 0 \<or> h_pagesize h - t_used st < 32
     then case h_page h (t_pages st) of
         None \<Rightarrow> None
       | Some p \<Rightarrow> Some (st\<lparr>t_page := p, t_used := 0, t_mem := replicate (unat (h_pagesize h)) 0,
           t_pages := Suc (t_pages st), t_full := (if t_page st = 0 then t_full st else (t_page st, t_mem st) # t_full st)\<rparr>)
     else Some st)"

definition generateMissingTrampoline :: "host \<Rightarrow> bytes \<Rightarrow> bytes \<Rightarrow> tramps \<Rightarrow> (u32 \<times> tramps) option" where
  "generateMissingTrampoline h module entry st = do {
     st1 \<leftarrow> page_ready h st;
     let trampoline = t_page st1 + t_used st1;
     let code = tramp32_code h (h_strdup h module) (h_strdup h entry);
     mem \<leftarrow> wr_blk (t_mem st1) (unat (t_used st1)) code;
     guard (length code \<le> 32);
     Some (trampoline, st1\<lparr>t_mem := mem, t_used := align4 (t_used st1 + of_nat (length code))\<rparr>) }"

definition segment_ready :: "host \<Rightarrow> LxMmaps list list \<Rightarrow> tramps \<Rightarrow> tramps option" where
  "segment_ready h mods st =
    (if t_seg st = 0 \<or> 0x10000 - t_segused st < 64
     then case lxAllocSegment (h_sys h) (h_mmap h) mods 1 (t_ldt st) of
         None \<Rightarrow> None
       | Some (None, l) \<Rightarrow> None
       | Some (Some (seg, sel), l) \<Rightarrow>
           if seg = 0 \<or> sel = 0xFFFF then None
           else Some (st\<lparr>t_seg := seg, t_sel := sel, t_segused := 0, t_segmem := replicate 65536 0, t_ldt := l,
             t_full := (if t_seg st = 0 then t_full st else (t_seg st, t_segmem st) # t_full st)\<rparr>)
     else Some st)"

definition generateMissingTrampoline16 ::
  "host \<Rightarrow> LxMmaps list list \<Rightarrow> bytes \<Rightarrow> bytes \<Rightarrow> tramps \<Rightarrow> (u32 \<times> LxExport \<times> tramps) option" where
  "generateMissingTrampoline16 h mods module entry st = do {
     st1 \<leftarrow> segment_ready h mods st;
     let trampoline = t_seg st1 + t_segused st1;
     let code = tramp16_code h trampoline (h_strdup h module) (h_strdup h entry);
     mem \<leftarrow> wr_blk (t_segmem st1) (unat (t_segused st1)) code;
     guard (length code \<le> 64);
     Some (trampoline,
       \<lparr>ex_ordinal = 0, ex_name = None, ex_addr = trampoline,
        ex_object = Some \<lparr>mm_mapped = t_seg st1, mm_addr = t_seg st1, mm_size = 0x10000, mm_prot = 0,
          mm_alias = t_sel st1\<rparr>\<rparr>,
       st1\<lparr>t_segmem := mem, t_segused := align4 (t_segused st1 + of_nat (length code))\<rparr>) }"

subsection \<open>What the processor does with it\<close>

text \<open>
  The instructions that occur, as the processor's manual gives them: \<open>x86_run\<close> executes code at
  address \<open>ip\<close> until it calls through \<open>eax\<close>.  A far jump is followed only to the instruction
  behind it.  \<open>stk\<close> is what was pushed, the last push first.
\<close>

record cpu =
  eax :: u32
  ecx :: u32
  esp :: u32
  ebp :: u32
  cs :: u16
  ss :: u16
  ds :: u16
  es :: u16
  stk :: "u32 list"
  mode32 :: bool

datatype outcome = Calls u32 cpu | Stuck

definition low16 :: "u32 \<Rightarrow> u16 \<Rightarrow> u32" where
  "low16 r v = push_bit 16 (drop_bit 16 r) OR ucast v"

definition push :: "u32 \<Rightarrow> cpu \<Rightarrow> cpu" where
  "push v c = c\<lparr>esp := esp c - 4, stk := v # stk c\<rparr>"

definition imm32 :: "bytes \<Rightarrow> nat \<Rightarrow> u32" where
  "imm32 r k = le32 (r ! k) (r ! (k + 1)) (r ! (k + 2)) (r ! (k + 3))"

definition imm16 :: "bytes \<Rightarrow> nat \<Rightarrow> u16" where
  "imm16 r k = le16 (r ! k) (r ! (k + 1))"

function x86_run :: "bytes \<Rightarrow> u32 \<Rightarrow> cpu \<Rightarrow> outcome" where
  "x86_run [] ip c = Stuck"
| "x86_run (b # bs) ip c = (let r = b # bs in
    if \<not> mode32 c then
      if take 2 r = [0x89, 0xE1] then x86_run (drop 1 bs) (ip + 2) (c\<lparr>ecx := low16 (ecx c) (ucast (esp c))\<rparr>)
      else if take 2 r = [0x66, 0xEA] \<and> imm32 r 2 = ip + 8
        then x86_run (drop 7 bs) (ip + 8) (c\<lparr>cs := imm16 r 6, mode32 := True\<rparr>)
      else Stuck
    else if b = 0x55 then x86_run bs (ip + 1) (push (ebp c) c)
    else if take 2 r = [0x89, 0xE5] then x86_run (drop 1 bs) (ip + 2) (c\<lparr>ebp := esp c\<rparr>)
    else if b = 0x68 then x86_run (drop 4 bs) (ip + 5) (push (imm32 r 1) c)
    else if b = 0xB8 then x86_run (drop 4 bs) (ip + 5) (c\<lparr>eax := imm32 r 1\<rparr>)
    else if take 2 r = [0xFF, 0xD0] then Calls (eax c) c
    else if take 3 r = [0x66, 0x8C, 0xD0] then x86_run (drop 2 bs) (ip + 3) (c\<lparr>eax := low16 (eax c) (ss c)\<rparr>)
    else if take 4 r = [0x66, 0xC1, 0xE8, 0x03]
      then x86_run (drop 3 bs) (ip + 4) (c\<lparr>eax := low16 (eax c) (drop_bit 3 (ucast (eax c)))\<rparr>)
    else if take 3 r = [0xC1, 0xE0, 0x10] then x86_run (drop 2 bs) (ip + 3) (c\<lparr>eax := push_bit 16 (eax c)\<rparr>)
    else if take 3 r = [0x66, 0x89, 0xC8] then x86_run (drop 2 bs) (ip + 3) (c\<lparr>eax := low16 (eax c) (ucast (ecx c))\<rparr>)
    else if take 2 r = [0x66, 0xB9] then x86_run (drop 3 bs) (ip + 4) (c\<lparr>ecx := low16 (ecx c) (imm16 r 2)\<rparr>)
    else if take 2 r = [0x8E, 0xD1] then x86_run (drop 1 bs) (ip + 2) (c\<lparr>ss := ucast (ecx c)\<rparr>)
    else if take 2 r = [0x8E, 0xD9] then x86_run (drop 1 bs) (ip + 2) (c\<lparr>ds := ucast (ecx c)\<rparr>)
    else if take 2 r = [0x8E, 0xC1] then x86_run (drop 1 bs) (ip + 2) (c\<lparr>es := ucast (ecx c)\<rparr>)
    else if take 2 r = [0x89, 0xC4] then x86_run (drop 1 bs) (ip + 2) (c\<lparr>esp := eax c\<rparr>)
    else Stuck)"
  by pat_completeness auto
termination
  by (relation "measure (\<lambda>(r, ip, c). length r)") auto

lemma imm32_bytes32 [simp]: "imm32 (b # bytes32 v @ r) (Suc 0) = v" "imm32 (b # b' # bytes32 v @ r) 2 = v"
  by (simp_all add: imm32_def bytes32_def le32_bytes32)

lemma imm16_bytes16 [simp]: "imm16 (b # b' # bytes16 v @ r) 2 = v"
    "imm16 (b # b' # bytes32 w @ bytes16 v @ r) 6 = v"
  by (simp_all add: imm16_def bytes16_def bytes32_def le16_bytes16)

lemma drop_bytes [simp]: "drop 4 (bytes32 w @ r) = r" "drop 3 (b # bytes16 v @ r) = r"
    "drop 7 (b # bytes32 w @ bytes16 v @ r) = r"
  by (simp_all add: bytes16_def bytes32_def)

lemma ucast_low16 [simp]: "ucast (low16 r v) = v"
  unfolding low16_def by (rule bit_word_eqI) (auto simp: bit_simps)

lemma low16_low16 [simp]: "low16 (low16 r v) w = low16 r w"
  unfolding low16_def by (rule bit_word_eqI) (auto simp: bit_simps dest: bit_imp_le_length)

lemma run_call_missing [simp]: "mode32 c \<Longrightarrow>
    x86_run (call_missing h module entry) ip c =
      Calls (h_missing h) (push module (push entry c)\<lparr>eax := h_missing h\<rparr>)"
  by (simp add: call_missing_def push_def Let_def)

lemma length_call_missing [simp]: "length (call_missing h module entry) = 17"
  by (simp add: call_missing_def)

lemma length_tramp32_code [simp]: "length (tramp32_code h module entry) = 20"
  by (simp add: tramp32_code_def)

lemma length_tramp16_code: "length (tramp16_code h t module entry) \<le> 60"
  by (simp add: tramp16_code_def)

text \<open>What a call through a 32-bit trampoline does.\<close>

lemma run_tramp32: "mode32 c \<Longrightarrow> x86_run (tramp32_code h module entry) ip c =
    Calls (h_missing h) ((push module (push entry ((push (ebp c) c)\<lparr>ebp := esp c - 4\<rparr>)))\<lparr>eax := h_missing h\<rparr>)"
  by (simp add: tramp32_code_def push_def Let_def)

text \<open>
  What a far call to a 16-bit trampoline does: the processor is back in 32-bit mode on the
  loader's segments, and \<open>esp\<close> is the linear address of the 16-bit stack.
\<close>

definition linear_stack :: "cpu \<Rightarrow> u32" where
  "linear_stack c = push_bit 16 (ucast (drop_bit 3 (ss c))) OR ucast (ucast (esp c) :: u16)"

lemma low16_stack:
  "low16 (push_bit 16 (low16 x (drop_bit 3 s))) y = push_bit 16 (ucast (drop_bit 3 s)) OR ucast y"
  unfolding low16_def by (rule bit_word_eqI) (auto simp: bit_simps dest: bit_imp_le_length)

lemma run_tramp16:
  assumes "\<not> mode32 c"
  shows "\<exists>c'. x86_run (tramp16_code h ip module entry) ip c = Calls (h_missing h) c' \<and> mode32 c' \<and>
    cs c' = h_cs h \<and> ss c' = h_ss h \<and> ds c' = h_ds h \<and> es c' = h_es h \<and>
    stk c' = module # entry # stk c \<and> esp c' = linear_stack c - 8"
  using assms
  by (cases "h_ss h = h_ds h"; cases "h_es h = h_ds h")
    (simp_all add: tramp16_code_def push_def low16_stack linear_stack_def Let_def)

subsection \<open>The generated code stays where it is\<close>

text \<open>The memory that holds generated code: for each page or segment its address and its code.\<close>

definition region :: "u32 \<Rightarrow> u32 \<Rightarrow> bytes \<Rightarrow> (u32 \<times> bytes) list" where
  "region b used mem = (if b = 0 then [] else [(b, take (unat used) mem)])"

definition regions :: "tramps \<Rightarrow> (u32 \<times> bytes) list" where
  "regions st = region (t_page st) (t_used st) (t_mem st)
    @ region (t_seg st) (t_segused st) (t_segmem st) @ t_full st"

definition grown :: "(u32 \<times> bytes) list \<Rightarrow> (u32 \<times> bytes) list \<Rightarrow> bool" where
  "grown xs ys \<longleftrightarrow> (\<forall>b m. (b, m) \<in> set xs \<longrightarrow> (\<exists>m'. (b, m') \<in> set ys \<and> take (length m) m' = m))"

definition code_at :: "tramps \<Rightarrow> u32 \<Rightarrow> bytes \<Rightarrow> bool" where
  "code_at st a code \<longleftrightarrow> (\<exists>(b, m) \<in> set (regions st). \<exists>k. a = b + of_nat k \<and> k + length code \<le> length m
     \<and> take (length code) (drop k m) = code)"

definition grows :: "tramps \<Rightarrow> tramps \<Rightarrow> bool" where
  "grows st st' \<longleftrightarrow> grown (regions st) (regions st')"

lemma grown_refl [simp]: "grown xs xs"
  unfolding grown_def by (metis take_all_iff order_refl)

lemma grown_append: "grown xs xs' \<Longrightarrow> grown ys ys' \<Longrightarrow> grown (xs @ ys) (xs' @ ys')"
  unfolding grown_def set_append Un_iff by blast

lemma grown_left: "grown xs zs \<Longrightarrow> grown ys zs \<Longrightarrow> grown (xs @ ys) zs"
  unfolding grown_def set_append Un_iff by blast

lemma grown_right: "grown xs ys \<Longrightarrow> grown xs (zs @ ys)" "grown xs ys \<Longrightarrow> grown xs (ys @ zs)"
  unfolding grown_def set_append Un_iff by blast+

lemma grown_set_aside:
  assumes "grown a full'" "grown full full'"
  shows "grown (a @ b @ full) (c @ b @ full')" "grown (b @ a @ full) (b @ c @ full')"
proof -
  show "grown (a @ b @ full) (c @ b @ full')"
    by (rule grown_left [OF grown_right(1) [OF grown_right(1)] grown_right(1) [OF grown_append]])
      (use assms in simp_all)
  show "grown (b @ a @ full) (b @ c @ full')"
    by (rule grown_append [OF grown_refl grown_left [OF grown_right(1) grown_right(1)]])
      (use assms in simp_all)
qed

lemma grown_trans: "grown xs ys \<Longrightarrow> grown ys zs \<Longrightarrow> grown xs zs"
proof -
  assume a: "grown xs ys" "grown ys zs"
  show ?thesis unfolding grown_def
  proof (intro allI impI)
    fix b m assume "(b, m) \<in> set xs"
    then obtain m1 where m1: "(b, m1) \<in> set ys" "take (length m) m1 = m" using a(1) by (auto simp: grown_def)
    obtain m2 where m2: "(b, m2) \<in> set zs" "take (length m1) m2 = m1" using m1(1) a(2) by (auto simp: grown_def)
    have "length m \<le> length m1" using arg_cong [OF m1(2), of length] by simp
    then have "take (length m) m2 = take (length m) (take (length m1) m2)" by (simp add: min_def)
    then have "take (length m) m2 = m" using m1(2) m2(2) by simp
    then show "\<exists>m'. (b, m') \<in> set zs \<and> take (length m) m' = m" using m2(1) by blast
  qed
qed

lemma grows_trans: "grows st st1 \<Longrightarrow> grows st1 st2 \<Longrightarrow> grows st st2"
  unfolding grows_def by (rule grown_trans)

lemma grows_code_at: "grows st st' \<Longrightarrow> code_at st a code \<Longrightarrow> code_at st' a code"
proof -
  assume g: "grows st st'" and c: "code_at st a code"
  obtain b m k where m: "(b, m) \<in> set (regions st)" "a = b + of_nat k" "k + length code \<le> length m"
      "take (length code) (drop k m) = code"
    using c by (auto simp: code_at_def)
  obtain m' where m': "(b, m') \<in> set (regions st')" "take (length m) m' = m"
    using g m(1) by (auto simp: grows_def grown_def)
  have len: "length m \<le> length m'" using arg_cong [OF m'(2), of length] by simp
  moreover have "take (length code) (drop k m') = code"
  proof -
    have "drop k m = take (length m - k) (drop k m')" using m'(2) by (metis drop_take)
    then have "take (length code) (drop k m) = take (length code) (drop k m')"
      using m(3) by (simp add: min_def)
    then show ?thesis using m(4) by simp
  qed
  ultimately have "k + length code \<le> length m' \<and> take (length code) (drop k m') = code" using m(3) by simp
  then show ?thesis using m(2) m'(1) unfolding code_at_def by blast
qed

definition fill_ok :: "nat \<Rightarrow> u32 \<Rightarrow> u32 \<Rightarrow> bytes \<Rightarrow> bool" where
  "fill_ok room base used mem \<longleftrightarrow>
    (base \<noteq> 0 \<longrightarrow> length mem = room \<and> unat used \<le> room \<and> unat used mod 4 = 0)"

definition tramp_inv :: "host \<Rightarrow> tramps \<Rightarrow> bool" where
  "tramp_inv h st \<longleftrightarrow> fill_ok (unat (h_pagesize h)) (t_page st) (t_used st) (t_mem st) \<and>
    fill_ok 65536 (t_seg st) (t_segused st) (t_segmem st) \<and> ldt_inv (t_ldt st) \<and>
    (t_seg st \<noteq> 0 \<longrightarrow> unat (t_sel st) < LX_MAX_LDT_SLOTS \<and> ldt (t_ldt st) (unat (t_sel st)) = t_seg st)"

definition host_ok :: "host \<Rightarrow> bool" where
  "host_ok h \<longleftrightarrow> 32 \<le> unat (h_pagesize h) \<and> unat (h_pagesize h) < 2147483648 \<and> unat (h_pagesize h) mod 4 = 0
    \<and> (\<forall>k. \<exists>p. h_page h k = Some p \<and> p \<noteq> 0)"

lemma unat_align4:
  assumes "unat x < 4294967292"
  shows "unat (align4 x) = (unat x + 3) div 4 * 4"
proof -
  define n where "n = unat x"
  have m: "unat (x mod 4) = n mod 4" by (simp add: unat_mod n_def)
  have z: "x mod 4 = 0 \<longleftrightarrow> n mod 4 = 0" using m by (metis unat_eq_zero)
  show ?thesis
  proof (cases "n mod 4 = 0")
    case True
    then have "(n + 3) div 4 * 4 = n" by presburger
    then show ?thesis using True z by (simp add: align4_def n_def)
  next
    case False
    have "unat (4 - x mod 4) = 4 - n mod 4"
      using m by (subst unat_diff_u32) auto
    moreover have "n + (4 - n mod 4) < 4294967296" using assms by (simp add: n_def)
    ultimately have "unat (align4 x) = n + (4 - n mod 4)"
      using False z by (simp add: align4_def n_def unat_add_small)
    then show ?thesis using False by (simp add: n_def [symmetric]) presburger
  qed
qed

text \<open>Code written at the fill level of a region.\<close>

lemma fill_code:
  assumes "length mem = room" "unat used + length code \<le> room" "unat used mod 4 = 0" "room mod 4 = 0"
    "room < 2147483648"
  shows "fill_ok room base (align4 (used + of_nat (length code))) (blit mem (unat used) code)"
    and "take (unat used) (take (unat (align4 (used + of_nat (length code)))) (blit mem (unat used) code))
      = take (unat used) mem"
    and "take (length code) (drop (unat used) (take (unat (align4 (used + of_nat (length code)))) (blit mem (unat used) code)))
      = code"
    and "unat used + length code \<le> unat (align4 (used + of_nat (length code)))"
    and "unat (align4 (used + of_nat (length code))) \<le> room"
proof -
  let ?u = "used + of_nat (length code) :: u32"
  have u: "unat ?u = unat used + length code"
    by (rule unat_add_of_nat) (use assms in auto)
  have a: "unat (align4 ?u) = (unat used + length code + 3) div 4 * 4"
    by (subst unat_align4) (use u assms in auto)
  have le: "unat used + length code \<le> unat (align4 ?u)" unfolding a by presburger
  moreover have "unat (align4 ?u) \<le> room"
    using assms(2,4) unfolding a by presburger
  moreover have "unat (align4 ?u) mod 4 = 0" unfolding a by simp
  ultimately show "fill_ok room base (align4 ?u) (blit mem (unat used) code)"
    and "unat used + length code \<le> unat (align4 ?u)" and "unat (align4 ?u) \<le> room"
    using assms by (simp_all add: fill_ok_def)
  show "take (unat used) (take (unat (align4 ?u)) (blit mem (unat used) code)) = take (unat used) mem"
    using le assms by (simp add: min_def)
  have "take (length code) (drop (unat used) (take (unat (align4 ?u)) (blit mem (unat used) code)))
      = drop (unat used) (take (unat used + length code) (blit mem (unat used) code))"
    using le by (simp add: drop_take min_def)
  also have "\<dots> = code" using assms by (simp add: take_blit_add)
  finally show "take (length code) (drop (unat used) (take (unat (align4 ?u)) (blit mem (unat used) code))) = code" .
qed

lemma code_atI: "(b, m) \<in> set (regions st) \<Longrightarrow> a = b + u \<Longrightarrow> unat u + length code \<le> length m \<Longrightarrow>
    take (length code) (drop (unat u) m) = code \<Longrightarrow> code_at st a code"
  unfolding code_at_def by (rule bexI [of _ "(b, m)"]) (auto intro!: exI [of _ "unat u"])

text \<open>Filling a region, and setting a full one aside.\<close>

lemma region_filled:
  assumes "b \<noteq> 0" "fill_ok room b used mem" "unat used + length code \<le> room" "room mod 4 = 0" "room < 2147483648"
  defines "used' \<equiv> align4 (used + of_nat (length code))" and "mem' \<equiv> blit mem (unat used) code"
  shows "fill_ok room b used' mem'" "grown (region b used mem) (region b used' mem')"
    "\<exists>m. (b, m) \<in> set (region b used' mem') \<and> unat used + length code \<le> length m
      \<and> take (length code) (drop (unat used) m) = code"
proof -
  have f: "length mem = room" "unat used mod 4 = 0" using assms(1,2) by (auto simp: fill_ok_def)
  note fc = fill_code [OF f(1) assms(3) f(2) assms(4,5), folded used'_def mem'_def]
  show "fill_ok room b used' mem'" by (rule fc(1))
  have "length (take (unat used) mem) = unat used" using f assms(3) by simp
  then show "grown (region b used mem) (region b used' mem')"
    using fc(2) assms(1) by (auto simp: region_def grown_def)
  have "length mem' = room" using f assms(3) by (simp add: mem'_def)
  then show "\<exists>m. (b, m) \<in> set (region b used' mem') \<and> unat used + length code \<le> length m
      \<and> take (length code) (drop (unat used) m) = code"
    using fc(3-5) assms(1) by (intro exI [of _ "take (unat used') mem'"]) (simp add: region_def)
qed

lemma region_set_aside: "fill_ok room b used mem \<Longrightarrow>
    grown (region b used mem) (if b = 0 then full else (b, mem) # full)"
  by (auto simp: region_def grown_def fill_ok_def min_def)

lemma grown_full: "grown full (if b = 0 then full else (b, mem) # full)"
  by (cases "b = 0") (auto simp: grown_def intro: exI)

lemma region_fresh [simp]: "grown (region b 0 mem) ys \<longleftrightarrow> b = 0 \<or> (\<exists>m. (b, m) \<in> set ys)"
  by (auto simp: region_def grown_def)

lemma grows_refl [simp]: "grows st st"
  by (simp add: grows_def)

lemma page_ready_ok:
  assumes "tramp_inv h st" "host_ok h"
  obtains st1 where "page_ready h st = Some st1" "tramp_inv h st1" "grows st st1" "t_page st1 \<noteq> 0"
    "unat (t_used st1) + 32 \<le> unat (h_pagesize h)"
proof (cases "t_page st = 0 \<or> h_pagesize h - t_used st < 32")
  case True
  obtain p where p: "h_page h (t_pages st) = Some p" "p \<noteq> 0" using assms(2) by (auto simp: host_ok_def)
  let ?full = "if t_page st = 0 then t_full st else (t_page st, t_mem st) # t_full st"
  let ?st1 = "st\<lparr>t_page := p, t_used := 0, t_mem := replicate (unat (h_pagesize h)) 0,
      t_pages := Suc (t_pages st), t_full := ?full\<rparr>"
  have "grown (region (t_page st) (t_used st) (t_mem st)) ?full"
    by (rule region_set_aside) (use assms(1) in \<open>auto simp: tramp_inv_def\<close>)
  then have "grows st ?st1"
    unfolding grows_def regions_def
    using grown_set_aside(1) [OF _ grown_full] by simp
  moreover have "tramp_inv h ?st1" using assms(1) by (simp add: tramp_inv_def fill_ok_def)
  ultimately show thesis using p True assms(2) by (intro that [of ?st1]) (simp_all add: page_ready_def host_ok_def)
next
  case False
  then have f: "length (t_mem st) = unat (h_pagesize h)" "unat (t_used st) \<le> unat (h_pagesize h)"
    using assms(1) by (auto simp: tramp_inv_def fill_ok_def)
  have "32 \<le> unat (h_pagesize h - t_used st)" using False by (simp add: word_less_nat_alt)
  then have "unat (t_used st) + 32 \<le> unat (h_pagesize h)" using f(2) by (simp add: unat_diff_u32)
  then show thesis using False assms(1) by (intro that [of st]) (simp_all add: page_ready_def)
qed

lemma segment_ready_ok:
  assumes "tramp_inv h st" "segment_ready h mods st = Some st1" "0x10000 \<le> baseaddr (t_ldt st)"
  shows "tramp_inv h st1" "grows st st1" "t_seg st1 \<noteq> 0" "unat (t_segused st1) + 64 \<le> 65536"
    "t_page st1 = t_page st"
proof -
  have "tramp_inv h st1 \<and> grows st st1 \<and> t_seg st1 \<noteq> 0 \<and> unat (t_segused st1) + 64 \<le> 65536 \<and> t_page st1 = t_page st"
  proof (cases "t_seg st = 0 \<or> 0x10000 - t_segused st < 64")
    case True
    obtain seg sel l where a: "lxAllocSegment (h_sys h) (h_mmap h) mods 1 (t_ldt st) = Some (Some (seg, sel), l)"
      "seg \<noteq> 0" and st1: "st1 = st\<lparr>t_seg := seg, t_sel := sel, t_segused := 0, t_segmem := replicate 65536 0, t_ldt := l,
             t_full := (if t_seg st = 0 then t_full st else (t_seg st, t_segmem st) # t_full st)\<rparr>"
      using assms(2) True unfolding segment_ready_def by (auto split: option.splits if_splits)
    let ?full = "if t_seg st = 0 then t_full st else (t_seg st, t_segmem st) # t_full st"
    let ?l1 = "(t_ldt st)\<lparr>baseaddr := baseaddr (t_ldt st) + 0x10000\<rparr>"
    obtain off where off: "lxFindSelector (h_sys h) mods seg 1 ?l1 = Some (Some (sel, off), l)" "off = 0"
        "seg = baseaddr (t_ldt st)"
      using a by (auto simp: lxAllocSegment_def Let_def split: option.splits if_splits)
    have inv: "ldt_inv ?l1" using assms(1) by (simp add: tramp_inv_def ldt_inv_def)
    have l: "ldt_inv l" "unat sel < LX_MAX_LDT_SLOTS" "ldt l (unat sel) = seg"
      using lxFindSelector_inv [OF off(1) inv] lxFindSelector_hit [OF inv _ off(1)] off(2,3) assms(3) by auto
    have "grown (region (t_seg st) (t_segused st) (t_segmem st)) ?full"
      by (rule region_set_aside) (use assms(1) in \<open>auto simp: tramp_inv_def\<close>)
    then have "grows st st1"
      unfolding grows_def regions_def st1
      using grown_set_aside(2) [OF _ grown_full] by simp
    then show ?thesis using assms(1) l a(2) by (simp add: st1 tramp_inv_def fill_ok_def)
  next
    case False
    then have f: "unat (t_segused st) \<le> 65536"
      using assms(1) by (auto simp: tramp_inv_def fill_ok_def)
    have "64 \<le> unat (0x10000 - t_segused st)" using False by (simp add: word_less_nat_alt)
    then have "unat (t_segused st) + 64 \<le> 65536" using f by (simp add: unat_diff_u32)
    then show ?thesis using False assms(1,2) by (auto simp: segment_ready_def)
  qed
  then show "tramp_inv h st1" "grows st st1" "t_seg st1 \<noteq> 0" "unat (t_segused st1) + 64 \<le> 65536"
    "t_page st1 = t_page st" by auto
qed

lemma code_at_region: "\<exists>m. (b, m) \<in> set (region b' u mem) \<and> unat k + length code \<le> length m
      \<and> take (length code) (drop (unat k) m) = code \<Longrightarrow>
    set (region b' u mem) \<subseteq> set (regions st) \<Longrightarrow> code_at st (b + k) code"
  unfolding code_at_def by (force intro!: exI [of _ "unat k"])

text \<open>
  C16.  Generating a 32-bit trampoline.  The generator always succeeds, keeps its page within
  bounds, leaves all code generated before in place, and the code at the address it returns, when
  called, calls \<^verbatim>\<open>missingEntryPointCalled\<close> with the module's and the entry's name as its first and
  second argument.
\<close>

theorem generateMissingTrampoline_correct:
  assumes "tramp_inv h st" "host_ok h"
  shows "\<exists>a st' code. generateMissingTrampoline h module entry st = Some (a, st') \<and> tramp_inv h st' \<and>
    grows st st' \<and> code_at st' a code \<and>
    (\<forall>c. mode32 c \<longrightarrow> (\<exists>c'. x86_run code a c = Calls (h_missing h) c' \<and>
      stk c' = h_strdup h module # h_strdup h entry # ebp c # stk c))"
proof -
  obtain st1 where st1: "page_ready h st = Some st1" "tramp_inv h st1" "grows st st1" "t_page st1 \<noteq> 0"
    "unat (t_used st1) + 32 \<le> unat (h_pagesize h)"
    by (rule page_ready_ok [OF assms])
  let ?code = "tramp32_code h (h_strdup h module) (h_strdup h entry)"
  let ?st' = "st1\<lparr>t_mem := blit (t_mem st1) (unat (t_used st1)) ?code, t_used := align4 (t_used st1 + of_nat (length ?code))\<rparr>"
  have fill: "fill_ok (unat (h_pagesize h)) (t_page st1) (t_used st1) (t_mem st1)"
    using st1(2) by (simp add: tramp_inv_def)
  have bounds: "unat (t_used st1) + length ?code \<le> unat (h_pagesize h)" "unat (h_pagesize h) mod 4 = 0"
      "unat (h_pagesize h) < 2147483648"
    using st1(5) assms(2) by (auto simp: host_ok_def)
  note f = region_filled [OF st1(4) fill bounds]
  have len: "length (t_mem st1) = unat (h_pagesize h)" using fill st1(4) by (simp add: fill_ok_def)
  have gen: "generateMissingTrampoline h module entry st = Some (t_page st1 + t_used st1, ?st')"
    using st1(1,5) len by (simp add: generateMissingTrampoline_def wr_blk_def)
  have inv: "tramp_inv h ?st'" using f(1) st1(2) by (simp add: tramp_inv_def)
  have "grows st1 ?st'"
    unfolding grows_def regions_def using grown_append [OF f(2) grown_refl] by simp
  then have g: "grows st ?st'" by (rule grows_trans [OF st1(3)])
  have "code_at ?st' (t_page st1 + t_used st1) ?code"
    by (rule code_at_region [OF f(3)]) (simp add: regions_def)
  then show ?thesis using gen inv g run_tramp32 by (fastforce simp: push_def)
qed

definition tramps_empty :: tramps where
  "tramps_empty = \<lparr>t_page = 0, t_used = 0, t_mem = [], t_pages = 0, t_seg = 0, t_segused = 0, t_segmem = [],
    t_sel = 0xFFFF, t_full = [], t_ldt = ldt_empty\<rparr>"

definition host_demo :: host where
  "host_demo = \<lparr>h_sys = (\<lambda>_. True), h_mmap = Some, h_page = (\<lambda>k. Some 0xF7000000), h_pagesize = 4096,
    h_strdup = (\<lambda>s. 0x9000000 + of_nat (length s)), h_missing = 0x8049000, h_cs = 0x23, h_ss = 0x2B, h_ds = 0x2B,
    h_es = 0x2B\<rparr>"

lemma tramps_empty_inv: "tramp_inv h tramps_empty"
  by (simp add: tramp_inv_def tramps_empty_def fill_ok_def ldt_inv_empty)

lemma host_demo_ok: "host_ok host_demo"
  by (simp add: host_ok_def host_demo_def)

theorem generateMissingTrampoline_correct_witness:
  "\<exists>a st' code. generateMissingTrampoline host_demo [0x41] [0x42, 0x43] tramps_empty = Some (a, st') \<and>
    tramp_inv host_demo st' \<and> code_at st' a code"
  using generateMissingTrampoline_correct [OF tramps_empty_inv host_demo_ok] by blast

text \<open>
  C17.  Generating a 16-bit trampoline: all code generated before stays in place, the export the
  generator hands out names the segment of the trampoline, whose far pointer converts to the
  trampoline's address, and a far call of it from 16-bit code brings the processor back to 32-bit
  mode on the segment registers the loader started with and on the linear address of the stack,
  and calls \<^verbatim>\<open>missingEntryPointCalled\<close> with the two names.
\<close>

theorem generateMissingTrampoline16_correct:
  assumes "tramp_inv h st" "0x10000 \<le> baseaddr (t_ldt st)" "segment_ready h mods st = Some st1"
  shows "\<exists>a exp m st' code. generateMissingTrampoline16 h mods module entry st = Some (a, exp, st') \<and> tramp_inv h st' \<and>
    grows st st' \<and> code_at st' a code \<and> ex_addr exp = a \<and> ex_object exp = Some m \<and>
    lxConvertSegmentOffsetto32 (t_ldt st') (lxSelectorToSegment (mm_alias m)) (ucast (a - mm_addr m)) = Some a \<and>
    (\<forall>c. \<not> mode32 c \<longrightarrow> (\<exists>c'. x86_run code a c = Calls (h_missing h) c' \<and>
      stk c' = h_strdup h module # h_strdup h entry # stk c \<and> mode32 c' \<and> esp c' = linear_stack c - 8 \<and>
      cs c' = h_cs h \<and> ss c' = h_ss h \<and> ds c' = h_ds h \<and> es c' = h_es h))"
proof -
  note st1 = segment_ready_ok [OF assms(1,3,2)]
  let ?a = "t_seg st1 + t_segused st1"
  let ?code = "tramp16_code h ?a (h_strdup h module) (h_strdup h entry)"
  let ?st' = "st1\<lparr>t_segmem := blit (t_segmem st1) (unat (t_segused st1)) ?code,
    t_segused := align4 (t_segused st1 + of_nat (length ?code))\<rparr>"
  let ?m = "\<lparr>mm_mapped = t_seg st1, mm_addr = t_seg st1, mm_size = 0x10000, mm_prot = 0, mm_alias = t_sel st1\<rparr>"
  let ?exp = "\<lparr>ex_ordinal = 0, ex_name = None, ex_addr = ?a, ex_object = Some ?m\<rparr>"
  have fill: "fill_ok 65536 (t_seg st1) (t_segused st1) (t_segmem st1)"
    using st1(1) by (simp add: tramp_inv_def)
  have len: "length ?code \<le> 60" "length (t_segmem st1) = 65536"
    using length_tramp16_code fill st1(3) by (auto simp: fill_ok_def)
  have bounds: "unat (t_segused st1) + length ?code \<le> 65536" using st1(4) len(1) by simp
  note f = region_filled [OF st1(3) fill bounds, simplified]
  have gen: "generateMissingTrampoline16 h mods module entry st = Some (?a, ?exp, ?st')"
    using assms(3) len bounds by (simp add: generateMissingTrampoline16_def wr_blk_def Let_def)
  have inv: "tramp_inv h ?st'" using f(1) st1(1) by (simp add: tramp_inv_def)
  have "grows st1 ?st'"
    unfolding grows_def regions_def using grown_append [OF grown_refl grown_append [OF f(2) grown_refl]] by simp
  then have g: "grows st ?st'" by (rule grows_trans [OF st1(2)])
  have at: "code_at ?st' ?a ?code"
    by (rule code_at_region [OF f(3)]) (auto simp: regions_def)
  have sel: "unat (t_sel st1) < LX_MAX_LDT_SLOTS" "ldt (t_ldt st1) (unat (t_sel st1)) = t_seg st1"
    using st1(1,3) by (auto simp: tramp_inv_def)
  have "ucast (ucast (t_segused st1) :: u16) = t_segused st1"
    by (rule ucast_u16_u32_small) (use st1(4) in simp)
  then have far: "lxConvertSegmentOffsetto32 (t_ldt ?st') (lxSelectorToSegment (mm_alias ?m)) (ucast (?a - mm_addr ?m)) = Some ?a"
    using sel st1(3) by (simp add: lxConvertSegmentOffsetto32_far)
  have run: "\<forall>c. \<not> mode32 c \<longrightarrow> (\<exists>c'. x86_run ?code ?a c = Calls (h_missing h) c' \<and>
      stk c' = h_strdup h module # h_strdup h entry # stk c \<and> mode32 c' \<and> esp c' = linear_stack c - 8 \<and>
      cs c' = h_cs h \<and> ss c' = h_ss h \<and> ds c' = h_ds h \<and> es c' = h_es h)"
    using run_tramp16 by blast
  have "ex_addr ?exp = ?a \<and> ex_object ?exp = Some ?m" by simp
  then show ?thesis using gen inv g at far run by blast
qed

lemma segment_ready_demo: "\<exists>st1. segment_ready host_demo [] tramps_empty = Some st1"
proof -
  let ?l1 = "ldt_empty\<lparr>baseaddr := 0x8810000\<rparr>"
  obtain st2 where "lxFindSelector (\<lambda>_. True) [] 0x8800000 1 ?l1 = Some (Some (0x880, 0), st2)"
    using lxFindSelector_empty [where a = "0x8800000" and sys = "\<lambda>_. True" and mods = "[]" and iscode = 1 and st = ?l1]
    by (auto simp: ldt_empty_def)
  then have "lxAllocSegment (\<lambda>_. True) Some [] 1 ldt_empty = Some (Some (0x8800000, 0x880), st2)"
    by (simp add: lxAllocSegment_def ldt_empty_def)
  then show ?thesis by (simp add: segment_ready_def tramps_empty_def host_demo_def)
qed

theorem generateMissingTrampoline16_correct_witness:
  "\<exists>a exp st'. generateMissingTrampoline16 host_demo [] [0x41] [0x42] tramps_empty = Some (a, exp, st') \<and>
    tramp_inv host_demo st' \<and> ex_addr exp = a"
proof -
  obtain st1 where "segment_ready host_demo [] tramps_empty = Some st1" using segment_ready_demo by blast
  moreover have "0x10000 \<le> baseaddr (t_ldt tramps_empty)" by (simp add: tramps_empty_def ldt_empty_def)
  ultimately show ?thesis using generateMissingTrampoline16_correct [OF tramps_empty_inv] by blast
qed

end
