(* ===== verification/Fixups.thy ===== *)
theory Fixups
  imports Trampolines
begin

section \<open>Fixups (\<^verbatim>\<open>lx_loader.c\<close>: relocating a loaded module)\<close>

text \<open>
  The memory of the object or segment that is relocated is the byte list \<open>mem\<close>, at linear address
  \<open>addr\<close>; a store outside it is a fault.  The module being loaded and the modules it imports from
  are seen through the record \<open>modview\<close>; \<open>deref\<close> reads a pointer from memory (lookups of 16-bit
  bridges use it).  Imports nobody exports are answered with trampolines, so the trampoline state
  is threaded through.
\<close>

record modview =
  mv_name :: bytes
  mv_mmaps :: "LxMmaps list"
  mv_exports :: "LxExport list"
  mv_deps :: "(bytes \<times> LxExport list) list"

record world =
  w_host :: host
  w_mods :: "LxMmaps list list"
  w_deref :: "u32 \<Rightarrow> u32 option"

subsection \<open>Resolving an import\<close>

fun decimal :: "nat \<Rightarrow> bytes" where
  "decimal n = (if n < 10 then [of_nat (48 + n)] else decimal (n div 10) @ [of_nat (48 + n mod 10)])"

declare decimal.simps [simp del]

text \<open>The text \<^verbatim>\<open>ordinal #n\<close>.\<close>

definition ordinal_text :: "u32 \<Rightarrow> bytes" where
  "ordinal_text ordinal = [0x6F, 0x72, 0x64, 0x69, 0x6E, 0x61, 0x6C, 0x20, 0x23] @ decimal (unat ordinal)"

definition missing_proc :: "world \<Rightarrow> bytes \<Rightarrow> bytes \<Rightarrow> bool \<Rightarrow> tramps \<Rightarrow> ((u32 \<times> LxExport option) \<times> tramps) option" where
  "missing_proc w module entry want16bit st =
    (if want16bit then map_option (\<lambda>(a, e, st'). ((a, Some e), st')) (generateMissingTrampoline16 (w_host w) (w_mods w) module entry st)
     else map_option (\<lambda>(a, st'). ((a, None), st')) (generateMissingTrampoline (w_host w) module entry st))"

definition proc_by_ordinal ::
  "world \<Rightarrow> bytes \<times> LxExport list \<Rightarrow> u32 \<Rightarrow> bool \<Rightarrow> bool \<Rightarrow> tramps \<Rightarrow> ((u32 \<times> LxExport option) \<times> tramps) option" where
  "proc_by_ordinal w module ordinal want16bit native st =
    (case getModuleProcAddrByOrdinal (w_deref w) (snd module) ordinal native of
       None \<Rightarrow> None
     | Some (Proc a e) \<Rightarrow> Some ((a, Some e), st)
     | Some Missing \<Rightarrow> missing_proc w (fst module) (ordinal_text ordinal) want16bit st)"

definition proc_by_name ::
  "world \<Rightarrow> bytes \<times> LxExport list \<Rightarrow> bytes \<Rightarrow> bool \<Rightarrow> tramps \<Rightarrow> ((u32 \<times> LxExport option) \<times> tramps) option" where
  "proc_by_name w module name want16bit st =
    (case getModuleProcAddrByName (w_deref w) (snd module) name of
       None \<Rightarrow> None
     | Some (Proc a e) \<Rightarrow> Some ((a, Some e), st)
     | Some Missing \<Rightarrow> missing_proc w (fst module) name want16bit st)"

subsection \<open>One store\<close>

text \<open>A store at a signed offset from the page; an unexpected size ends the program.\<close>

definition store_at :: "bytes \<Rightarrow> int \<Rightarrow> bytes \<Rightarrow> bytes option" where
  "store_at mem i bs = (if i < 0 then None else wr_blk mem (nat i) bs)"

definition doFixup :: "bytes \<Rightarrow> nat \<Rightarrow> u16 \<Rightarrow> u32 \<Rightarrow> u16 \<Rightarrow> nat \<Rightarrow> bytes option" where
  "doFixup mem page offset finalval finalval2 finalsize =
    (let dst = int page + sint offset in
     if finalsize = 1 then store_at mem dst [ucast finalval]
     else if finalsize = 2 then store_at mem dst (bytes16 (ucast finalval))
     else if finalsize = 4 then store_at mem dst (bytes32 finalval)
     else if finalsize = 6 then do {
       mem1 \<leftarrow> store_at mem dst (bytes32 finalval);
       store_at mem1 (dst + 4) (bytes16 finalval2) }
     else None)"

subsection \<open>LX fixup records\<close>

definition fix_size :: "u8 \<Rightarrow> nat" where
  "fix_size k = (if k = 0 then 1 else if k = 2 \<or> k = 5 then 2
     else if k = 3 \<or> k = 7 \<or> k = 8 then 4 else if k = 6 then 6 else 0)"

text \<open>An object or module number: 16 bits wide when the flag says so.\<close>

definition fix_id :: "bytes \<Rightarrow> u8 \<Rightarrow> nat \<Rightarrow> (u16 \<times> nat) option" where
  "fix_id exe flags p = (if flags AND 0x40 \<noteq> 0 then map_option (\<lambda>v. (v, p + 2)) (rd16 exe p)
     else map_option (\<lambda>v. (ucast v, p + 1)) (rd8 exe p))"

text \<open>A target offset, import ordinal or additive: 32 bits wide when its flag is set.\<close>

definition fix_u32 :: "bytes \<Rightarrow> bool \<Rightarrow> nat \<Rightarrow> (u32 \<times> nat) option" where
  "fix_u32 exe wide p = (if wide then map_option (\<lambda>v. (v, p + 4)) (rd32 exe p)
     else map_option (\<lambda>v. (ucast v, p + 2)) (rd16 exe p))"

text \<open>Case 0: a target inside the module.\<close>

definition fix_internal ::
  "bytes \<Rightarrow> modview \<Rightarrow> u8 \<Rightarrow> u8 \<Rightarrow> u16 \<Rightarrow> nat \<Rightarrow> (u32 \<times> u16 \<times> nat) option" where
  "fix_internal exe mv srctype flags finalval2 p0 = do {
     (objectid, p1) \<leftarrow> fix_id exe flags p0;
     (targetoffset, p2) \<leftarrow> (if srctype AND 0xF \<noteq> 2 then fix_u32 exe (flags AND 0x10 \<noteq> 0) p1 else Some (0, p1));
     guard (0 < unat objectid \<and> unat objectid \<le> length (mv_mmaps mv));
     let m = mv_mmaps mv ! (unat objectid - 1);
     if srctype AND 0x10 = 0 then Some (mm_addr m + targetoffset, finalval2, p2)
     else if mm_alias m = 0xFFFF then Some (0, finalval2, p2)
     else let segment = lxSelectorToSegment (mm_alias m); k = srctype AND 0xF in
       if k = 2 then Some (ucast segment, finalval2, p2)
       else if k = 3 then Some (push_bit 16 (ucast segment) OR targetoffset, finalval2, p2)
       else if k = 6 then Some (targetoffset, segment, p2)
       else None }"

text \<open>Cases 1 and 2, after the lookup: a 16:16 alias of the imported address when one is asked for.\<close>

definition fix_alias :: "u8 \<Rightarrow> u32 \<Rightarrow> LxExport option \<Rightarrow> u16 \<Rightarrow> (u32 \<times> u16) option" where
  "fix_alias srctype finalval lxexp finalval2 =
    (if srctype AND 0x10 = 0 then Some (finalval, finalval2)
     else case lxexp of None \<Rightarrow> Some (finalval, finalval2) | Some e \<Rightarrow>
       (case ex_object e of None \<Rightarrow> Some (finalval, finalval2) | Some obj \<Rightarrow>
         if mm_alias obj = 0xFFFF then Some (finalval, finalval2)
         else let segment = lxSelectorToSegment (mm_alias obj); k = srctype AND 0xF in
           if k = 2 then Some (ucast segment, finalval2)
           else if k = 3 then Some (push_bit 16 (ucast segment) OR (finalval - mm_addr obj), finalval2)
           else if k = 6 then Some (finalval - mm_addr obj, segment)
           else None))"

definition fix_import_ordinal ::
  "world \<Rightarrow> bytes \<Rightarrow> modview \<Rightarrow> u8 \<Rightarrow> u8 \<Rightarrow> u16 \<Rightarrow> nat \<Rightarrow> tramps \<Rightarrow> ((u32 \<times> u16 \<times> nat) \<times> tramps) option" where
  "fix_import_ordinal w exe mv srctype flags finalval2 p0 st = do {
     (moduleid, p1) \<leftarrow> fix_id exe flags p0;
     (importid, p2) \<leftarrow> (if flags AND 0x80 \<noteq> 0 then map_option (\<lambda>v. (ucast v, p1 + 1)) (rd8 exe p1)
       else fix_u32 exe (flags AND 0x10 \<noteq> 0) p1);
     ((finalval, lxexp), st') \<leftarrow>
       (if moduleid = 0 \<or> unat moduleid > length (mv_deps mv) then Some ((0, None), st)
        else proc_by_ordinal w (mv_deps mv ! (unat moduleid - 1)) importid (srctype AND 0x10 \<noteq> 0) True st);
     (v, v2) \<leftarrow> fix_alias srctype finalval lxexp finalval2;
     Some ((v, v2, p2), st') }"

definition fix_import_name ::
  "world \<Rightarrow> bytes \<Rightarrow> nat \<Rightarrow> modview \<Rightarrow> u8 \<Rightarrow> u8 \<Rightarrow> u16 \<Rightarrow> nat \<Rightarrow> tramps \<Rightarrow> ((u32 \<times> u16 \<times> nat) \<times> tramps) option" where
  "fix_import_name w exe import_proc_table mv srctype flags finalval2 p0 st = do {
     (moduleid, p1) \<leftarrow> fix_id exe flags p0;
     (name_offset, p2) \<leftarrow> fix_u32 exe (flags AND 0x10 \<noteq> 0) p1;
     ((finalval, lxexp), st') \<leftarrow>
       (if moduleid = 0 \<or> unat moduleid > length (mv_deps mv) then Some ((0, None), st)
        else do {
          let q = import_proc_table + unat name_offset;
          l \<leftarrow> rd8 exe q;
          name \<leftarrow> rd_blk exe (q + 1) (unat (l AND 0x7F));
          proc_by_name w (mv_deps mv ! (unat moduleid - 1)) (takeWhile (\<lambda>c. c \<noteq> 0) name) (srctype AND 0x10 \<noteq> 0) st });
     (v, v2) \<leftarrow> fix_alias srctype finalval lxexp finalval2;
     Some ((v, v2, p2), st') }"

definition fix_target ::
  "world \<Rightarrow> bytes \<Rightarrow> nat \<Rightarrow> modview \<Rightarrow> u8 \<Rightarrow> u8 \<Rightarrow> nat \<Rightarrow> tramps \<Rightarrow> ((u32 \<times> u16 \<times> nat) \<times> tramps) option" where
  "fix_target w exe import_proc_table mv srctype flags p st =
    (let finalval2 = (if srctype AND 0xF = 6 then h_cs (w_host w) else 0); kind = flags AND 0x3 in
     if kind = 0 then map_option (\<lambda>r. (r, st)) (fix_internal exe mv srctype flags finalval2 p)
     else if kind = 1 then fix_import_ordinal w exe mv srctype flags finalval2 p st
     else if kind = 2 then fix_import_name w exe import_proc_table mv srctype flags finalval2 p st
     else None)"

text \<open>The stores of one record: one offset, or each of a source list behind the record.\<close>

definition fix_store :: "bytes \<Rightarrow> u32 \<Rightarrow> nat \<Rightarrow> u8 \<Rightarrow> u32 \<Rightarrow> u16 \<Rightarrow> u16 \<Rightarrow> bytes option" where
  "fix_store mem addr page srctype finalval finalval2 offset =
    (if srctype AND 0xF = 8
     then if finalval2 \<noteq> 0 then None
          else doFixup mem page offset (finalval - ((addr + of_nat page) + scast offset + 4)) 0 (fix_size (srctype AND 0xF))
     else doFixup mem page offset finalval finalval2 (fix_size (srctype AND 0xF)))"

fun fix_store_list :: "bytes \<Rightarrow> bytes \<Rightarrow> u32 \<Rightarrow> nat \<Rightarrow> u8 \<Rightarrow> u32 \<Rightarrow> u16 \<Rightarrow> nat \<Rightarrow> nat \<Rightarrow> (bytes \<times> nat) option" where
  "fix_store_list exe mem addr page srctype finalval finalval2 0 p = Some (mem, p)"
| "fix_store_list exe mem addr page srctype finalval finalval2 (Suc n) p = do {
     offset \<leftarrow> rd16 exe p;
     mem1 \<leftarrow> fix_store mem addr page srctype finalval finalval2 offset;
     fix_store_list exe mem1 addr page srctype finalval finalval2 n (p + 2) }"

definition fix_record ::
  "world \<Rightarrow> bytes \<Rightarrow> nat \<Rightarrow> modview \<Rightarrow> u32 \<Rightarrow> nat \<Rightarrow> nat \<Rightarrow> bytes \<times> tramps \<Rightarrow> (nat \<times> bytes \<times> tramps) option" where
  "fix_record w exe import_proc_table mv addr page p = (\<lambda>(mem, st). do {
     srctype \<leftarrow> rd8 exe p;
     flags \<leftarrow> rd8 exe (p + 1);
     (srclist_count, srcoffset, p1) \<leftarrow>
       (if srctype AND 0x20 \<noteq> 0 then map_option (\<lambda>c. (unat c, 0, p + 3)) (rd8 exe (p + 2))
        else map_option (\<lambda>o16. (0, o16, p + 4)) (rd16 exe (p + 2)));
     ((v, v2, p2), st') \<leftarrow> fix_target w exe import_proc_table mv srctype flags p1 st;
     (additive, p3) \<leftarrow> (if flags AND 0x4 \<noteq> 0 then fix_u32 exe (flags AND 0x20 \<noteq> 0) p2 else Some (0, p2));
     let finalval = v + additive;
     (mem', p4) \<leftarrow> (if srctype AND 0x20 \<noteq> 0
       then fix_store_list exe mem addr page srctype finalval v2 srclist_count p3
       else map_option (\<lambda>m. (m, p3)) (fix_store mem addr page srctype finalval v2 srcoffset));
     Some (p4, mem', st') })"

lemma fix_id_advances: "fix_id exe flags p = Some (v, q) \<Longrightarrow> p < q"
  by (auto simp: fix_id_def split: if_splits)

lemma fix_u32_advances: "fix_u32 exe wide p = Some (v, q) \<Longrightarrow> p < q"
  by (auto simp: fix_u32_def split: if_splits)

lemma fix_target_advances:
  assumes "fix_target w exe ipt mv srctype flags p st = Some ((v, v2, q), st')"
  shows "p < q"
  using assms
  by (auto simp: fix_target_def fix_internal_def fix_import_ordinal_def fix_import_name_def Let_def bind_eq_Some_conv
      split: if_splits dest!: fix_id_advances fix_u32_advances)

lemma fix_store_list_advances:
  "fix_store_list exe mem addr page srctype v v2 n p = Some (mem', q) \<Longrightarrow> p \<le> q"
  by (induction n arbitrary: mem p) (fastforce simp: bind_eq_Some_conv)+

lemma fix_record_advances:
  assumes "fix_record w exe ipt mv addr page p s = Some (q, s')"
  shows "p < q"
  using assms
  by (cases s) (auto simp: fix_record_def Let_def bind_eq_Some_conv
      split: if_splits dest!: fix_target_advances fix_store_list_advances fix_u32_advances)

text \<open>The loop over a page's records.\<close>

function fix_records ::
  "world \<Rightarrow> bytes \<Rightarrow> nat \<Rightarrow> modview \<Rightarrow> u32 \<Rightarrow> nat \<Rightarrow> nat \<Rightarrow> nat \<Rightarrow> bytes \<times> tramps \<Rightarrow> (bytes \<times> tramps) option" where
  "fix_records w exe ipt mv addr page fixupend p s =
    (if p < fixupend
     then case fix_record w exe ipt mv addr page p s of
         None \<Rightarrow> None
       | Some (q, s') \<Rightarrow> fix_records w exe ipt mv addr page fixupend q s'
     else Some s)"
  by pat_completeness auto
termination
  by (relation "measure (\<lambda>(w, exe, ipt, mv, addr, page, fixupend, p, s). fixupend - p)")
    (auto dest: fix_record_advances)

declare fix_records.simps [simp del]

text \<open>
  \<^verbatim>\<open>fixupPage\<close>: page number \<open>pagenum\<close> of the object, whose memory is \<open>mem\<close> at \<open>addr\<close>; the page starts
  at \<open>page\<close> in it.
\<close>

definition fixupPage ::
  "world \<Rightarrow> bytes \<Rightarrow> LxHeader \<Rightarrow> modview \<Rightarrow> LxObjectTableEntry \<Rightarrow> u32 \<Rightarrow> u32 \<Rightarrow> nat \<Rightarrow> bytes \<times> tramps
     \<Rightarrow> (bytes \<times> tramps) option" where
  "fixupPage w exe lx mv obj pagenum addr page s = do {
     let fixuppage = unat (fixup_page_table_offset lx) + 4 * unat ((page_table_index obj - 1) + pagenum);
     fixupoffset \<leftarrow> rd32 exe fixuppage;
     next \<leftarrow> rd32 exe (fixuppage + 4);
     let fixuplen = next - fixupoffset;
     let fixup = unat (fixup_record_table_offset lx) + unat fixupoffset;
     fix_records w exe (unat (import_proc_table_offset lx)) mv addr page (fixup + unat fixuplen) fixup s }"

subsection \<open>Code segment references\<close>

text \<open>
  Far jumps to OS/2's 32-bit code segment 0x5B are redirected to the loader's own; \<open>i\<close> is the
  scan position and \<open>n\<close> what is left of the size.
\<close>

function fixup_cs_loop :: "u16 \<Rightarrow> nat \<Rightarrow> nat \<Rightarrow> bytes \<Rightarrow> bytes option" where
  "fixup_cs_loop original_cs n i mem =
    (if n < 7 then Some mem
     else case rd8 mem i of None \<Rightarrow> None | Some b \<Rightarrow>
       if b = 0xEA then
         (case rd8 mem (i + 1 + 4) of None \<Rightarrow> None | Some s0 \<Rightarrow>
          if s0 = 0x5B then
            (case rd8 mem (i + 1 + 5) of None \<Rightarrow> None | Some s1 \<Rightarrow>
             if s1 = 0x00 then
               (case wr_blk mem (i + 1 + 4) (bytes16 original_cs) of None \<Rightarrow> None | Some mem' \<Rightarrow>
                  fixup_cs_loop original_cs (n - 1 - 6) (i + 1 + 6) mem')
             else fixup_cs_loop original_cs (n - 1) (i + 1) mem)
          else fixup_cs_loop original_cs (n - 1) (i + 1) mem)
       else fixup_cs_loop original_cs (n - 1) (i + 1) mem)"
  by pat_completeness auto
termination
  by (relation "measure (\<lambda>(original_cs, n, i, mem). n)") auto

declare fixup_cs_loop.simps [simp del]

definition fixupLinearCodeSegmentReferences :: "u16 \<Rightarrow> bytes \<Rightarrow> nat \<Rightarrow> bytes option" where
  "fixupLinearCodeSegmentReferences original_cs mem n = fixup_cs_loop original_cs n 0 mem"

subsection \<open>NE fixups\<close>

text \<open>The value a record stands for; \<open>None\<close> inside is a record that is skipped (kind 3).\<close>

definition ne_far :: "world \<Rightarrow> (u32 \<times> LxExport option) \<times> tramps \<Rightarrow> (u32 option \<times> tramps) option" where
  "ne_far w = (\<lambda>((addr, e), st).
    if addr = 0 then Some (Some 0, st)
    else case lxConvert32to1616 (h_sys (w_host w)) (w_mods w) addr (t_ldt st) of
        None \<Rightarrow> None
      | Some (v, l) \<Rightarrow> Some (Some v, st\<lparr>t_ldt := l\<rparr>))"

definition ne_target ::
  "world \<Rightarrow> bytes \<Rightarrow> nat \<Rightarrow> modview \<Rightarrow> u8 \<Rightarrow> bytes \<Rightarrow> tramps \<Rightarrow> (u32 option \<times> tramps) option" where
  "ne_target w exe names mv flags t st =
    (let kind = flags AND 0x3; lo = le16 (t ! 0) (t ! 1); hi = le16 (t ! 2) (t ! 3) in
     if kind = 0 then
       (if t ! 0 = 0xFF
        then do { r \<leftarrow> proc_by_ordinal w (mv_name mv, mv_exports mv) (ucast hi) True False st; ne_far w r }
        else do {
          guard (0 < unat (t ! 0) \<and> unat (t ! 0) \<le> length (mv_mmaps mv));
          Some (Some (push_bit 16 (ucast (lxSelectorToSegment (mm_alias (mv_mmaps mv ! (unat (t ! 0) - 1))))) OR ucast hi), st) })
     else if kind = 1 then do {
       guard (0 < unat lo \<and> unat lo \<le> length (mv_deps mv));
       r \<leftarrow> proc_by_ordinal w (mv_deps mv ! (unat lo - 1)) (ucast hi) True True st;
       ne_far w r }
     else if kind = 2 then do {
       let q = names + unat hi;
       l \<leftarrow> rd8 exe q;
       name \<leftarrow> rd_blk exe (q + 1) (unat l);
       guard (0 < unat lo \<and> unat lo \<le> length (mv_deps mv));
       r \<leftarrow> proc_by_name w (mv_deps mv ! (unat lo - 1)) (takeWhile (\<lambda>c. c \<noteq> 0) name) True st;
       ne_far w r }
     else Some (None, st))"

text \<open>One store of a chained record, and of an additive one; an unknown type stores nothing.\<close>

definition ne_patch :: "u8 \<Rightarrow> u32 \<Rightarrow> bytes \<Rightarrow> nat \<Rightarrow> bytes option" where
  "ne_patch srctype target mem src =
    (let k = srctype AND 0xF in
     if k = 0 then wr8 mem src (ucast target)
     else if k = 2 then wr_blk mem src (bytes16 (ucast (drop_bit 16 target)))
     else if k = 3 then do {
       mem1 \<leftarrow> wr_blk mem src (bytes16 (ucast target));
       wr_blk mem1 (src + 2) (bytes16 (ucast (drop_bit 16 target))) }
     else if k = 5 then wr_blk mem src (bytes16 (ucast target))
     else Some mem)"

definition add16 :: "bytes \<Rightarrow> nat \<Rightarrow> u16 \<Rightarrow> bytes option" where
  "add16 mem i v = do { x \<leftarrow> rd16 mem i; wr_blk mem i (bytes16 (x + v)) }"

definition ne_patch_add :: "u8 \<Rightarrow> u32 \<Rightarrow> bytes \<Rightarrow> nat \<Rightarrow> bytes option" where
  "ne_patch_add srctype target mem src =
    (let k = srctype AND 0xF in
     if k = 0 then do { x \<leftarrow> rd8 mem src; wr8 mem src (x + ucast target) }
     else if k = 2 then add16 mem src (ucast (drop_bit 16 target))
     else if k = 3 then do { mem1 \<leftarrow> add16 mem src (ucast target); add16 mem1 (src + 2) (ucast (drop_bit 16 target)) }
     else if k = 5 then add16 mem src (ucast target)
     else Some mem)"

text \<open>
  The walk along a chain: each source location holds the offset of the next one.  It may not end,
  so it is a partial function; not ending is the value \<open>None\<close>, as is a fault.
\<close>

partial_function (option) ne_chain :: "u8 \<Rightarrow> u32 \<Rightarrow> u16 \<Rightarrow> nat \<Rightarrow> bytes \<Rightarrow> bytes option" where
  "ne_chain srctype target segsize src mem =
    (if src < unat segsize then
       Option.bind (rd16 mem src) (\<lambda>nxt.
         Option.bind (ne_patch srctype target mem src) (\<lambda>mem'.
           ne_chain srctype target segsize (unat nxt) mem'))
     else Some mem)"

fun ne_fixups ::
  "world \<Rightarrow> bytes \<Rightarrow> bytes \<Rightarrow> nat \<Rightarrow> modview \<Rightarrow> u16 \<Rightarrow> nat \<Rightarrow> nat \<Rightarrow> bytes \<times> tramps \<Rightarrow> (bytes \<times> tramps) option" where
  "ne_fixups w origexe exe names mv segsize 0 p s = Some s"
| "ne_fixups w origexe exe names mv segsize (Suc n) p (mem, st) = do {
     srctype \<leftarrow> rd8 origexe p;
     flags \<leftarrow> rd8 origexe (p + 1);
     src \<leftarrow> rd16 origexe (p + 2);
     t \<leftarrow> rd_blk origexe (p + 4) 4;
     (target, st') \<leftarrow> ne_target w exe names mv flags t st;
     (case target of
        None \<Rightarrow> ne_fixups w origexe exe names mv segsize n (p + 8) (mem, st')
      | Some v \<Rightarrow> do {
          mem' \<leftarrow> (if flags AND 0x4 \<noteq> 0 then ne_patch_add srctype v mem (unat src)
                   else ne_chain srctype v segsize (unat src) mem);
          ne_fixups w origexe exe names mv segsize n (p + 8) (mem', st') }) }"

definition fixupNeSegment ::
  "world \<Rightarrow> bytes \<Rightarrow> bytes \<Rightarrow> NeHeader \<Rightarrow> modview \<Rightarrow> NeSegmentTableEntry \<Rightarrow> bytes \<times> tramps \<Rightarrow> (bytes \<times> tramps) option" where
  "fixupNeSegment w origexe exe ne mv seg s =
    (if segment_flags seg AND 0x100 = 0 then Some s
     else do {
       let segptr = unat (push_bit (unat (sector_alignment_shift_count ne)) (ucast (seg_offset seg)) :: u32);
       let fixupptr = segptr + (if seg_size seg \<noteq> 0 then unat (seg_size seg) else 0xFFFF);
       num_fixups \<leftarrow> rd16 origexe fixupptr;
       ne_fixups w origexe exe (unat (imported_names_table_offset ne)) mv (seg_size seg) (unat num_fixups) (fixupptr + 2) s })"

subsection \<open>Relocating a page\<close>

text \<open>
  The four-byte records a linker writes: a 32-bit offset (source type 7), an offset relative to the instruction
  behind it (8), or a 16:16 pointer through the alias of an object (3 with the alias flag); to an offset in an object of the
  module or to an export of another module by its ordinal; with or without an additive.
\<close>

datatype rkind = Off32 | Rel32 | Far16
datatype rtarget = Internal u8 u32 | Imported u8 u16

record reloc =
  r_kind :: rkind
  r_offset :: u16
  r_target :: rtarget
  r_add :: "u32 option"

definition enc_type :: "rkind \<Rightarrow> u8" where
  "enc_type k = (case k of Off32 \<Rightarrow> 7 | Rel32 \<Rightarrow> 8 | Far16 \<Rightarrow> 0x13)"

definition enc_flags :: "rtarget \<Rightarrow> u32 option \<Rightarrow> u8" where
  "enc_flags tgt add = (case tgt of Internal _ _ \<Rightarrow> if add = None then 0x10 else 0x34
     | Imported _ _ \<Rightarrow> if add = None then 0x01 else 0x25)"

fun enc_target :: "rtarget \<Rightarrow> bytes" where
  "enc_target (Internal obj off) = [obj] @ bytes32 off"
| "enc_target (Imported md ord) = [md] @ bytes16 ord"

definition enc_add :: "u32 option \<Rightarrow> bytes" where
  "enc_add add = (case add of None \<Rightarrow> [] | Some v \<Rightarrow> bytes32 v)"

definition enc_reloc :: "reloc \<Rightarrow> bytes" where
  "enc_reloc r = [enc_type (r_kind r), enc_flags (r_target r) (r_add r)] @ bytes16 (r_offset r) @ enc_target (r_target r) @ enc_add (r_add r)"

definition reloc_pos :: "nat \<Rightarrow> reloc \<Rightarrow> nat" where
  "reloc_pos page r = nat (int page + sint (r_offset r))"

text \<open>What a record points to: a linear address, and the object it is in.\<close>

fun points_to :: "world \<Rightarrow> modview \<Rightarrow> rtarget \<Rightarrow> (u32 \<times> LxMmaps option) option" where
  "points_to w mv (Internal obj off) =
    (if 0 < unat obj \<and> unat obj \<le> length (mv_mmaps mv)
     then Some (mm_addr (mv_mmaps mv ! (unat obj - 1)) + off, Some (mv_mmaps mv ! (unat obj - 1))) else None)"
| "points_to w mv (Imported md ord) =
    (if 0 < unat md \<and> unat md \<le> length (mv_deps mv)
     then (case getModuleProcAddrByOrdinal (w_deref w) (snd (mv_deps mv ! (unat md - 1))) (ucast ord) True of
        Some (Proc a e) \<Rightarrow> Some (a, ex_object e) | _ \<Rightarrow> None) else None)"

text \<open>The linear address itself, the distance to it, or its offset in the object behind the segment of the object.\<close>

definition reloc_value :: "world \<Rightarrow> modview \<Rightarrow> u32 \<Rightarrow> nat \<Rightarrow> reloc \<Rightarrow> u32" where
  "reloc_value w mv addr page r =
    (let (linear, obj) = the (points_to w mv (r_target r)); add = (case r_add r of None \<Rightarrow> 0 | Some v \<Rightarrow> v) in
     case r_kind r of
       Off32 \<Rightarrow> linear + add
     | Rel32 \<Rightarrow> linear + add - (addr + of_nat (reloc_pos page r) + 4)
     | Far16 \<Rightarrow> (push_bit 16 (ucast (lxSelectorToSegment (mm_alias (the obj)))) OR (linear - mm_addr (the obj))) + add)"

definition reloc_ok :: "world \<Rightarrow> modview \<Rightarrow> nat \<Rightarrow> bytes \<Rightarrow> reloc \<Rightarrow> bool" where
  "reloc_ok w mv page mem r \<longleftrightarrow> 0 \<le> int page + sint (r_offset r) \<and> reloc_pos page r + 4 \<le> length mem \<and>
     (case points_to w mv (r_target r) of None \<Rightarrow> False
      | Some (linear, obj) \<Rightarrow> r_kind r = Far16 \<longrightarrow> (case obj of None \<Rightarrow> False | Some m \<Rightarrow> mm_alias m \<noteq> 0xFFFF))"

definition reloc_write :: "world \<Rightarrow> modview \<Rightarrow> u32 \<Rightarrow> nat \<Rightarrow> reloc \<Rightarrow> nat \<times> bytes" where
  "reloc_write w mv addr page r = (reloc_pos page r, bytes32 (reloc_value w mv addr page r))"

lemma of_nat_reloc_pos: "0 \<le> int page + sint (r_offset r) \<Longrightarrow>
    (of_nat (reloc_pos page r) :: u32) = of_nat page + scast (r_offset r)"
proof -
  assume "0 \<le> int page + sint (r_offset r)"
  then have "(of_nat (reloc_pos page r) :: u32) = of_int (int page + sint (r_offset r))"
    by (simp add: reloc_pos_def)
  then show ?thesis by simp
qed

lemma enc_flags_bits:
  "enc_flags tgt add AND 0x40 = 0" "enc_flags tgt add AND 0x80 = 0"
  "enc_flags tgt add AND 0x3 = (case tgt of Internal _ _ \<Rightarrow> 0 | Imported _ _ \<Rightarrow> 1)"
  "enc_flags tgt add AND 0x10 = (case tgt of Internal _ _ \<Rightarrow> 0x10 | Imported _ _ \<Rightarrow> 0)"
  "enc_flags tgt add AND 0x4 = (if add = None then 0 else 4)" "add \<noteq> None \<Longrightarrow> enc_flags tgt add AND 0x20 \<noteq> 0"
  by (cases tgt; cases add; simp add: enc_flags_def)+

lemma enc_type_bits:
  "enc_type k AND 0xF = (case k of Off32 \<Rightarrow> 7 | Rel32 \<Rightarrow> 8 | Far16 \<Rightarrow> 3)" "enc_type k AND 0x20 = 0"
  "enc_type k AND 0x10 = (case k of Far16 \<Rightarrow> 0x10 | _ \<Rightarrow> 0)"
  by (cases k; simp add: enc_type_def)+

text \<open>The target of a record, before the additive.\<close>

definition far_value :: "rkind \<Rightarrow> u32 \<Rightarrow> LxMmaps option \<Rightarrow> u32" where
  "far_value k linear obj = (if k = Far16 then push_bit 16 (ucast (lxSelectorToSegment (mm_alias (the obj)))) OR (linear - mm_addr (the obj))
     else linear)"

lemma fix_target_internal:
  assumes "rd8 exe p = Some obj" "rd32 exe (p + 1) = Some off" "points_to w mv (Internal obj off) = Some (linear, m)"
    "k = Far16 \<Longrightarrow> mm_alias (the m) \<noteq> 0xFFFF"
  shows "fix_target w exe ipt mv (enc_type k) (enc_flags (Internal obj off) add) p st = Some ((far_value k linear m, 0, p + 5), st)"
proof -
  have o: "0 < unat obj" "unat obj \<le> length (mv_mmaps mv)" "linear = mm_addr (mv_mmaps mv ! (unat obj - 1)) + off"
    "m = Some (mv_mmaps mv ! (unat obj - 1))"
    using assms(3) by (auto split: if_split_asm)
  have i: "fix_id exe (enc_flags (Internal obj off) add) p = Some (ucast obj, p + 1)"
    using assms(1) by (simp add: fix_id_def enc_flags_bits)
  have u: "fix_u32 exe (enc_flags (Internal obj off) add AND 0x10 \<noteq> 0) (p + 1) = Some (off, p + 5)"
    using assms(2) by (simp add: fix_u32_def enc_flags_bits)
  show ?thesis using assms(4) o i u
    by (cases k) (simp_all add: fix_target_def fix_internal_def enc_flags_bits enc_type_bits far_value_def)
qed

lemma fix_target_imported:
  assumes "rd8 exe p = Some md" "rd16 exe (p + 1) = Some ord" "points_to w mv (Imported md ord) = Some (linear, m)"
    "k = Far16 \<Longrightarrow> m \<noteq> None \<and> mm_alias (the m) \<noteq> 0xFFFF"
  shows "fix_target w exe ipt mv (enc_type k) (enc_flags (Imported md ord) add) p st = Some ((far_value k linear m, 0, p + 3), st)"
proof -
  obtain e where o: "0 < unat md" "unat md \<le> length (mv_deps mv)" "m = ex_object e"
    "getModuleProcAddrByOrdinal (w_deref w) (snd (mv_deps mv ! (unat md - 1))) (ucast ord) True = Some (Proc linear e)"
    using assms(3) by (auto split: if_split_asm option.splits proc.splits)
  have i: "fix_id exe (enc_flags (Imported md ord) add) p = Some (ucast md, p + 1)"
    using assms(1) by (simp add: fix_id_def enc_flags_bits)
  have u: "fix_u32 exe (enc_flags (Imported md ord) add AND 0x10 \<noteq> 0) (p + 1) = Some (ucast ord, p + 3)"
    using assms(2) by (simp add: fix_u32_def enc_flags_bits)
  have nz: "(ucast md :: u16) \<noteq> 0" using o(1) by (metis unat_ucast_u8_u16_up unsigned_0 less_irrefl)
  have pr: "proc_by_ordinal w (mv_deps mv ! (unat md - 1)) (ucast ord) b True st = Some ((linear, Some e), st)" for b
    using o(4) by (simp add: proc_by_ordinal_def)
  show ?thesis using assms(4) o(1-3) i u nz pr
    by (cases k) (auto simp: fix_target_def fix_import_ordinal_def fix_alias_def enc_flags_bits enc_type_bits far_value_def)
qed

lemma enc_target_Nil: "enc_target tgt \<noteq> []"
  by (cases tgt) simp_all

lemma fix_target_reloc:
  assumes "rd_blk exe p (length (enc_target tgt)) = Some (enc_target tgt)" "points_to w mv tgt = Some (linear, m)"
    "k = Far16 \<Longrightarrow> m \<noteq> None \<and> mm_alias (the m) \<noteq> 0xFFFF"
  shows "fix_target w exe ipt mv (enc_type k) (enc_flags tgt add) p st
    = Some ((far_value k linear m, 0, p + length (enc_target tgt)), st)"
proof (cases tgt)
  case (Internal obj off)
  note rd = rd_blk_reads [OF assms(1)]
  have "rd8 exe p = Some obj" "rd32 exe (p + 1) = Some off"
    using rd(1) [of 0] rd(3) [of 1] by (simp_all add: Internal bytes32_def le32_bytes32)
  then show ?thesis using fix_target_internal assms(2,3) by (simp add: Internal)
next
  case (Imported md ord)
  note rd = rd_blk_reads [OF assms(1)]
  have "rd8 exe p = Some md" "rd16 exe (p + 1) = Some ord"
    using rd(1) [of 0] rd(2) [of 1] by (simp_all add: Imported bytes16_def le16_bytes16)
  then show ?thesis using fix_target_imported assms(2,3) by (simp add: Imported)
qed

lemma fix_record_reloc:
  assumes "rd_blk exe p (length (enc_reloc r)) = Some (enc_reloc r)" "reloc_ok w mv page mem r"
  shows "fix_record w exe ipt mv addr page p (mem, st)
    = Some (p + length (enc_reloc r), writes [reloc_write w mv addr page r] mem, st)"
proof -
  let ?hd = "[enc_type (r_kind r), enc_flags (r_target r) (r_add r)] @ bytes16 (r_offset r)"
  let ?n = "length (enc_target (r_target r))"
  have parts: "rd_blk exe p (length ?hd) = Some ?hd" "rd_blk exe (p + 4) ?n = Some (enc_target (r_target r))"
    "rd_blk exe (p + 4 + ?n) (length (enc_add (r_add r))) = Some (enc_add (r_add r))"
  proof -
    have e: "enc_reloc r = ?hd @ enc_target (r_target r) @ enc_add (r_add r)" by (simp add: enc_reloc_def)
    have l: "length ?hd = 4" by simp
    have "rd_blk exe p (length ?hd) = Some ?hd"
      "rd_blk exe (p + length ?hd) (length (enc_target (r_target r) @ enc_add (r_add r))) = Some (enc_target (r_target r) @ enc_add (r_add r))"
      using assms(1) unfolding e by (simp_all only: rd_blk_append)
    then show "rd_blk exe p (length ?hd) = Some ?hd" "rd_blk exe (p + 4) ?n = Some (enc_target (r_target r))"
      "rd_blk exe (p + 4 + ?n) (length (enc_add (r_add r))) = Some (enc_add (r_add r))"
      by (simp_all only: l rd_blk_append)
  qed
  have hd: "rd8 exe p = Some (enc_type (r_kind r))" "rd8 exe (p + 1) = Some (enc_flags (r_target r) (r_add r))"
    "rd16 exe (p + 2) = Some (r_offset r)"
    using rd_blk_reads(1) [OF parts(1), of 0] rd_blk_reads(1) [OF parts(1), of 1] rd_blk_reads(2) [OF parts(1), of 2]
    by (simp_all add: bytes16_def le16_bytes16)
  obtain linear m where pt: "points_to w mv (r_target r) = Some (linear, m)"
    and far: "r_kind r = Far16 \<Longrightarrow> m \<noteq> None \<and> mm_alias (the m) \<noteq> 0xFFFF"
    using assms(2) by (auto simp: reloc_ok_def split: option.splits)
  have pos: "0 \<le> int page + sint (r_offset r)" "reloc_pos page r + 4 \<le> length mem" using assms(2) by (auto simp: reloc_ok_def)
  let ?add = "case r_add r of None \<Rightarrow> 0 | Some v \<Rightarrow> v"
  let ?v = "far_value (r_kind r) linear m + ?add"
  have tgt: "fix_target w exe ipt mv (enc_type (r_kind r)) (enc_flags (r_target r) (r_add r)) (p + 4) st
      = Some ((far_value (r_kind r) linear m, 0, p + 4 + ?n), st)"
    by (rule fix_target_reloc [OF parts(2) pt far])
  have ad: "(if enc_flags (r_target r) (r_add r) AND 0x4 \<noteq> 0
        then fix_u32 exe (enc_flags (r_target r) (r_add r) AND 0x20 \<noteq> 0) (p + 4 + ?n) else Some (0, p + 4 + ?n))
      = Some (?add, p + length (enc_reloc r))"
  proof (cases "r_add r")
    case None
    then show ?thesis by (simp add: enc_flags_bits enc_reloc_def enc_add_def)
  next
    case (Some v)
    have "rd32 exe (p + 4 + ?n) = Some v"
      using rd_blk_reads(3) [OF parts(3), of 0] by (simp add: Some enc_add_def bytes32_def le32_bytes32)
    then show ?thesis using Some enc_flags_bits(6) [of "r_add r" "r_target r"]
      by (simp add: enc_flags_bits(5) fix_u32_def enc_reloc_def enc_add_def)
  qed
  have val: "(if r_kind r = Rel32 then ?v - (addr + of_nat page + scast (r_offset r) + 4) else ?v) = reloc_value w mv addr page r"
    using of_nat_reloc_pos [OF pos(1)] by (cases "r_kind r") (simp_all add: reloc_value_def pt far_value_def Let_def add.assoc)
  have "fix_store mem addr page (enc_type (r_kind r)) ?v 0 (r_offset r)
      = wr_blk mem (reloc_pos page r) (bytes32 (reloc_value w mv addr page r))"
    using pos(1) val by (cases "r_kind r")
      (simp_all add: fix_store_def doFixup_def fix_size_def store_at_def reloc_pos_def enc_type_bits add.assoc)
  then have st: "fix_store mem addr page (enc_type (r_kind r)) ?v 0 (r_offset r) = Some (writes [reloc_write w mv addr page r] mem)"
    using pos(2) by (simp add: reloc_write_def wr_blk_def)
  show ?thesis using hd tgt ad st by (simp add: fix_record_def enc_type_bits(2) del: writes.simps)
qed

lemma enc_reloc_pos: "0 < length (enc_reloc r)"
  by (simp add: enc_reloc_def)

lemma fix_records_step:
  "p < fixupend \<Longrightarrow> fix_record w exe ipt mv addr page p s = Some (q, s') \<Longrightarrow>
    fix_records w exe ipt mv addr page fixupend p s = fix_records w exe ipt mv addr page fixupend q s'"
  by (subst fix_records.simps) simp

lemma fix_records_relocs:
  "rd_blk exe p (length (concat (map enc_reloc rs))) = Some (concat (map enc_reloc rs)) \<Longrightarrow>
    \<forall>r \<in> set rs. reloc_ok w mv page mem r \<Longrightarrow>
    fix_records w exe ipt mv addr page (p + length (concat (map enc_reloc rs))) p (mem, st)
      = Some (writes (map (reloc_write w mv addr page) rs) mem, st)"
proof (induction rs arbitrary: p mem)
  case Nil
  show ?case by (simp add: fix_records.simps)
next
  case (Cons r rs)
  let ?q = "p + length (enc_reloc r)" and ?rest = "concat (map enc_reloc rs)"
  have rd: "rd_blk exe p (length (enc_reloc r)) = Some (enc_reloc r)" "rd_blk exe ?q (length ?rest) = Some ?rest"
    using Cons.prems(1) by (simp_all only: list.map concat.simps rd_blk_append)
  have ok: "reloc_ok w mv page mem r" using Cons.prems(2) by simp
  let ?mem = "writes [reloc_write w mv addr page r] mem"
  have "length ?mem = length mem" using ok by (simp add: reloc_write_def reloc_ok_def)
  then have "\<forall>r \<in> set rs. reloc_ok w mv page ?mem r" using Cons.prems(2) by (simp add: reloc_ok_def)
  note rest = Cons.IH [OF rd(2) this]
  have eq: "writes (map (reloc_write w mv addr page) (r # rs)) mem = writes (map (reloc_write w mv addr page) rs) ?mem"
    by (simp only: list.map writes_Cons [of "reloc_write w mv addr page r" "map (reloc_write w mv addr page) rs"])
  have len: "p + length (concat (map enc_reloc (r # rs))) = ?q + length ?rest" by simp
  have lt: "p < ?q + length ?rest" using enc_reloc_pos [of r] by simp
  show ?case unfolding eq len fix_records_step [OF lt fix_record_reloc [OF rd(1) ok]] by (rule rest)
qed

text \<open>A 16:16 pointer whose target is in the first 64 kilobytes of the object converts to the target.\<close>

lemma far_value_points:
  assumes "points_to w mv (r_target r) = Some (linear, Some m)" "r_kind r = Far16" "r_add r = None" "linear - mm_addr m < 0x10000"
    and "unat (mm_alias m) < LX_MAX_LDT_SLOTS" "ldt st (unat (mm_alias m)) = mm_addr m" "mm_addr m \<noteq> 0"
  shows "lxConvert1616to32 st (reloc_value w mv addr page r) = Some linear"
proof -
  let ?o = "ucast (linear - mm_addr m) :: u16"
  have "unat (ucast ?o :: u32) = unat (linear - mm_addr m)"
    using assms(4) by (simp add: unsigned_ucast_eq unat_take_bit_word word_less_nat_alt)
  then have o: "ucast ?o = linear - mm_addr m" by (simp only: word_unat_eq_iff)
  have "reloc_value w mv addr page r = far_pointer (mm_alias m) ?o"
    using assms(1-3) by (simp add: reloc_value_def far_pointer_def o)
  then show ?thesis using lxConvert1616to32_far [OF assms(5), of st ?o] assms(6,7) o by simp
qed


text \<open>
  Witness: the address of an export of another module, the distance to an object of the module itself and a 16:16 pointer to the same
  export, which is at 0x30 in its object.
\<close>

definition demo_relocs :: "reloc list" where
  "demo_relocs =
    [\<lparr>r_kind = Off32, r_offset = 4, r_target = Imported 1 7, r_add = Some 2\<rparr>,
     \<lparr>r_kind = Rel32, r_offset = 0, r_target = Internal 1 0x40, r_add = None\<rparr>,
     \<lparr>r_kind = Far16, r_offset = 8, r_target = Imported 1 7, r_add = None\<rparr>]"

text \<open>A file with the page table at 0 (one page) and the records at 8.\<close>

definition demo_fix_exe :: bytes where
  "demo_fix_exe = bytes32 0 @ bytes32 27 @ concat (map enc_reloc demo_relocs)"

definition demo_lx :: LxHeader where
  "demo_lx = the (read_LxHeader (replicate 172 0) 0)\<lparr>fixup_page_table_offset := 0, fixup_record_table_offset := 8\<rparr>"

definition demo_alias_export :: LxExport where
  "demo_alias_export = \<lparr>ex_ordinal = 7, ex_name = None, ex_addr = 0x20030,
    ex_object = Some \<lparr>mm_mapped = 0x20000, mm_addr = 0x20000, mm_size = 0x1000, mm_prot = 3, mm_alias = 2\<rparr>\<rparr>"

definition demo_mv :: modview where
  "demo_mv = \<lparr>mv_name = [0x41], mv_mmaps = [demo_mmap], mv_exports = [], mv_deps = [([0x42], [demo_alias_export])]\<rparr>"

definition demo_obj :: LxObjectTableEntry where
  "demo_obj = \<lparr>virtual_size = 0x1000, reloc_base_addr = 0x10000, object_flags = 7, page_table_index = 1,
    num_page_table_entries = 1, ote_reserved = 0\<rparr>"

definition world_demo :: world where
  "world_demo = \<lparr>w_host = host_demo, w_mods = [], w_deref = Some\<rparr>"


subsection \<open>NE chains\<close>

text \<open>The bytes a segment, far-address or offset fixup stores.\<close>

definition patch_bytes :: "u8 \<Rightarrow> u32 \<Rightarrow> bytes" where
  "patch_bytes k target = (if k = 2 then bytes16 (ucast (drop_bit 16 target))
     else if k = 3 then bytes16 (ucast target) @ bytes16 (ucast (drop_bit 16 target))
     else bytes16 (ucast target))"

definition word_patch :: "u8 \<Rightarrow> bool" where
  "word_patch srctype \<longleftrightarrow> srctype AND 0xF = 2 \<or> srctype AND 0xF = 3 \<or> srctype AND 0xF = 5"

lemma length_patch_bytes: "2 \<le> length (patch_bytes k target)"
  by (simp add: patch_bytes_def)

lemma ne_patch_writes:
  assumes "word_patch srctype" "within mem (src, patch_bytes (srctype AND 0xF) target)"
  shows "ne_patch srctype target mem src = Some (writes [(src, patch_bytes (srctype AND 0xF) target)] mem)"
proof -
  have b: "blit (blit mem src xs) (src + 2) ys = blit mem src (xs @ ys)"
    if "length xs = 2" "src + 2 + length ys \<le> length mem" for xs ys :: bytes
    using blit_blit [of src xs ys mem] that by simp
  show ?thesis using assms
    by (auto simp: word_patch_def ne_patch_def patch_bytes_def within_def wr_blk_def b [simplified])
qed

text \<open>The chain as the linker leaves it: the locations \<open>xs\<close>, each holding the offset of the next.\<close>

fun linked :: "bytes \<Rightarrow> u16 \<Rightarrow> nat \<Rightarrow> nat list \<Rightarrow> bool" where
  "linked mem segsize src [] \<longleftrightarrow> \<not> src < unat segsize"
| "linked mem segsize src (x # xs) \<longleftrightarrow> src = x \<and> x < unat segsize \<and>
    (case rd16 mem x of None \<Rightarrow> False | Some nxt \<Rightarrow> linked mem segsize (unat nxt) xs)"

lemma linked_write:
  "linked mem segsize src xs \<Longrightarrow> within mem (i, b) \<Longrightarrow>
    \<forall>x \<in> set xs. i + length b \<le> x \<or> x + 2 \<le> i \<Longrightarrow> linked (blit mem i b) segsize src xs"
proof (induction xs arbitrary: src)
  case (Cons x xs)
  have "rd16 (blit mem i b) x = rd16 mem x"
    using Cons.prems(2,3) by (auto simp: rd16_def nth_blit within_def)
  then show ?case using Cons by (auto split: option.splits)
qed simp

lemma ne_chain_linked:
  fixes target :: u32
  assumes "word_patch srctype"
  defines "b \<equiv> patch_bytes (srctype AND 0xF) target"
  shows "linked mem segsize src xs \<Longrightarrow> \<forall>x \<in> set xs. within mem (x, b) \<Longrightarrow>
    sorted_wrt apart (map (\<lambda>x. (x, b)) xs) \<Longrightarrow>
    ne_chain srctype target segsize src mem = Some (writes (map (\<lambda>x. (x, b)) xs) mem)"
proof (induction xs arbitrary: src mem)
  case Nil
  then show ?case by (subst ne_chain.simps) simp
next
  case (Cons x xs)
  obtain nxt where nxt: "rd16 mem x = Some nxt" "linked mem segsize (unat nxt) xs" "src = x" "x < unat segsize"
    using Cons.prems(1) by (auto split: option.splits)
  have wx: "within mem (x, b)" using Cons.prems(2) by simp
  have patch: "ne_patch srctype target mem x = Some (blit mem x b)"
    using ne_patch_writes [OF assms(1), of mem x target] wx by (simp add: b_def)
  have "2 \<le> length b" by (simp add: b_def length_patch_bytes)
  then have "linked (blit mem x b) segsize (unat nxt) xs"
    by (intro linked_write nxt wx) (use Cons.prems(3) in \<open>fastforce simp: apart_def\<close>)
  moreover have "\<forall>y \<in> set xs. within (blit mem x b) (y, b)"
    using Cons.prems(2) wx by (simp add: within_def)
  ultimately have "ne_chain srctype target segsize (unat nxt) (blit mem x b)
      = Some (writes (map (\<lambda>x. (x, b)) xs) (blit mem x b))"
    using Cons.IH Cons.prems(3) by simp
  then show ?case using nxt patch by (subst ne_chain.simps) simp
qed

text \<open>
  C20.  An NE fixup chain.  For a chain of non-overlapping locations inside the segment, the walk
  ends, every location of the chain holds the target's segment, offset or far address afterwards,
  and no other byte of the segment changes.
\<close>

theorem ne_chain_patches_all:
  assumes "word_patch srctype" "linked mem segsize src xs"
    "\<forall>x \<in> set xs. x + length (patch_bytes (srctype AND 0xF) target) \<le> length mem"
    "sorted_wrt (\<lambda>x y. x + length (patch_bytes (srctype AND 0xF) target) \<le> y \<or>
      y + length (patch_bytes (srctype AND 0xF) target) \<le> x) xs"
  shows "\<exists>mem'. ne_chain srctype target segsize src mem = Some mem' \<and> length mem' = length mem \<and>
    (\<forall>x \<in> set xs. take (length (patch_bytes (srctype AND 0xF) target)) (drop x mem') = patch_bytes (srctype AND 0xF) target) \<and>
    (\<forall>k < length mem. (\<forall>x \<in> set xs. k < x \<or> x + length (patch_bytes (srctype AND 0xF) target) \<le> k) \<longrightarrow> mem' ! k = mem ! k)"
proof -
  define b where "b = patch_bytes (srctype AND 0xF) target"
  let ?ws = "map (\<lambda>x. (x, b)) xs"
  have within: "\<forall>w \<in> set ?ws. within mem w" using assms(3) by (simp add: within_def b_def)
  have ap: "sorted_wrt apart ?ws" using assms(4) by (simp add: sorted_wrt_map apart_def b_def)
  have "ne_chain srctype target segsize src mem = Some (writes ?ws mem)"
    unfolding b_def by (rule ne_chain_linked [OF assms(1,2)]) (use within ap in \<open>simp_all add: b_def\<close>)
  moreover have "take (length b) (drop x (writes ?ws mem)) = b" if "x \<in> set xs" for x
    by (rule writes_block [OF within ap]) (use that in simp)
  moreover have "writes ?ws mem ! k = mem ! k" if "k < length mem" "\<forall>x \<in> set xs. k < x \<or> x + length b \<le> k" for k
    by (rule nth_writes_outside [OF within _ that(1)]) (use that(2) in auto)
  moreover have "length (writes ?ws mem) = length mem" by (rule length_writes [OF within])
  ultimately show ?thesis unfolding b_def by blast
qed

definition demo_chain :: bytes where
  "demo_chain = [0x90, 6, 0, 0x90, 0x90, 0x90, 0xFF, 0xFF]"

theorem ne_chain_patches_all_witness:
  "\<exists>mem'. ne_chain 5 0x00171234 8 1 demo_chain = Some mem' \<and> length mem' = 8 \<and>
    take 2 (drop 6 mem') = [0x34, 0x12] \<and> take 2 (drop 1 mem') = [0x34, 0x12] \<and> mem' ! 0 = 0x90"
proof -
  have b: "patch_bytes 5 0x00171234 = [0x34, 0x12]" by (simp add: patch_bytes_def bytes16_def)
  have "word_patch 5" by (simp add: word_patch_def)
  moreover have "linked demo_chain 8 1 [1, 6]" by (simp add: demo_chain_def rd16_def le16_def)
  ultimately have "\<exists>mem'. ne_chain 5 0x00171234 8 1 demo_chain = Some mem' \<and> length mem' = length demo_chain \<and>
    (\<forall>x \<in> set [1, 6]. take (length (patch_bytes (5 AND 0xF) 0x00171234)) (drop x mem') = patch_bytes (5 AND 0xF) 0x00171234) \<and>
    (\<forall>k < length demo_chain. (\<forall>x \<in> set [1, 6]. k < x \<or> x + length (patch_bytes (5 AND 0xF) 0x00171234) \<le> k)
      \<longrightarrow> mem' ! k = demo_chain ! k)"
    by (rule ne_chain_patches_all) (simp_all add: b demo_chain_def)
  then obtain mem' where "ne_chain 5 0x00171234 8 1 demo_chain = Some mem'" "length mem' = 8"
    "take 2 (drop 6 mem') = [0x34, 0x12]" "take 2 (drop 1 mem') = [0x34, 0x12]" "mem' ! 0 = demo_chain ! 0"
    by (auto simp: b demo_chain_def numeral_2_eq_2)
  then show ?thesis by (auto simp: demo_chain_def)
qed

subsection \<open>Where NE fixups go wrong: 64k segments\<close>

lemma ne_chain_size0: "ne_chain srctype target 0 src mem = Some mem"
  by (subst ne_chain.simps) simp

lemma ne_fixups_size0:
  "ne_fixups w origexe exe names mv 0 n p (mem, st) = Some (mem', st') \<Longrightarrow>
    \<forall>k f. rd8 origexe (p + 8 * k + 1) = Some f \<longrightarrow> f AND 0x4 = 0 \<Longrightarrow> mem' = mem"
proof (induction n arbitrary: p mem st)
  case (Suc n)
  have nx: "\<forall>k f. rd8 origexe (p + 8 + 8 * k + 1) = Some f \<longrightarrow> f AND 0x4 = 0"
    using Suc.prems(2) by (metis add.assoc mult_Suc_right)
  have "f AND 0x4 = 0" if "rd8 origexe (Suc p) = Some f" for f
    using Suc.prems(2) that by (metis add.right_neutral mult_0_right Suc_eq_plus1)
  then show ?case using Suc.prems(1) Suc.IH [OF _ nx]
    by (auto simp: bind_eq_Some_conv ne_chain_size0 split: option.splits if_splits)
qed simp

text \<open>
  A segment of 64k has the size 0 in the segment table.  Its chained fixups are read, but
  none is applied: the walk stops at the first location because no offset is below the size.
\<close>

theorem fixupNeSegment_skips_64k:
  assumes "seg_size seg = 0" "segment_flags seg AND 0x100 \<noteq> 0"
    "fixupNeSegment w origexe exe ne mv seg (mem, st) = Some (mem', st')"
    "fixupptr = unat (push_bit (unat (sector_alignment_shift_count ne)) (ucast (seg_offset seg)) :: u32) + 0xFFFF"
    "\<forall>k f. rd8 origexe (fixupptr + 2 + 8 * k + 1) = Some f \<longrightarrow> f AND 0x4 = 0"
  shows "mem' = mem"
proof -
  obtain n where "ne_fixups w origexe exe (unat (imported_names_table_offset ne)) mv 0 n (fixupptr + 2) (mem, st)
      = Some (mem', st')"
    using assms(1-4) by (auto simp: fixupNeSegment_def Let_def bind_eq_Some_conv)
  then show ?thesis by (rule ne_fixups_size0) (rule assms(5))
qed

definition demo_64k_exe :: bytes where
  "demo_64k_exe = replicate 65535 0 @ [1, 0, 5, 0, 0, 0, 1, 0, 0x34, 0x12]"

definition demo_ne :: NeHeader where
  "demo_ne = the (read_NeHeader (replicate 64 0) 0)"

definition demo_64k_seg :: NeSegmentTableEntry where
  "demo_64k_seg = \<lparr>seg_offset = 0, seg_size = 0, segment_flags = 0x100, minimum_allocation = 0\<rparr>"

lemma demo_ne_fields: "sector_alignment_shift_count demo_ne = 0" "imported_names_table_offset demo_ne = 0"
  by (simp_all add: demo_ne_def read_NeHeader_def sizeof_NeHeader_def le16_def)

lemma nth_demo_64k: "k < 10 \<Longrightarrow> demo_64k_exe ! (65535 + k) = [1, 0, 5, 0, 0, 0, 1, 0, 0x34, 0x12] ! k"
  by (simp add: demo_64k_exe_def nth_append)

lemma demo_64k_flags: "rd8 demo_64k_exe (65535 + 2 + 8 * k + 1) = Some f \<Longrightarrow> f AND 0x4 = 0"
proof -
  assume a: "rd8 demo_64k_exe (65535 + 2 + 8 * k + 1) = Some f"
  have "length demo_64k_exe = 65545" by (simp add: demo_64k_exe_def)
  then have "k = 0" using a by (auto simp: rd8_def split: if_splits)
  then show ?thesis using a nth_demo_64k [of 3] by (auto simp: rd8_def split: if_splits)
qed

lemma demo_64k_runs:
  "fixupNeSegment world_demo demo_64k_exe [] demo_ne demo_mv demo_64k_seg ([7], tramps_empty) = Some ([7], tramps_empty)"
proof -
  have "length demo_64k_exe = 65545" by (simp add: demo_64k_exe_def)
  then have rd: "rd16 demo_64k_exe 65535 = Some 1" "rd8 demo_64k_exe 65537 = Some 5" "rd8 demo_64k_exe 65538 = Some 0"
      "rd16 demo_64k_exe 65539 = Some 0" "rd_blk demo_64k_exe 65541 4 = Some [1, 0, 0x34, 0x12]"
    using nth_demo_64k [of 0] nth_demo_64k [of 1] nth_demo_64k [of 2] nth_demo_64k [of 3] nth_demo_64k [of 4] nth_demo_64k [of 5]
    by (simp_all add: rd16_def rd8_def le16_def rd_blk_def) (simp add: demo_64k_exe_def)
  have "ne_target world_demo [] 0 demo_mv 0 [1, 0, 0x34, 0x12] tramps_empty = Some (Some 0xFFFF1234, tramps_empty)"
    by (simp add: ne_target_def demo_mv_def demo_mmap_def lxSelectorToSegment_def le16_def)
  then show ?thesis using rd
    by (simp add: fixupNeSegment_def demo_64k_seg_def demo_ne_fields ne_chain_size0)
qed

theorem fixupNeSegment_skips_64k_witness:
  "fixupNeSegment world_demo demo_64k_exe [] demo_ne demo_mv demo_64k_seg ([7], tramps_empty) = Some ([7], tramps_empty) \<and>
    [7] = ([7] :: bytes)"
proof
  show "[7] = ([7] :: bytes)"
    by (rule fixupNeSegment_skips_64k [OF _ _ demo_64k_runs, where fixupptr = 65535])
      (simp_all add: demo_64k_seg_def demo_ne_fields demo_64k_flags [simplified])
qed (rule demo_64k_runs)

subsection \<open>Code segment references\<close>

text \<open>Where a far jump to segment 0x5B starts.\<close>

definition far_jump_at :: "bytes \<Rightarrow> nat \<Rightarrow> bool" where
  "far_jump_at mem i \<longleftrightarrow> i + 6 < length mem \<and> mem ! i = 0xEA \<and> mem ! (i + 5) = 0x5B \<and> mem ! (i + 6) = 0"

lemma fixup_cs_loop_spec:
  "i + n \<le> length mem \<Longrightarrow> \<exists>mem'. fixup_cs_loop oc n i mem = Some mem' \<and> length mem' = length mem \<and>
    (\<forall>k < i. mem' ! k = mem ! k) \<and>
    (\<forall>k < length mem. mem' ! k \<noteq> mem ! k \<longrightarrow>
      (\<exists>j. i \<le> j \<and> far_jump_at mem j \<and> (k = j + 5 \<and> mem' ! k = ucast oc \<or> k = j + 6 \<and> mem' ! k = ucast (drop_bit 8 oc))))"
proof (induction oc n i mem rule: fixup_cs_loop.induct)
  case (1 oc n i mem)
  show ?case
  proof (cases "n < 7")
    case True
    then show ?thesis by (subst fixup_cs_loop.simps) simp
  next
    case False
    have rd: "rd8 mem i = Some (mem ! i)" "rd8 mem (i + 1 + 4) = Some (mem ! (i + 5))"
        "rd8 mem (i + 1 + 5) = Some (mem ! (i + 6))"
      using "1.prems" False by (simp_all add: rd8_def add.commute [of i])
    show ?thesis
    proof (cases "far_jump_at mem i")
      case j: True
      let ?m = "blit mem (i + 5) (bytes16 oc)"
      have wr: "wr_blk mem (i + 1 + 4) (bytes16 oc) = Some ?m" "length ?m = length mem"
        using "1.prems" False by (simp_all add: wr_blk_def add.commute [of i])
      have jm: "mem ! i = 0xEA" "mem ! (i + 5) = 0x5B" "mem ! (i + 6) = 0" "i + 6 < length mem"
        using j by (auto simp: far_jump_at_def)
      have nthm: "?m ! k = (if k = i + 5 then ucast oc else if k = i + 6 then ucast (drop_bit 8 oc) else mem ! k)"
        if "k < length mem" for k
      proof -
        consider "k < i + 5" | "k = i + 5" | "k = i + 6" | "i + 7 \<le> k" by linarith
        then show ?thesis using that jm(4) by cases (simp_all add: nth_blit bytes16_def)
      qed
      have "i + 1 + 6 + (n - 1 - 6) \<le> length ?m" using "1.prems" False wr(2) by simp
      from "1.IH"(1) [OF False rd(1) jm(1) rd(2) jm(2) rd(3) jm(3) wr(1) this]
      obtain mem' where m': "fixup_cs_loop oc (n - 1 - 6) (i + 1 + 6) ?m = Some mem'" "length mem' = length ?m"
        "\<forall>k < i + 1 + 6. mem' ! k = ?m ! k"
        "\<forall>k < length ?m. mem' ! k \<noteq> ?m ! k \<longrightarrow> (\<exists>j. i + 1 + 6 \<le> j \<and> far_jump_at ?m j \<and>
            (k = j + 5 \<and> mem' ! k = ucast oc \<or> k = j + 6 \<and> mem' ! k = ucast (drop_bit 8 oc)))"
        by blast
      have same: "?m ! k = mem ! k" if "i + 7 \<le> k" "k < length mem" for k
        unfolding nthm [OF that(2)] using that(1) by simp
      have jq: "far_jump_at mem q" if q: "far_jump_at ?m q" "i + 7 \<le> q" for q
      proof -
        have l: "q + 6 < length mem" using q(1) wr(2) by (simp add: far_jump_at_def)
        have "?m ! q = mem ! q" "?m ! (q + 5) = mem ! (q + 5)" "?m ! (q + 6) = mem ! (q + 6)"
          by (rule same; use q(2) l in simp)+
        then show ?thesis using q(1) l unfolding far_jump_at_def by argo
      qed
      have run: "fixup_cs_loop oc n i mem = Some mem'"
        using m'(1) False rd jm wr(1) by (subst fixup_cs_loop.simps) simp
      have "\<exists>j. i \<le> j \<and> far_jump_at mem j \<and> (k = j + 5 \<and> mem' ! k = ucast oc \<or> k = j + 6 \<and> mem' ! k = ucast (drop_bit 8 oc))"
        if k: "k < length mem" "mem' ! k \<noteq> mem ! k" for k
      proof (cases "mem' ! k = ?m ! k")
        case True
        have ne: "?m ! k \<noteq> mem ! k" using k(2) True by simp
        have "k = i + 5 \<or> k = i + 6"
        proof (rule ccontr)
          assume "\<not> (k = i + 5 \<or> k = i + 6)"
          then have "?m ! k = mem ! k" unfolding nthm [OF k(1)] by simp
          then show False using ne by simp
        qed
        then have "k = i + 5 \<and> mem' ! k = ucast oc \<or> k = i + 6 \<and> mem' ! k = ucast (drop_bit 8 oc)"
        proof
          assume e: "k = i + 5"
          have "mem' ! k = ucast oc" unfolding True nthm [OF k(1)] using e by simp
          then show ?thesis using e by simp
        next
          assume e: "k = i + 6"
          have "mem' ! k = ucast (drop_bit 8 oc)" unfolding True nthm [OF k(1)] using e by simp
          then show ?thesis using e by simp
        qed
        then show ?thesis using j by blast
      next
        case False
        have "k < length ?m" using k(1) wr(2) by simp
        from m'(4) [rule_format, OF this False] obtain q where q: "i + 1 + 6 \<le> q \<and> far_jump_at ?m q \<and>
          (k = q + 5 \<and> mem' ! k = ucast oc \<or> k = q + 6 \<and> mem' ! k = ucast (drop_bit 8 oc))"
          by (rule exE)
        have i7: "i + 7 \<le> q" and iq: "i \<le> q" using conjunct1 [OF q] by simp_all
        have "far_jump_at mem q" by (rule jq [OF conjunct1 [OF conjunct2 [OF q]] i7])
        with iq conjunct2 [OF conjunct2 [OF q]] show ?thesis by (intro exI [of _ q] conjI)
      qed
      moreover have "\<forall>k < i. mem' ! k = mem ! k" using m'(3) nthm jm(4) by simp
      ultimately show ?thesis using run m'(2) unfolding wr(2) by (intro exI [of _ mem'] conjI allI impI) simp_all
    next
      case j: False
      have step: "fixup_cs_loop oc n i mem = fixup_cs_loop oc (n - 1) (i + 1) mem"
        using False rd j "1.prems" by (subst fixup_cs_loop.simps) (auto simp: far_jump_at_def)
      have le: "i + 1 + (n - 1) \<le> length mem" using "1.prems" False by simp
      consider "mem ! i \<noteq> 0xEA" | "mem ! i = 0xEA" "mem ! (i + 5) \<noteq> 0x5B"
        | "mem ! i = 0xEA" "mem ! (i + 5) = 0x5B" "mem ! (i + 6) \<noteq> 0"
        using j "1.prems" False by (auto simp: far_jump_at_def)
      then have "\<exists>mem'. fixup_cs_loop oc (n - 1) (i + 1) mem = Some mem' \<and> length mem' = length mem \<and>
        (\<forall>k < i + 1. mem' ! k = mem ! k) \<and>
        (\<forall>k < length mem. mem' ! k \<noteq> mem ! k \<longrightarrow>
          (\<exists>j. i + 1 \<le> j \<and> far_jump_at mem j \<and> (k = j + 5 \<and> mem' ! k = ucast oc \<or> k = j + 6 \<and> mem' ! k = ucast (drop_bit 8 oc))))"
      proof cases
        case 1
        show ?thesis by (rule "1.IH"(4) [OF False rd(1) 1 le])
      next
        case 2
        show ?thesis by (rule "1.IH"(3) [OF False rd(1) 2(1) rd(2) 2(2) le])
      next
        case 3
        show ?thesis by (rule "1.IH"(2) [OF False rd(1) 3(1) rd(2) 3(2) rd(3) 3(3) le])
      qed
      then obtain mem' where m': "fixup_cs_loop oc (n - 1) (i + 1) mem = Some mem'" "length mem' = length mem"
        "\<forall>k < i + 1. mem' ! k = mem ! k"
        and ch: "\<And>k. k < length mem \<Longrightarrow> mem' ! k \<noteq> mem ! k \<Longrightarrow>
          \<exists>j. i + 1 \<le> j \<and> far_jump_at mem j \<and> (k = j + 5 \<and> mem' ! k = ucast oc \<or> k = j + 6 \<and> mem' ! k = ucast (drop_bit 8 oc))"
        by blast
      have "\<exists>j. i \<le> j \<and> far_jump_at mem j \<and> (k = j + 5 \<and> mem' ! k = ucast oc \<or> k = j + 6 \<and> mem' ! k = ucast (drop_bit 8 oc))"
        if kk: "k < length mem" "mem' ! k \<noteq> mem ! k" for k
        proof -
        obtain q where q: "i + 1 \<le> q \<and> far_jump_at mem q \<and> (k = q + 5 \<and> mem' ! k = ucast oc \<or> k = q + 6 \<and> mem' ! k = ucast (drop_bit 8 oc))"
          using ch [OF kk] by (rule exE)
        have "i \<le> q" using conjunct1 [OF q] by simp
        with conjunct2 [OF q] show ?thesis by (intro exI [of _ q] conjI) simp_all
      qed
      moreover have "\<forall>k < i. mem' ! k = mem ! k" using m'(3) by simp
      ultimately show ?thesis unfolding step using m'(1,2) by (intro exI [of _ mem'] conjI allI impI) simp_all
    qed
  qed
qed

text \<open>
  C22.  Redirecting far jumps in 16:16 code.  The scan stays inside the object, ends, and changes
  nothing but the segment word of instructions that look like a far jump to segment 0x5B, which
  becomes the loader's own code segment.
\<close>

theorem fixupLinearCodeSegmentReferences_patches:
  assumes "n \<le> length mem"
  shows "\<exists>mem'. fixupLinearCodeSegmentReferences original_cs mem n = Some mem' \<and> length mem' = length mem \<and>
    (\<forall>k < length mem. mem' ! k = mem ! k \<or>
      (\<exists>j. far_jump_at mem j \<and> (k = j + 5 \<and> mem' ! k = ucast original_cs
        \<or> k = j + 6 \<and> mem' ! k = ucast (drop_bit 8 original_cs))))"
proof -
  have "0 + n \<le> length mem" using assms by simp
  from fixup_cs_loop_spec [OF this, of original_cs]
  show ?thesis unfolding fixupLinearCodeSegmentReferences_def by blast
qed

definition demo_far_jump :: bytes where
  "demo_far_jump = [0x90, 0xEA, 1, 2, 3, 4, 0x5B, 0, 0x90]"

theorem fixupLinearCodeSegmentReferences_patches_witness:
  "\<exists>mem'. fixupLinearCodeSegmentReferences 0x23 demo_far_jump 9 = Some mem' \<and> length mem' = 9"
  proof -
  have "9 \<le> length demo_far_jump" by (simp add: demo_far_jump_def)
  from fixupLinearCodeSegmentReferences_patches [OF this]
  show ?thesis by (fastforce simp: demo_far_jump_def)
qed

end
