(* ===== verification/DosFiles.thy ===== *)
theory DosFiles
  imports Prelude
begin

section \<open>File handles (\<^verbatim>\<open>native/doscalls.c\<close>)\<close>

text \<open>
  OS/2 file handles are indices into the array \<^verbatim>\<open>HFiles\<close>, whose entries hold a Unix file
  descriptor (-1 for a free entry, -2 while an open call is in progress).  The Unix kernel is a
  parameter: the record \<open>unix\<close> of its calls over a kernel state \<open>'k\<close>, with \<open>Inl\<close> for a failure
  and its \<^verbatim>\<open>errno\<close>.  Each API call is one function on the table and the kernel state; the lock
  around the table makes it one step.
\<close>

datatype errno = EACCES | EBADF | EBUSY | EDQUOT | EEXIST | EINVAL | EIO | EISDIR | EMFILE | ENAMETOOLONG
  | ENFILE | ENOENT | ENOMEM | ENOSPC | ENOTDIR | EPERM | EROFS | ETXTBSY | EOTHER nat

text \<open>The return codes of the API that occur in the model.\<close>

datatype apiret = NO_ERROR | ERROR_INVALID_FUNCTION | ERROR_FILE_NOT_FOUND | ERROR_PATH_NOT_FOUND
  | ERROR_TOO_MANY_OPEN_FILES | ERROR_ACCESS_DENIED | ERROR_INVALID_HANDLE | ERROR_NOT_ENOUGH_MEMORY
  | ERROR_INVALID_DATA | ERROR_INVALID_DRIVE | ERROR_NO_MORE_FILES | ERROR_GEN_FAILURE | ERROR_NOT_DOS_DISK
  | ERROR_CANNOT_MAKE | ERROR_INVALID_PARAMETER | ERROR_NO_PROC_SLOTS | ERROR_TOO_MANY_SEM_REQUESTS
  | ERROR_SEM_OWNER_DIED | ERROR_DISK_FULL | ERROR_OPEN_FAILED | ERROR_BUFFER_OVERFLOW
  | ERROR_NO_MORE_SEARCH_HANDLES | ERROR_INVALID_TARGET_HANDLE | ERROR_TIMEOUT | ERROR_INVALID_NAME
  | ERROR_INVALID_LEVEL | ERROR_WAIT_NO_CHILDREN | ERROR_CHILD_NOT_COMPLETE | ERROR_NEGATIVE_SEEK
  | ERROR_INVALID_ORDINAL | ERROR_DRIVE_LOCKED | ERROR_FILENAME_EXCED_RANGE | ERROR_NESTING_TOO_DEEP
  | ERROR_INVALID_PROCID | ERROR_NOT_OWNER | ERROR_THREAD_NOT_TERMINATED | ERROR_ALREADY_POSTED
  | ERROR_ALREADY_RESET | ERROR_SEM_BUSY | ERROR_INVALID_THREADID | ERROR_SYS_INTERNAL | ERROR_BAD_ENVIRONMENT
  | ERROR_BAD_LENGTH | ERROR_ENVVAR_NOT_FOUND | ERROR_INVALID_FREQUENCY | ERROR_MAX_THRDS_REACHED
  | ERROR_BAD_FORMAT | ERROR_INVALID_EXE_SIGNATURE | ERROR_EXE_MARKED_INVALID | ERROR_EA_LIST_INCONSISTENT
  | ERROR_INVALID_CODE_PAGE | ERROR_CPLIST_TOO_SMALL

record 'k unix =
  u_open :: "bytes \<Rightarrow> u32 \<Rightarrow> u32 \<Rightarrow> 'k \<Rightarrow> (errno + int) \<times> 'k"
  u_close :: "int \<Rightarrow> 'k \<Rightarrow> (errno + unit) \<times> 'k"
  u_fstat :: "int \<Rightarrow> 'k \<Rightarrow> u32 option"
  u_ftruncate :: "int \<Rightarrow> nat \<Rightarrow> 'k \<Rightarrow> (errno + unit) \<times> 'k"
  u_write :: "int \<Rightarrow> bytes \<Rightarrow> 'k \<Rightarrow> (errno + u32) \<times> 'k"
  u_read :: "int \<Rightarrow> u32 \<Rightarrow> 'k \<Rightarrow> (errno + bytes) \<times> 'k"
  u_lseek :: "int \<Rightarrow> int \<Rightarrow> nat \<Rightarrow> 'k \<Rightarrow> (errno + u32) \<times> 'k"
  u_dup :: "int \<Rightarrow> 'k \<Rightarrow> (errno + int) \<times> 'k"
  u_fsync :: "int \<Rightarrow> 'k \<Rightarrow> (errno + unit) \<times> 'k"

record HFileInfo =
  hf_fd :: int
  hf_type :: u32
  hf_attr :: u32
  hf_flags :: u32

record 'k dosfiles =
  HFiles :: "HFileInfo list"
  kern :: 'k

definition free_entry :: HFileInfo where
  "free_entry = \<lparr>hf_fd = -1, hf_type = 0, hf_attr = 0, hf_flags = 0\<rparr>"

text \<open>The constants of \<^verbatim>\<open>fcntl.h\<close> and \<^verbatim>\<open>sys/stat.h\<close> (Linux, x86), and the device attribute of a character device.\<close>

definition O_WRONLY :: u32 where "O_WRONLY = 0x1"
definition O_RDWR :: u32 where "O_RDWR = 0x2"
definition O_CREAT :: u32 where "O_CREAT = 0x40"
definition O_EXCL :: u32 where "O_EXCL = 0x80"
definition O_TRUNC :: u32 where "O_TRUNC = 0x200"
definition O_SYNC :: u32 where "O_SYNC = 0x101000"
definition O_CLOEXEC :: u32 where "O_CLOEXEC = 0x80000"
definition S_IFMT :: u32 where "S_IFMT = 0xF000"
definition DAW_chardev :: u32 where "DAW_chardev = 0x8083"

subsection \<open>Descriptors\<close>

definition initHFileInfoFromUnixFd :: "'k unix \<Rightarrow> int \<Rightarrow> 'k \<Rightarrow> HFileInfo" where
  "initHFileInfoFromUnixFd u fd k =
    (if fd = -1 then free_entry
     else case u_fstat u fd k of
         None \<Rightarrow> free_entry
       | Some mode \<Rightarrow>
           \<lparr>hf_fd = fd,
            hf_type = (if mode AND S_IFMT = 0x8000 then 0
              else if mode AND S_IFMT = 0x6000 \<or> mode AND S_IFMT = 0x2000 then 1 else 2),
            hf_attr = DAW_chardev, hf_flags = 0\<rparr>)"

definition getHFileUnixDescriptor :: "'k dosfiles \<Rightarrow> u32 \<Rightarrow> int" where
  "getHFileUnixDescriptor st h = (if unat h < length (HFiles st) then hf_fd (HFiles st ! unat h) else -1)"

subsection \<open>Reading, writing, seeking, closing\<close>

definition DosWrite_implementation ::
  "'k unix \<Rightarrow> u32 \<Rightarrow> bytes \<Rightarrow> u32 \<Rightarrow> 'k dosfiles \<Rightarrow> (apiret \<times> u32) \<times> 'k dosfiles" where
  "DosWrite_implementation u h buf actual st =
    (let fd = getHFileUnixDescriptor st h in
     if fd = -1 then ((ERROR_INVALID_HANDLE, actual), st)
     else case u_write u fd buf (kern st) of
         (Inl e, k) \<Rightarrow> ((ERROR_DISK_FULL, 0), st\<lparr>kern := k\<rparr>)
       | (Inr rc, k) \<Rightarrow> ((NO_ERROR, rc), st\<lparr>kern := k\<rparr>))"

definition DosRead_implementation ::
  "'k unix \<Rightarrow> u32 \<Rightarrow> u32 \<Rightarrow> 'k dosfiles \<Rightarrow> (apiret \<times> bytes) \<times> 'k dosfiles" where
  "DosRead_implementation u h cbRead st =
    (let fd = getHFileUnixDescriptor st h in
     if fd = -1 then ((ERROR_INVALID_HANDLE, []), st)
     else case u_read u fd cbRead (kern st) of
         (Inl e, k) \<Rightarrow> ((ERROR_INVALID_FUNCTION, []), st\<lparr>kern := k\<rparr>)
       | (Inr bs, k) \<Rightarrow> ((NO_ERROR, bs), st\<lparr>kern := k\<rparr>))"

text \<open>\<open>method\<close> 0, 1, 2 is from the beginning, the current position and the end.\<close>

definition DosSetFilePtr_implementation ::
  "'k unix \<Rightarrow> u32 \<Rightarrow> int \<Rightarrow> u32 \<Rightarrow> 'k dosfiles \<Rightarrow> (apiret \<times> u32 option) \<times> 'k dosfiles" where
  "DosSetFilePtr_implementation u h ib method st =
    (if \<not> (method = 0 \<or> method = 1 \<or> method = 2) then ((ERROR_INVALID_FUNCTION, None), st)
     else let fd = getHFileUnixDescriptor st h in
       if fd = -1 then ((ERROR_INVALID_HANDLE, None), st)
       else case u_lseek u fd ib (unat method) (kern st) of
           (Inl e, k) \<Rightarrow> ((if e = EINVAL then ERROR_NEGATIVE_SEEK else ERROR_INVALID_FUNCTION, None), st\<lparr>kern := k\<rparr>)
         | (Inr pos, k) \<Rightarrow> ((NO_ERROR, Some pos), st\<lparr>kern := k\<rparr>))"

definition DosSetFileSize :: "'k unix \<Rightarrow> u32 \<Rightarrow> u32 \<Rightarrow> 'k dosfiles \<Rightarrow> apiret \<times> 'k dosfiles" where
  "DosSetFileSize u h len st =
    (let fd = getHFileUnixDescriptor st h in
     if fd = -1 then (ERROR_INVALID_HANDLE, st)
     else case u_ftruncate u fd (unat len) (kern st) of
         (Inl e, k) \<Rightarrow> (ERROR_DISK_FULL, st\<lparr>kern := k\<rparr>)
       | (Inr _, k) \<Rightarrow> (NO_ERROR, st\<lparr>kern := k\<rparr>))"

definition DosClose_implementation :: "'k unix \<Rightarrow> u32 \<Rightarrow> 'k dosfiles \<Rightarrow> apiret \<times> 'k dosfiles" where
  "DosClose_implementation u h st =
    (let fd = getHFileUnixDescriptor st h in
     if fd = -1 then (ERROR_INVALID_HANDLE, st)
     else if fd \<le> 2 then (NO_ERROR, st)
     else case u_close u fd (kern st) of
         (Inl e, k) \<Rightarrow> (ERROR_ACCESS_DENIED, st\<lparr>kern := k\<rparr>)
       | (Inr _, k) \<Rightarrow> (NO_ERROR, st\<lparr>kern := k, HFiles := (HFiles st)[unat h :=
            (HFiles st ! unat h)\<lparr>hf_fd := -1, hf_type := 0, hf_attr := 0\<rparr>]\<rparr>))"

definition DosQueryHType_implementation :: "u32 \<Rightarrow> 'k dosfiles \<Rightarrow> apiret \<times> (u32 \<times> u32) option" where
  "DosQueryHType_implementation h st =
    (if length (HFiles st) \<le> unat h \<or> hf_fd (HFiles st ! unat h) = -1 then (ERROR_INVALID_HANDLE, None)
     else (NO_ERROR, Some (hf_type (HFiles st ! unat h), hf_attr (HFiles st ! unat h))))"

definition DosQueryFHState :: "u32 \<Rightarrow> 'k dosfiles \<Rightarrow> apiret \<times> u32 option" where
  "DosQueryFHState h st =
    (if unat h < length (HFiles st) \<and> hf_fd (HFiles st ! unat h) \<noteq> -1
     then (NO_ERROR, Some (hf_flags (HFiles st ! unat h))) else (ERROR_INVALID_HANDLE, None))"

definition resetOneBuffer :: "'k unix \<Rightarrow> int \<Rightarrow> 'k \<Rightarrow> apiret \<times> 'k" where
  "resetOneBuffer u fd k =
    (case u_fsync u fd k of
       (Inl EIO, k') \<Rightarrow> (ERROR_ACCESS_DENIED, k')
     | (Inl EROFS, k') \<Rightarrow> (ERROR_ACCESS_DENIED, k')
     | (Inl _, k') \<Rightarrow> (ERROR_INVALID_HANDLE, k')
     | (Inr _, k') \<Rightarrow> (NO_ERROR, k'))"

text \<open>
  Flushing all files reads the entry of the handle it was called with (0xFFFFFFFF), not of the
  loop's index: outside the array this is a fault.
\<close>

fun reset_all :: "'k unix \<Rightarrow> u32 \<Rightarrow> nat \<Rightarrow> apiret \<Rightarrow> 'k dosfiles \<Rightarrow> (apiret \<times> 'k dosfiles) option" where
  "reset_all u h 0 err st = Some (err, st)"
| "reset_all u h (Suc n) err st =
    (if \<not> unat h < length (HFiles st) then None
     else let fd = hf_fd (HFiles st ! unat h) in
       if fd = -1 then reset_all u h n err st
       else case resetOneBuffer u fd (kern st) of
         (thiserr, k) \<Rightarrow> reset_all u h n (if err = NO_ERROR then thiserr else err) (st\<lparr>kern := k\<rparr>))"

definition DosResetBuffer :: "'k unix \<Rightarrow> u32 \<Rightarrow> 'k dosfiles \<Rightarrow> (apiret \<times> 'k dosfiles) option" where
  "DosResetBuffer u h st =
    (if h = 0xFFFFFFFF then reset_all u h (length (HFiles st)) NO_ERROR st
     else let fd = getHFileUnixDescriptor st h in
       if fd = -1 then Some (ERROR_INVALID_HANDLE, st)
       else case resetOneBuffer u fd (kern st) of (r, k) \<Rightarrow> Some (r, st\<lparr>kern := k\<rparr>))"

subsection \<open>The size of the table\<close>

text \<open>
  \<^verbatim>\<open>realloc\<close> is a parameter: \<open>None\<close>, or the contents of the new tail, which the C library leaves
  undefined.
\<close>

definition DosSetRelMaxFH ::
  "(nat \<Rightarrow> HFileInfo list option) \<Rightarrow> int option \<Rightarrow> 'k dosfiles \<Rightarrow> (apiret \<times> nat) \<times> 'k dosfiles" where
  "DosSetRelMaxFH realloc pincr st =
    (let st' = (case pincr of
         None \<Rightarrow> st
       | Some incr \<Rightarrow>
           if incr \<le> 0 then st
           else case realloc (nat incr) of
               None \<Rightarrow> st
             | Some tail \<Rightarrow> st\<lparr>HFiles := replicate (nat incr) free_entry @ drop (nat incr) (HFiles st @ tail)\<rparr>)
     in ((NO_ERROR, length (HFiles st')), st'))"

definition DosSetMaxFH :: "(nat \<Rightarrow> HFileInfo list option) \<Rightarrow> u32 \<Rightarrow> 'k dosfiles \<Rightarrow> apiret \<times> 'k dosfiles" where
  "DosSetMaxFH realloc cFH st =
    (if unat cFH < length (HFiles st) then (ERROR_INVALID_PARAMETER, st)
     else if unat cFH = length (HFiles st) then (NO_ERROR, st)
     else let n = unat cFH - length (HFiles st) in
       case realloc n of
         None \<Rightarrow> (NO_ERROR, st)
       | Some tail \<Rightarrow> (NO_ERROR, st\<lparr>HFiles := HFiles st @ replicate n free_entry\<rparr>))"

subsection \<open>Opening\<close>

record openreq =
  or_flags :: u32
  or_mode :: u32
  or_mustNotExist :: bool
  or_isExclusive :: bool
  or_isReplacing :: bool

text \<open>The checks of the arguments and the flags for \<^verbatim>\<open>open\<close>.\<close>

definition open_request :: "int \<Rightarrow> u32 \<Rightarrow> u32 \<Rightarrow> u32 \<Rightarrow> bool \<Rightarrow> apiret + openreq" where
  "open_request cbFile ulAttribute fsOpenFlags fsOpenMode has_eas =
    (let access = fsOpenMode AND 0x3; isReadOnly = (access = 0) in
     if access = 3 then Inl ERROR_INVALID_PARAMETER
     else if isReadOnly \<and> cbFile \<noteq> 0 then Inl ERROR_INVALID_PARAMETER
     else if ulAttribute AND 0x10 \<noteq> 0 then Inl ERROR_INVALID_PARAMETER
     else if isReadOnly \<and> fsOpenFlags AND 0xF0 = 0x10 then Inl ERROR_INVALID_PARAMETER
     else if isReadOnly \<and> fsOpenFlags AND 0x0F = 0x02 then Inl ERROR_INVALID_PARAMETER
     else if fsOpenFlags AND 0xFFFFFE00 \<noteq> 0 then Inl ERROR_INVALID_PARAMETER
     else if fsOpenFlags AND 0x8000 \<noteq> 0 then Inl ERROR_OPEN_FAILED
     else if fsOpenMode AND 0xFFFF0000 \<noteq> 0 then Inl ERROR_INVALID_PARAMETER
     else if has_eas then Inl ERROR_OPEN_FAILED
     else
       let f0 = (if access = 1 then O_WRONLY else if access = 2 then O_RDWR else 0);
           f1 = (if fsOpenFlags AND 0xF0 = 0x10 then f0 OR O_CREAT OR O_EXCL else f0);
           failIfExists = (fsOpenFlags AND 0x0F = 0);
           isReplacing = (fsOpenFlags AND 0x0F = 2);
           f2 = (if failIfExists \<and> \<not> isReadOnly then f1 OR O_CREAT OR O_EXCL
                 else if isReplacing then f1 OR O_TRUNC else f1);
           f3 = (if fsOpenMode AND 0x4000 \<noteq> 0 then f2 OR O_SYNC else f2);
           f4 = (if fsOpenMode AND 0x80 \<noteq> 0 then f3 OR O_CLOEXEC else f3)
       in Inr \<lparr>or_flags = f4, or_mode = (if ulAttribute AND 0x1 \<noteq> 0 then 0x100 else 0x180),
            or_mustNotExist = (failIfExists \<and> isReadOnly), or_isExclusive = (failIfExists \<and> \<not> isReadOnly),
            or_isReplacing = isReplacing\<rparr>)"

fun free_slot :: "HFileInfo list \<Rightarrow> nat option" where
  "free_slot [] = None"
| "free_slot (i # is) = (if hf_fd i = -1 then Some 0 else map_option Suc (free_slot is))"

text \<open>The two attempts to open: a failed exclusive creation is repeated without \<^verbatim>\<open>O_EXCL\<close>.\<close>

definition open_twice :: "'k unix \<Rightarrow> bytes \<Rightarrow> openreq \<Rightarrow> 'k \<Rightarrow> (errno + int) \<times> bool \<times> 'k" where
  "open_twice u path r k =
    (case u_open u path (or_flags r) (or_mode r) k of
       (Inr fd, k1) \<Rightarrow> (Inr fd, True, k1)
     | (Inl e, k1) \<Rightarrow>
         if or_flags r AND (O_CREAT OR O_EXCL) \<noteq> 0 \<and> e = EEXIST \<and> \<not> or_isExclusive r
         then (case u_open u path (or_flags r AND NOT O_EXCL) (or_mode r) k1 of (res, k2) \<Rightarrow> (res, True, k2))
         else (Inl e, False, k1))"

fun open_error :: "errno \<Rightarrow> apiret" where
  "open_error EACCES = ERROR_ACCESS_DENIED"
| "open_error EDQUOT = ERROR_CANNOT_MAKE"
| "open_error EEXIST = ERROR_CANNOT_MAKE"
| "open_error EISDIR = ERROR_ACCESS_DENIED"
| "open_error EMFILE = ERROR_TOO_MANY_OPEN_FILES"
| "open_error ENFILE = ERROR_TOO_MANY_OPEN_FILES"
| "open_error ENAMETOOLONG = ERROR_FILENAME_EXCED_RANGE"
| "open_error ENOSPC = ERROR_DISK_FULL"
| "open_error ENOMEM = ERROR_NOT_ENOUGH_MEMORY"
| "open_error ENOENT = ERROR_FILE_NOT_FOUND"
| "open_error ENOTDIR = ERROR_PATH_NOT_FOUND"
| "open_error EPERM = ERROR_ACCESS_DENIED"
| "open_error EROFS = ERROR_ACCESS_DENIED"
| "open_error ETXTBSY = ERROR_ACCESS_DENIED"
| "open_error _ = ERROR_OPEN_FAILED"

datatype action = FILE_EXISTED | FILE_CREATED | FILE_TRUNCATED

definition set_entry :: "nat \<Rightarrow> HFileInfo \<Rightarrow> 'k dosfiles \<Rightarrow> 'k dosfiles" where
  "set_entry i e st = st\<lparr>HFiles := (HFiles st)[i := e]\<rparr>"

definition set_fd :: "nat \<Rightarrow> int \<Rightarrow> 'k dosfiles \<Rightarrow> 'k dosfiles" where
  "set_fd i fd st = set_entry i ((HFiles st ! i)\<lparr>hf_fd := fd\<rparr>) st"

text \<open>
  From the open file descriptor on.  The initial size is given to the entry's descriptor (still
  -2); when that fails the file is closed, but \<^verbatim>\<open>fd\<close> keeps its value.
\<close>

definition open_finish ::
  "'k unix \<Rightarrow> openreq \<Rightarrow> int \<Rightarrow> u32 \<Rightarrow> nat \<Rightarrow> int \<Rightarrow> bool \<Rightarrow> 'k dosfiles
     \<Rightarrow> (apiret \<times> (u32 \<times> action) option) \<times> 'k dosfiles" where
  "open_finish u r cbFile fsOpenFlags i fd existed st =
    (if or_mustNotExist r
     then (case u_close u fd (kern st) of (_, k) \<Rightarrow> ((ERROR_OPEN_FAILED, None), set_fd i (-1) (st\<lparr>kern := k\<rparr>)))
     else
       let st1 = (if (\<not> existed \<or> or_isReplacing r) \<and> cbFile > 0
                  then (case u_ftruncate u (hf_fd (HFiles st ! i)) (nat cbFile) (kern st) of
                      (Inr _, k) \<Rightarrow> st\<lparr>kern := k\<rparr>
                    | (Inl e, k) \<Rightarrow> set_fd i (-1) (st\<lparr>kern := snd (u_close u fd k)\<rparr>))
                  else st);
           info = (initHFileInfoFromUnixFd u fd (kern st1))\<lparr>hf_flags := fsOpenFlags\<rparr>
       in ((NO_ERROR, Some (of_nat i, if or_isReplacing r then FILE_TRUNCATED
              else if existed then FILE_EXISTED else FILE_CREATED)),
           set_entry i info st1))"

definition doDosOpen ::
  "'k unix \<Rightarrow> (bytes \<Rightarrow> apiret + bytes) \<Rightarrow> bytes \<Rightarrow> int \<Rightarrow> u32 \<Rightarrow> u32 \<Rightarrow> u32 \<Rightarrow> bool \<Rightarrow> 'k dosfiles
     \<Rightarrow> (apiret \<times> (u32 \<times> action) option) \<times> 'k dosfiles" where
  "doDosOpen u makeUnixPath pszFileName cbFile ulAttribute fsOpenFlags fsOpenMode has_eas st =
    (case open_request cbFile ulAttribute fsOpenFlags fsOpenMode has_eas of
       Inl err \<Rightarrow> ((err, None), st)
     | Inr r \<Rightarrow>
       (case free_slot (HFiles st) of
          None \<Rightarrow> ((ERROR_TOO_MANY_OPEN_FILES, None), st)
        | Some i \<Rightarrow>
          let st1 = set_fd i (-2) st in
          (case makeUnixPath pszFileName of
             Inl err \<Rightarrow> ((err, None), set_fd i (-1) st1)
           | Inr path \<Rightarrow>
             (case open_twice u path r (kern st1) of
                (Inl e, existed, k) \<Rightarrow> ((open_error e, None), set_entry i free_entry (st1\<lparr>kern := k\<rparr>))
              | (Inr fd, existed, k) \<Rightarrow>
                  open_finish u r cbFile fsOpenFlags i fd existed (st1\<lparr>kern := k\<rparr>)))))"

definition DosOpen ::
  "'k unix \<Rightarrow> (bytes \<Rightarrow> apiret + bytes) \<Rightarrow> bytes \<Rightarrow> u32 \<Rightarrow> u32 \<Rightarrow> u32 \<Rightarrow> u32 \<Rightarrow> bool \<Rightarrow> 'k dosfiles
     \<Rightarrow> (apiret \<times> (u32 \<times> action) option) \<times> 'k dosfiles" where
  "DosOpen u makeUnixPath pszFileName cbFile ulAttribute fsOpenFlags fsOpenMode has_eas st =
    doDosOpen u makeUnixPath pszFileName (int (unat cbFile)) ulAttribute fsOpenFlags fsOpenMode has_eas st"

text \<open>
  Duplicating: \<open>target\<close> is \<open>None\<close> for a new handle.  The handle that is duplicated is not checked;
  outside the table it is a fault.
\<close>

definition DosDupHandle_implementation ::
  "'k unix \<Rightarrow> u32 \<Rightarrow> u32 \<Rightarrow> 'k dosfiles \<Rightarrow> ((apiret \<times> u32) \<times> 'k dosfiles) option" where
  "DosDupHandle_implementation u h target st =
    (let copy = (\<lambda>i st. if \<not> unat h < length (HFiles st) then None
         else case u_dup u (hf_fd (HFiles st ! unat h)) (kern st) of
             (Inl e, k) \<Rightarrow> Some (set_entry i ((HFiles st ! unat h)\<lparr>hf_fd := -1\<rparr>) (st\<lparr>kern := k\<rparr>))
           | (Inr fd, k) \<Rightarrow> Some (set_entry i ((HFiles st ! unat h)\<lparr>hf_fd := fd\<rparr>) (st\<lparr>kern := k\<rparr>)))
     in if target = 0xFFFFFFFF
        then (case free_slot (HFiles st) of
            None \<Rightarrow> Some ((ERROR_TOO_MANY_OPEN_FILES, target), st)
          | Some i \<Rightarrow> map_option (\<lambda>st'. ((NO_ERROR, of_nat i), st')) (copy i (set_fd i (-2) st)))
        else if \<not> unat target < length (HFiles st) then None
        else if hf_fd (HFiles st ! unat target) \<noteq> -1 then Some ((ERROR_INVALID_TARGET_HANDLE, target), st)
        else map_option (\<lambda>st'. ((NO_ERROR, target), st')) (copy (unat target) st))"

text \<open>What the constructor of the library sets up: 20 entries, the first three the standard streams.\<close>

definition init_files :: "'k unix \<Rightarrow> 'k \<Rightarrow> 'k dosfiles" where
  "init_files u k = \<lparr>HFiles = map (\<lambda>fd. initHFileInfoFromUnixFd u fd k) [0, 1, 2] @ replicate 17 free_entry, kern = k\<rparr>"

text \<open>And what its destructor closes.\<close>

fun close_all :: "'k unix \<Rightarrow> HFileInfo list \<Rightarrow> 'k \<Rightarrow> 'k" where
  "close_all u [] k = k"
| "close_all u (i # is) k = close_all u is (if hf_fd i > 2 then snd (u_close u (hf_fd i) k) else k)"

subsection \<open>The abstract table\<close>

text \<open>
  What a program sees of the table: a finite map from handles to descriptors.  The table's
  invariant: descriptors are -1 or not negative (no open call is in progress), and handles fit
  32 bits.
\<close>

definition handles :: "'k dosfiles \<Rightarrow> u32 \<Rightarrow> int option" where
  "handles st h = (let fd = getHFileUnixDescriptor st h in if fd = -1 then None else Some fd)"

definition files_inv :: "'k dosfiles \<Rightarrow> bool" where
  "files_inv st \<longleftrightarrow> length (HFiles st) < 4294967296 \<and> (\<forall>i \<in> set (HFiles st). -1 \<le> hf_fd i)"

text \<open>
  A kernel that behaves: the standard streams stay open, so new descriptors are above 2, and a
  descriptor that was just opened can be examined.
\<close>

definition unix_ok :: "'k unix \<Rightarrow> bool" where
  "unix_ok u \<longleftrightarrow>
    (\<forall>p f m k fd k'. u_open u p f m k = (Inr fd, k') \<longrightarrow> 2 < fd \<and> u_fstat u fd k' \<noteq> None) \<and>
    (\<forall>x k fd k'. u_dup u x k = (Inr fd, k') \<longrightarrow> 2 < fd)"

lemma handles_set_entry: "i < length (HFiles st) \<Longrightarrow> length (HFiles st) < 4294967296 \<Longrightarrow>
    handles (set_entry i e st) = (handles st)(of_nat i := if hf_fd e = -1 then None else Some (hf_fd e))"
  by (rule ext)
    (auto simp: handles_def getHFileUnixDescriptor_def set_entry_def Let_def nth_list_update unat_of_nat_u32
      word_unat_eq_iff)

lemma handles_kern [simp]: "handles (st\<lparr>kern := k\<rparr>) = handles st"
  by (rule ext) (simp add: handles_def getHFileUnixDescriptor_def)

lemma HFiles_set_entry [simp]: "HFiles (set_entry i e st) = (HFiles st)[i := e]" "kern (set_entry i e st) = kern st"
  by (simp_all add: set_entry_def)

lemma files_inv_set_entry: "files_inv st \<Longrightarrow> -1 \<le> hf_fd e \<Longrightarrow> files_inv (set_entry i e st)"
  by (auto simp: files_inv_def dest: set_update_subset_insert [THEN subsetD])

lemma files_inv_kern [simp]: "files_inv (st\<lparr>kern := k\<rparr>) = files_inv st"
  by (simp add: files_inv_def)

lemma free_slot_Some: "free_slot xs = Some i \<Longrightarrow> i < length xs \<and> hf_fd (xs ! i) = -1"
  by (induction xs arbitrary: i) (auto split: if_splits)

lemma free_slot_None: "free_slot xs = None \<longleftrightarrow> (\<forall>x \<in> set xs. hf_fd x \<noteq> -1)"
  by (induction xs) auto

lemma set_entry_twice [simp]: "set_entry i e (set_entry i e' st) = set_entry i e st"
  by (simp add: set_entry_def)

lemma set_entry_kern: "(set_entry i e st)\<lparr>kern := k\<rparr> = set_entry i e (st\<lparr>kern := k\<rparr>)"
  by (simp add: set_entry_def)

lemma hf_fd_init: "hf_fd (initHFileInfoFromUnixFd u fd k) = (if fd \<noteq> -1 \<and> u_fstat u fd k \<noteq> None then fd else -1)"
  by (simp add: initHFileInfoFromUnixFd_def free_entry_def split: option.splits)

lemma handles_free: "i < length (HFiles st) \<Longrightarrow> length (HFiles st) < 4294967296 \<Longrightarrow> hf_fd (HFiles st ! i) = -1 \<Longrightarrow>
    handles st (of_nat i) = None"
  by (simp add: handles_def getHFileUnixDescriptor_def unat_of_nat_u32)

lemma open_twice_ok: "unix_ok u \<Longrightarrow> open_twice u path r k = (Inr fd, existed, k') \<Longrightarrow>
    2 < fd \<and> u_fstat u fd k' \<noteq> None \<and> existed"
  by (auto simp: open_twice_def unix_ok_def split: prod.splits sum.splits if_splits)

lemma open_finish_no_size:
  assumes "\<not> 0 < cbFile" "2 < fd" "u_fstat u fd (kern st) \<noteq> None" "i < length (HFiles st)"
    "length (HFiles st) < 4294967296" "\<And>e k. -1 \<le> hf_fd e \<Longrightarrow> files_inv (set_entry i e (st\<lparr>kern := k\<rparr>))"
    "open_finish u r cbFile flags i fd existed st = ((rc, out), st')"
  shows "files_inv st' \<and> (case out of
      None \<Rightarrow> rc \<noteq> NO_ERROR \<and> handles st' = (handles st)(of_nat i := None)
    | Some (h, a) \<Rightarrow> rc = NO_ERROR \<and> h = of_nat i \<and> handles st' = (handles st)(of_nat i \<mapsto> fd))"
proof -
  show ?thesis
  proof (cases "or_mustNotExist r")
    case True
    then obtain k where "out = None" "rc = ERROR_OPEN_FAILED" "st' = set_fd i (-1) (st\<lparr>kern := k\<rparr>)"
      using assms(7) by (auto simp: open_finish_def split: prod.splits)
    then show ?thesis using assms(4,5,6) by (simp add: set_fd_def handles_set_entry)
  next
    case False
    let ?e = "(initHFileInfoFromUnixFd u fd (kern st))\<lparr>hf_flags := flags\<rparr>"
    have "st' = set_entry i ?e st" "rc = NO_ERROR" "\<exists>a. out = Some (of_nat i, a)"
      using False assms(1,7) by (auto simp: open_finish_def Let_def)
    moreover have "hf_fd ?e = fd" using assms(2,3) by (simp add: hf_fd_init)
    moreover have "files_inv (set_entry i ?e st)" using assms(6) [of ?e "kern st"] assms(2) calculation(4) by simp
    ultimately show ?thesis using assms(2,4,5) by (auto simp: handles_set_entry)
  qed
qed

lemma set_fd_twice: "i < length (HFiles st) \<Longrightarrow> set_fd i a (set_fd i b st) = set_fd i a st"
  by (simp add: set_fd_def)

lemma open_handle_table:
  assumes "files_inv st" "unix_ok u" "\<not> 0 < cbFile" "\<And>n e. makeUnixPath n = Inl e \<Longrightarrow> e \<noteq> NO_ERROR"
    "doDosOpen u makeUnixPath name cbFile attr flags mode eas st = ((rc, out), st')"
  shows "files_inv st' \<and> (case out of
      None \<Rightarrow> rc \<noteq> NO_ERROR \<and> handles st' = handles st
    | Some (h, a) \<Rightarrow> rc = NO_ERROR \<and> handles st h = None \<and> (\<exists>fd > 2. handles st' = (handles st)(h \<mapsto> fd)))"
proof (cases "open_request cbFile attr flags mode eas")
  case (Inl err)
  then have "err \<noteq> NO_ERROR" by (auto simp: open_request_def Let_def split: if_splits)
  then show ?thesis using Inl assms(1,5) by (auto simp: doDosOpen_def)
next
  case (Inr r)
  show ?thesis
  proof (cases "free_slot (HFiles st)")
    case None
    then show ?thesis using Inr assms(1,5) by (auto simp: doDosOpen_def)
  next
    case (Some i)
    have i: "i < length (HFiles st)" "hf_fd (HFiles st ! i) = -1" using free_slot_Some [OF Some] by auto
    have len: "length (HFiles st) < 4294967296" using assms(1) by (simp add: files_inv_def)
    have hi: "handles st (of_nat i) = None" by (rule handles_free [OF i(1) len i(2)])
    have undo: "handles (set_fd i (-1) (st\<lparr>kern := k\<rparr>)) = handles st" "files_inv (set_fd i (-1) (st\<lparr>kern := k\<rparr>))" for k
      using i len hi assms(1) by (simp_all add: set_fd_def handles_set_entry fun_upd_idem files_inv_set_entry)
    show ?thesis
    proof (cases "makeUnixPath name")
      case (Inl err)
      then have "rc = err" "out = None" "st' = set_fd i (-1) (st\<lparr>kern := kern st\<rparr>)"
        using Inr Some i assms(5) by (auto simp: doDosOpen_def set_fd_twice)
      then show ?thesis using undo [of "kern st"] assms(4) [OF Inl] by simp
    next
      case path: (Inr path)
      obtain res existed k where tw: "open_twice u path r (kern st) = (res, existed, k)" by (cases "open_twice u path r (kern st)")
      let ?st2 = "(set_fd i (-2) st)\<lparr>kern := k\<rparr>"
      have fin: "files_inv (set_entry i e (?st2\<lparr>kern := k'\<rparr>))" if "-1 \<le> hf_fd e" for e k'
        using that assms(1) by (simp add: set_fd_def set_entry_kern files_inv_set_entry)
      have h2: "(handles ?st2)(of_nat i := x) = (handles st)(of_nat i := x)" for x
        using i len by (simp add: set_fd_def handles_set_entry)
      show ?thesis
      proof (cases res)
        case (Inl e)
        then have "rc = open_error e" "out = None" "st' = set_entry i free_entry ?st2"
          using Inr Some path tw assms(5) by (auto simp: doDosOpen_def set_fd_def)
        moreover have "open_error e \<noteq> NO_ERROR" by (cases e) simp_all
        moreover have "handles (set_entry i free_entry ?st2) = handles st"
          using i len hi h2 [of None] by (simp add: handles_set_entry set_fd_def free_entry_def fun_upd_idem)
        ultimately show ?thesis using fin [of free_entry k] by (simp add: free_entry_def)
      next
        case fd: (Inr fd)
        have "open_finish u r cbFile flags i fd existed ?st2 = ((rc, out), st')"
          using Inr Some path tw fd assms(5) by (simp add: doDosOpen_def set_fd_def)
        from open_finish_no_size [OF assms(3) _ _ _ _ fin this]
        have "files_inv st' \<and> (case out of
            None \<Rightarrow> rc \<noteq> NO_ERROR \<and> handles st' = (handles ?st2)(of_nat i := None)
          | Some (h, a) \<Rightarrow> rc = NO_ERROR \<and> h = of_nat i \<and> handles st' = (handles ?st2)(of_nat i \<mapsto> fd))"
          using open_twice_ok [OF assms(2)] tw fd i len by (simp add: set_fd_def)
        moreover have "2 < fd" using open_twice_ok [OF assms(2)] tw fd by blast
        ultimately show ?thesis using h2 hi by (auto simp: fun_upd_idem split: option.splits)
      qed
    qed
  qed
qed

lemma open_handle:
  assumes "files_inv st" "unix_ok u" "\<not> 0 < cbFile" "\<And>n e. makeUnixPath n = Inl e \<Longrightarrow> e \<noteq> NO_ERROR"
    "doDosOpen u makeUnixPath name cbFile attr flags mode eas st = ((rc, Some (h, a)), st')"
  shows "files_inv st' \<and> handles st h = None \<and> (\<exists>fd > 2. handles st' = (handles st)(h \<mapsto> fd))"
  using open_handle_table [OF assms] by simp

text \<open>
  C23.  Opening a file, seen from the program's table of handles.  Without an initial size, a
  successful open adds one handle that was free before, and a failed one leaves the table as it
  was, whatever step failed.
\<close>

theorem doDosOpen_refines:
  assumes "files_inv st" "unix_ok u" "\<not> 0 < cbFile" "\<And>n e. makeUnixPath n = Inl e \<Longrightarrow> e \<noteq> NO_ERROR"
    "doDosOpen u makeUnixPath name cbFile attr flags mode eas st = ((rc, out), st')"
  shows "files_inv st' \<and> (case out of
      None \<Rightarrow> rc \<noteq> NO_ERROR \<and> handles st' = handles st
    | Some (h, a) \<Rightarrow> rc = NO_ERROR \<and> handles st h = None \<and> (\<exists>fd > 2. handles st' = (handles st)(h \<mapsto> fd)))"
  by (rule open_handle_table [OF assms])

text \<open>A kernel for examples: its state is the next descriptor it hands out.\<close>

definition demo_unix :: "int unix" where
  "demo_unix = \<lparr>u_open = (\<lambda>p f m k. (Inr k, k + 1)), u_close = (\<lambda>fd k. (Inr (), k)), u_fstat = (\<lambda>fd k. if fd < k then Some 0x8000 else None),
    u_ftruncate = (\<lambda>fd n k. if fd < 0 then (Inl EBADF, k) else (Inr (), k)), u_write = (\<lambda>fd bs k. (Inr (of_nat (length bs)), k)),
    u_read = (\<lambda>fd n k. (Inr [], k)), u_lseek = (\<lambda>fd i w k. (Inr 0, k)), u_dup = (\<lambda>fd k. (Inr k, k + 1)),
    u_fsync = (\<lambda>fd k. (Inr (), k))\<rparr>"

definition demo_kernel :: "int unix" where
  "demo_kernel = demo_unix\<lparr>u_open := (\<lambda>p f m k. (Inr (max 3 k), max 3 k + 1)), u_dup := (\<lambda>fd k. (Inr (max 3 k), max 3 k + 1))\<rparr>"

lemma demo_kernel_ok: "unix_ok demo_kernel"
  by (auto simp: unix_ok_def demo_kernel_def demo_unix_def)

definition demo_files :: "int dosfiles" where
  "demo_files = init_files demo_kernel 3"

lemma demo_files_inv: "files_inv demo_files"
  by (simp add: demo_files_def init_files_def files_inv_def hf_fd_init) (simp add: free_entry_def demo_kernel_def demo_unix_def)

theorem doDosOpen_refines_witness:
  "files_inv (snd (doDosOpen demo_kernel Inr [0x41] 0 0 0x11 0x2 False demo_files)) \<and>
    fst (doDosOpen demo_kernel Inr [0x41] 0 0 0x11 0x2 False demo_files) = (NO_ERROR, Some (3, FILE_EXISTED))"
proof -
  have r: "doDosOpen demo_kernel Inr [0x41] 0 0 0x11 0x2 False demo_files
    = ((NO_ERROR, Some (3, FILE_EXISTED)), snd (doDosOpen demo_kernel Inr [0x41] 0 0 0x11 0x2 False demo_files))"
    by code_simp
  have "files_inv (snd (doDosOpen demo_kernel Inr [0x41] 0 0 0x11 0x2 False demo_files)) \<and> (case Some (3, FILE_EXISTED) of
      None \<Rightarrow> NO_ERROR \<noteq> NO_ERROR \<and> handles (snd (doDosOpen demo_kernel Inr [0x41] 0 0 0x11 0x2 False demo_files)) = handles demo_files
    | Some (h, a) \<Rightarrow> NO_ERROR = NO_ERROR \<and> handles demo_files h = None \<and>
       (\<exists>fd > 2. handles (snd (doDosOpen demo_kernel Inr [0x41] 0 0 0x11 0x2 False demo_files)) = (handles demo_files)(h \<mapsto> fd)))"
    by (rule doDosOpen_refines [OF demo_files_inv demo_kernel_ok _ _ r]) simp_all
  then show ?thesis by (subst (2) r) simp
qed

subsection \<open>A table of handles\<close>

text \<open>
  What its clients rely on: opening, whatever is asked for, adds a handle that was free, closing removes the handle it is
  given.  \<open>owned\<close> marks descriptors a close really gives up (the standard streams are kept).
\<close>

locale handle_table =
  fixes inv :: "'s \<Rightarrow> bool" and look :: "'s \<Rightarrow> u32 \<Rightarrow> int option" and owned :: "int \<Rightarrow> bool"
    and opn :: "'r \<Rightarrow> 's \<Rightarrow> u32 option \<times> 's" and cls :: "u32 \<Rightarrow> 's \<Rightarrow> bool \<times> 's"
  assumes opn_new: "inv s \<Longrightarrow> opn r s = (Some h, s') \<Longrightarrow>
      inv s' \<and> look s h = None \<and> (\<exists>fd. owned fd \<and> look s' = (look s)(h \<mapsto> fd))"
    and cls_drops: "inv s \<Longrightarrow> look s h = Some fd \<Longrightarrow> owned fd \<Longrightarrow> cls h s = (True, s') \<Longrightarrow>
      inv s' \<and> look s' = (look s)(h := None)"
begin

lemma open_close: "inv s \<Longrightarrow> opn r s = (Some h, s1) \<Longrightarrow> cls h s1 = (True, s2) \<Longrightarrow> look s2 = look s \<and> inv s2"
  using opn_new [of s r h s1] cls_drops [of s1 h _ s2] by (auto simp: fun_upd_idem)

text \<open>Two handles opened after each other, closed in the order they were opened.\<close>

lemma open_open_close_close:
  assumes "inv s" "opn r1 s = (Some h1, s1)" "opn r2 s1 = (Some h2, s2)" "cls h1 s2 = (True, s3)"
  shows "h1 \<noteq> h2" "look s2 h1 \<noteq> None" "look s2 h2 \<noteq> None" "look s3 = (look s2)(h1 := None)"
    "cls h2 s3 = (True, s4) \<Longrightarrow> look s4 = look s"
proof -
  obtain a where a: "inv s1" "look s h1 = None" "owned a" "look s1 = (look s)(h1 \<mapsto> a)"
    using opn_new [OF assms(1,2)] by auto
  obtain b where b: "inv s2" "look s1 h2 = None" "owned b" "look s2 = (look s1)(h2 \<mapsto> b)"
    using opn_new [OF a(1) assms(3)] by auto
  show ne: "h1 \<noteq> h2" using a(4) b(2) by auto
  have l: "look s2 h1 = Some a" using a(4) b(4) ne by simp
  show "look s2 h1 \<noteq> None" "look s2 h2 \<noteq> None" using l b(4) by simp_all
  have c: "inv s3" "look s3 = (look s2)(h1 := None)" using cls_drops [OF b(1) l a(3) assms(4)] by blast+
  show "look s3 = (look s2)(h1 := None)" by (rule c(2))
  have h2: "look s3 h2 = Some b" "look s h2 = None" using c(2) b(2,4) a(4) ne by simp_all
  assume "cls h2 s3 = (True, s4)"
  from cls_drops [OF c(1) h2(1) b(3) this] have "look s4 = (look s3)(h2 := None)" by blast
  also have "\<dots> = look s" unfolding c(2) b(4) a(4) using h2(2) a(2) ne by (intro ext) simp
  finally show "look s4 = look s" .
qed

end

lemma DosClose_drops:
  assumes "files_inv st" "handles st h = Some fd" "2 < fd" "DosClose_implementation u h st = (NO_ERROR, st')"
  shows "files_inv st' \<and> handles st' = (handles st)(h := None)"
proof -
  have h: "unat h < length (HFiles st)" "hf_fd (HFiles st ! unat h) = fd"
    using assms(2) by (auto simp: handles_def getHFileUnixDescriptor_def Let_def split: if_splits)
  obtain k where "st' = set_entry (unat h) ((HFiles st ! unat h)\<lparr>hf_fd := -1, hf_type := 0, hf_attr := 0\<rparr>) (st\<lparr>kern := k\<rparr>)"
    using assms(3,4) h
    by (auto simp: DosClose_implementation_def Let_def getHFileUnixDescriptor_def set_entry_def split: prod.splits sum.splits)
  moreover have "length (HFiles st) < 4294967296" using assms(1) by (simp add: files_inv_def)
  ultimately show ?thesis using assms(1) h(1) by (simp add: files_inv_set_entry handles_set_entry)
qed

text \<open>A request to open: the name and the arguments of \<^verbatim>\<open>DosOpen\<close>, without an initial size.\<close>

record open_args =
  oa_name :: bytes
  oa_attr :: u32
  oa_flags :: u32
  oa_mode :: u32
  oa_eas :: bool

definition open_of ::
  "'k unix \<Rightarrow> (bytes \<Rightarrow> apiret + bytes) \<Rightarrow> open_args \<Rightarrow> 'k dosfiles \<Rightarrow> u32 option \<times> 'k dosfiles" where
  "open_of u makeUnixPath r st =
    (case DosOpen u makeUnixPath (oa_name r) 0 (oa_attr r) (oa_flags r) (oa_mode r) (oa_eas r) st of
       ((rc, out), st') \<Rightarrow> (map_option fst out, st'))"

definition close_of :: "'k unix \<Rightarrow> u32 \<Rightarrow> 'k dosfiles \<Rightarrow> bool \<times> 'k dosfiles" where
  "close_of u h st = (case DosClose_implementation u h st of (rc, st') \<Rightarrow> (rc = NO_ERROR, st'))"

text \<open>The translation of names is that of the library: what it fails with is an error.\<close>

definition path_ok :: "(bytes \<Rightarrow> apiret + bytes) \<Rightarrow> bool" where
  "path_ok makeUnixPath \<longleftrightarrow> (\<forall>n. makeUnixPath n \<noteq> Inl NO_ERROR)"

interpretation file_handles: handle_table "\<lambda>st. unix_ok u \<and> path_ok makeUnixPath \<and> files_inv st" handles "\<lambda>fd. 2 < fd"
    "open_of u makeUnixPath" "close_of u"
  for u makeUnixPath
proof
  fix s r h s'
  assume inv: "unix_ok u \<and> path_ok makeUnixPath \<and> files_inv s" and o: "open_of u makeUnixPath r s = (Some h, s')"
  obtain rc a where r: "doDosOpen u makeUnixPath (oa_name r) 0 (oa_attr r) (oa_flags r) (oa_mode r) (oa_eas r) s = ((rc, Some (h, a)), s')"
    using o by (auto simp: open_of_def DosOpen_def split: prod.splits)
  have m: "e \<noteq> NO_ERROR" if "makeUnixPath n = Inl e" for n e using inv that by (auto simp: path_ok_def)
  have i: "files_inv s" "unix_ok u" "path_ok makeUnixPath" using inv by blast+
  show "(unix_ok u \<and> path_ok makeUnixPath \<and> files_inv s') \<and> handles s h = None \<and> (\<exists>fd. 2 < fd \<and> handles s' = (handles s)(h \<mapsto> fd))"
    using open_handle [OF i(1,2) _ m r] i by simp
next
  fix s h fd s'
  assume "unix_ok u \<and> path_ok makeUnixPath \<and> files_inv s" "handles s h = Some fd" "2 < fd" "close_of u h s = (True, s')"
  then show "(unix_ok u \<and> path_ok makeUnixPath \<and> files_inv s') \<and> handles s' = (handles s)(h := None)"
    using DosClose_drops [of s h fd u s'] by (auto simp: close_of_def split: prod.splits)
qed

lemma DosClose_closed: "handles st h = None \<Longrightarrow> DosClose_implementation u h st = (ERROR_INVALID_HANDLE, st)"
  by (simp add: handles_def DosClose_implementation_def Let_def split: if_split_asm)

text \<open>
  C24.  Handles do not get mixed up.  Two calls of \<^verbatim>\<open>DosOpen\<close> without an initial size, with any names and arguments, return
  different handles that are both valid.  Closing the first removes it, and only it: the second still stands for the descriptor it
  had, and closing the first again is refused without an effect.  Closing the second as well gives back the table of the beginning.
\<close>

theorem DosOpen_DosClose_restore:
  assumes "unix_ok u" "files_inv st" "\<forall>n. makeUnixPath n \<noteq> Inl NO_ERROR"
    "DosOpen u makeUnixPath name1 0 attr1 flags1 mode1 eas1 st = ((rc1, Some (h1, a1)), st1)"
    "DosOpen u makeUnixPath name2 0 attr2 flags2 mode2 eas2 st1 = ((rc2, Some (h2, a2)), st2)"
    "DosClose_implementation u h1 st2 = (NO_ERROR, st3)"
    "DosClose_implementation u h2 st3 = (NO_ERROR, st4)"
  shows "h1 \<noteq> h2 \<and> handles st2 h1 \<noteq> None \<and> handles st2 h2 \<noteq> None \<and> handles st3 = (handles st2)(h1 := None) \<and>
    DosClose_implementation u h1 st3 = (ERROR_INVALID_HANDLE, st3) \<and> handles st4 = handles st"
proof -
  let ?r = "\<lambda>n a f m e. \<lparr>oa_name = n, oa_attr = a, oa_flags = f, oa_mode = m, oa_eas = e\<rparr>"
  have i: "unix_ok u \<and> path_ok makeUnixPath \<and> files_inv st" using assms(1-3) by (simp add: path_ok_def)
  have o: "open_of u makeUnixPath (?r name1 attr1 flags1 mode1 eas1) st = (Some h1, st1)"
    "open_of u makeUnixPath (?r name2 attr2 flags2 mode2 eas2) st1 = (Some h2, st2)"
    by (simp_all add: open_of_def assms(4,5))
  have c: "close_of u h1 st2 = (True, st3)" "close_of u h2 st3 = (True, st4)" by (simp_all add: close_of_def assms(6,7))
  note f = file_handles.open_open_close_close [OF i o c(1)]
  have "handles st3 h1 = None" using f(4) by simp
  then show ?thesis using f(1-4) f(5) [OF c(2)] DosClose_closed by blast
qed

theorem DosOpen_DosClose_restore_witness:
  "\<exists>st1 st2 st3 st4. DosOpen demo_kernel Inr [0x41] 0 0 0x11 0x2 False demo_files = ((NO_ERROR, Some (3, FILE_EXISTED)), st1) \<and>
    DosOpen demo_kernel Inr [0x42] 0 1 0x12 0x1 False st1 = ((NO_ERROR, Some (4, FILE_TRUNCATED)), st2) \<and>
    DosClose_implementation demo_kernel 3 st2 = (NO_ERROR, st3) \<and> handles st3 3 = None \<and> handles st3 4 = Some 4 \<and>
    DosClose_implementation demo_kernel 3 st3 = (ERROR_INVALID_HANDLE, st3) \<and>
    DosClose_implementation demo_kernel 4 st3 = (NO_ERROR, st4) \<and> handles st4 = handles demo_files"
proof -
  let ?o1 = "DosOpen demo_kernel Inr [0x41] 0 0 0x11 0x2 False demo_files"
  let ?o2 = "DosOpen demo_kernel Inr [0x42] 0 1 0x12 0x1 False (snd ?o1)"
  let ?c1 = "DosClose_implementation demo_kernel 3 (snd ?o2)"
  let ?c2 = "DosClose_implementation demo_kernel 4 (snd ?c1)"
  have o: "?o1 = ((NO_ERROR, Some (3, FILE_EXISTED)), snd ?o1)" "?o2 = ((NO_ERROR, Some (4, FILE_TRUNCATED)), snd ?o2)"
    by code_simp+
  have c: "?c1 = (NO_ERROR, snd ?c1)" "?c2 = (NO_ERROR, snd ?c2)" "handles (snd ?c1) 4 = Some 4" by code_simp+
  have "\<forall>n. (Inr :: bytes \<Rightarrow> apiret + bytes) n \<noteq> Inl NO_ERROR" by simp
  from DosOpen_DosClose_restore [OF demo_kernel_ok demo_files_inv this o c(1,2)]
  have "handles (snd ?c1) 3 = None" "DosClose_implementation demo_kernel 3 (snd ?c1) = (ERROR_INVALID_HANDLE, snd ?c1)"
    "handles (snd ?c2) = handles demo_files" by simp_all
  then show ?thesis using o c by blast
qed

text \<open>
  Asking for more handles with \<^verbatim>\<open>DosSetRelMaxFH\<close> forgets the first ones: the code clears the
  front of the array instead of its new end.  Every handle below the increment is invalid
  afterwards, the standard streams among them, although its descriptor stays open.
\<close>

theorem DosSetRelMaxFH_forgets:
  assumes "0 < incr" "realloc (nat incr) = Some tail" "int (unat h) < incr"
  shows "\<exists>n st'. DosSetRelMaxFH realloc (Some incr) st = ((NO_ERROR, n), st') \<and> handles st' h = None \<and>
    kern st' = kern st \<and> DosWrite_implementation u h buf a st' = ((ERROR_INVALID_HANDLE, a), st')"
proof -
  have "unat h < nat incr" using assms(3) by (simp only: zless_nat_eq_int_zless)
  then show ?thesis using assms(1,2)
    by (simp add: DosSetRelMaxFH_def handles_def getHFileUnixDescriptor_def nth_append free_entry_def
        DosWrite_implementation_def Let_def)
qed

theorem DosSetRelMaxFH_forgets_witness:
  "handles demo_files 1 = Some 1 \<and>
    (\<exists>n st'. DosSetRelMaxFH (\<lambda>n. Some (replicate n free_entry)) (Some 10) demo_files = ((NO_ERROR, n), st') \<and>
      handles st' 1 = None \<and> kern st' = kern demo_files \<and>
      DosWrite_implementation demo_kernel 1 [0x41] 0 st' = ((ERROR_INVALID_HANDLE, 0), st'))"
proof
  show "handles demo_files 1 = Some 1" by code_simp
qed (rule DosSetRelMaxFH_forgets; simp)

text \<open>
  C26.  The initial size of a file.  A successful open never reports that it created the file; and
  when an existing file is replaced and given an initial size, on a kernel that rejects negative
  descriptors and closed ones, the open is reported as a success but the handle it returns is
  invalid: the size is set through the entry's descriptor, which is still -2.
\<close>

theorem doDosOpen_initial_size:
  assumes "doDosOpen u makeUnixPath name cbFile attr flags mode eas st = ((NO_ERROR, Some (h, a)), st')"
    and "\<And>fd n k. fd < 0 \<Longrightarrow> \<exists>e. u_ftruncate u fd n k = (Inl e, k)"
    and "\<And>fd k. u_fstat u fd (snd (u_close u fd k)) = None"
    and "length (HFiles st) < 4294967296"
  shows "a \<noteq> FILE_CREATED \<and> (flags AND 0x0F = 2 \<and> 0 < cbFile \<longrightarrow> handles st' h = None)"
proof -
  obtain r where r: "open_request cbFile attr flags mode eas = Inr r" using assms(1) by (auto simp: doDosOpen_def split: sum.splits)
  obtain i where i: "free_slot (HFiles st) = Some i" using assms(1) r by (auto simp: doDosOpen_def split: option.splits)
  obtain path where p: "makeUnixPath name = Inr path" using assms(1) r i by (auto simp: doDosOpen_def Let_def split: sum.splits)
  have il: "i < length (HFiles st)" using free_slot_Some [OF i] by simp
  obtain fd existed k where tw: "open_twice u path r (kern st) = (Inr fd, existed, k)"
    using assms(1) r i p by (auto simp: doDosOpen_def set_fd_def Let_def split: prod.splits sum.splits)
  have ex: "existed" using tw by (auto simp: open_twice_def split: prod.splits sum.splits if_splits)
  let ?st2 = "(set_fd i (-2) st)\<lparr>kern := k\<rparr>"
  have fin: "open_finish u r cbFile flags i fd existed ?st2 = ((NO_ERROR, Some (h, a)), st')"
    using assms(1) r i p tw by (simp add: doDosOpen_def set_fd_def)
  have nme: "\<not> or_mustNotExist r" using fin by (auto simp: open_finish_def split: prod.splits)
  have neg: "hf_fd (HFiles ?st2 ! i) < 0" using il by (simp add: set_fd_def)
  have rep: "or_isReplacing r \<longleftrightarrow> flags AND 0x0F = 2" using r by (auto simp: open_request_def Let_def split: if_splits)
  have a: "a \<noteq> FILE_CREATED" using fin nme ex by (auto simp: open_finish_def Let_def split: if_splits)
  have "handles st' h = None" if c: "flags AND 0x0F = 2" "0 < cbFile"
  proof -
    obtain e where e: "u_ftruncate u (hf_fd (HFiles ?st2 ! i)) (nat cbFile) (kern ?st2) = (Inl e, kern ?st2)"
      using assms(2) [OF neg] by blast
    have "u_ftruncate u (-2) (nat cbFile) k = (Inl e, k)" using e il by (simp add: set_fd_def)
    then have "h = of_nat i" "st' = set_entry i (free_entry\<lparr>hf_flags := flags\<rparr>) (?st2\<lparr>kern := snd (u_close u fd k)\<rparr>)"
      using fin nme c rep assms(3) il
      by (auto simp: open_finish_def Let_def set_fd_def initHFileInfoFromUnixFd_def)
    then show ?thesis using il assms(4) by (simp add: handles_set_entry set_fd_def free_entry_def)
  qed
  then show ?thesis using a by blast
qed

definition strict_kernel :: "int unix" where
  "strict_kernel = demo_kernel\<lparr>u_close := (\<lambda>fd k. (Inr (), min fd k))\<rparr>"

theorem doDosOpen_initial_size_witness:
  "\<exists>st'. doDosOpen strict_kernel Inr [0x41] 100 0 0x12 0x2 False demo_files = ((NO_ERROR, Some (3, FILE_TRUNCATED)), st')
    \<and> handles st' 3 = None"
proof -
  let ?o = "doDosOpen strict_kernel Inr [0x41] 100 0 0x12 0x2 False demo_files"
  have o: "?o = ((NO_ERROR, Some (3, FILE_TRUNCATED)), snd ?o)" by code_simp
  have "FILE_TRUNCATED \<noteq> FILE_CREATED \<and> ((0x12 :: u32) AND 0x0F = 2 \<and> 0 < (100 :: int) \<longrightarrow> handles (snd ?o) 3 = None)"
    by (rule doDosOpen_initial_size [OF o])
      (simp_all add: strict_kernel_def demo_kernel_def demo_unix_def demo_files_def init_files_def)
  then show ?thesis using o by auto
qed

end
