(* ===== verification/DosSems.thy ===== *)
theory DosSems
  imports DosFiles
begin

section \<open>Semaphores (\<^verbatim>\<open>native/doscalls.c\<close>)\<close>

text \<open>
  Event semaphores, mutex semaphores, the spin semaphores of 16-bit programs and the nesting
  counters.  The operations on an event semaphore run under the semaphore's mutex, which a
  waiting thread gives up while it sleeps; so an operation, and each part of a wait between two
  sleeps, is one step on the state.  Only closing is two: it frees the semaphore after it gave the mutex back.
\<close>

subsection \<open>Event semaphores\<close>

text \<open>
  The state of a thread with respect to the semaphore: running outside it, asleep in
  \<^verbatim>\<open>pthread_cond_wait\<close> (the flag: with a time limit), woken by a broadcast but without the mutex
  yet, between the two halves of \<open>DosCloseEventSem\<close>, or back from a call with a result.
  \<open>es_freed\<close>: the block was freed; \<open>es_fault\<close>: a thread used it after that.
\<close>

datatype wstate = Running | Asleep bool | Woken bool | Closing | Done apiret

record evsem =
  es_posted :: bool
  es_waiting :: int
  es_threads :: "wstate list"
  es_freed :: bool
  es_fault :: bool

definition SEM_INDEFINITE_WAIT :: u32 where "SEM_INDEFINITE_WAIT = 0xFFFFFFFF"
definition SEM_IMMEDIATE_RETURN :: u32 where "SEM_IMMEDIATE_RETURN = 0"

text \<open>
  Creation.  \<open>mem\<close> is the result of \<^verbatim>\<open>malloc\<close>, with the value the field \<^verbatim>\<open>waiting\<close> of the new block
  happens to have: the code does not set it.  The results of the two \<^verbatim>\<open>init\<close> calls are compared with -1, though
  an error of theirs is a positive number.
\<close>

definition DosCreateEventSem ::
  "bool \<Rightarrow> int option \<Rightarrow> int \<Rightarrow> int \<Rightarrow> u32 \<Rightarrow> wstate list \<Rightarrow> apiret \<times> evsem option" where
  "DosCreateEventSem named mem mutex_rc cond_rc state threads =
    (if named then (ERROR_NOT_ENOUGH_MEMORY, None)
     else case mem of
         None \<Rightarrow> (ERROR_NOT_ENOUGH_MEMORY, None)
       | Some garbage \<Rightarrow>
           if mutex_rc = -1 then (ERROR_NOT_ENOUGH_MEMORY, None)
           else if cond_rc = -1 then (ERROR_NOT_ENOUGH_MEMORY, None)
           else (NO_ERROR, Some \<lparr>es_posted = (state \<noteq> 0), es_waiting = garbage, es_threads = threads,
             es_freed = False, es_fault = False\<rparr>))"

definition DosResetEventSem :: "evsem \<Rightarrow> (apiret \<times> u32) \<times> evsem" where
  "DosResetEventSem s =
    ((if es_posted s then NO_ERROR else ERROR_ALREADY_RESET, if es_posted s then 1 else 0), s\<lparr>es_posted := False\<rparr>)"

fun wake_up :: "wstate \<Rightarrow> wstate" where
  "wake_up (Asleep timed) = Woken timed"
| "wake_up w = w"

definition DosPostEventSem :: "evsem \<Rightarrow> apiret \<times> evsem" where
  "DosPostEventSem s =
    (if es_posted s then (ERROR_ALREADY_POSTED, s)
     else (NO_ERROR, s\<lparr>es_posted := True, es_threads := map wake_up (es_threads s)\<rparr>))"

definition set_thread :: "nat \<Rightarrow> wstate \<Rightarrow> evsem \<Rightarrow> evsem" where
  "set_thread i w s = s\<lparr>es_threads := (es_threads s)[i := w]\<rparr>"

text \<open>
  \<open>DosWaitEventSem\<close> up to its return or its first sleep; one turn of its loop after
  \<^verbatim>\<open>pthread_cond_wait\<close> or \<^verbatim>\<open>pthread_cond_timedwait\<close> returned 0; and the turn after \<^verbatim>\<open>ETIMEDOUT\<close>.
\<close>

definition DosWaitEventSem :: "nat \<Rightarrow> u32 \<Rightarrow> evsem \<Rightarrow> evsem" where
  "DosWaitEventSem i ulTimeout s =
    (if ulTimeout = SEM_IMMEDIATE_RETURN
     then set_thread i (Done (if es_posted s then NO_ERROR else ERROR_TIMEOUT)) s
     else if es_posted s then set_thread i (Done NO_ERROR) s
     else set_thread i (Asleep (ulTimeout \<noteq> SEM_INDEFINITE_WAIT)) (s\<lparr>es_waiting := es_waiting s + 1\<rparr>))"

definition wait_again :: "nat \<Rightarrow> bool \<Rightarrow> evsem \<Rightarrow> evsem" where
  "wait_again i timed s =
    (if es_posted s then set_thread i (Done NO_ERROR) (s\<lparr>es_waiting := es_waiting s - 1\<rparr>)
     else set_thread i (Asleep timed) s)"

definition wait_timedout :: "nat \<Rightarrow> evsem \<Rightarrow> evsem" where
  "wait_timedout i s =
    set_thread i (Done (if es_posted s then NO_ERROR else ERROR_TIMEOUT)) (s\<lparr>es_waiting := es_waiting s - 1\<rparr>)"

definition DosQueryEventSem :: "evsem \<Rightarrow> apiret \<times> u32" where
  "DosQueryEventSem s = (NO_ERROR, if es_posted s then 1 else 0)"

text \<open>
  \<open>DosCloseEventSem\<close> reads the counter under the mutex, gives the mutex back, and destroys and frees the
  semaphore afterwards: two steps of the thread, with other threads between them.
\<close>

definition DosCloseEventSem_check :: "nat \<Rightarrow> evsem \<Rightarrow> evsem" where
  "DosCloseEventSem_check i s = set_thread i (if es_waiting s > 0 then Done ERROR_SEM_BUSY else Closing) s"

definition DosCloseEventSem_free :: "nat \<Rightarrow> evsem \<Rightarrow> evsem" where
  "DosCloseEventSem_free i s = set_thread i (Done NO_ERROR) (s\<lparr>es_freed := True\<rparr>)"

text \<open>
  All interleavings of the operations of all threads on one semaphore.  Once it is freed, every step that takes its
  mutex, sleeps on its condition or frees it again is a use after free, whether the thread calls with the old handle or was
  inside a call already.
\<close>

inductive ev_step :: "evsem \<Rightarrow> evsem \<Rightarrow> bool" where
  ev_wait: "\<not> es_freed s \<Longrightarrow> i < length (es_threads s) \<Longrightarrow> es_threads s ! i = Running
    \<Longrightarrow> ev_step s (DosWaitEventSem i ulTimeout s)"
| ev_woken: "\<not> es_freed s \<Longrightarrow> i < length (es_threads s) \<Longrightarrow> es_threads s ! i = Woken timed
    \<Longrightarrow> ev_step s (wait_again i timed s)"
| ev_spurious: "\<not> es_freed s \<Longrightarrow> i < length (es_threads s) \<Longrightarrow> es_threads s ! i = Asleep timed
    \<Longrightarrow> ev_step s (wait_again i timed s)"
| ev_timeout: "\<not> es_freed s \<Longrightarrow> i < length (es_threads s) \<Longrightarrow> es_threads s ! i \<in> {Asleep True, Woken True}
    \<Longrightarrow> ev_step s (wait_timedout i s)"
| ev_leave: "i < length (es_threads s) \<Longrightarrow> es_threads s ! i = Done r \<Longrightarrow> ev_step s (set_thread i Running s)"
| ev_post: "\<not> es_freed s \<Longrightarrow> ev_step s (snd (DosPostEventSem s))"
| ev_reset: "\<not> es_freed s \<Longrightarrow> ev_step s (snd (DosResetEventSem s))"
| ev_check: "\<not> es_freed s \<Longrightarrow> i < length (es_threads s) \<Longrightarrow> es_threads s ! i = Running
    \<Longrightarrow> ev_step s (DosCloseEventSem_check i s)"
| ev_free: "\<not> es_freed s \<Longrightarrow> i < length (es_threads s) \<Longrightarrow> es_threads s ! i = Closing
    \<Longrightarrow> ev_step s (DosCloseEventSem_free i s)"
| ev_after_free: "es_freed s \<Longrightarrow> i < length (es_threads s) \<Longrightarrow> es_threads s ! i \<notin> range Done
    \<Longrightarrow> ev_step s (s\<lparr>es_fault := True\<rparr>)"

fun in_wait :: "wstate \<Rightarrow> bool" where
  "in_wait (Asleep _) = True"
| "in_wait (Woken _) = True"
| "in_wait _ = False"

definition waiters :: "evsem \<Rightarrow> int" where
  "waiters s = int (length (filter in_wait (es_threads s)))"

fun asleep :: "wstate \<Rightarrow> bool" where
  "asleep (Asleep _) = True"
| "asleep _ = False"

text \<open>The threads inside a call: they wait, or are about to free the semaphore.\<close>

definition in_call :: "wstate \<Rightarrow> bool" where
  "in_call w \<longleftrightarrow> in_wait w \<or> w = Closing"

definition callers :: "evsem \<Rightarrow> int" where
  "callers s = int (length (filter in_call (es_threads s)))"

text \<open>
  A step of a program that uses its semaphores with care: while a thread is between the halves of a close, no other thread
  begins to wait or to close.
\<close>

definition ev_careful :: "evsem \<Rightarrow> evsem \<Rightarrow> bool" where
  "ev_careful s s' \<longleftrightarrow> ev_step s s' \<and> (Closing \<in> set (es_threads s) \<longrightarrow> callers s' \<le> callers s)"

definition ev_inv :: "int \<Rightarrow> evsem \<Rightarrow> bool" where
  "ev_inv w0 s \<longleftrightarrow> es_waiting s = w0 + waiters s \<and> (es_posted s \<longrightarrow> \<not> list_ex asleep (es_threads s))"

subsection \<open>The invariant\<close>

lemma filter_update:
  "i < length xs \<Longrightarrow> int (length (filter P (xs[i := v])))
    = int (length (filter P xs)) + (if P v then 1 else 0) - (if P (xs ! i) then 1 else 0)"
  using arg_cong [OF id_take_nth_drop [of i xs], of "\<lambda>l. length (filter P l)"]
  by (simp add: upd_conv_take_nth_drop)

lemma waiters_set: "i < length (es_threads s) \<Longrightarrow> waiters (set_thread i w s)
    = waiters s + (if in_wait w then 1 else 0) - (if in_wait (es_threads s ! i) then 1 else 0)"
  by (simp add: waiters_def set_thread_def filter_update)

lemma callers_set: "i < length (es_threads s) \<Longrightarrow> callers (set_thread i w s)
    = callers s + (if in_call w then 1 else 0) - (if in_call (es_threads s ! i) then 1 else 0)"
  by (simp add: callers_def set_thread_def filter_update)

lemma list_ex_update: "list_ex P (xs[i := v]) \<Longrightarrow> \<not> P v \<Longrightarrow> list_ex P xs"
  using set_update_subset_insert [of xs i v] by (auto simp: list_ex_iff)

lemma asleep_wake_up: "\<not> list_ex asleep (map wake_up ws)"
proof (induction ws)
  case (Cons w ws)
  then show ?case by (cases w) auto
qed simp

lemma in_wait_wake_up [simp]: "in_wait (wake_up w) = in_wait w" "in_call (wake_up w) = in_call w"
    "(wake_up w = Closing) = (w = Closing)" "(Closing = wake_up w) = (w = Closing)"
  by (cases w; simp add: in_call_def; fail)+

lemma waiters_wake_up: "in_wait \<circ> wake_up = in_wait" "in_call \<circ> wake_up = in_call"
  by (rule ext; simp)+

lemma waiters_nonneg [simp]: "0 \<le> waiters s" "0 \<le> callers s"
  by (simp_all add: waiters_def callers_def)

lemma callers_waiters: "Closing \<notin> set (es_threads s) \<Longrightarrow> callers s = waiters s"
  unfolding callers_def waiters_def in_call_def
  by (rule arg_cong [of _ _ "\<lambda>l. int (length l)"], rule filter_cong) auto

lemma set_thread_sel [simp]: "es_posted (set_thread i w s) = es_posted s" "es_waiting (set_thread i w s) = es_waiting s"
  "es_freed (set_thread i w s) = es_freed s" "es_fault (set_thread i w s) = es_fault s"
  "es_threads (set_thread i w s) = (es_threads s)[i := w]"
  by (simp_all add: set_thread_def)

lemma waiters_waiting [simp]: "waiters (s\<lparr>es_waiting := n\<rparr>) = waiters s" "waiters (s\<lparr>es_freed := b\<rparr>) = waiters s"
    "waiters (s\<lparr>es_fault := b\<rparr>) = waiters s" "waiters (s\<lparr>es_posted := b\<rparr>) = waiters s"
    "callers (s\<lparr>es_waiting := n\<rparr>) = callers s" "callers (s\<lparr>es_freed := b\<rparr>) = callers s"
    "callers (s\<lparr>es_fault := b\<rparr>) = callers s" "callers (s\<lparr>es_posted := b\<rparr>) = callers s"
  by (simp_all add: waiters_def callers_def)

text \<open>A thread enters or leaves the wait, and the counter goes with it.\<close>

lemma ev_inv_set:
  assumes "ev_inv w0 s" "i < length (es_threads s)" "asleep w \<Longrightarrow> \<not> es_posted s"
  shows "ev_inv w0 (set_thread i w (s\<lparr>es_waiting := es_waiting s
    + (if in_wait w then 1 else 0) - (if in_wait (es_threads s ! i) then 1 else 0)\<rparr>))"
proof -
  have "\<not> list_ex asleep ((es_threads s)[i := w])" if "es_posted s"
    using list_ex_update [of asleep "es_threads s" i w] that assms(1,3) by (auto simp: ev_inv_def)
  then show ?thesis using assms(1,2) by (auto simp: ev_inv_def waiters_set)
qed

lemma ev_inv_set_out:
  assumes "ev_inv w0 s" "i < length (es_threads s)" "\<not> in_wait (es_threads s ! i)" "\<not> in_wait w"
  shows "ev_inv w0 (set_thread i w s)"
proof -
  have a: "asleep w \<Longrightarrow> \<not> es_posted s" using assms(4) by (cases w) simp_all
  show ?thesis using ev_inv_set [OF assms(1,2), of w, OF a] assms(3,4) by simp
qed

lemma evsem_eta [simp]: "(s :: evsem)\<lparr>es_waiting := es_waiting s\<rparr> = s"
  by simp

lemma ev_inv_freed: "ev_inv w0 s \<Longrightarrow> ev_inv w0 (s\<lparr>es_freed := b\<rparr>)" "ev_inv w0 s \<Longrightarrow> ev_inv w0 (s\<lparr>es_fault := b\<rparr>)"
  by (simp_all add: ev_inv_def)

lemma ev_inv_step: "ev_step s s' \<Longrightarrow> ev_inv w0 s \<Longrightarrow> ev_inv w0 s'"
proof (induction rule: ev_step.induct)
  case (ev_wait s i ulTimeout)
  consider "ulTimeout = SEM_IMMEDIATE_RETURN" | "ulTimeout \<noteq> SEM_IMMEDIATE_RETURN" "es_posted s"
    | "ulTimeout \<noteq> SEM_IMMEDIATE_RETURN" "\<not> es_posted s" by blast
  then show ?case
  proof cases
    case 3
    then show ?thesis using ev_inv_set [OF ev_wait(4,2), of "Asleep (ulTimeout \<noteq> SEM_INDEFINITE_WAIT)"] ev_wait(3)
      by (simp add: DosWaitEventSem_def)
  qed (use ev_inv_set_out [OF ev_wait(4,2)] ev_wait(3) in \<open>simp add: DosWaitEventSem_def\<close>)+
next
  case (ev_woken s i timed)
  then show ?case using ev_inv_set [OF ev_woken(4,2), of "Done NO_ERROR"] ev_inv_set [OF ev_woken(4,2), of "Asleep timed"]
    by (simp add: wait_again_def)
next
  case (ev_spurious s i timed)
  then show ?case using ev_inv_set [OF ev_spurious(4,2), of "Done NO_ERROR"] ev_inv_set [OF ev_spurious(4,2), of "Asleep timed"]
    by (simp add: wait_again_def)
next
  case (ev_timeout s i)
  then show ?case using ev_inv_set [OF ev_timeout(4,2), of "Done (if es_posted s then NO_ERROR else ERROR_TIMEOUT)"]
    by (auto simp: wait_timedout_def)
next
  case (ev_leave i s r)
  then show ?case by (intro ev_inv_set_out) simp_all
next
  case (ev_post s)
  then show ?case by (auto simp: DosPostEventSem_def ev_inv_def waiters_def waiters_wake_up asleep_wake_up)
next
  case (ev_reset s)
  then show ?case by (simp add: DosResetEventSem_def ev_inv_def)
next
  case (ev_check s i)
  then show ?case unfolding DosCloseEventSem_check_def by (intro ev_inv_set_out) simp_all
next
  case (ev_free s i)
  then show ?case unfolding DosCloseEventSem_free_def by (intro ev_inv_set_out ev_inv_freed) simp_all
qed (simp add: ev_inv_freed)

lemma ev_inv_reachable: "ev_step\<^sup>*\<^sup>* s s' \<Longrightarrow> ev_inv w0 s \<Longrightarrow> ev_inv w0 s'"
  by (induction rule: rtranclp_induct) (auto intro: ev_inv_step)

lemma ev_threads_length: "ev_step s s' \<Longrightarrow> length (es_threads s') = length (es_threads s)"
  by (induction rule: ev_step.induct)
    (auto simp: DosWaitEventSem_def wait_again_def wait_timedout_def DosPostEventSem_def DosResetEventSem_def
      DosCloseEventSem_check_def DosCloseEventSem_free_def)

lemma ev_inv_created:
  assumes "DosCreateEventSem False (Some w0) 0 0 state (replicate n Running) = (NO_ERROR, Some s)"
  shows "ev_inv w0 s"
  using assms by (auto simp: DosCreateEventSem_def ev_inv_def waiters_def list_ex_iff filter_replicate)

subsection \<open>Closing\<close>

text \<open>With a positive counter at the beginning no close gets past its check.\<close>

lemma ev_never_closing:
  assumes "ev_step s s'" "ev_inv w0 s" "0 < w0" "Closing \<notin> set (es_threads s)" "\<not> es_freed s"
  shows "Closing \<notin> set (es_threads s') \<and> \<not> es_freed s'"
  using assms
proof (induction rule: ev_step.induct)
  case (ev_post s)
  then show ?case by (auto simp: DosPostEventSem_def)
next
  case (ev_check s i)
  have "0 < es_waiting s" using ev_check(4,5) waiters_nonneg(1) [of s] by (simp only: ev_inv_def)
  then show ?case using ev_check by (auto simp: DosCloseEventSem_check_def dest: set_update_subset_insert [THEN subsetD])
qed (auto simp: DosWaitEventSem_def wait_again_def wait_timedout_def DosResetEventSem_def
    dest: set_update_subset_insert [THEN subsetD] nth_mem)

text \<open>What a careful program keeps: a thread that closes is the only one inside a call, and nobody is after the block was freed.\<close>

definition ev_safe :: "evsem \<Rightarrow> bool" where
  "ev_safe s \<longleftrightarrow> (Closing \<in> set (es_threads s) \<longrightarrow> callers s = 1) \<and> (es_freed s \<longrightarrow> callers s = 0)"

lemma callers_pos: "w \<in> set (es_threads s) \<Longrightarrow> in_call w \<Longrightarrow> 0 < callers s"
  by (auto simp: callers_def filter_empty_conv)

lemma ev_safe_mono:
  assumes "ev_safe s" "\<not> es_freed s'" "Closing \<in> set (es_threads s') \<Longrightarrow> Closing \<in> set (es_threads s)"
    "Closing \<in> set (es_threads s) \<Longrightarrow> callers s' \<le> callers s"
  shows "ev_safe s'"
  using assms callers_pos [of Closing s'] by (auto simp: ev_safe_def in_call_def)

lemma Closing_update: "Closing \<in> set (xs[i := w]) \<Longrightarrow> w \<noteq> Closing \<Longrightarrow> Closing \<in> set xs"
  using set_update_subset_insert [of xs i w] by auto

lemma ev_safe_set:
  assumes "ev_safe s" "\<not> es_freed s" "w \<noteq> Closing" "s' = set_thread i w (s\<lparr>es_waiting := n\<rparr>)"
    "Closing \<in> set (es_threads s) \<longrightarrow> callers s' \<le> callers s"
  shows "ev_safe s'"
  by (rule ev_safe_mono [OF assms(1)]) (use assms(2-5) Closing_update in auto)

text \<open>What the parts of a wait do to the semaphore.\<close>

lemma wait_parts:
  "\<exists>w n. w \<noteq> Closing \<and> DosWaitEventSem i ulTimeout s = set_thread i w (s\<lparr>es_waiting := n\<rparr>)"
  "\<exists>w n. w \<noteq> Closing \<and> wait_again i timed s = set_thread i w (s\<lparr>es_waiting := n\<rparr>)"
  "\<exists>w n. w \<noteq> Closing \<and> wait_timedout i s = set_thread i w (s\<lparr>es_waiting := n\<rparr>)"
proof -
  have e: "s = s\<lparr>es_waiting := es_waiting s\<rparr>" by simp
  show "\<exists>w n. w \<noteq> Closing \<and> DosWaitEventSem i ulTimeout s = set_thread i w (s\<lparr>es_waiting := n\<rparr>)"
    unfolding DosWaitEventSem_def by (metis e wstate.distinct(15) wstate.distinct(9) wstate.distinct)
  show "\<exists>w n. w \<noteq> Closing \<and> wait_again i timed s = set_thread i w (s\<lparr>es_waiting := n\<rparr>)"
    unfolding wait_again_def by (metis e wstate.distinct)
  show "\<exists>w n. w \<noteq> Closing \<and> wait_timedout i s = set_thread i w (s\<lparr>es_waiting := n\<rparr>)"
    unfolding wait_timedout_def by (metis wstate.distinct)
qed

lemma ev_safe_step:
  assumes "ev_step s s'" "Closing \<in> set (es_threads s) \<longrightarrow> callers s' \<le> callers s" "ev_inv w0 s" "0 \<le> w0" "ev_safe s"
  shows "ev_safe s'"
  using assms
proof (induction rule: ev_step.induct)
  case (ev_wait s i ulTimeout)
  then show ?case using wait_parts(1) [of i ulTimeout s] ev_safe_set by blast
next
  case (ev_woken s i timed)
  then show ?case using wait_parts(2) [of i timed s] ev_safe_set by blast
next
  case (ev_spurious s i timed)
  then show ?case using wait_parts(2) [of i timed s] ev_safe_set by blast
next
  case (ev_timeout s i)
  then show ?case using wait_parts(3) [of i s] ev_safe_set by blast
next
  case (ev_leave i s r)
  then have "callers (set_thread i Running s) = callers s" by (simp add: callers_set in_call_def)
  then show ?case using ev_leave.prems(4) Closing_update [of "es_threads s" i Running] by (auto simp: ev_safe_def)
next
  case (ev_post s)
  have "Closing \<in> set (es_threads (snd (DosPostEventSem s))) \<Longrightarrow> Closing \<in> set (es_threads s)"
    "\<not> es_freed (snd (DosPostEventSem s))" using ev_post(1) by (cases "es_posted s"; auto simp: DosPostEventSem_def)+
  then show ?case using ev_safe_mono [OF ev_post(5)] ev_post(2) by blast
next
  case (ev_reset s)
  then show ?case by (simp add: ev_safe_def DosResetEventSem_def)
next
  case (ev_check s i)
  show ?case
  proof (cases "es_waiting s > 0")
    case True
    then have "DosCloseEventSem_check i s = set_thread i (Done ERROR_SEM_BUSY) (s\<lparr>es_waiting := es_waiting s\<rparr>)"
      by (simp add: DosCloseEventSem_check_def)
    from ev_safe_set [OF ev_check(7,1) _ this ev_check(4)] show ?thesis by simp
  next
    case False
    then have c: "callers (DosCloseEventSem_check i s) = callers s + 1" "\<not> es_freed (DosCloseEventSem_check i s)"
      using ev_check by (simp_all add: DosCloseEventSem_check_def callers_set in_call_def)
    then have n: "Closing \<notin> set (es_threads s)" using ev_check(4) by auto
    have "waiters s = 0" using False ev_check(5,6) waiters_nonneg(1) [of s] unfolding ev_inv_def by linarith
    then show ?thesis using c callers_waiters [OF n] by (simp add: ev_safe_def)
  qed
next
  case (ev_free s i)
  have "Closing \<in> set (es_threads s)" using ev_free(2,3) nth_mem [of i "es_threads s"] by simp
  then have z: "callers (DosCloseEventSem_free i s) = 0"
    using ev_free by (simp add: DosCloseEventSem_free_def callers_set in_call_def ev_safe_def)
  then have "Closing \<notin> set (es_threads (DosCloseEventSem_free i s))"
    using callers_pos [of Closing "DosCloseEventSem_free i s"] by (auto simp: in_call_def)
  then show ?case using z by (simp add: ev_safe_def)
next
  case (ev_after_free s i)
  then show ?case by (auto simp: ev_safe_def)
qed

lemma ev_careful_safe: "ev_careful\<^sup>*\<^sup>* s s' \<Longrightarrow> ev_inv w0 s \<Longrightarrow> 0 \<le> w0 \<Longrightarrow> ev_safe s \<Longrightarrow> ev_safe s' \<and> ev_inv w0 s'"
proof (induction rule: rtranclp_induct)
  case (step t u)
  then show ?case using ev_safe_step [of t u w0] ev_inv_step [of t u w0] unfolding ev_careful_def by blast
qed blast

text \<open>Two threads, and the two races: a wait, and a second close, between the check and the free of a close.\<close>

lemma ev_close_races:
  assumes "\<not> es_posted s" "es_waiting s \<le> 0" "\<not> es_freed s" "2 \<le> length (es_threads s)"
    "es_threads s ! 0 = Running" "es_threads s ! 1 = Running"
  shows "\<exists>s'. ev_step\<^sup>*\<^sup>* s s' \<and> es_freed s' \<and> es_threads s' ! 0 = Asleep False"
    "\<exists>s'. ev_step\<^sup>*\<^sup>* s s' \<and> es_freed s' \<and> es_threads s' ! 0 = Closing"
proof -
  let ?c = "DosCloseEventSem_check 1 s"
  have c: "ev_step s ?c" using assms by (intro ev_check) simp_all
  have n: "es_threads s \<noteq> []" using assms(4) by auto
  have d: "?c = set_thread 1 Closing s" using assms(2) by (simp add: DosCloseEventSem_check_def)
  let ?w = "DosWaitEventSem 0 SEM_INDEFINITE_WAIT ?c" and ?k = "DosCloseEventSem_check 0 ?c"
  have "\<not> es_freed ?c" "0 < length (es_threads ?c)" "es_threads ?c ! 0 = Running"
    using assms(3-5) unfolding d by auto
  then have "ev_step ?c ?w" "ev_step ?c ?k" by (auto intro: ev_wait ev_check)
  moreover have "\<not> es_freed ?w" "1 < length (es_threads ?w)" "es_threads ?w ! 1 = Closing"
    "\<not> es_freed ?k" "1 < length (es_threads ?k)" "es_threads ?k ! 1 = Closing"
    using assms(3,4) unfolding d by (auto simp: DosWaitEventSem_def DosCloseEventSem_check_def)
  then have "ev_step ?w (DosCloseEventSem_free 1 ?w)" "ev_step ?k (DosCloseEventSem_free 1 ?k)" by (auto intro: ev_free)
  ultimately have "ev_step\<^sup>*\<^sup>* s (DosCloseEventSem_free 1 ?w)" "ev_step\<^sup>*\<^sup>* s (DosCloseEventSem_free 1 ?k)"
    using c by (blast intro: rtranclp.rtrancl_into_rtrancl rtranclp.rtrancl_refl)+
  moreover have "es_threads (DosCloseEventSem_free 1 ?w) ! 0 = Asleep False" "es_threads (DosCloseEventSem_free 1 ?k) ! 0 = Closing"
    unfolding d using assms n
    by (auto simp: DosWaitEventSem_def SEM_INDEFINITE_WAIT_def SEM_IMMEDIATE_RETURN_def DosCloseEventSem_check_def DosCloseEventSem_free_def)
  moreover have "es_freed (DosCloseEventSem_free 1 t)" for t by (simp add: DosCloseEventSem_free_def)
  ultimately show "\<exists>s'. ev_step\<^sup>*\<^sup>* s s' \<and> es_freed s' \<and> es_threads s' ! 0 = Asleep False"
    "\<exists>s'. ev_step\<^sup>*\<^sup>* s s' \<and> es_freed s' \<and> es_threads s' ! 0 = Closing" by blast+
qed

text \<open>
  C27. An event semaphore that \<open>n\<close> threads use.  Over every interleaving of waits, posts, resets, time-outs, spurious
  wake-ups and the two halves of closes, the counter is the garbage it was created with plus the number of waiting threads, and no
  thread sleeps on a posted semaphore; with positive garbage it is never freed, and every close answers that it is
  busy.  Without negative garbage, if no thread begins a wait or a close while another is between the halves of a close, then no
  thread is inside a call once the semaphore is freed.  But that depends on the program: otherwise a semaphore can be freed
  under a sleeping thread, and under a second thread that is about to free it.
\<close>

theorem evsem_invariant:
  assumes "DosCreateEventSem False (Some w0) 0 0 state (replicate n Running) = (NO_ERROR, Some s0)"
  shows "(\<forall>s. ev_step\<^sup>*\<^sup>* s0 s \<longrightarrow>
      es_waiting s = w0 + waiters s \<and> (es_posted s \<longrightarrow> \<not> list_ex asleep (es_threads s)) \<and>
      (0 < w0 \<longrightarrow> \<not> es_freed s \<and> (\<forall>i. DosCloseEventSem_check i s = set_thread i (Done ERROR_SEM_BUSY) s))) \<and>
    (\<forall>s. 0 \<le> w0 \<and> ev_careful\<^sup>*\<^sup>* s0 s \<and> es_freed s \<longrightarrow> (\<forall>w \<in> set (es_threads s). \<not> in_call w)) \<and>
    (w0 \<le> 0 \<and> 2 \<le> n \<and> state = 0 \<longrightarrow>
      (\<exists>s. ev_step\<^sup>*\<^sup>* s0 s \<and> es_freed s \<and> es_threads s ! 0 = Asleep False) \<and>
      (\<exists>s. ev_step\<^sup>*\<^sup>* s0 s \<and> es_freed s \<and> es_threads s ! 0 = Closing))"
proof (intro conjI allI impI)
  fix s assume r: "ev_step\<^sup>*\<^sup>* s0 s"
  have i: "ev_inv w0 s" by (rule ev_inv_reachable [OF r ev_inv_created [OF assms]])
  then show "es_waiting s = w0 + waiters s" "es_posted s \<Longrightarrow> \<not> list_ex asleep (es_threads s)" by (simp_all add: ev_inv_def)
  have s0: "Closing \<notin> set (es_threads s0)" "\<not> es_freed s0" using assms by (auto simp: DosCreateEventSem_def)
  have "0 < w0 \<longrightarrow> Closing \<notin> set (es_threads s) \<and> \<not> es_freed s" using r
  proof (induction rule: rtranclp_induct)
    case (step t u)
    then show ?case using ev_never_closing [of t u w0] ev_inv_reachable [OF step(1) ev_inv_created [OF assms]] by blast
  qed (use s0 in blast)
  then show "0 < w0 \<Longrightarrow> \<not> es_freed s" by blast
  assume "0 < w0"
  then have "0 < es_waiting s" using i waiters_nonneg(1) [of s] by (simp only: ev_inv_def)
  then show "DosCloseEventSem_check i s = set_thread i (Done ERROR_SEM_BUSY) s" for i by (simp add: DosCloseEventSem_check_def)
next
  fix s assume r: "0 \<le> w0 \<and> ev_careful\<^sup>*\<^sup>* s0 s \<and> es_freed s"
  have "ev_safe s0" using assms by (auto simp: DosCreateEventSem_def ev_safe_def callers_def in_call_def filter_replicate)
  then have "callers s = 0" using ev_careful_safe [OF _ ev_inv_created [OF assms], of s] r by (simp add: ev_safe_def)
  then show "\<forall>w \<in> set (es_threads s). \<not> in_call w" using callers_pos [of _ s] by fastforce
next
  assume r: "w0 \<le> 0 \<and> 2 \<le> n \<and> state = 0"
  have s: "\<not> es_posted s0" "es_waiting s0 \<le> 0" "\<not> es_freed s0" "2 \<le> length (es_threads s0)"
    "es_threads s0 ! 0 = Running" "es_threads s0 ! 1 = Running" using assms r by (auto simp: DosCreateEventSem_def)
  from ev_close_races [OF s] show "\<exists>s. ev_step\<^sup>*\<^sup>* s0 s \<and> es_freed s \<and> es_threads s ! 0 = Asleep False"
    "\<exists>s. ev_step\<^sup>*\<^sup>* s0 s \<and> es_freed s \<and> es_threads s ! 0 = Closing" by blast+
qed

definition demo_sem :: evsem where
  "demo_sem = \<lparr>es_posted = False, es_waiting = 0, es_threads = [Running, Running], es_freed = False, es_fault = False\<rparr>"

theorem evsem_invariant_witness:
  "es_waiting (DosWaitEventSem 0 SEM_INDEFINITE_WAIT demo_sem) = 1 \<and>
   (\<exists>s. ev_step\<^sup>*\<^sup>* demo_sem s \<and> es_freed s \<and> es_threads s ! 0 = Asleep False) \<and>
   (\<exists>s. ev_careful\<^sup>*\<^sup>* demo_sem s \<and> es_freed s \<and> (\<forall>w \<in> set (es_threads s). \<not> in_call w))"
proof -
  have c: "DosCreateEventSem False (Some 0) 0 0 0 (replicate 2 Running) = (NO_ERROR, Some demo_sem)" by code_simp
  have "ev_step demo_sem (DosWaitEventSem 0 SEM_INDEFINITE_WAIT demo_sem)" by (rule ev_wait) (simp_all add: demo_sem_def)
  then have "es_waiting (DosWaitEventSem 0 SEM_INDEFINITE_WAIT demo_sem) = 0 + waiters (DosWaitEventSem 0 SEM_INDEFINITE_WAIT demo_sem)"
    using evsem_invariant [OF c] by blast
  moreover have "waiters (DosWaitEventSem 0 SEM_INDEFINITE_WAIT demo_sem) = 1" by code_simp
  moreover have "\<exists>s. ev_step\<^sup>*\<^sup>* demo_sem s \<and> es_freed s \<and> es_threads s ! 0 = Asleep False" using evsem_invariant [OF c] by simp
  moreover
  let ?k = "DosCloseEventSem_check 1 demo_sem" and ?f = "DosCloseEventSem_free 1 (DosCloseEventSem_check 1 demo_sem)"
  have "ev_careful demo_sem ?k" "ev_careful ?k ?f"
    by (auto simp: ev_careful_def demo_sem_def DosCloseEventSem_check_def DosCloseEventSem_free_def callers_def in_call_def set_thread_def
        intro: ev_check [of demo_sem 1, unfolded demo_sem_def DosCloseEventSem_check_def set_thread_def, simplified]
          ev_free [of ?k 1, unfolded demo_sem_def DosCloseEventSem_check_def DosCloseEventSem_free_def set_thread_def, simplified])
  then have "ev_careful\<^sup>*\<^sup>* demo_sem ?f" by (blast intro: rtranclp.rtrancl_into_rtrancl rtranclp.rtrancl_refl)
  moreover have "es_freed ?f" by code_simp
  ultimately show ?thesis using evsem_invariant [OF c] by auto
qed

text \<open>
  C28.  Posting releases the threads that wait at that moment only if they take the mutex before the
  semaphore is reset.  When it stays posted, the next turn of a waiting thread returns; but after a
  post and an immediate reset the woken thread goes to sleep again, for good if nobody posts again.
\<close>

theorem post_reset_loses_waiter:
  assumes "i < length (es_threads s)" "es_threads s ! i = Asleep timed" "\<not> es_posted s"
  shows "es_threads (wait_again i timed (snd (DosPostEventSem s))) ! i = Done NO_ERROR \<and>
    es_threads (snd (DosResetEventSem (snd (DosPostEventSem s)))) ! i = Woken timed \<and>
    es_threads (wait_again i timed (snd (DosResetEventSem (snd (DosPostEventSem s))))) ! i = Asleep timed"
  using assms by (simp add: DosPostEventSem_def DosResetEventSem_def wait_again_def set_thread_def)

theorem post_reset_loses_waiter_witness:
  "let s = DosWaitEventSem 0 SEM_INDEFINITE_WAIT demo_sem in
    es_threads s ! 0 = Asleep False \<and>
    es_threads (wait_again 0 False (snd (DosResetEventSem (snd (DosPostEventSem s))))) ! 0 = Asleep False"
  unfolding Let_def
  using post_reset_loses_waiter [of 0 "DosWaitEventSem 0 SEM_INDEFINITE_WAIT demo_sem" False]
  by (simp add: DosWaitEventSem_def SEM_INDEFINITE_WAIT_def SEM_IMMEDIATE_RETURN_def demo_sem_def set_thread_def)

subsection \<open>Mutex semaphores\<close>

text \<open>
  A mutex semaphore is a POSIX mutex.  The mutex of the C library, as POSIX documents it for each of its attributes: the type says
  what a second lock by the owner does (a normal mutex blocks, one that checks errors reports it, a recursive one counts), and
  a robust mutex reports the end of its owner, where any other stays locked.  \<open>pm_dead\<close> says that the owner ended while it
  held the mutex, \<open>pm_bad\<close> that the next owner has not made the state consistent, \<open>pm_broken\<close> that it was unlocked like that.
  \<open>None\<close> is a call that does not return, or an unlock that POSIX leaves undefined.
\<close>

datatype mutex_type = Normal | Errorcheck | Recursive

record mutexattr =
  ma_type :: mutex_type
  ma_robust :: bool

record pmutex =
  pm_attr :: mutexattr
  pm_owner :: "nat option"
  pm_count :: nat
  pm_dead :: bool
  pm_bad :: bool
  pm_broken :: bool

datatype pcode = P_OK | P_EAGAIN | P_EBUSY | P_EDEADLK | P_EOWNERDEAD | P_ENOTRECOVERABLE | P_ETIMEDOUT | P_EPERM | P_EINVAL

datatype lock_call = Trylock | Lock | Timedlock

definition pthread_mutexattr_init :: mutexattr where
  "pthread_mutexattr_init = \<lparr>ma_type = Normal, ma_robust = False\<rparr>"

definition pthread_mutex_init :: "mutexattr \<Rightarrow> pmutex" where
  "pthread_mutex_init a = \<lparr>pm_attr = a, pm_owner = None, pm_count = 0, pm_dead = False, pm_bad = False, pm_broken = False\<rparr>"

fun held :: "lock_call \<Rightarrow> pmutex \<Rightarrow> (pcode \<times> pmutex) option" where
  "held Trylock m = Some (P_EBUSY, m)"
| "held Lock m = None"
| "held Timedlock m = Some (P_ETIMEDOUT, m)"

text \<open>\<open>lim\<close>: the greatest number of locks of one thread.\<close>

definition pthread_mutex_acquire :: "lock_call \<Rightarrow> nat \<Rightarrow> nat \<Rightarrow> pmutex \<Rightarrow> (pcode \<times> pmutex) option" where
  "pthread_mutex_acquire c lim t m =
    (if pm_broken m then Some (P_ENOTRECOVERABLE, m)
     else if pm_dead m then Some (P_EOWNERDEAD, m\<lparr>pm_owner := Some t, pm_count := 1, pm_dead := False, pm_bad := True\<rparr>)
     else case pm_owner m of
         None \<Rightarrow> Some (P_OK, m\<lparr>pm_owner := Some t, pm_count := 1\<rparr>)
       | Some t' \<Rightarrow>
           if t' \<noteq> t then held c m
           else (case ma_type (pm_attr m) of
               Normal \<Rightarrow> held c m
             | Errorcheck \<Rightarrow> if c = Trylock then held c m else Some (P_EDEADLK, m)
             | Recursive \<Rightarrow> if pm_count m < lim then Some (P_OK, m\<lparr>pm_count := pm_count m + 1\<rparr>) else Some (P_EAGAIN, m)))"

definition pthread_mutex_unlock :: "nat \<Rightarrow> pmutex \<Rightarrow> (pcode \<times> pmutex) option" where
  "pthread_mutex_unlock t m =
    (if pm_owner m \<noteq> Some t \<or> pm_dead m
     then (if ma_type (pm_attr m) = Normal \<and> \<not> ma_robust (pm_attr m) then None else Some (P_EPERM, m))
     else if 1 < pm_count m then Some (P_OK, m\<lparr>pm_count := pm_count m - 1\<rparr>)
     else Some (P_OK, m\<lparr>pm_owner := None, pm_count := 0, pm_bad := False, pm_broken := pm_bad m\<rparr>))"

definition thread_ends :: "nat \<Rightarrow> pmutex \<Rightarrow> pmutex" where
  "thread_ends t m = (if pm_owner m = Some t \<and> ma_robust (pm_attr m) then m\<lparr>pm_dead := True\<rparr> else m)"

text \<open>
  Creation by thread \<open>t\<close>.  \<open>rc\<close> is the result of \<^verbatim>\<open>pthread_mutex_init\<close>, which the code compares with -1; the result of
  the lock for a semaphore that is to be owned from the beginning is not looked at.
\<close>

definition DosCreateMutexSem :: "bool \<Rightarrow> bool \<Rightarrow> int \<Rightarrow> nat \<Rightarrow> nat \<Rightarrow> u32 \<Rightarrow> (apiret \<times> pmutex option) option" where
  "DosCreateMutexSem named mem_ok rc lim t state =
    (if named then Some (ERROR_NOT_ENOUGH_MEMORY, None)
     else if \<not> mem_ok then Some (ERROR_NOT_ENOUGH_MEMORY, None)
     else
       let attr = pthread_mutexattr_init\<lparr>ma_type := Recursive, ma_robust := True\<rparr>; mtx = pthread_mutex_init attr in
       if rc = -1 then Some (ERROR_NOT_ENOUGH_MEMORY, None)
       else if state \<noteq> 0 then map_option (\<lambda>(_, m). (NO_ERROR, Some m)) (pthread_mutex_acquire Lock lim t mtx)
       else Some (NO_ERROR, Some mtx))"

fun request_code :: "pcode \<Rightarrow> apiret" where
  "request_code P_OK = NO_ERROR"
| "request_code P_EAGAIN = ERROR_TOO_MANY_SEM_REQUESTS"
| "request_code P_EOWNERDEAD = ERROR_SEM_OWNER_DIED"
| "request_code P_ETIMEDOUT = ERROR_TIMEOUT"
| "request_code _ = ERROR_INVALID_HANDLE"

text \<open>A request; a timed one is shown at its deadline where the mutex stays held.\<close>

definition DosRequestMutexSem :: "nat \<Rightarrow> nat \<Rightarrow> u32 \<Rightarrow> pmutex \<Rightarrow> (apiret \<times> pmutex) option" where
  "DosRequestMutexSem lim t ulTimeout m =
    map_option (\<lambda>(rc, m'). (request_code rc, m'))
      (if ulTimeout = SEM_IMMEDIATE_RETURN then pthread_mutex_acquire Trylock lim t m
       else if ulTimeout = SEM_INDEFINITE_WAIT then pthread_mutex_acquire Lock lim t m
       else pthread_mutex_acquire Timedlock lim t m)"

definition DosReleaseMutexSem :: "nat \<Rightarrow> pmutex \<Rightarrow> (apiret \<times> pmutex) option" where
  "DosReleaseMutexSem t m =
    map_option (\<lambda>(rc, m'). (if rc = P_OK then NO_ERROR else if rc = P_EPERM then ERROR_NOT_OWNER else ERROR_INVALID_HANDLE, m'))
      (pthread_mutex_unlock t m)"

text \<open>
  Closing.  \<open>destroy\<close> is \<^verbatim>\<open>pthread_mutex_destroy\<close>, a parameter: POSIX lets it succeed on an unlocked mutex, and leaves undefined what it
  does to a locked one, which the code does not check.  A destroyed mutex is freed (\<open>None\<close>).
\<close>

definition DosCloseMutexSem :: "(pmutex \<Rightarrow> pcode) \<Rightarrow> pmutex \<Rightarrow> apiret \<times> pmutex option" where
  "DosCloseMutexSem destroy m =
    (let rc = destroy m in
     if rc = P_EBUSY then (ERROR_SEM_BUSY, Some m)
     else if rc = P_OK then (NO_ERROR, None)
     else (ERROR_INVALID_HANDLE, Some m))"

definition pm_inv :: "nat \<Rightarrow> pmutex \<Rightarrow> bool" where
  "pm_inv lim m \<longleftrightarrow> (pm_owner m = None \<longleftrightarrow> pm_count m = 0) \<and> pm_count m \<le> lim \<and> (pm_broken m \<longrightarrow> pm_owner m = None) \<and>
    (pm_dead m \<or> pm_bad m \<longrightarrow> pm_owner m \<noteq> None)"

lemma held_same: "held c m = Some (rc, m') \<Longrightarrow> m' = m"
  by (cases c) simp_all

lemma pm_inv_acquire: "pm_inv lim m \<Longrightarrow> 0 < lim \<Longrightarrow> pthread_mutex_acquire c lim t m = Some (rc, m') \<Longrightarrow> pm_inv lim m'"
  unfolding pthread_mutex_acquire_def pm_inv_def
  by (auto dest!: held_same split: option.splits if_split_asm mutex_type.splits)

lemma pm_inv_request: "pm_inv lim m \<Longrightarrow> 0 < lim \<Longrightarrow> DosRequestMutexSem lim t w m = Some (r, m') \<Longrightarrow> pm_inv lim m'"
  by (auto simp: DosRequestMutexSem_def intro: pm_inv_acquire split: if_split_asm)

lemma pm_inv_release: "pm_inv lim m \<Longrightarrow> DosReleaseMutexSem t m = Some (r, m') \<Longrightarrow> pm_inv lim m'"
  unfolding DosReleaseMutexSem_def pthread_mutex_unlock_def pm_inv_def by (auto split: if_split_asm)

text \<open>A mutex semaphore as the code creates it, held \<open>n\<close> times by a thread.\<close>

definition mutex_sem :: pmutex where
  "mutex_sem = pthread_mutex_init \<lparr>ma_type = Recursive, ma_robust = True\<rparr>"

definition holds :: "nat \<Rightarrow> nat \<Rightarrow> pmutex \<Rightarrow> bool" where
  "holds t n m \<longleftrightarrow> m = (if n = 0 then mutex_sem else mutex_sem\<lparr>pm_owner := Some t, pm_count := n\<rparr>)"

lemma request_holds: "holds t n m \<Longrightarrow> n < lim \<Longrightarrow>
    \<exists>m'. DosRequestMutexSem lim t w m = Some (NO_ERROR, m') \<and> holds t (Suc n) m'"
  by (simp add: holds_def DosRequestMutexSem_def pthread_mutex_acquire_def mutex_sem_def pthread_mutex_init_def)

lemma release_holds: "holds t (Suc n) m \<Longrightarrow> \<exists>m'. DosReleaseMutexSem t m = Some (NO_ERROR, m') \<and> holds t n m'"
  by (simp add: holds_def DosReleaseMutexSem_def pthread_mutex_unlock_def mutex_sem_def pthread_mutex_init_def)

lemma create_holds: "state = 0 \<or> 0 < lim \<Longrightarrow>
    \<exists>m. DosCreateMutexSem False True 0 lim t state = Some (NO_ERROR, Some m) \<and> holds t (if state = 0 then 0 else 1) m"
  by (simp add: DosCreateMutexSem_def holds_def mutex_sem_def pthread_mutex_init_def pthread_mutexattr_init_def pthread_mutex_acquire_def)

fun requests :: "nat \<Rightarrow> nat \<Rightarrow> u32 list \<Rightarrow> pmutex \<Rightarrow> pmutex option" where
  "requests lim t [] m = Some m"
| "requests lim t (w # ws) m = (case DosRequestMutexSem lim t w m of Some (NO_ERROR, m') \<Rightarrow> requests lim t ws m' | _ \<Rightarrow> None)"

fun releases :: "nat \<Rightarrow> nat \<Rightarrow> pmutex \<Rightarrow> pmutex option" where
  "releases t 0 m = Some m"
| "releases t (Suc n) m = (case DosReleaseMutexSem t m of Some (NO_ERROR, m') \<Rightarrow> releases t n m' | _ \<Rightarrow> None)"

lemma requests_holds: "holds t n m \<Longrightarrow> n + length ws \<le> lim \<Longrightarrow>
    \<exists>m'. requests lim t ws m = Some m' \<and> holds t (n + length ws) m'"
proof (induction ws arbitrary: n m)
  case (Cons w ws)
  then obtain m1 where "DosRequestMutexSem lim t w m = Some (NO_ERROR, m1)" "holds t (Suc n) m1"
    using request_holds [of t n m lim w] by auto
  then show ?case using Cons.IH [of "Suc n" m1] Cons.prems by simp
qed simp

lemma releases_holds: "holds t (n + k) m \<Longrightarrow> \<exists>m'. releases t k m = Some m' \<and> holds t n m'"
proof (induction k arbitrary: m)
  case (Suc k)
  then obtain m1 where "DosReleaseMutexSem t m = Some (NO_ERROR, m1)" "holds t (n + k) m1"
    using release_holds [of t "n + k" m] by auto
  then show ?case using Suc.IH [of m1] by simp
qed simp

text \<open>What another thread gets while the semaphore is held.\<close>

lemma held_excludes:
  assumes "holds t k m" "0 < k" "t' \<noteq> t"
  shows "DosRequestMutexSem lim t' w m = (if w = SEM_IMMEDIATE_RETURN then Some (ERROR_INVALID_HANDLE, m)
      else if w = SEM_INDEFINITE_WAIT then None else Some (ERROR_TIMEOUT, m))"
    "DosReleaseMutexSem t' m = Some (ERROR_NOT_OWNER, m)"
  using assms
  by (simp_all add: holds_def DosRequestMutexSem_def pthread_mutex_acquire_def mutex_sem_def pthread_mutex_init_def
      DosReleaseMutexSem_def pthread_mutex_unlock_def)

text \<open>
  C29.  A mutex semaphore, as \<open>DosCreateMutexSem\<close> makes it, is a recursive lock.  A thread that creates it (owned or not) and
  requests it, however long each request may wait, gets it every time, up to the library's limit; with \<open>n\<close> requests in all, until
  the last of \<open>n\<close> releases no request of any other thread succeeds (an immediate one is answered with an invalid handle, a timed
  one times out, an indefinite one does not return) and no other thread can release it.  After the last release another thread gets it
  at once, and it can be closed if the library destroys unlocked mutexes.
\<close>

theorem mutex_excludes:
  assumes "n = length ws + (if state = 0 then 0 else 1)" "0 < k" "k \<le> n" "n \<le> lim" "t' \<noteq> t"
    "\<forall>m. pm_owner m = None \<longrightarrow> destroy m = P_OK"
  shows "\<exists>m0 m1 m2 m3 m4. DosCreateMutexSem False True 0 lim t state = Some (NO_ERROR, Some m0) \<and>
    requests lim t ws m0 = Some m1 \<and> releases t (n - k) m1 = Some m2 \<and>
    (\<forall>w. DosRequestMutexSem lim t' w m2 = (if w = SEM_IMMEDIATE_RETURN then Some (ERROR_INVALID_HANDLE, m2)
      else if w = SEM_INDEFINITE_WAIT then None else Some (ERROR_TIMEOUT, m2))) \<and>
    DosReleaseMutexSem t' m2 = Some (ERROR_NOT_OWNER, m2) \<and>
    releases t k m2 = Some m3 \<and> (\<forall>w. DosRequestMutexSem lim t' w m3 = Some (NO_ERROR, m4)) \<and>
    DosCloseMutexSem destroy m3 = (NO_ERROR, None)"
proof -
  let ?s = "if state = 0 then 0 else 1"
  obtain m0 where m0: "DosCreateMutexSem False True 0 lim t state = Some (NO_ERROR, Some m0)" "holds t ?s m0"
    using create_holds [of state lim t] assms(2-4) by auto
  obtain m1 where m1: "requests lim t ws m0 = Some m1" "holds t n m1"
    using requests_holds [OF m0(2), of ws lim] assms(1,4) by (auto simp: add.commute)
  obtain m2 where m2: "releases t (n - k) m1 = Some m2" "holds t k m2"
    using releases_holds [of t k "n - k" m1] m1(2) assms(3) by auto
  obtain m3 where m3: "releases t k m2 = Some m3" "holds t 0 m3"
    using releases_holds [of t 0 k m2] m2(2) by auto
  have m: "m3 = mutex_sem" using m3(2) by (simp add: holds_def)
  have "DosRequestMutexSem lim t' w m3 = Some (NO_ERROR, mutex_sem\<lparr>pm_owner := Some t', pm_count := 1\<rparr>)" for w
    by (simp add: m DosRequestMutexSem_def pthread_mutex_acquire_def mutex_sem_def pthread_mutex_init_def)
  moreover have "DosCloseMutexSem destroy m3 = (NO_ERROR, None)"
    using assms(6) by (simp add: m DosCloseMutexSem_def mutex_sem_def pthread_mutex_init_def)
  ultimately show ?thesis using m0(1) m1(1) m2(1) m3(1) held_excludes [OF m2(2) assms(2,5)] by blast
qed

theorem mutex_excludes_witness:
  "\<exists>m0 m1 m2 m3 m4. DosCreateMutexSem False True 0 10 1 1 = Some (NO_ERROR, Some m0) \<and>
    requests 10 1 [0xFFFFFFFF, 0] m0 = Some m1 \<and> releases 1 (3 - 1) m1 = Some m2 \<and>
    (\<forall>w. DosRequestMutexSem 10 2 w m2 = (if w = SEM_IMMEDIATE_RETURN then Some (ERROR_INVALID_HANDLE, m2)
      else if w = SEM_INDEFINITE_WAIT then None else Some (ERROR_TIMEOUT, m2))) \<and>
    DosReleaseMutexSem 2 m2 = Some (ERROR_NOT_OWNER, m2) \<and>
    releases 1 1 m2 = Some m3 \<and> (\<forall>w. DosRequestMutexSem 10 2 w m3 = Some (NO_ERROR, m4)) \<and>
    DosCloseMutexSem (\<lambda>m. if pm_owner m = None then P_OK else P_EBUSY) m3 = (NO_ERROR, None)"
  by (rule mutex_excludes) simp_all

text \<open>
  When an owner ends, the next request reports it and holds the mutex; the code never marks the
  state as consistent, so after its release every request is answered with an invalid handle.
\<close>

lemma owner_died:
  assumes "holds t n m" "0 < n"
  shows "\<exists>m1 m2. DosRequestMutexSem lim t' w (thread_ends t m) = Some (ERROR_SEM_OWNER_DIED, m1) \<and>
    DosReleaseMutexSem t' m1 = Some (NO_ERROR, m2) \<and>
    DosRequestMutexSem lim t'' w' m2 = Some (ERROR_INVALID_HANDLE, m2)"
  using assms by (simp add: holds_def thread_ends_def DosRequestMutexSem_def pthread_mutex_acquire_def
      DosReleaseMutexSem_def pthread_mutex_unlock_def mutex_sem_def pthread_mutex_init_def)

subsection \<open>Spin semaphores of 16-bit programs\<close>

text \<open>
  The semaphore is one integer of the program.  Other threads may change it and time passes between
  two attempts: \<open>env i\<close> is the value the \<open>i\<close>-th attempt finds, \<open>clock i\<close> the time in milliseconds
  read after it.  A call returns its result, the value it leaves and the number of the last attempt.
\<close>

definition trySpinLock :: "u32 \<Rightarrow> bool \<times> u32" where
  "trySpinLock w = (w = 0, 1)"

definition compare_and_swap :: "u32 \<Rightarrow> u32 \<Rightarrow> u32 \<Rightarrow> bool \<times> u32" where
  "compare_and_swap old new w = (if w = old then (True, new) else (False, w))"

partial_function (option) sem_poll ::
  "(u32 \<Rightarrow> bool \<times> u32) \<Rightarrow> (nat \<Rightarrow> u32) \<Rightarrow> (nat \<Rightarrow> nat) \<Rightarrow> nat option \<Rightarrow> nat \<Rightarrow> (apiret \<times> u32 \<times> nat) option" where
  "sem_poll attempt env clock deadline i =
    (if fst (attempt (env i)) then Some (NO_ERROR, snd (attempt (env i)), i)
     else if (case deadline of None \<Rightarrow> False | Some d \<Rightarrow> d \<le> clock i)
     then Some (ERROR_TIMEOUT, snd (attempt (env i)), i)
     else sem_poll attempt env clock deadline (Suc i))"

definition sem_call ::
  "(u32 \<Rightarrow> bool \<times> u32) \<Rightarrow> (nat \<Rightarrow> u32) \<Rightarrow> (nat \<Rightarrow> nat) \<Rightarrow> nat \<Rightarrow> int \<Rightarrow> (apiret \<times> u32 \<times> nat) option" where
  "sem_call attempt env clock start ms =
    (if ms = 0 then (case attempt (env 0) of (ok, w) \<Rightarrow> Some (if ok then NO_ERROR else ERROR_TIMEOUT, w, 0))
     else if ms < 0 then sem_poll attempt env clock None 0
     else sem_poll attempt env clock (Some (start + nat ms)) 0)"

definition DosSemRequest :: "(nat \<Rightarrow> u32) \<Rightarrow> (nat \<Rightarrow> nat) \<Rightarrow> nat \<Rightarrow> int \<Rightarrow> (apiret \<times> u32 \<times> nat) option" where
  "DosSemRequest = sem_call trySpinLock"

definition DosSemWait :: "(nat \<Rightarrow> u32) \<Rightarrow> (nat \<Rightarrow> nat) \<Rightarrow> nat \<Rightarrow> int \<Rightarrow> (apiret \<times> u32 \<times> nat) option" where
  "DosSemWait = sem_call (compare_and_swap 0 1)"

definition DosSemClear :: "u32 \<Rightarrow> apiret \<times> u32" where
  "DosSemClear w = (NO_ERROR, 0)"

definition DosSemSet :: "u32 \<Rightarrow> apiret \<times> u32" where
  "DosSemSet w = (NO_ERROR, snd (compare_and_swap 1 0 w))"

text \<open>Both attempts succeed on 0 and leave 1.\<close>

definition takes_zero :: "(u32 \<Rightarrow> bool \<times> u32) \<Rightarrow> bool" where
  "takes_zero attempt \<longleftrightarrow> (\<forall>w. fst (attempt w) = (w = 0)) \<and> snd (attempt 0) = 1"

lemma takes_zero_try: "takes_zero trySpinLock" "takes_zero (compare_and_swap 0 1)"
  by (auto simp: takes_zero_def trySpinLock_def compare_and_swap_def)

lemma sem_poll_step:
  assumes "takes_zero a"
  shows "sem_poll a env clock d i =
    (if env i = 0 then Some (NO_ERROR, 1, i)
     else if (case d of None \<Rightarrow> False | Some d \<Rightarrow> d \<le> clock i) then Some (ERROR_TIMEOUT, snd (a (env i)), i)
     else sem_poll a env clock d (Suc i))"
  using assms by (subst sem_poll.simps) (auto simp: takes_zero_def)

text \<open>
  The loop ends at its first attempt that finds 0 or whose clock is at the deadline: enough for
  that is one such attempt, at any later index.
\<close>

lemma sem_poll_ends:
  assumes "takes_zero a" "i \<le> n" "env n = 0 \<or> (\<exists>t. d = Some t \<and> t \<le> clock n)"
  shows "\<exists>r w j. sem_poll a env clock d i = Some (r, w, j) \<and> i \<le> j \<and> j \<le> n \<and>
    (r = NO_ERROR \<and> env j = 0 \<and> w = 1 \<or> r = ERROR_TIMEOUT \<and> env j \<noteq> 0 \<and> (\<exists>t. d = Some t \<and> t \<le> clock j)) \<and>
    list_all (\<lambda>k. env k \<noteq> 0 \<and> (\<forall>t. d = Some t \<longrightarrow> clock k < t)) [i..<j]"
  using assms(2)
proof (induction "n - i" arbitrary: i)
  case 0
  then have "i = n" by simp
  then show ?case using assms(1,3) by (subst sem_poll_step) auto
next
  case (Suc m)
  consider "env i = 0" | "env i \<noteq> 0" "\<exists>t. d = Some t \<and> t \<le> clock i" | "env i \<noteq> 0" "\<forall>t. d = Some t \<longrightarrow> clock i < t"
    by (metis not_le)
  then show ?case
  proof cases
    case 3
    then have s: "sem_poll a env clock d i = sem_poll a env clock d (Suc i)"
      using assms(1) by (subst sem_poll_step) (auto split: option.splits)
    have "m = n - Suc i" "Suc i \<le> n" using Suc.hyps(2) by simp_all
    from Suc.hyps(1) [OF this] obtain r w j where j: "sem_poll a env clock d (Suc i) = Some (r, w, j)" "Suc i \<le> j" "j \<le> n"
      "r = NO_ERROR \<and> env j = 0 \<and> w = 1 \<or> r = ERROR_TIMEOUT \<and> env j \<noteq> 0 \<and> (\<exists>t. d = Some t \<and> t \<le> clock j)"
      "list_all (\<lambda>k. env k \<noteq> 0 \<and> (\<forall>t. d = Some t \<longrightarrow> clock k < t)) [Suc i..<j]" by auto
    have "[i..<j] = i # [Suc i..<j]" using j(2) by (simp add: upt_conv_Cons)
    then show ?thesis using s j 3 by (intro exI [of _ r] exI [of _ w] exI [of _ j]) simp
  qed (use assms(1) Suc.prems in \<open>subst sem_poll_step; auto\<close>)+
qed

text \<open>
  C30.  A 16-bit request with a time limit always returns once the clock reaches the limit: it holds
  the semaphore if some attempt before that found it free, and reports a time-out otherwise.  And
  \<open>DosSemSet\<close>, which should make threads wait, does the same as \<open>DosSemClear\<close> to an owned semaphore
  and nothing to a free one: a wait right after it succeeds at once.
\<close>

theorem DosSem_returns:
  assumes "0 < ms" "start + nat ms \<le> clock n"
  shows "(\<exists>w j. j \<le> n \<and> (DosSemRequest env clock start ms = Some (NO_ERROR, w, j) \<and> env j = 0 \<and> w = 1 \<or>
      DosSemRequest env clock start ms = Some (ERROR_TIMEOUT, w, j) \<and> start + nat ms \<le> clock j \<and>
        list_all (\<lambda>k. env k \<noteq> 0) [0..<Suc j])) \<and>
    DosSemSet 1 = DosSemClear 1 \<and> DosSemSet 0 = (NO_ERROR, 0) \<and>
    (DosSemWait (\<lambda>i. snd (DosSemSet 1)) clock start 0 = Some (NO_ERROR, 1, 0))"
proof -
  obtain r w j where j: "sem_poll trySpinLock env clock (Some (start + nat ms)) 0 = Some (r, w, j)" "j \<le> n"
      "r = NO_ERROR \<and> env j = 0 \<and> w = 1 \<or> r = ERROR_TIMEOUT \<and> env j \<noteq> 0 \<and> start + nat ms \<le> clock j"
      "list_all (\<lambda>k. env k \<noteq> 0 \<and> clock k < start + nat ms) [0..<j]"
    using sem_poll_ends [OF takes_zero_try(1), of 0 n env "Some (start + nat ms)" clock] assms(2) by auto
  have "DosSemRequest env clock start ms = Some (r, w, j)" using j(1) assms(1) by (simp add: DosSemRequest_def sem_call_def)
  moreover have "list_all (\<lambda>k. env k \<noteq> 0) [0..<j]" using j(4) by (simp add: list_all_iff)
  ultimately have "\<exists>w j. j \<le> n \<and> (DosSemRequest env clock start ms = Some (NO_ERROR, w, j) \<and> env j = 0 \<and> w = 1 \<or>
      DosSemRequest env clock start ms = Some (ERROR_TIMEOUT, w, j) \<and> start + nat ms \<le> clock j \<and>
        list_all (\<lambda>k. env k \<noteq> 0) [0..<Suc j])"
    using j(2,3) by (intro exI [of _ w] exI [of _ j]) auto
  then show ?thesis
    by (simp add: DosSemSet_def DosSemClear_def compare_and_swap_def DosSemWait_def sem_call_def)
qed

theorem DosSem_returns_witness:
  "\<exists>w j. j \<le> 5 \<and> (DosSemRequest (\<lambda>i. 1) (\<lambda>i. 10 * i) 0 50 = Some (NO_ERROR, w, j) \<and> (1 :: u32) = 0 \<and> w = 1 \<or>
      DosSemRequest (\<lambda>i. 1) (\<lambda>i. 10 * i) 0 50 = Some (ERROR_TIMEOUT, w, j) \<and> 0 + nat 50 \<le> 10 * j \<and>
        list_all (\<lambda>k. (1 :: u32) \<noteq> 0) [0..<Suc j])"
  by (rule DosSem_returns [THEN conjunct1]) simp_all

subsection \<open>Nesting counters\<close>

text \<open>The counters of \<open>DosEnterMustComplete\<close> and of the signal focus.\<close>

definition DosEnterMustComplete :: "u16 \<Rightarrow> apiret \<times> u16" where
  "DosEnterMustComplete c = (if c = 0xFFFF then (ERROR_NESTING_TOO_DEEP, c) else (NO_ERROR, c + 1))"

definition DosExitMustComplete :: "u16 \<Rightarrow> apiret \<times> u16" where
  "DosExitMustComplete c = (if c = 0 then (ERROR_ALREADY_RESET, c) else (NO_ERROR, c - 1))"

definition DosSetSignalExceptionFocus :: "u32 \<Rightarrow> u32 \<Rightarrow> apiret \<times> u32" where
  "DosSetSignalExceptionFocus flag c =
    (if flag = 0 then (if c = 0 then (ERROR_ALREADY_RESET, c) else (NO_ERROR, c - 1))
     else if flag = 1 then (if c = 0xFFFFFFFF then (ERROR_NESTING_TOO_DEEP, c) else (NO_ERROR, c + 1))
     else (NO_ERROR, c))"

text \<open>The counters never wrap, and an exit undoes an enter.\<close>

lemma must_complete_nests:
  "(case DosEnterMustComplete c of (NO_ERROR, c') \<Rightarrow> unat c' = unat c + 1 \<and> DosExitMustComplete c' = (NO_ERROR, c)
    | (_, c') \<Rightarrow> c' = c \<and> unat c = 0xFFFF)"
proof (cases "c = 0xFFFF")
  case False
  then have "unat c \<noteq> 65535" by (simp add: word_unat_eq_iff)
  then have "unat c < 65535" using unat_u16_less(1) [of c] by linarith
  then have u: "unat (c + 1) = unat c + 1" by (simp add: unat_word_ariths)
  then have "c + 1 \<noteq> 0" by (metis Suc_eq_plus1 nat.distinct(1) unat_0)
  then show ?thesis using False u by (simp add: DosEnterMustComplete_def DosExitMustComplete_def)
qed (simp add: DosEnterMustComplete_def)

end
