(* ===== verification/DosTls.thy ===== *)
theory DosTls
  imports DosFiles
begin

section \<open>Thread-local memory (\<^verbatim>\<open>native/doscalls.c\<close>, \<^verbatim>\<open>lx_loader.c\<close>)\<close>

text \<open>
  A program may allocate runs of at most 8 of the 32 words of a page that exists at one address with
  different contents in each thread.  The loader keeps a page without access rights: the program's
  access faults, and the fault handler carries it out on the thread's own copy.
\<close>

record tls_state =
  tlspage :: "u32 option"
  tlsmask :: u32
  tlsallocs :: "u8 list"

definition tls_start :: tls_state where
  "tls_start = \<lparr>tlspage = None, tlsmask = 0, tlsallocs = replicate 32 0\<rparr>"

text \<open>``This is the fake OS/2 TLS page. ''\<close>

definition tls_text :: bytes where
  "tls_text = map (of_nat \<circ> of_char) ''This is the fake OS/2 TLS page. ''"

fun tls_fill :: "nat \<Rightarrow> nat \<Rightarrow> bytes \<Rightarrow> bytes option" where
  "tls_fill 0 dst page = do { page1 \<leftarrow> wr_blk page dst (take 31 tls_text); wr8 page1 (dst + 31) 0 }"
| "tls_fill (Suc n) dst page = do { page1 \<leftarrow> wr_blk page dst (tls_text @ [0]); tls_fill n (dst + 32) page1 }"

text \<open>The new page: \<open>None\<close> is a fault, \<open>Some None\<close> the failure.  \<^verbatim>\<open>mmap\<close> returns zeroed memory.\<close>

definition initTLSPage :: "u32 option \<Rightarrow> bool \<Rightarrow> (u32 \<times> bytes) option option" where
  "initTLSPage mmap mprotect_ok =
    (case mmap of
       None \<Rightarrow> Some None
     | Some addr \<Rightarrow> do {
         page \<leftarrow> tls_fill 127 0 (replicate 4096 0);
         Some (if mprotect_ok then Some (addr, page) else None) })"

definition slot_mask :: "u32 \<Rightarrow> u32" where
  "slot_mask cb = drop_bit (unat (8 - cb)) 0xFF"

fun tls_find :: "u32 \<Rightarrow> u32 \<Rightarrow> nat list \<Rightarrow> (nat \<times> u32) option" where
  "tls_find used m [] = None"
| "tls_find used m (i # is) =
    (if (used XOR m) AND m = m then Some (i, m) else tls_find used (push_bit 1 m) is)"

definition DosAllocThreadLocalMemory ::
  "u32 option \<Rightarrow> bool \<Rightarrow> u32 \<Rightarrow> bool \<Rightarrow> tls_state \<Rightarrow> ((apiret \<times> u32 option) \<times> tls_state) option" where
  "DosAllocThreadLocalMemory mmap mprotect_ok cb p_given st =
    (if cb > 8 then Some ((ERROR_INVALID_PARAMETER, None), st)
     else if \<not> p_given then Some ((ERROR_INVALID_PARAMETER, None), st)
     else do {
       page \<leftarrow> (case tlspage st of Some a \<Rightarrow> Some (Some a) | None \<Rightarrow> map_option (map_option fst) (initTLSPage mmap mprotect_ok));
       case page of
         None \<Rightarrow> Some ((ERROR_NOT_ENOUGH_MEMORY, None), st)
       | Some addr \<Rightarrow>
           let st1 = st\<lparr>tlspage := Some addr\<rparr> in
           case tls_find (tlsmask st) (slot_mask cb) [0..<32] of
             None \<Rightarrow> Some ((ERROR_NOT_ENOUGH_MEMORY, None), st1)
           | Some (i, m) \<Rightarrow>
               if tlsallocs st ! i \<noteq> 0 then None
               else Some ((NO_ERROR, Some (addr + 4 * of_nat i)),
                   st1\<lparr>tlsallocs := (tlsallocs st)[i := ucast cb], tlsmask := tlsmask st OR m\<rparr>) })"

text \<open>
  The difference of two pointers to \<^verbatim>\<open>ULONG\<close> is their signed distance in words; the pointer a
  program passes is aligned.
\<close>

definition tls_slot :: "u32 \<Rightarrow> u32 \<Rightarrow> u32" where
  "tls_slot addr p = of_int (sint (p - addr) div 4)"

definition DosFreeThreadLocalMemory :: "u32 \<Rightarrow> tls_state \<Rightarrow> (apiret \<times> tls_state) option" where
  "DosFreeThreadLocalMemory p st =
    (case tlspage st of
       None \<Rightarrow> Some (ERROR_INVALID_PARAMETER, st)
     | Some addr \<Rightarrow>
         let slot = tls_slot addr p in
         if \<not> slot < 32 then Some (ERROR_INVALID_PARAMETER, st)
         else let slots = tlsallocs st ! unat slot in
           if slots = 0 then Some (ERROR_INVALID_PARAMETER, st)
           else let m = push_bit (unat slot) (slot_mask (ucast slots)) in
             if tlsmask st AND m \<noteq> m then None
             else Some (NO_ERROR, st\<lparr>tlsmask := tlsmask st AND NOT m, tlsallocs := (tlsallocs st)[unat slot := 0]\<rparr>))"

subsection \<open>What the table of slots promises\<close>

text \<open>The slots of an allocation that starts at slot \<open>i\<close>; the table says which slots are in use.\<close>

definition run_mask :: "nat \<Rightarrow> u32 \<Rightarrow> u32" where
  "run_mask i cb = push_bit i (slot_mask cb)"

definition tls_inv :: "tls_state \<Rightarrow> bool" where
  "tls_inv st \<longleftrightarrow> length (tlsallocs st) = 32 \<and>
    (\<forall>j < 32. bit (tlsmask st) j \<longleftrightarrow> (\<exists>i < 32. bit (run_mask i (ucast (tlsallocs st ! i))) j)) \<and>
    (\<forall>i < 32. \<forall>k < 32. i \<noteq> k \<longrightarrow> run_mask i (ucast (tlsallocs st ! i)) AND run_mask k (ucast (tlsallocs st ! k)) = 0) \<and>
    (\<forall>i < 32. tlsallocs st ! i \<le> 8)"

lemma bit_slot_mask: "cb \<le> 8 \<Longrightarrow> bit (slot_mask cb) j \<longleftrightarrow> j < unat cb"
proof -
  assume cb: "cb \<le> 8"
  then have u: "unat (8 - cb) = 8 - unat cb" "unat cb \<le> 8" by (simp_all add: unat_sub word_le_nat_alt)
  have ff: "(0xFF :: u32) = mask 8" by (simp add: mask_numeral)
  show ?thesis unfolding slot_mask_def ff using u(2) by (auto simp only: bit_drop_bit_eq bit_mask_iff u(1) o_def) (simp_all add: possible_bit_word)
qed

lemma bit_run_mask: "cb \<le> 8 \<Longrightarrow> bit (run_mask i cb) j \<longleftrightarrow> i \<le> j \<and> j < 32 \<and> j < i + unat cb"
  by (auto simp: run_mask_def bit_push_bit_iff bit_slot_mask)

lemma bit_run_mask8: "c \<le> 8 \<Longrightarrow> bit (run_mask i (ucast (c :: u8))) j \<longleftrightarrow> i \<le> j \<and> j < 32 \<and> j < i + unat c"
  by (subst bit_run_mask) (simp_all add: unsigned_ucast_eq word_le_nat_alt take_bit_nat_eq_self)

lemma free_test: "(used XOR m) AND m = m \<longleftrightarrow> used AND m = (0 :: u32)"
  by (auto simp: bit_eq_iff bit_simps)

lemma tls_find_Some: "tls_find used (run_mask i cb) [i..<n] = Some (k, m) \<Longrightarrow>
    i \<le> k \<and> k < n \<and> m = run_mask k cb \<and> used AND m = 0"
proof (induction "n - i" arbitrary: i)
  case (Suc d)
  have s: "[i..<n] = i # [Suc i..<n]" using Suc.hyps(2) by (simp add: upt_conv_Cons)
  have p: "push_bit 1 (run_mask i cb) = run_mask (Suc i) cb" by (simp add: run_mask_def push_bit_push_bit)
  show ?case
  proof (cases "used AND run_mask i cb = 0")
    case True
    then show ?thesis using Suc.prems Suc.hyps(2) by (auto simp: s free_test)
  next
    case False
    then have "tls_find used (run_mask (Suc i) cb) [Suc i..<n] = Some (k, m)"
      using Suc.prems unfolding s tls_find.simps free_test p by simp
    moreover have "d = n - Suc i" using Suc.hyps(2) by simp
    ultimately show ?thesis using Suc.hyps(1) [of "Suc i"] Suc_leD by blast
  qed
qed simp

lemma run_mask_start: "slot_mask cb = run_mask 0 cb"
  by (simp add: run_mask_def)

lemma bit_u32_32: "bit (x :: u32) n \<Longrightarrow> n < 32"
  using bit_imp_le_length [of x n] by simp

lemma word_and_0_iff: "(x :: u32) AND y = 0 \<longleftrightarrow> (\<forall>j < 32. bit x j \<longrightarrow> \<not> bit y j)"
  by (auto simp: bit_eq_iff bit_simps)

lemma tls_inv_start: "tls_inv tls_start"
proof -
  have "run_mask i 0 = 0" for i by (simp add: bit_eq_iff bit_run_mask)
  then show ?thesis by (simp add: tls_inv_def tls_start_def)
qed

lemma tls_owner:
  assumes "tls_inv st" "i < 32" "bit (run_mask i (ucast (tlsallocs st ! i))) j"
  shows "bit (tlsmask st) j"
  using assms bit_u32_32 [OF assms(3)] unfolding tls_inv_def by blast

lemma u8_u32_small: "cb \<le> 8 \<Longrightarrow> ucast (ucast (cb :: u32) :: u8) = cb" "cb \<le> 8 \<Longrightarrow> (ucast cb :: u8) \<le> 8"
  "cb \<le> 8 \<Longrightarrow> unat (ucast cb :: u8) = unat cb"
  by (simp_all add: word_unat_eq_iff word_le_nat_alt unsigned_ucast_eq take_bit_nat_eq_self unat_take_bit_word)

text \<open>A free run: no allocation starts at its first slot.\<close>

lemma tls_free_start:
  assumes "tls_inv st" "i < 32" "tlsmask st AND run_mask i cb = 0" "0 < cb" "cb \<le> 8"
  shows "tlsallocs st ! i = 0"
proof (rule ccontr)
  assume "tlsallocs st ! i \<noteq> 0"
  then have "0 < unat (tlsallocs st ! i)" by (simp add: unat_gt_0)
  moreover have "tlsallocs st ! i \<le> 8" using assms(1,2) by (simp add: tls_inv_def)
  ultimately have "bit (run_mask i (ucast (tlsallocs st ! i))) i" using assms(2) by (simp add: bit_run_mask8)
  then have "bit (tlsmask st) i" by (rule tls_owner [OF assms(1,2)])
  moreover have "bit (run_mask i cb) i" using assms(2,4,5) by (simp add: bit_run_mask word_less_nat_alt)
  ultimately show False using assms(2,3) by (simp add: word_and_0_iff)
qed

definition give :: "nat \<Rightarrow> u32 \<Rightarrow> tls_state \<Rightarrow> tls_state" where
  "give i cb st = st\<lparr>tlsallocs := (tlsallocs st)[i := ucast cb], tlsmask := tlsmask st OR run_mask i cb\<rparr>"

lemma tls_inv_give:
  assumes "tls_inv st" "i < 32" "tlsmask st AND run_mask i cb = 0" "0 < cb" "cb \<le> 8"
  shows "tls_inv (give i cb st)"
proof -
  let ?a = "tlsallocs st" and ?b = "(tlsallocs st)[i := ucast cb]"
  let ?r = "\<lambda>k. run_mask k (ucast (?a ! k))" and ?q = "\<lambda>k. run_mask k (ucast (?b ! k))"
  have len: "length ?a = 32" using assms(1) by (simp add: tls_inv_def)
  have z: "?a ! i = 0" by (rule tls_free_start [OF assms])
  have ri: "?r i = 0" by (simp add: z bit_eq_iff bit_run_mask)
  have q: "?q k = (if k = i then run_mask i cb else ?r k)" for k
    using len assms(2,5) by (cases "k = i") (simp_all add: u8_u32_small)
  have free: "?r k AND run_mask i cb = 0" if "k < 32" for k
    using assms(3) tls_owner [OF assms(1) that] by (auto simp: word_and_0_iff)
  have bits: "bit (tlsmask st OR run_mask i cb) j \<longleftrightarrow> (\<exists>k < 32. bit (?q k) j)" if j: "j < 32" for j
  proof -
    have "bit (tlsmask st) j \<longleftrightarrow> (\<exists>k < 32. bit (?r k) j)" using assms(1) j by (simp add: tls_inv_def)
    also have "\<dots> \<longleftrightarrow> (\<exists>k < 32. k \<noteq> i \<and> bit (?r k) j)" using ri by (metis bit_0_eq bot_apply bot_bool_def)
    finally show ?thesis using assms(2) by (auto simp: q bit_or_iff)
  qed
  have dis: "?q k AND ?q l = 0" if "k < 32" "l < 32" "k \<noteq> l" for k l
  proof -
    have "?r k AND ?r l = 0" using assms(1) that by (simp add: tls_inv_def)
    then show ?thesis using free [OF that(1)] free [OF that(2)] that(3) by (auto simp: q and.commute [of "run_mask i cb"])
  qed
  have "?b ! k \<le> 8" if "k < 32" for k
    using that assms(1,5) len by (cases "k = i") (simp_all add: u8_u32_small tls_inv_def)
  then show ?thesis using bits dis len by (simp add: tls_inv_def give_def)
qed

lemma give_back:
  assumes "tls_inv st" "i < 32" "tlsmask st AND run_mask i cb = 0" "0 < cb" "cb \<le> 8"
    "tlspage st = Some addr" "tls_slot addr p = of_nat i"
  shows "DosFreeThreadLocalMemory p (give i cb st) = Some (NO_ERROR, st)"
proof -
  have len: "length (tlsallocs st) = 32" using assms(1) by (simp add: tls_inv_def)
  have z: "tlsallocs st ! i = 0" by (rule tls_free_start [OF assms(1-5)])
  have s: "(of_nat i :: u32) < 32" "unat (of_nat i :: u32) = i"
    using assms(2) by (simp_all add: word_less_nat_alt unat_of_nat)
  have c: "tlsallocs (give i cb st) ! i = ucast cb" "(ucast cb :: u8) \<noteq> 0"
    using assms(2,4,5) len u8_u32_small(3) [OF assms(5)] by (auto simp: give_def word_less_nat_alt)
  have m1: "(tlsmask st OR run_mask i cb) AND run_mask i cb = run_mask i cb" by (simp add: bit_eq_iff bit_simps)
  have m2: "(tlsmask st OR run_mask i cb) AND NOT (run_mask i cb) = tlsmask st"
    using assms(3) by (auto simp: bit_eq_iff bit_simps)
  have "(tlsallocs st)[i := 0] = tlsallocs st" using z by (metis list_update_id)
  then have bk: "(give i cb st)\<lparr>tlsmask := (tlsmask st OR run_mask i cb) AND NOT (run_mask i cb), tlsallocs := (tlsallocs (give i cb st))[i := 0]\<rparr> = st"
    unfolding m2 by (simp add: give_def)
  have g: "tlspage (give i cb st) = Some addr" "tlsmask (give i cb st) = tlsmask st OR run_mask i cb"
    using assms(6) by (simp_all add: give_def)
  have r: "push_bit i (slot_mask (ucast (ucast cb :: u8))) = run_mask i cb"
    by (simp add: u8_u32_small(1) [OF assms(5)] run_mask_def)
  show ?thesis unfolding DosFreeThreadLocalMemory_def Let_def g option.case assms(7) s(2) c(1) r m1 bk
    using s(1) c(2) by simp
qed

lemma page_fill_ok: "length page = 4096 \<Longrightarrow> dst + 32 * n + 32 \<le> 4096 \<Longrightarrow>
    \<exists>page'. tls_fill n dst page = Some page' \<and> length page' = 4096"
proof (induction n dst page rule: tls_fill.induct)
  case (1 dst page)
  have "length tls_text = 32" by (simp add: tls_text_def)
  then show ?case using 1 by (simp add: wr_blk_def wr8_def blit_def)
next
  case (2 n dst page)
  have "length tls_text = 32" by (simp add: tls_text_def)
  then have "wr_blk page dst (tls_text @ [0]) = Some (blit page dst (tls_text @ [0]))"
    "length (blit page dst (tls_text @ [0])) = 4096" using 2(2,3) by (simp_all add: wr_blk_def blit_def)
  then show ?case using 2 by simp
qed

lemma initTLSPage_total: "\<exists>r. initTLSPage mm ok = Some r \<and> (mm = None \<or> \<not> ok \<longleftrightarrow> r = None)"
  using page_fill_ok [of "replicate 4096 0" 0 127] by (auto simp: initTLSPage_def split: option.split)

lemma alloc_gives:
  assumes "tls_inv st" "0 < cb" "DosAllocThreadLocalMemory mm ok cb given st = Some ((NO_ERROR, Some p), st')"
  shows "\<exists>addr i. cb \<le> 8 \<and> i < 32 \<and> tlsmask st AND run_mask i cb = 0 \<and> p = addr + 4 * of_nat i \<and>
    st' = give i cb (st\<lparr>tlspage := Some addr\<rparr>) \<and> (tlspage st = None \<or> tlspage st = Some addr)"
proof -
  have cb: "cb \<le> 8" "given" using assms(3) by (auto simp: DosAllocThreadLocalMemory_def split: if_splits)
  then have "\<not> 8 < cb" by simp
  with assms(3) cb(2) obtain addr i m where f: "tls_find (tlsmask st) (slot_mask cb) [0..<32] = Some (i, m)"
    and r: "p = addr + 4 * of_nat i" "st' = st\<lparr>tlspage := Some addr, tlsallocs := (tlsallocs st)[i := ucast cb], tlsmask := tlsmask st OR m\<rparr>"
      "tlspage st = None \<or> tlspage st = Some addr"
    by (auto simp: DosAllocThreadLocalMemory_def Let_def simp del: upt_rec_numeral upt.simps split: option.splits if_splits bind_splits prod.splits)
  have "i < 32 \<and> m = run_mask i cb \<and> tlsmask st AND m = 0"
    using tls_find_Some [OF f [unfolded run_mask_start]] by blast
  then show ?thesis using r cb(1) by (intro exI [of _ addr] exI [of _ i]) (auto simp: give_def simp del: tls_find.simps)
qed

lemma tls_slot_of: "i < 32 \<Longrightarrow> tls_slot addr (addr + 4 * of_nat i) = of_nat i"
proof -
  assume i: "i < 32"
  have m: "4 * of_nat i = (of_nat (4 * i) :: u32)" by simp
  have "unat (of_nat (4 * i) :: u32) = 4 * i" using i by (simp add: unat_of_nat del: of_nat_mult)
  then have "uint (of_nat (4 * i) :: u32) = int (4 * i)" by (simp only: uint_nat)
  moreover have "signed_take_bit 31 (int (4 * i)) = int (4 * i)" using i by (intro signed_take_bit_int_eq_self) auto
  ultimately have "sint (of_nat (4 * i) :: u32) = int (4 * i)" by (simp add: sint_uint del: of_nat_mult)
  moreover have "int (4 * i) div 4 = int i" by simp
  ultimately show ?thesis unfolding tls_slot_def add_diff_cancel_left' m by (simp only: of_int_of_nat_eq)
qed

text \<open>
  C31.  Thread-local words are handed out once.  Where the table is consistent, a successful
  allocation returns the address of a slot \<open>i\<close> whose run was free, adds exactly this run and keeps
  the table consistent, and freeing the address restores the table.  But the run is cut at the end of the
  page: of the \<open>cb\<close> words asked for only those below slot 32 are reserved.
\<close>

theorem DosAllocThreadLocalMemory_roundtrip:
  assumes "tls_inv st" "0 < cb" "DosAllocThreadLocalMemory mm ok cb given st = Some ((NO_ERROR, Some p), st')"
  shows "tls_inv st' \<and> (\<exists>page i. tlspage st' = Some page \<and> p = page + 4 * of_nat i \<and> i < 32 \<and>
      tlsmask st' = tlsmask st OR run_mask i cb \<and> tlsmask st AND run_mask i cb = 0 \<and>
      (\<forall>j. bit (run_mask i cb) j \<longleftrightarrow> i \<le> j \<and> j < i + unat cb \<and> j < 32) \<and>
      DosFreeThreadLocalMemory p st' = Some (NO_ERROR, st\<lparr>tlspage := Some page\<rparr>))"
proof -
  obtain addr i where r: "cb \<le> 8" "i < 32" "tlsmask st AND run_mask i cb = 0" "p = addr + 4 * of_nat i"
      "st' = give i cb (st\<lparr>tlspage := Some addr\<rparr>)"
    using alloc_gives [OF assms] by blast
  have inv: "tls_inv (st\<lparr>tlspage := Some addr\<rparr>)" using assms(1) by (simp add: tls_inv_def)
  have f: "tlsmask (st\<lparr>tlspage := Some addr\<rparr>) AND run_mask i cb = 0" using r(3) by simp
  have "tls_inv st'" unfolding r(5) by (rule tls_inv_give [OF inv r(2) f assms(2) r(1)])
  moreover have "DosFreeThreadLocalMemory p st' = Some (NO_ERROR, st\<lparr>tlspage := Some addr\<rparr>)"
    unfolding r(4,5) by (rule give_back [OF inv r(2) f assms(2) r(1) _ tls_slot_of [OF r(2)]]) simp
  moreover have "tlspage st' = Some addr" "tlsmask st' = tlsmask st OR run_mask i cb" by (simp_all add: r(5) give_def)
  ultimately show ?thesis using r(1,2,3,4) bit_run_mask [OF r(1)] by blast
qed

text \<open>For example: with one free slot left, four words are ``allocated''.\<close>

definition tls_full :: tls_state where
  "tls_full = give 24 7 (give 16 8 (give 8 8 (give 0 8 (tls_start\<lparr>tlspage := Some 0x70000000\<rparr>))))"

lemma tls_full_eq: "tls_full = \<lparr>tlspage = Some 0x70000000, tlsmask = 0x7FFFFFFF,
    tlsallocs = [8, 0, 0, 0, 0, 0, 0, 0, 8, 0, 0, 0, 0, 0, 0, 0, 8, 0, 0, 0, 0, 0, 0, 0, 7, 0, 0, 0, 0, 0, 0, 0]\<rparr>"
  by code_simp

lemma tls_full_inv: "tls_inv tls_full"
proof -
  have s: "tls_inv (tls_start\<lparr>tlspage := Some 0x70000000\<rparr>)" using tls_inv_start by (simp add: tls_inv_def)
  show ?thesis unfolding tls_full_def
    by (rule tls_inv_give, rule tls_inv_give, rule tls_inv_give, rule tls_inv_give, rule s) (code_simp; simp)+
qed

definition tls_done :: tls_state where
  "tls_done = \<lparr>tlspage = Some 0x70000000, tlsmask = 0xFFFFFFFF,
    tlsallocs = [8, 0, 0, 0, 0, 0, 0, 0, 8, 0, 0, 0, 0, 0, 0, 0, 8, 0, 0, 0, 0, 0, 0, 0, 7, 0, 0, 0, 0, 0, 0, 4]\<rparr>"

theorem DosAllocThreadLocalMemory_roundtrip_witness:
  "DosAllocThreadLocalMemory None True 4 True tls_full = Some ((NO_ERROR, Some 0x7000007C), tls_done) \<and>
    tls_inv tls_done \<and> DosFreeThreadLocalMemory 0x7000007C tls_done = Some (NO_ERROR, tls_full)"
proof -
  have r: "DosAllocThreadLocalMemory None True 4 True tls_full = Some ((NO_ERROR, Some 0x7000007C), tls_done)" by code_simp
  obtain page where p: "tls_inv tls_done" "tlspage tls_done = Some page"
      "DosFreeThreadLocalMemory 0x7000007C tls_done = Some (NO_ERROR, tls_full\<lparr>tlspage := Some page\<rparr>)"
    using DosAllocThreadLocalMemory_roundtrip [OF tls_full_inv _ r] by force
  have "page = 0x70000000" using p(2) by (simp add: tls_done_def)
  then have "tls_full\<lparr>tlspage := Some page\<rparr> = tls_full" by (simp add: tls_full_eq)
  then show ?thesis using r p by simp
qed

text \<open>An allocation of no words succeeds on an empty table, and aborts where slot 0 is in use.\<close>

lemma alloc_nothing: "tlspage st \<noteq> None \<Longrightarrow>
    DosAllocThreadLocalMemory mm ok 0 True st = None \<longleftrightarrow> tlsallocs st ! 0 \<noteq> 0"
proof -
  assume "tlspage st \<noteq> None"
  moreover have "slot_mask 0 = 0" by (simp add: bit_eq_iff bit_slot_mask)
  moreover have "tls_find (tlsmask st) 0 [0..<32] = Some (0, 0)" by (simp add: upt_conv_Cons del: upt_rec_numeral)
  ultimately show ?thesis by (auto simp: DosAllocThreadLocalMemory_def Let_def)
qed

subsection \<open>The access\<close>

text \<open>
  The fault handler: is the address in the page, and at which slot?  (A difference of pointers is
  signed.)
\<close>

definition segfault_slot :: "u32 option \<Rightarrow> u32 \<Rightarrow> int option" where
  "segfault_slot page addr =
    (case page of
       None \<Rightarrow> None
     | Some p \<Rightarrow>
         if p = 0 \<or> \<not> p \<le> addr then None
         else let slot = sint (addr - p) div 4 in if slot < 32 then Some slot else None)"

text \<open>
  Carrying out the instruction: \<open>code\<close> are the bytes at the program counter, \<open>regs\<close> the eight
  registers in the order of their numbers, \<open>tls\<close> the thread's words.  The result has the number of
  bytes the program counter moves; \<open>None\<close> is \<^verbatim>\<open>abort\<close> or an access outside an array.
\<close>

definition handleThreadLocalStorageAccess ::
  "int \<Rightarrow> bytes \<Rightarrow> u32 list \<Rightarrow> u32 list \<Rightarrow> (nat \<times> u32 list \<times> u32 list) option" where
  "handleThreadLocalStorageAccess slot code regs tls = do {
     guard (0 \<le> slot \<and> nat slot < length tls);
     opcode \<leftarrow> rd8 code 0;
     if opcode = 0xC7 then do { imm \<leftarrow> rd32 code 2; Some (6, regs, tls[nat slot := imm]) }
     else if opcode = 0x89 then do {
       modrm \<leftarrow> rd8 code 1;
       let r = unat (drop_bit 3 modrm);
       guard (r < length regs);
       Some (2, regs, tls[nat slot := regs ! r]) }
     else if opcode = 0x8B then do {
       modrm \<leftarrow> rd8 code 1;
       let r = unat (drop_bit 3 modrm);
       guard (r < length regs);
       Some (2, regs[r := tls ! nat slot], tls) }
     else None }"

text \<open>
  For a move through an address in a register (mode 0 of the operand byte) the register number is
  right; any other mode gives a number outside the array of registers.
\<close>

lemma tls_move:
  assumes "0 \<le> slot" "nat slot < length tls" "length regs = 8" "modrm = of_nat (md * 64 + reg * 8 + rm)"
    "reg < 8" "rm < 8" "md < 4"
  shows "handleThreadLocalStorageAccess slot (0x89 # modrm # rest) regs tls
      = (if md = 0 then Some (2, regs, tls[nat slot := regs ! reg]) else None)"
    "handleThreadLocalStorageAccess slot (0x8B # modrm # rest) regs tls
      = (if md = 0 then Some (2, regs[reg := tls ! nat slot], tls) else None)"
proof -
  have "md * 64 + reg * 8 + rm < 256" using assms(5-7) by linarith
  then have "unat modrm = md * 64 + reg * 8 + rm" by (simp add: assms(4) unat_of_nat del: of_nat_add of_nat_mult)
  then have u: "unat (drop_bit 3 modrm) = md * 8 + reg" using assms(6) by (simp add: unat_drop_bit_word)
  have "md * 8 + reg < 8 \<longleftrightarrow> md = 0" using assms(5) by auto
  then show "handleThreadLocalStorageAccess slot (0x89 # modrm # rest) regs tls
      = (if md = 0 then Some (2, regs, tls[nat slot := regs ! reg]) else None)"
    "handleThreadLocalStorageAccess slot (0x8B # modrm # rest) regs tls
      = (if md = 0 then Some (2, regs[reg := tls ! nat slot], tls) else None)"
    using assms(1-3,5) by (simp_all add: handleThreadLocalStorageAccess_def guard_def rd8_def u Let_def)
qed

text \<open>
  A wild access far above the page, for example to 0xF0000000 with the page at 0x50000000, is taken for
  one with a negative slot.
\<close>

lemma segfault_slot_negative: "segfault_slot (Some 0x50000000) 0xF0000000 = Some (- 402653184)"
  by code_simp

end
