(* ===== verification/DosSegs.thy ===== *)
theory DosSegs
  imports DosFiles Ldt
begin

section \<open>16-bit segments (\<^verbatim>\<open>native/doscalls.c\<close>)\<close>

text \<open>
  The segment calls of 16-bit programs over the loader's table of selectors.  A huge block is a run
  of selectors; the table \<^verbatim>\<open>huge_block_segs\<close> remembers its length at its first selector.
\<close>

record segs_state =
  seg_ldt :: ldt_state
  huge_block_segs :: "nat \<Rightarrow> u16"

type_synonym alloc_call = "int \<Rightarrow> ldt_state \<Rightarrow> ((u32 \<times> u16) option \<times> ldt_state) option"
type_synonym free_call = "u16 \<Rightarrow> ldt_state \<Rightarrow> (u32 option \<times> ldt_state) option"

text \<open>A selector as a program sees it: the index of the table with the bits for the LDT and ring 3.\<close>

definition Dos16AllocSeg :: "alloc_call \<Rightarrow> bool \<Rightarrow> u16 \<Rightarrow> segs_state \<Rightarrow> ((apiret \<times> u16 option) \<times> segs_state) option" where
  "Dos16AllocSeg allocSegment psel flags st =
    (if \<not> psel then Some ((ERROR_INVALID_PARAMETER, None), st)
     else if flags AND 0xFFF0 \<noteq> 0 then Some ((ERROR_INVALID_PARAMETER, None), st)
     else case allocSegment 0 (seg_ldt st) of
         None \<Rightarrow> None
       | Some (None, l) \<Rightarrow> Some ((ERROR_NOT_ENOUGH_MEMORY, None), st\<lparr>seg_ldt := l\<rparr>)
       | Some (Some (addr, sel), l) \<Rightarrow>
           if sel = 0xFFFF then None
           else Some ((NO_ERROR, Some (push_bit 3 sel OR 7)), st\<lparr>seg_ldt := l\<rparr>))"

fun free_run :: "free_call \<Rightarrow> u16 \<Rightarrow> nat list \<Rightarrow> ldt_state \<Rightarrow> ldt_state option" where
  "free_run freeSegment first [] l = Some l"
| "free_run freeSegment first (j # js) l =
    (case freeSegment (first + of_nat j) l of None \<Rightarrow> None | Some (_, l') \<Rightarrow> free_run freeSegment first js l')"

text \<open>
  The loop of \<open>Dos16AllocHuge\<close> from its turn \<open>i\<close>, with \<open>n\<close> turns left; the result is the first
  selector, or \<open>None\<close> after a failure that has released the segments it had.
\<close>

fun huge_loop :: "alloc_call \<Rightarrow> free_call \<Rightarrow> nat \<Rightarrow> nat \<Rightarrow> u16 \<Rightarrow> ldt_state \<Rightarrow> (u16 option \<times> ldt_state) option" where
  "huge_loop allocSegment freeSegment i 0 first l = Some (Some first, l)"
| "huge_loop allocSegment freeSegment i (Suc n) first l =
    (case allocSegment 0 l of
       None \<Rightarrow> None
     | Some (None, l1) \<Rightarrow>
         map_option (\<lambda>l2. (None, l2)) (if first \<noteq> 0xFFFF then free_run freeSegment first [0..<i] l1 else Some l1)
     | Some (Some (addr, sel), l1) \<Rightarrow>
         if i = 0 then huge_loop allocSegment freeSegment (Suc i) n sel l1
         else if sel \<noteq> first + of_nat i
         then (case freeSegment sel l1 of
             None \<Rightarrow> None
           | Some (_, l2) \<Rightarrow> map_option (\<lambda>l3. (None, l3)) (free_run freeSegment first [0..<i] l2))
         else huge_loop allocSegment freeSegment (Suc i) n first l1)"

definition Dos16AllocHuge ::
  "alloc_call \<Rightarrow> free_call \<Rightarrow> u16 \<Rightarrow> u16 \<Rightarrow> bool \<Rightarrow> u16 \<Rightarrow> segs_state \<Rightarrow> ((apiret \<times> u16 option) \<times> segs_state) option" where
  "Dos16AllocHuge allocSegment freeSegment numSeg sz psel flags st =
    (if \<not> psel then Some ((ERROR_INVALID_PARAMETER, None), st)
     else if flags AND 0xFFF0 \<noteq> 0 then Some ((ERROR_INVALID_PARAMETER, None), st)
     else let segs = unat numSeg + (if sz \<noteq> 0 then 1 else 0) in
       if segs = 0 then Some ((ERROR_INVALID_PARAMETER, None), st)
       else case huge_loop allocSegment freeSegment 0 segs 0xFFFF (seg_ldt st) of
           None \<Rightarrow> None
         | Some (None, l) \<Rightarrow> Some ((ERROR_NOT_ENOUGH_MEMORY, None), st\<lparr>seg_ldt := l\<rparr>)
         | Some (Some first, l) \<Rightarrow>
             if \<not> unat first < LX_MAX_LDT_SLOTS then None
             else Some ((NO_ERROR, Some (push_bit 3 first OR 7)),
               st\<lparr>seg_ldt := l, huge_block_segs := (huge_block_segs st)(unat first := of_nat segs)\<rparr>))"

definition Dos16ReallocSeg :: "u16 \<Rightarrow> u16 \<Rightarrow> segs_state \<Rightarrow> apiret \<times> segs_state" where
  "Dos16ReallocSeg sz sel st = (NO_ERROR, st)"

definition Dos16FreeSeg :: "free_call \<Rightarrow> u16 \<Rightarrow> segs_state \<Rightarrow> (apiret \<times> segs_state) option" where
  "Dos16FreeSeg freeSegment sel st =
    (let index = drop_bit 3 sel in
     if huge_block_segs st (unat index) \<noteq> 0
     then map_option (\<lambda>l. (NO_ERROR, st\<lparr>seg_ldt := l, huge_block_segs := (huge_block_segs st)(unat index := 0)\<rparr>))
       (free_run freeSegment index [0..<unat (huge_block_segs st (unat index))] (seg_ldt st))
     else map_option (\<lambda>r. (NO_ERROR, st\<lparr>seg_ldt := snd r\<rparr>)) (freeSegment index (seg_ldt st)))"

subsection \<open>Runs of selectors\<close>

text \<open>The slots from \<open>first\<close> on hold tiles that follow each other, starting at \<open>base\<close>.\<close>

definition run_at :: "u16 \<Rightarrow> nat \<Rightarrow> u32 \<Rightarrow> (nat \<Rightarrow> u32) \<Rightarrow> (nat \<Rightarrow> u32) \<Rightarrow> bool" where
  "run_at first n base t0 t \<longleftrightarrow> unat first + n \<le> LX_MAX_LDT_SLOTS \<and>
    (\<forall>i < n. t0 (unat first + i) = 0 \<and> t (unat first + i) = base + of_nat i * 0x10000 \<and> t (unat first + i) \<noteq> 0) \<and>
    (\<forall>k. k < unat first \<or> unat first + n \<le> k \<longrightarrow> t k = t0 k)"

lemma run_at_used:
  assumes "run_at first n base t0 t"
  shows "i < n \<Longrightarrow> t (unat first + i) \<noteq> 0" "unat first + n \<le> LX_MAX_LDT_SLOTS"
  using assms unfolding run_at_def by blast+

text \<open>What the segment calls rely on: allocating takes a free slot, freeing a used one empties it.\<close>

locale segment_provider =
  fixes inv :: "ldt_state \<Rightarrow> bool" and alloc :: alloc_call and free :: free_call
  assumes alloc_takes: "inv l \<Longrightarrow> alloc c l = Some (Some (a, sel), l') \<Longrightarrow>
      inv l' \<and> unat sel < LX_MAX_LDT_SLOTS \<and> ldt l (unat sel) = 0 \<and> a \<noteq> 0 \<and> a = baseaddr l \<and>
      ldt l' = (ldt l)(unat sel := a) \<and> baseaddr l' = baseaddr l + 0x10000"
    and alloc_fails: "inv l \<Longrightarrow> alloc c l = Some (None, l') \<Longrightarrow> inv l' \<and> ldt l' = ldt l"
    and free_empties: "inv l \<Longrightarrow> unat sel < LX_MAX_LDT_SLOTS \<Longrightarrow> ldt l (unat sel) \<noteq> 0 \<Longrightarrow>
      \<exists>a l'. free sel l = Some (a, l') \<and> inv l' \<and> ldt l' = (ldt l)(unat sel := 0)"
begin

lemma sel_index: "unat first + i < LX_MAX_LDT_SLOTS \<Longrightarrow> unat (first + of_nat i) = unat first + i" for first :: u16
  by (simp add: LX_MAX_LDT_SLOTS_def unat_word_ariths unat_of_nat)

lemma free_run_undoes:
  assumes "inv l" "unat first + n \<le> LX_MAX_LDT_SLOTS" "\<And>i. m \<le> i \<Longrightarrow> i < n \<Longrightarrow> ldt l (unat first + i) \<noteq> 0" "m \<le> n"
  shows "\<exists>l'. free_run free first [m..<n] l = Some l' \<and> inv l' \<and>
    ldt l' = (\<lambda>k. if unat first + m \<le> k \<and> k < unat first + n then 0 else ldt l k)"
  using assms
proof (induction "n - m" arbitrary: m l)
  case 0
  then show ?case by (auto intro!: ext)
next
  case (Suc d)
  then have mn: "m < n" by simp
  have u: "unat (first + of_nat m) = unat first + m" using Suc.prems(2) mn by (intro sel_index) simp
  obtain a l1 where f: "free (first + of_nat m) l = Some (a, l1)" "inv l1" "ldt l1 = (ldt l)(unat first + m := 0)"
    using free_empties [OF Suc.prems(1), of "first + of_nat m"] Suc.prems(2,3) mn by (auto simp: u)
  have "d = n - Suc m" "Suc m \<le> n" using Suc.hyps(2) by simp_all
  from Suc.hyps(1) [OF this(1) f(2) Suc.prems(2) _ this(2)] obtain l2 where
    l2: "free_run free first [Suc m..<n] l1 = Some l2" "inv l2"
      "ldt l2 = (\<lambda>k. if unat first + Suc m \<le> k \<and> k < unat first + n then 0 else ldt l1 k)"
    using Suc.prems(3) f(3) by auto
  have "ldt l2 = (\<lambda>k. if unat first + m \<le> k \<and> k < unat first + n then 0 else ldt l k)"
    using l2(3) f(3) mn by (auto intro!: ext)
  then show ?case using l2(1,2) f(1) mn by (simp add: upt_conv_Cons)
qed

lemma free_run_restores:
  assumes "inv l" "run_at first n base t0 (ldt l)"
  shows "\<exists>l'. free_run free first [0..<n] l = Some l' \<and> inv l' \<and> ldt l' = t0"
proof -
  obtain l' where l': "free_run free first [0..<n] l = Some l'" "inv l'"
      "ldt l' = (\<lambda>k. if unat first + 0 \<le> k \<and> k < unat first + n then 0 else ldt l k)"
    using free_run_undoes [OF assms(1) run_at_used(2) [OF assms(2)], of 0] run_at_used(1) [OF assms(2)] by blast
  have "ldt l' k = t0 k" for k
  proof (cases "unat first \<le> k \<and> k < unat first + n")
    case True
    then obtain i where "k = unat first + i" "i < n" by (metis add_less_cancel_left le_iff_add)
    then show ?thesis using assms(2) l'(3) by (simp add: run_at_def)
  next
    case False
    then show ?thesis using assms(2) l'(3) by (auto simp: run_at_def)
  qed
  then show ?thesis using l' by blast
qed

lemma run_at_extend:
  assumes "run_at first i base t0 t" "t (unat first + i) = 0" "unat first + i < LX_MAX_LDT_SLOTS" "base + of_nat i * 0x10000 \<noteq> 0"
  shows "run_at first (Suc i) base t0 (t(unat first + i := base + of_nat i * 0x10000))"
  using assms by (auto simp: run_at_def less_Suc_eq)

text \<open>The loop after its first turn.\<close>

lemma huge_loop_all_or_nothing:
  assumes "inv l" "run_at first i base t0 (ldt l)" "0 < i" "baseaddr l = base + of_nat i * 0x10000"
    "huge_loop alloc free i n first l = Some (r, l')"
  shows "inv l' \<and> (case r of None \<Rightarrow> ldt l' = t0 | Some f \<Rightarrow> f = first \<and> run_at first (i + n) base t0 (ldt l'))"
  using assms
proof (induction n arbitrary: i l)
  case 0
  then show ?case by auto
next
  case (Suc n)
  have fu: "unat first + i \<le> LX_MAX_LDT_SLOTS" using Suc.prems(2) by (simp add: run_at_def)
  then have ff: "first \<noteq> 0xFFFF" using Suc.prems(3) by (auto simp: LX_MAX_LDT_SLOTS_def)
  consider l1 where "alloc 0 l = Some (None, l1)" | a sel l1 where "alloc 0 l = Some (Some (a, sel), l1)"
    using Suc.prems(5) by (auto split: option.splits)
  then show ?case
  proof cases
    case 1
    have l1: "inv l1" "ldt l1 = ldt l" using alloc_fails [OF Suc.prems(1) 1] by simp_all
    then obtain l2 where "free_run free first [0..<i] l1 = Some l2" "inv l2" "ldt l2 = t0"
      using free_run_restores [of l1 first i base t0] Suc.prems(2) by auto
    then show ?thesis using Suc.prems(5) 1 ff by auto
  next
    case 2
    have a: "inv l1" "unat sel < LX_MAX_LDT_SLOTS" "ldt l (unat sel) = 0" "a \<noteq> 0" "a = baseaddr l"
        "ldt l1 = (ldt l)(unat sel := a)" "baseaddr l1 = baseaddr l + 0x10000"
      using alloc_takes [OF Suc.prems(1) 2] by blast+
    show ?thesis
    proof (cases "sel = first + of_nat i")
      case False
      obtain b l2 where l2: "free sel l1 = Some (b, l2)" "inv l2" "ldt l2 = ldt l"
        using free_empties [OF a(1,2)] a(3,4,6) fun_upd_idem [of "ldt l", OF a(3)] by auto
      then obtain l3 where "free_run free first [0..<i] l2 = Some l3" "inv l3" "ldt l3 = t0"
        using free_run_restores [of l2 first i base t0] Suc.prems(2) by auto
      then show ?thesis using Suc.prems(3,5) 2 l2 False by auto
    next
      case True
      have "unat sel = unat first + i"
      proof (cases "unat first + i < LX_MAX_LDT_SLOTS")
        case True
        then show ?thesis using \<open>sel = first + of_nat i\<close> by (simp add: sel_index)
      next
        case False
        then have "unat first + i = 8192" using fu by (simp add: LX_MAX_LDT_SLOTS_def)
        then have "unat (first + of_nat i) = 8192" by (simp add: unat_word_ariths unat_of_nat)
        then show ?thesis using a(2) \<open>sel = first + of_nat i\<close> by (simp add: LX_MAX_LDT_SLOTS_def)
      qed
      then have r: "run_at first (Suc i) base t0 (ldt l1)" "baseaddr l1 = base + of_nat (Suc i) * 0x10000"
        using run_at_extend [OF Suc.prems(2)] a Suc.prems(4) by (simp_all add: algebra_simps)
      have "huge_loop alloc free (Suc i) n first l1 = Some (r, l')" using Suc.prems(3,5) 2 True by simp
      from Suc.IH [OF a(1) r(1) _ r(2) this] show ?thesis by (cases r) simp_all
    qed
  qed
qed

lemma huge_loop_start:
  assumes "inv l" "huge_loop alloc free 0 n 0xFFFF l = Some (r, l')" "0 < n"
  shows "inv l' \<and> (case r of None \<Rightarrow> ldt l' = ldt l | Some f \<Rightarrow> run_at f n (baseaddr l) (ldt l) (ldt l'))"
proof -
  obtain m where n: "n = Suc m" using assms(3) by (cases n) auto
  consider l1 where "alloc 0 l = Some (None, l1)" | a sel l1 where "alloc 0 l = Some (Some (a, sel), l1)"
    using assms(2) by (auto simp: n split: option.splits)
  then show ?thesis
  proof cases
    case 1
    then show ?thesis using assms(2) alloc_fails [OF assms(1) 1] by (auto simp: n)
  next
    case 2
    have a: "inv l1" "unat sel < LX_MAX_LDT_SLOTS" "ldt l (unat sel) = 0" "a \<noteq> 0" "a = baseaddr l"
        "ldt l1 = (ldt l)(unat sel := a)" "baseaddr l1 = baseaddr l + 0x10000"
      using alloc_takes [OF assms(1) 2] by blast+
    have r: "run_at sel 1 (baseaddr l) (ldt l) (ldt l1)" using a by (auto simp: run_at_def)
    have h: "huge_loop alloc free 1 m sel l1 = Some (r, l')" using assms(2) 2 by (simp add: n)
    have b: "baseaddr l1 = baseaddr l + of_nat 1 * 0x10000" using a(7) by simp
    from huge_loop_all_or_nothing [OF a(1) r zero_less_one b h] show ?thesis by (auto simp: n split: option.splits)
  qed
qed

end

text \<open>
  The loader provides this, where the kernel accepts every descriptor and the memory from the next
  free address on is in no tile yet.
\<close>

definition fresh_tiles :: "ldt_state \<Rightarrow> bool" where
  "fresh_tiles l \<longleftrightarrow> (\<forall>i. ldt l i \<noteq> 0 \<longrightarrow> unat (ldt l i) < unat (baseaddr l))"

definition segs_inv :: "(u32 \<Rightarrow> u32 option) \<Rightarrow> ldt_state \<Rightarrow> bool" where
  "segs_inv mm l \<longleftrightarrow> ldt_inv l \<and> aligned64k (baseaddr l) \<and> 4096 \<le> baseaddr l \<and>
    fresh_tiles l \<and> (\<forall>a b. mm a = Some b \<longrightarrow> unat a + 65536 < 4294967296)"

lemma aligned_gap: "aligned64k t \<Longrightarrow> aligned64k a \<Longrightarrow> unat t < unat a \<Longrightarrow> unat t + 65536 \<le> unat a"
proof -
  assume "aligned64k t" "aligned64k a" and l: "unat t < unat a"
  then have "unat t mod 65536 = 0" "unat a mod 65536 = 0"
    by (simp_all add: aligned64k_def word_unat_eq_iff unat_mod64k)
  then obtain p q where "unat t = 65536 * p" "unat a = 65536 * q" by (metis dvdE mod_eq_0_iff_dvd)
  with l show ?thesis by simp
qed

lemma segs_inv_gap: "segs_inv mm l \<Longrightarrow> ldt l k \<noteq> 0 \<Longrightarrow> unat (ldt l k) + 65536 \<le> unat (baseaddr l)"
  by (rule aligned_gap) (simp_all add: segs_inv_def ldt_inv_def fresh_tiles_def)

lemma alloc_made:
  assumes "segs_inv mm l" "lxFindSelector sys mods (baseaddr l) c (l\<lparr>baseaddr := b\<rparr>) = Some (Some (sel, off), l')"
  shows "unat sel < LX_MAX_LDT_SLOTS" "ldt l (unat sel) = 0" "ldt l' = (ldt l)(unat sel := baseaddr l)" "baseaddr l' = b"
proof -
  have "unat sel < LX_MAX_LDT_SLOTS \<and> ldt l (unat sel) = 0 \<and> ldt l' = (ldt l)(unat sel := baseaddr l) \<and> baseaddr l' = b"
    using assms(2)
  proof (cases rule: lxFindSelector_cases)
    case found
    then have "unat (baseaddr l) < unat (ldt l (unat sel)) + 65536" using tile_covers_unat by auto
    then show ?thesis using segs_inv_gap [OF assms(1), of "unat sel"] found(3) by simp
  next
    case (made contents)
    have "baseaddr l - baseaddr l mod 0x10000 = baseaddr l" using assms(1) by (simp add: segs_inv_def aligned64k_def)
    then show ?thesis using allocateSelector_cases(1,3) [OF made(2)] by simp
  qed
  then show "unat sel < LX_MAX_LDT_SLOTS" "ldt l (unat sel) = 0" "ldt l' = (ldt l)(unat sel := baseaddr l)" "baseaddr l' = b"
    by simp_all
qed

lemma segs_inv_alloc:
  assumes "segs_inv mm l" "unat (baseaddr l) + 65536 < 4294967296" "ldt_inv l'"
    "ldt l' = (ldt l)(k := baseaddr l)" "baseaddr l' = baseaddr l + 0x10000"
  shows "segs_inv mm l'"
proof -
  have nb: "unat (baseaddr l') = unat (baseaddr l) + 65536" using assms(2,5) by (simp add: unat_word_ariths)
  have al: "unat (baseaddr l) mod 65536 = 0" "4096 \<le> unat (baseaddr l)"
    using assms(1) by (simp_all add: segs_inv_def aligned64k_def word_unat_eq_iff unat_mod64k word_le_nat_alt)
  have "aligned64k (baseaddr l')" "4096 \<le> baseaddr l'"
    using al nb by (simp_all add: aligned64k_def word_unat_eq_iff unat_mod64k word_le_nat_alt)
  moreover have "fresh_tiles l'" unfolding fresh_tiles_def
  proof (intro allI impI)
    fix j
    assume "ldt l' j \<noteq> 0"
    then show "unat (ldt l' j) < unat (baseaddr l')"
      using segs_inv_gap [OF assms(1), of j] nb assms(4) by (cases "j = k") simp_all
  qed
  moreover have "\<forall>a b. mm a = Some b \<longrightarrow> unat a + 65536 < 4294967296" using assms(1) unfolding segs_inv_def by blast
  ultimately show ?thesis using assms(3) unfolding segs_inv_def by blast
qed

lemma lxAllocSegment_parts:
  assumes "lxAllocSegment sys mm mods c l = Some (Some (a, sel), l')"
  shows "a = baseaddr l \<and> mm a = Some a \<and>
    (\<exists>off. lxFindSelector sys mods (baseaddr l) c (l\<lparr>baseaddr := baseaddr l + 0x10000\<rparr>) = Some (Some (sel, off), l'))"
  using assms by (auto simp: lxAllocSegment_def Let_def split: option.splits if_splits prod.splits)

interpretation loader_segs: segment_provider "segs_inv mm" "lxAllocSegment (\<lambda>_. True) mm mods" "lxFreeSegment (\<lambda>_. True)"
  for mm mods
proof
  fix l c a sel l'
  assume inv: "segs_inv mm l" and al: "lxAllocSegment (\<lambda>_. True) mm mods c l = Some (Some (a, sel), l')"
  obtain off where ab: "a = baseaddr l" "mm a = Some a"
    and f: "lxFindSelector (\<lambda>_. True) mods (baseaddr l) c (l\<lparr>baseaddr := baseaddr l + 0x10000\<rparr>) = Some (Some (sel, off), l')"
    using lxAllocSegment_parts [OF al] by blast
  have b: "unat (baseaddr l) + 65536 < 4294967296" using inv ab unfolding segs_inv_def by blast
  have "ldt_inv (l\<lparr>baseaddr := baseaddr l + 0x10000\<rparr>)" using inv by (simp add: segs_inv_def ldt_inv_def)
  note i' = lxFindSelector_inv [OF f this]
  note m = alloc_made [OF inv f]
  have "baseaddr l \<noteq> 0" using inv by (auto simp: segs_inv_def)
  then show "segs_inv mm l' \<and> unat sel < LX_MAX_LDT_SLOTS \<and> ldt l (unat sel) = 0 \<and> a \<noteq> 0 \<and> a = baseaddr l \<and>
      ldt l' = (ldt l)(unat sel := a) \<and> baseaddr l' = baseaddr l + 0x10000"
    using segs_inv_alloc [OF inv b i' m(3,4)] m ab(1) by simp
next
  fix l c l'
  assume inv: "segs_inv mm l" and al: "lxAllocSegment (\<lambda>_. True) mm mods c l = Some (None, l')"
  have "l' = l" using al by (simp add: lxAllocSegment_def Let_def split: option.splits if_splits prod.splits)
  then show "segs_inv mm l' \<and> ldt l' = ldt l" using inv by simp
next
  fix l and sel :: u16
  assume inv: "segs_inv mm l" and s: "unat sel < LX_MAX_LDT_SLOTS" "ldt l (unat sel) \<noteq> 0"
  obtain l' where l': "lxFreeSelector (\<lambda>_. True) sel l = Some l'" "ldt l' = (ldt l)(unat sel := 0)" "baseaddr l' = baseaddr l"
    using s by (auto simp: lxFreeSelector_def)
  have "ldt_inv l'" using lxFreeSelector_inv [OF l'(1)] inv by (simp add: segs_inv_def)
  then have "segs_inv mm l'" using inv l'(2,3) by (simp add: segs_inv_def fresh_tiles_def)
  then show "\<exists>a l'. lxFreeSegment (\<lambda>_. True) sel l = Some (a, l') \<and> segs_inv mm l' \<and> ldt l' = (ldt l)(unat sel := 0)"
    using s l' by (simp add: lxFreeSegment_def)
qed

lemma selector_index: "unat sel < LX_MAX_LDT_SLOTS \<Longrightarrow> drop_bit 3 (push_bit 3 sel OR 7) = (sel :: u16)"
proof -
  assume s: "unat sel < LX_MAX_LDT_SLOTS"
  have "bit (drop_bit 3 (lxSelectorToSegment sel)) n = bit sel n" for n
    using sel_bits [of sel n] s by (auto simp: bit_drop_bit_eq bit_segment LX_MAX_LDT_SLOTS_def)
  then show ?thesis by (simp add: lxSelectorToSegment_def bit_eq_iff)
qed

lemma huge_parts:
  assumes "Dos16AllocHuge al fr numSeg sz True flags st = Some ((rc, out), st')" "flags AND 0xFFF0 = 0"
    "segs = unat numSeg + (if sz \<noteq> 0 then 1 else 0)"
  obtains (none) "segs = 0" "rc = ERROR_INVALID_PARAMETER" "out = None" "st' = st"
    | (failed) l where "huge_loop al fr 0 segs 0xFFFF (seg_ldt st) = Some (None, l)" "0 < segs"
        "rc = ERROR_NOT_ENOUGH_MEMORY" "out = None" "st' = st\<lparr>seg_ldt := l\<rparr>"
    | (ok) l first where "huge_loop al fr 0 segs 0xFFFF (seg_ldt st) = Some (Some first, l)" "0 < segs"
        "unat first < LX_MAX_LDT_SLOTS" "rc = NO_ERROR" "out = Some (push_bit 3 first OR 7)"
        "st' = st\<lparr>seg_ldt := l, huge_block_segs := (huge_block_segs st)(unat first := of_nat segs)\<rparr>"
  using assms(1) unfolding Dos16AllocHuge_def assms(3) [symmetric] Let_def
  by (auto simp: assms(2) split: if_splits option.splits)

text \<open>
  C32.  A huge block of 16-bit segments is all or nothing.  Where the memory from the next free
  address on is in no tile, a failed call leaves the table of selectors as it was; a successful one
  returns the selector of a run of consecutive slots that were free and now hold consecutive 64k tiles,
  and freeing that selector gives exactly these slots back.
\<close>

theorem Dos16AllocHuge_all_or_nothing:
  assumes "segs_inv mm (seg_ldt st)" "flags AND 0xFFF0 = 0" "segs = unat numSeg + (if sz \<noteq> 0 then 1 else 0)"
    "Dos16AllocHuge (lxAllocSegment (\<lambda>_. True) mm mods) (lxFreeSegment (\<lambda>_. True)) numSeg sz True flags st = Some ((rc, out), st')"
  shows "case out of
      None \<Rightarrow> rc \<noteq> NO_ERROR \<and> ldt (seg_ldt st') = ldt (seg_ldt st) \<and> huge_block_segs st' = huge_block_segs st
    | Some s \<Rightarrow> rc = NO_ERROR \<and> run_at (drop_bit 3 s) segs (baseaddr (seg_ldt st)) (ldt (seg_ldt st)) (ldt (seg_ldt st')) \<and>
        (\<exists>st''. Dos16FreeSeg (lxFreeSegment (\<lambda>_. True)) s st' = Some (NO_ERROR, st'') \<and> ldt (seg_ldt st'') = ldt (seg_ldt st) \<and>
          huge_block_segs st'' = (huge_block_segs st)(unat (drop_bit 3 s) := 0))"
  using assms(4,2,3)
proof (cases rule: huge_parts)
  case none
  then show ?thesis by simp
next
  case (failed l)
  from loader_segs.huge_loop_start [OF assms(1) failed(1,2)] failed show ?thesis by simp
next
  case (ok l first)
  from loader_segs.huge_loop_start [OF assms(1) ok(1,2)]
  have r: "segs_inv mm l" "run_at first segs (baseaddr (seg_ldt st)) (ldt (seg_ldt st)) (ldt l)" by simp_all
  obtain l' where l': "free_run (lxFreeSegment (\<lambda>_. True)) first [0..<segs] l = Some l'" "ldt l' = ldt (seg_ldt st)"
    using loader_segs.free_run_restores [OF r] by blast
  have "segs \<le> 8192" using run_at_used(2) [OF r(2)] by (simp add: LX_MAX_LDT_SLOTS_def)
  then have n: "unat (of_nat segs :: u16) = segs" by (simp add: unat_of_nat)
  then have "(of_nat segs :: u16) \<noteq> 0" using ok(2) by auto
  moreover define s where "s = push_bit 3 first OR 7"
  moreover have d: "drop_bit 3 s = first" unfolding s_def by (rule selector_index [OF ok(3)])
  ultimately have "Dos16FreeSeg (lxFreeSegment (\<lambda>_. True)) s st'
      = Some (NO_ERROR, st'\<lparr>seg_ldt := l', huge_block_segs := (huge_block_segs st)(unat first := 0)\<rparr>)"
    using l'(1) by (simp add: Dos16FreeSeg_def ok(6) n)
  then show ?thesis using r(2) l'(2) ok(4,6) by (simp add: ok(5) d flip: s_def)
qed

definition segs_start :: segs_state where
  "segs_start = \<lparr>seg_ldt = \<lparr>ldt = (\<lambda>_. 0), hw = (\<lambda>_. None), baseaddr = 0x20000\<rparr>, huge_block_segs = (\<lambda>_. 0)\<rparr>"

definition low_mmap :: "u32 \<Rightarrow> u32 option" where
  "low_mmap a = (if a = 0x20000 then Some a else None)"

lemma segs_start_inv: "segs_inv low_mmap (seg_ldt segs_start)"
  by (simp add: segs_inv_def segs_start_def ldt_inv_def fresh_tiles_def low_mmap_def aligned64k_def)

theorem Dos16AllocHuge_all_or_nothing_witness:
  "\<exists>st' st''. Dos16AllocHuge (lxAllocSegment (\<lambda>_. True) low_mmap []) (lxFreeSegment (\<lambda>_. True)) 0 100 True 0 segs_start
      = Some ((NO_ERROR, Some 0x17), st') \<and> ldt (seg_ldt st') 2 = 0x20000 \<and>
    Dos16FreeSeg (lxFreeSegment (\<lambda>_. True)) 0x17 st' = Some (NO_ERROR, st'') \<and> ldt (seg_ldt st'') = (\<lambda>_. 0)"
proof -
  let ?l = "(seg_ldt segs_start)\<lparr>baseaddr := 0x30000\<rparr>"
  obtain l' where "lxFindSelector (\<lambda>_. True) [] 0x20000 0 ?l = Some (Some (ucast (drop_bit 16 (0x20000 :: u32)), ucast ((0x20000 :: u32) mod 0x10000)), l')"
    using lxFindSelector_empty [of "0x20000" "\<lambda>_. True" ?l "[]" 0] by (auto simp: segs_start_def)
  then have "lxFindSelector (\<lambda>_. True) [] 0x20000 0 ?l = Some (Some (2, 0), l')" by simp
  then have "lxAllocSegment (\<lambda>_. True) low_mmap [] 0 (seg_ldt segs_start) = Some (Some (0x20000, 2), l')"
    by (simp add: lxAllocSegment_def low_mmap_def segs_start_def)
  then have r: "Dos16AllocHuge (lxAllocSegment (\<lambda>_. True) low_mmap []) (lxFreeSegment (\<lambda>_. True)) 0 100 True 0 segs_start
      = Some ((NO_ERROR, Some 0x17), segs_start\<lparr>seg_ldt := l', huge_block_segs := (huge_block_segs segs_start)(2 := 1)\<rparr>)"
    by (simp add: Dos16AllocHuge_def LX_MAX_LDT_SLOTS_def Let_def)
  from Dos16AllocHuge_all_or_nothing [OF segs_start_inv _ _ r, of 1]
  show ?thesis using r by (auto simp: run_at_def segs_start_def)
qed

end
