(* ===== verification/Paths.thy ===== *)
theory Paths
  imports DosFiles
begin

section \<open>Paths (\<^verbatim>\<open>lx_loader.c\<close>)\<close>

text \<open>
  OS/2 paths have drive letters and backslashes, and their case does not matter; each drive is mounted
  at a Unix directory and has a current directory.  Strings are lists of bytes without the final NUL.
  The file system is a parameter: which paths can be accessed, and the names in a directory
  (\<open>None\<close> where \<^verbatim>\<open>opendir\<close> fails).
\<close>

definition SLASH :: u8 where "SLASH = 0x2F"
definition BSLASH :: u8 where "BSLASH = 0x5C"
definition COLON :: u8 where "COLON = 0x3A"

definition str :: "string \<Rightarrow> bytes" where
  "str s = map (of_nat \<circ> of_char) s"

record fs =
  fs_access :: "bytes \<Rightarrow> bool"
  fs_readdir :: "bytes \<Rightarrow> bytes list option"

record drives =
  disks :: "nat \<Rightarrow> bytes option"
  current_dir :: "nat \<Rightarrow> bytes option"
  current_disk :: nat
  diskmap :: u32

definition upper8 :: "u8 \<Rightarrow> u8" where
  "upper8 c = (if 0x61 \<le> c \<and> c \<le> 0x7A then c - 0x20 else c)"

definition lower8 :: "u8 \<Rightarrow> u8" where
  "lower8 c = (if 0x41 \<le> c \<and> c \<le> 0x5A then c + 0x20 else c)"

definition strcasecmp_eq :: "bytes \<Rightarrow> bytes \<Rightarrow> bool" where
  "strcasecmp_eq a b \<longleftrightarrow> map lower8 a = map lower8 b"

text \<open>Replacing every \<open>xx\<close> by \<open>x\<close>, from the left: the loop over \<^verbatim>\<open>strstr\<close> and \<^verbatim>\<open>memmove\<close>.\<close>

fun squeeze :: "u8 \<Rightarrow> bytes \<Rightarrow> bytes" where
  "squeeze x (a # b # r) = (if a = x \<and> b = x then squeeze x (b # r) else a # squeeze x (b # r))"
| "squeeze x r = r"

subsection \<open>From a Unix path\<close>

definition makeOS2Path :: "(bytes \<Rightarrow> bytes option) \<Rightarrow> bool \<Rightarrow> bytes \<Rightarrow> bytes option" where
  "makeOS2Path realpath mem_ok fname =
    (case realpath fname of
       None \<Rightarrow> None
     | Some full \<Rightarrow>
         if \<not> mem_ok then None
         else Some (str ''C:'' @ map (\<lambda>c. if c = SLASH then BSLASH else c) full))"

subsection \<open>Finding a file whatever its case\<close>

text \<open>The index of the last slash, if any.\<close>

fun last_slash :: "bytes \<Rightarrow> nat option" where
  "last_slash [] = None"
| "last_slash (c # cs) = (case last_slash cs of Some i \<Rightarrow> Some (Suc i) | None \<Rightarrow> if c = SLASH then Some 0 else None)"

text \<open>
  The last element of a path: the directory that is read, the part of the path that is kept, and the
  name that is compared (for a path whose only slash is its first byte this includes the slash).
  \<open>readdir\<close> of a directory that could not be opened is a fault.
\<close>

definition locateOneElement :: "fs \<Rightarrow> bytes \<Rightarrow> (bool \<times> bytes) option" where
  "locateOneElement f buf =
    (if fs_access f buf then Some (True, buf)
     else let (dir, kept, name) =
         (case last_slash buf of
            None \<Rightarrow> (str ''.'', [], buf)
          | Some 0 \<Rightarrow> (str ''/'', [], buf)
          | Some k \<Rightarrow> (take k buf, take (Suc k) buf, drop (Suc k) buf))
       in case fs_readdir f dir of
         None \<Rightarrow> None
       | Some names \<Rightarrow>
           (case find (\<lambda>d. strcasecmp_eq d name) names of
              Some d \<Rightarrow> Some (True, kept @ d)
            | None \<Rightarrow> Some (False, buf)))"

fun locate_prefixes :: "fs \<Rightarrow> bytes \<Rightarrow> nat list \<Rightarrow> (int \<times> bytes) option" where
  "locate_prefixes f buf [] =
    (case locateOneElement f buf of None \<Rightarrow> None | Some (ok, buf') \<Rightarrow> Some (if ok then 0 else -1, buf'))"
| "locate_prefixes f buf (i # is) =
    (if buf ! i \<noteq> SLASH then locate_prefixes f buf is
     else case locateOneElement f (take i buf) of
         None \<Rightarrow> None
       | Some (ok, pre) \<Rightarrow> if \<not> ok then Some (-2, pre @ drop i buf) else locate_prefixes f (pre @ drop i buf) is)"

definition locatePathCaseInsensitive :: "fs \<Rightarrow> bytes \<Rightarrow> (int \<times> bytes) option" where
  "locatePathCaseInsensitive f buf =
    (if buf = [] then Some (0, buf)
     else if fs_access f buf then Some (0, buf)
     else locate_prefixes f buf [1..<length buf])"

subsection \<open>To a Unix path\<close>

definition drive_of :: "drives \<Rightarrow> bytes \<Rightarrow> int \<times> bytes" where
  "drive_of dr p =
    (let d = (case p of [] \<Rightarrow> 0 | c # _ \<Rightarrow> upper8 c) in
     if 0x41 \<le> d \<and> d \<le> 0x5A \<and> 1 < length p \<and> p ! 1 = COLON
     then (int (unat d) - 0x41, drop 2 p)
     else (int (current_disk dr) - 1, p))"

text \<open>An index into the 26 drives; any other is a fault.\<close>

definition at_drive :: "(nat \<Rightarrow> 'a) \<Rightarrow> int \<Rightarrow> 'a option" where
  "at_drive t i = (if 0 \<le> i \<and> i < 26 then Some (t (nat i)) else None)"

definition unix_text :: "bytes option \<Rightarrow> bytes option \<Rightarrow> bytes \<Rightarrow> bytes" where
  "unix_text mountpoint cwd p =
    squeeze SLASH (map (\<lambda>c. if c = BSLASH then SLASH else c)
      ((case mountpoint of Some m \<Rightarrow> m | None \<Rightarrow> []) @ (case cwd of Some d \<Rightarrow> SLASH # d | None \<Rightarrow> []) @
       (if p = [] \<or> hd p = SLASH then [] else [SLASH]) @ p))"

definition lxMakeUnixPath :: "fs \<Rightarrow> bool \<Rightarrow> drives \<Rightarrow> bytes \<Rightarrow> (apiret + bytes) option" where
  "lxMakeUnixPath f mem_ok dr os2path = do {
     (mountpoint, cwd, p) \<leftarrow>
       (if strcasecmp_eq os2path (str ''NUL'') \<or> strcasecmp_eq os2path (BSLASH # str ''DEV'' @ BSLASH # str ''NUL'')
        then Some (Some None, None, str ''/dev/null'')
        else let (idx, p) = drive_of dr os2path in do {
          m \<leftarrow> at_drive (disks dr) idx;
          case m of
            None \<Rightarrow> Some (None, None, p)
          | Some mt \<Rightarrow>
              if p \<noteq> [] \<and> hd p = BSLASH then Some (Some (Some mt), None, p)
              else do { d \<leftarrow> at_drive (current_dir dr) idx; Some (Some (Some mt), d, p) } });
     case mountpoint of
       None \<Rightarrow> Some (Inl ERROR_NOT_DOS_DISK)
     | Some m \<Rightarrow>
         if \<not> mem_ok then Some (Inl ERROR_NOT_ENOUGH_MEMORY)
         else map_option (\<lambda>(rc, buf). Inr buf) (locatePathCaseInsensitive f (unix_text m cwd p)) }"

subsection \<open>What the search promises\<close>

lemma last_slash_Some: "last_slash s = Some k \<Longrightarrow> k < length s \<and> s ! k = SLASH"
  by (induction s arbitrary: k) (auto split: option.splits if_splits)

lemma take_kept: "k < length s \<Longrightarrow> s ! k = c \<Longrightarrow> take (Suc k) s = take k s @ [c]"
  by (simp add: take_Suc_conv_app_nth)

text \<open>A directory's names can be accessed in it.\<close>

definition fs_ok :: "fs \<Rightarrow> bool" where
  "fs_ok f \<longleftrightarrow> (\<forall>dir names d. fs_readdir f dir = Some names \<and> d \<in> set names \<longrightarrow>
      fs_access f (dir @ SLASH # d) \<and> (dir = str ''.'' \<longrightarrow> fs_access f d) \<and> SLASH \<notin> set d)"

lemma lower8_slash: "lower8 c = SLASH \<longleftrightarrow> c = SLASH"
proof -
  have "c + 0x20 \<noteq> 0x2F" if "0x41 \<le> c" "c \<le> 0x5A"
  proof -
    have "unat (c + 0x20) = unat c + 32" using that by (simp add: word_le_nat_alt unat_word_ariths)
    then show ?thesis using that(1) by (auto simp: word_le_nat_alt)
  qed
  then show ?thesis by (auto simp: lower8_def SLASH_def)
qed

lemma strcasecmp_slash: "strcasecmp_eq a b \<Longrightarrow> SLASH \<in> set b \<Longrightarrow> SLASH \<in> set a"
proof -
  assume "strcasecmp_eq a b" and b: "SLASH \<in> set b"
  then have "set (map lower8 a) = set (map lower8 b)" by (simp only: strcasecmp_eq_def)
  moreover have "SLASH \<in> set (map lower8 b)" using b lower8_slash [of SLASH] by (force simp: image_iff)
  ultimately have "SLASH \<in> lower8 ` set a" by simp
  then show ?thesis using lower8_slash by (metis imageE)
qed

lemma locateOneElement_finds:
  assumes "fs_ok f" "locateOneElement f buf = Some (ok, buf')"
  shows "map lower8 buf' = map lower8 buf" "ok \<Longrightarrow> fs_access f buf'" "\<not> ok \<Longrightarrow> buf' = buf"
proof -
  have "map lower8 buf' = map lower8 buf \<and> (if ok then fs_access f buf' else buf' = buf)"
  proof (cases "fs_access f buf")
    case True
    then show ?thesis using assms(2) by (auto simp: locateOneElement_def)
  next
    case False
    obtain dir kept name where p: "(case last_slash buf of
            None \<Rightarrow> (str ''.'', [], buf)
          | Some 0 \<Rightarrow> (str ''/'', [], buf)
          | Some k \<Rightarrow> (take k buf, take (Suc k) buf, drop (Suc k) buf)) = (dir, kept, name)"
      by (rule prod_cases3)
    obtain names where n: "fs_readdir f dir = Some names"
      using assms(2) False by (auto simp: locateOneElement_def p split: option.splits)
    have kn: "kept @ name = buf" using p by (cases "last_slash buf") (auto split: nat.splits)
    show ?thesis
    proof (cases "find (\<lambda>d. strcasecmp_eq d name) names")
      case None
      then show ?thesis using assms(2) False n by (simp add: locateOneElement_def p)
    next
      case (Some d)
      then have d: "d \<in> set names" "strcasecmp_eq d name" by (auto simp: find_Some_iff)
      have r: "ok" "buf' = kept @ d" using assms(2) False n Some by (simp_all add: locateOneElement_def p)
      have fok: "fs_access f (dir @ SLASH # d)" "dir = str ''.'' \<Longrightarrow> fs_access f d" "SLASH \<notin> set d"
        using assms(1) n d(1) unfolding fs_ok_def by blast+
      have "fs_access f buf'"
      proof (cases "last_slash buf")
        case None
        then show ?thesis using p r(2) fok(2) by simp
      next
        case (Some k)
        then have k: "k < length buf" "buf ! k = SLASH" using last_slash_Some by simp_all
        have "k \<noteq> 0"
        proof
          assume "k = 0"
          then have "SLASH \<in> set name" using p Some k nth_mem [OF k(1)] by auto
          then show False using strcasecmp_slash [OF d(2)] fok(3) by blast
        qed
        then have "dir = take k buf" "kept = take k buf @ [SLASH]"
          using p Some k by (auto simp: take_kept split: nat.splits)
        then show ?thesis using fok(1) r(2) by simp
      qed
      moreover have "map lower8 buf' = map lower8 (kept @ name)" using r(2) d(2) by (simp add: strcasecmp_eq_def)
      ultimately show ?thesis using r(1) kn by simp
    qed
  qed
  then show "map lower8 buf' = map lower8 buf" "ok \<Longrightarrow> fs_access f buf'" "\<not> ok \<Longrightarrow> buf' = buf" by auto
qed

lemma locate_prefixes_finds: "fs_ok f \<Longrightarrow> locate_prefixes f buf is = Some (rc, buf') \<Longrightarrow>
    map lower8 buf' = map lower8 buf \<and> (rc = 0 \<longrightarrow> fs_access f buf')"
proof (induction "is" arbitrary: buf)
  case Nil
  then obtain ok where "locateOneElement f buf = Some (ok, buf')" "rc = (if ok then 0 else -1)"
    by (auto split: option.splits)
  then show ?case using locateOneElement_finds [OF Nil(1)] by auto
next
  case (Cons i "is")
  show ?case
  proof (cases "buf ! i = SLASH")
    case False
    then show ?thesis using Cons.IH [OF Cons.prems(1), of buf] Cons.prems(2) by simp
  next
    case True
    with Cons.prems(2) obtain ok pre where l: "locateOneElement f (take i buf) = Some (ok, pre)"
      "(if \<not> ok then Some (-2, pre @ drop i buf) else locate_prefixes f (pre @ drop i buf) is) = Some (rc, buf')"
      by (auto split: option.splits prod.splits)
    have "map lower8 (pre @ drop i buf) = map lower8 (take i buf @ drop i buf)"
      using locateOneElement_finds(1) [OF Cons.prems(1) l(1)] by (simp only: map_append)
    then have m: "map lower8 (pre @ drop i buf) = map lower8 buf" by simp
    show ?thesis
    proof (cases ok)
      case True
      then show ?thesis using Cons.IH [OF Cons.prems(1), of "pre @ drop i buf"] l(2) m by simp
    next
      case False
      then show ?thesis using l(2) m by auto
    qed
  qed
qed

text \<open>
  C33.  The search for a file whatever its case changes nothing in a path but the case of its
  letters, and when it reports success the path it leaves exists.
\<close>

theorem locatePathCaseInsensitive_finds:
  assumes "fs_ok f" "locatePathCaseInsensitive f buf = Some (rc, buf')"
  shows "map lower8 buf' = map lower8 buf \<and> length buf' = length buf \<and> (rc = 0 \<and> buf \<noteq> [] \<longrightarrow> fs_access f buf')"
proof -
  have "map lower8 buf' = map lower8 buf \<and> (rc = 0 \<and> buf \<noteq> [] \<longrightarrow> fs_access f buf')"
    using locate_prefixes_finds [OF assms(1), of buf "[1..<length buf]" rc buf'] assms(2)
    by (auto simp: locatePathCaseInsensitive_def split: if_splits)
  then show ?thesis using map_eq_imp_length_eq by blast
qed

definition demo_fs :: fs where
  "demo_fs = \<lparr>fs_access = (\<lambda>p. p \<in> {str ''/'', str ''/os2'', str ''/os2/Bin'', str ''//os2'', str ''/os2/Bin/.'', str ''/''}),
    fs_readdir = (\<lambda>d. if d = str ''/os2'' then Some [str ''Bin''] else if d = str ''/'' then Some [str ''os2''] else None)\<rparr>"

lemma demo_fs_ok: "fs_ok demo_fs"
  by (auto simp: fs_ok_def demo_fs_def str_def SLASH_def)

theorem locatePathCaseInsensitive_finds_witness:
  "locatePathCaseInsensitive demo_fs (str ''/os2/BIN'') = Some (0, str ''/os2/Bin'') \<and> fs_access demo_fs (str ''/os2/Bin'')"
proof -
  have r: "locatePathCaseInsensitive demo_fs (str ''/os2/BIN'') = Some (0, str ''/os2/Bin'')" by code_simp
  from locatePathCaseInsensitive_finds [OF demo_fs_ok r] show ?thesis using r by (simp add: str_def)
qed

text \<open>
  Directly below the root the search never finds another case: the name it compares with still has its
  slash.
\<close>

lemma locate_below_root:
  assumes "fs_ok f" "buf = SLASH # name" "SLASH \<notin> set name" "\<not> fs_access f buf" "fs_readdir f (str ''/'') = Some names"
  shows "locateOneElement f buf = Some (False, buf)"
proof -
  have "last_slash name = None" using assms(3) by (induction name) auto
  then have l: "last_slash buf = Some 0" using assms(2) by simp
  have "\<not> strcasecmp_eq d buf" if "d \<in> set names" for d
    using strcasecmp_slash [of d buf] assms(1,2,5) that by (auto simp: fs_ok_def)
  then have "find (\<lambda>d. strcasecmp_eq d buf) names = None" by (simp add: find_None_iff)
  then show ?thesis using assms(4,5) l by (simp add: locateOneElement_def)
qed

end
