(* ===== verification/DosDir.thy ===== *)
theory DosDir
  imports Paths
begin

section \<open>Current directories (\<^verbatim>\<open>native/doscalls.c\<close>)\<close>

text \<open>
  \<open>DosSetCurrentDir\<close> keeps each drive's current directory as a normalised string, which it computes in
  place; \<open>DosQueryCurrentDir\<close> reads it.
\<close>

subsection \<open>Normalising in place\<close>

text \<open>The index of the next backslash from an index on.\<close>

fun next_bs :: "bytes \<Rightarrow> nat option" where
  "next_bs [] = None"
| "next_bs (c # cs) = (if c = BSLASH then Some 0 else map_option Suc (next_bs cs))"

text \<open>The search to the left for the parent: it stops at index 0 or at a backslash.\<close>

fun prev_bs :: "bytes \<Rightarrow> nat \<Rightarrow> nat" where
  "prev_bs s 0 = 0"
| "prev_bs s (Suc i) = (if s ! Suc i = BSLASH then Suc i else prev_bs s i)"

definition DOT :: bytes where "DOT = [0x2E]"
definition DOTDOT :: bytes where "DOTDOT = [0x2E, 0x2E]"

lemma next_bs_less: "next_bs s = Some k \<Longrightarrow> k < length s"
  by (induction s arbitrary: k) (auto split: if_splits)

lemma prev_bs_le: "prev_bs s i \<le> i"
  by (induction s i rule: prev_bs.induct) auto

text \<open>The last element, when there is no backslash left.\<close>

definition norm_last :: "bytes \<Rightarrow> nat \<Rightarrow> bytes option" where
  "norm_last s e =
    (if drop e s = DOT then Some (take (if e \<noteq> 0 then e - 1 else e) s)
     else if drop e s = DOTDOT then
       (if e = 0 then Some []
        else if \<not> 2 \<le> e then None
        else Some (take (prev_bs s (e - 2)) s))
     else Some s)"

text \<open>The loop: \<open>e\<close> is the index of \<^verbatim>\<open>element\<close> in the buffer; \<open>None\<close> is a failed \<^verbatim>\<open>assert\<close>.\<close>

function norm_loop :: "bytes \<Rightarrow> nat \<Rightarrow> bytes option" where
  "norm_loop s e =
    (case next_bs (drop e s) of
       None \<Rightarrow> norm_last s e
     | Some d \<Rightarrow>
         if take d (drop e s) = DOT then norm_loop (take e s @ drop (e + d + 1) s) e
         else if take d (drop e s) = DOTDOT then
           (if e = 0 then norm_loop (drop (d + 1) s) 0
            else if \<not> 2 \<le> e then None
            else let p = prev_bs s (e - 2); q = (if p \<noteq> 0 then p + 1 else p) in
              norm_loop (take q s @ drop (e + d + 1) s) q)
         else norm_loop s (e + d + 1))"
  by pat_completeness auto
termination
proof (relation "measure (\<lambda>(s, e). length s - e)")
  fix s e d p q
  assume n: "next_bs (drop e s) = Some d" and e: "e \<noteq> 0" "\<not> \<not> 2 \<le> e" and p: "p = prev_bs s (e - 2)" "q = (if p \<noteq> 0 then p + 1 else p)"
  have "d < length s - e" "q \<le> e - 1" using next_bs_less [OF n] prev_bs_le [of s "e - 2"] e p by auto
  then show "((take q s @ drop (e + d + 1) s, q), (s, e)) \<in> measure (\<lambda>(s, e). length s - e)"
    using e by simp
qed (auto dest!: next_bs_less)

declare norm_loop.simps [simp del]

definition normalise :: "bytes \<Rightarrow> bytes option" where
  "normalise s =
    (let s1 = squeeze BSLASH s;
         s2 = (if s1 \<noteq> [] \<and> hd s1 = BSLASH then tl s1 else s1)
     in norm_loop s2 0)"

subsection \<open>The operations\<close>

definition chdir_error :: "errno \<Rightarrow> apiret" where
  "chdir_error e = (if e = ENOTDIR \<or> e = ENOENT then ERROR_PATH_NOT_FOUND
     else if e = EACCES then ERROR_ACCESS_DENIED
     else if e = EIO then ERROR_DRIVE_LOCKED
     else if e = ENAMETOOLONG then ERROR_FILENAME_EXCED_RANGE
     else if e = ENOMEM then ERROR_NOT_ENOUGH_MEMORY
     else ERROR_PATH_NOT_FOUND)"

text \<open>
  \<open>makeUnixPath\<close> is the loader's translation; \<open>chdir\<close> the kernel's call, \<open>None\<close> for success.  An
  unmounted drive has no current directory to start from: that is a fault.
\<close>

definition DosSetCurrentDir_implementation ::
  "(bytes \<Rightarrow> apiret + bytes) \<Rightarrow> (bytes \<Rightarrow> errno option) \<Rightarrow> bool \<Rightarrow> bytes \<Rightarrow> drives \<Rightarrow> (apiret \<times> drives) option" where
  "DosSetCurrentDir_implementation makeUnixPath chdir mem_ok pszName dr =
    (if pszName = [] then Some (NO_ERROR, dr)
     else if pszName \<noteq> [BSLASH] \<and> last pszName = BSLASH then Some (ERROR_PATH_NOT_FOUND, dr)
     else case makeUnixPath pszName of
         Inl err \<Rightarrow> Some (err, dr)
       | Inr path \<Rightarrow>
         (case chdir path of
            Some e \<Rightarrow> Some (chdir_error e, dr)
          | None \<Rightarrow> do {
              let (idx, name) = drive_of dr pszName;
              oldpath \<leftarrow> (if name \<noteq> [] \<and> hd name = BSLASH then Some (Some []) else at_drive (current_dir dr) idx);
              old \<leftarrow> oldpath;
              if \<not> mem_ok then Some (ERROR_NOT_ENOUGH_MEMORY, dr)
              else do {
                new \<leftarrow> normalise (old @ (if old \<noteq> [] then [BSLASH] else []) @ name);
                guard (0 \<le> idx \<and> idx < 26);
                Some (NO_ERROR, dr\<lparr>current_dir := (current_dir dr)(nat idx := Some new)\<rparr>) } }))"

text \<open>The result: the code, the bytes stored in the buffer, and the length stored.\<close>

definition DosQueryCurrentDir_implementation ::
  "u32 \<Rightarrow> u32 \<Rightarrow> drives \<Rightarrow> (apiret \<times> bytes option \<times> u32) option" where
  "DosQueryCurrentDir_implementation disknum cbBuf dr =
    (if 26 < disknum then Some (ERROR_INVALID_DRIVE, None, cbBuf)
     else do {
       cdir \<leftarrow> at_drive (current_dir dr) (if disknum \<noteq> 0 then int (unat disknum) - 1 else int (current_disk dr));
       case cdir of
         None \<Rightarrow> Some (ERROR_NOT_DOS_DISK, None, cbBuf)
       | Some d \<Rightarrow>
           let pathlen = (of_nat (length d) :: u32) in
           if cbBuf \<le> pathlen then Some (ERROR_BUFFER_OVERFLOW, None, pathlen)
           else Some (NO_ERROR, Some (d @ [0]), pathlen) })"

definition DosQueryCurrentDisk_implementation :: "drives \<Rightarrow> apiret \<times> u32 \<times> u32" where
  "DosQueryCurrentDisk_implementation dr = (NO_ERROR, of_nat (current_disk dr), diskmap dr)"

subsection \<open>The reference\<close>

text \<open>A path as the list of its elements, and what each of them does to the current directory.\<close>

fun split_bs :: "bytes \<Rightarrow> bytes list" where
  "split_bs [] = [[]]"
| "split_bs (c # cs) = (if c = BSLASH then [] # split_bs cs
     else case split_bs cs of x # xs \<Rightarrow> (c # x) # xs | [] \<Rightarrow> [[c]])"

fun join_bs :: "bytes list \<Rightarrow> bytes" where
  "join_bs [] = []"
| "join_bs [x] = x"
| "join_bs (x # y # r) = x @ BSLASH # join_bs (y # r)"

definition walk :: "bytes list \<Rightarrow> bytes \<Rightarrow> bytes list" where
  "walk dir c = (if c = DOT then dir else if c = DOTDOT then butlast dir else dir @ [c])"

definition resolve :: "bytes list \<Rightarrow> bytes list \<Rightarrow> bytes list" where
  "resolve = foldl walk"

subsection \<open>The loop computes the reference\<close>

definition good :: "bytes \<Rightarrow> bool" where
  "good c \<longleftrightarrow> c \<noteq> [] \<and> BSLASH \<notin> set c"

fun elems :: "bytes list \<Rightarrow> bytes list" where
  "elems [] = []"
| "elems [x] = [x]"
| "elems (x # y # r) = (if x = [] then elems (y # r) else x # elems (y # r))"

definition dirstr :: "bytes list \<Rightarrow> bytes" where
  "dirstr dir = concat (map (\<lambda>c. c @ [BSLASH]) dir)"

lemma dirstr_simps [simp]: "dirstr [] = []" "dirstr (c # d) = c @ BSLASH # dirstr d" "dirstr (d @ e) = dirstr d @ dirstr e"
  by (simp_all add: dirstr_def)

lemma join_bs_Cons: "r \<noteq> [] \<Longrightarrow> join_bs (x # r) = x @ BSLASH # join_bs r"
  by (cases r) auto

lemma join_bs_snoc: "join_bs (dir @ [x]) = dirstr dir @ x"
  by (induction dir) (auto simp: join_bs_Cons)

lemma dirstr_join: "dir \<noteq> [] \<Longrightarrow> dirstr dir = join_bs dir @ [BSLASH]"
  by (induction dir rule: join_bs.induct) auto

lemma next_bs_free: "BSLASH \<notin> set c \<Longrightarrow> next_bs (c @ BSLASH # r) = Some (length c)" "BSLASH \<notin> set c \<Longrightarrow> next_bs c = None"
  by (induction c) auto

lemma prev_bs_parent:
  assumes "BSLASH \<notin> set p" "k < length p" "A = [] \<or> 2 \<le> length A \<and> last A = BSLASH"
  shows "prev_bs (A @ p @ r) (length A + k) = length A - 1"
  using assms(2)
proof (induction k)
  case 0
  show ?case
  proof (cases "A = []")
    case False
    then obtain n where n: "length A = Suc (Suc n)" "A ! Suc n = BSLASH"
      using assms(3) by (auto simp: last_conv_nth le_Suc_ex numeral_2_eq_2 dest!: le_Suc_ex)
    have "(A @ p @ r) ! Suc (Suc n) = p ! 0" using 0 n(1) by (simp add: nth_append)
    then have "(A @ p @ r) ! Suc (Suc n) \<noteq> BSLASH" using assms(1) 0 by (metis nth_mem)
    moreover have "(A @ p @ r) ! Suc n = BSLASH" using n by (simp add: nth_append)
    ultimately show ?thesis using n(1) by simp
  qed simp
next
  case (Suc k)
  have "(A @ p @ r) ! Suc (length A + k) = p ! Suc k" using Suc.prems by (simp add: nth_append)
  then have "(A @ p @ r) ! Suc (length A + k) \<noteq> BSLASH" using assms(1) Suc.prems by (metis nth_mem)
  then show ?case using Suc by simp
qed

lemma prev_bs_dirstr:
  assumes "list_all good dir" "good p"
  shows "prev_bs (dirstr dir @ p @ r) (length (dirstr dir @ p) - 1) = length (dirstr dir) - 1"
proof -
  have A: "dirstr dir = [] \<or> 2 \<le> length (dirstr dir) \<and> last (dirstr dir) = BSLASH"
  proof (cases dir rule: rev_cases)
    case (snoc d c)
    then have "c \<noteq> []" using assms(1) by (simp add: good_def)
    then show ?thesis using snoc by (cases c) auto
  qed simp
  have p: "BSLASH \<notin> set p" "length p - 1 < length p" using assms(2) by (simp_all add: good_def)
  have "length (dirstr dir) + (length p - 1) = length (dirstr dir @ p) - 1" using p(2) by simp
  then show ?thesis using prev_bs_parent [OF p(1,2) A, of r] by simp
qed

lemma dirstr_length: "list_all good dir \<Longrightarrow> dir \<noteq> [] \<Longrightarrow> 2 \<le> length (dirstr dir)"
proof -
  assume "list_all good dir" "dir \<noteq> []"
  then obtain c d where "dir = c # d" "c \<noteq> []" by (cases dir) (auto simp: good_def)
  then show ?thesis by (cases c) auto
qed

text \<open>The index of the parent, in the middle of the path and at its end.\<close>

lemma norm_parent:
  assumes "list_all good (dir @ [p])"
  shows "prev_bs (dirstr (dir @ [p]) @ r) (length (dirstr (dir @ [p])) - 2) = length (dirstr dir) - 1"
    "dir \<noteq> [] \<Longrightarrow> length (dirstr dir) - 1 \<noteq> 0" "2 \<le> length (dirstr (dir @ [p]))"
  using prev_bs_dirstr [of dir p "BSLASH # r"] dirstr_length [of dir] dirstr_length [of "dir @ [p]"] assms
  by (auto simp: numeral_2_eq_2)

lemma norm_last_walk:
  assumes "list_all good dir"
  shows "norm_last (dirstr dir @ c) (length (dirstr dir)) = Some (join_bs (walk dir c))"
proof -
  have dd: "DOT \<noteq> DOTDOT" by (simp add: DOT_def DOTDOT_def)
  show ?thesis
  proof (cases dir rule: rev_cases)
    case Nil
    then show ?thesis using dd by (simp add: norm_last_def walk_def)
  next
    case (snoc d p)
    have e: "2 \<le> length (dirstr dir)" using norm_parent(3) assms snoc by blast
    have j: "take (length (dirstr dir) - 1) (dirstr dir @ c) = join_bs dir" using snoc dirstr_join [of dir] by simp
    have "take (length (dirstr d) - 1) (dirstr dir @ c) = join_bs d"
      using snoc dirstr_join [of d] by (cases "d = []") simp_all
    moreover have "prev_bs (dirstr dir @ c) (length (dirstr dir) - 2) = length (dirstr d) - 1"
      using norm_parent(1) [of d p c] assms snoc by simp
    ultimately show ?thesis using e j dd snoc join_bs_snoc [of dir c] by (auto simp: norm_last_def walk_def)
  qed
qed

lemma norm_loop_resolve:
  assumes "list_all good dir" "list_all good (butlast cs)" "cs \<noteq> []" "BSLASH \<notin> set (last cs)"
  shows "norm_loop (dirstr dir @ join_bs cs) (length (dirstr dir)) = Some (join_bs (resolve dir cs))"
  using assms
proof (induction cs arbitrary: dir rule: join_bs.induct)
  case (2 x)
  then have "next_bs x = None" by (simp add: next_bs_free)
  then show ?case using norm_last_walk [OF 2(1), of x] by (subst norm_loop.simps) (simp add: resolve_def)
next
  case (3 x y r)
  let ?s = "dirstr dir @ join_bs (x # y # r)" and ?e = "length (dirstr dir)" and ?t = "join_bs (y # r)"
  have x: "good x" "BSLASH \<notin> set x" using 3(3) by (auto simp: good_def)
  have n: "next_bs (drop ?e ?s) = Some (length x)" "take (length x) (drop ?e ?s) = x" "drop (?e + length x + 1) ?s = ?t"
    using x(2) by (simp_all add: next_bs_free)
  have IH: "norm_loop (dirstr d @ ?t) (length (dirstr d)) = Some (join_bs (resolve d (y # r)))" if "list_all good d" for d
    using "3.IH" [OF that] "3.prems"(2-4) by simp
  have res: "resolve dir (x # y # r) = resolve (walk dir x) (y # r)" by (simp add: resolve_def)
  consider "x = DOT" | "x = DOTDOT" "dir = []" | d p where "x = DOTDOT" "dir = d @ [p]" | "x \<noteq> DOT" "x \<noteq> DOTDOT"
    by (metis rev_exhaust)
  then show ?case
  proof cases
    case 1
    then have "norm_loop ?s ?e = norm_loop (dirstr dir @ ?t) ?e"
      using n by (subst norm_loop.simps) (simp add: DOT_def)
    then show ?thesis using IH [OF 3(2)] 1 res by (simp add: walk_def)
  next
    case 2
    then have "norm_loop ?s ?e = norm_loop ?t 0" using n by (subst norm_loop.simps) (simp add: DOT_def DOTDOT_def)
    then show ?thesis using IH [of "[]"] 2 res by (simp add: walk_def DOT_def DOTDOT_def)
  next
    case (3 d p)
    have g: "list_all good (d @ [p])" using "3.prems"(1) 3 by simp
    have "norm_loop ?s ?e = norm_loop (dirstr d @ ?t) (length (dirstr d))"
    proof (cases "d = []")
      case True
      then show ?thesis using n 3 norm_parent(1) [OF g, of "join_bs (x # y # r)"] norm_parent(2,3) [OF g]
        by (subst norm_loop.simps) (simp add: DOT_def DOTDOT_def Let_def)
    next
      case False
      then have "Suc (length (dirstr d) - 1) = length (dirstr d)" using norm_parent(2) [OF g False] by simp
      then show ?thesis using n 3 norm_parent(1) [OF g, of "join_bs (x # y # r)"] norm_parent(2,3) [OF g] False
        by (subst norm_loop.simps) (simp add: DOT_def DOTDOT_def Let_def)
    qed
    then show ?thesis using IH [of d] g 3 res by (simp add: walk_def DOT_def DOTDOT_def)
  next
    case 4
    then have "norm_loop ?s ?e = norm_loop (dirstr (dir @ [x]) @ ?t) (length (dirstr (dir @ [x])))"
      using n by (subst norm_loop.simps) simp
    then show ?thesis using IH [of "dir @ [x]"] x(1) "3.prems"(1) 4 res by (simp add: walk_def)
  qed
qed simp

subsection \<open>Splitting\<close>

lemma split_bs_nonempty [simp]: "split_bs s \<noteq> []"
  by (induction s) (auto split: list.splits)

lemma split_bs_Cons: "c \<noteq> BSLASH \<Longrightarrow> split_bs (c # cs) = (c # hd (split_bs cs)) # tl (split_bs cs)"
  by (cases "split_bs cs") auto

lemma split_bs_BS: "split_bs (BSLASH # cs) = [] # split_bs cs"
  by simp

lemma join_split: "join_bs (split_bs s) = s"
proof (induction s)
  case (Cons c s)
  show ?case
  proof (cases "c = BSLASH")
    case True
    then show ?thesis using Cons by (simp add: join_bs_Cons)
  next
    case False
    then show ?thesis using Cons by (cases "split_bs s" rule: join_bs.cases) (auto simp: split_bs_Cons simp del: split_bs.simps)
  qed
qed simp

lemma split_bs_free: "x \<in> set (split_bs s) \<Longrightarrow> BSLASH \<notin> set x"
proof (induction s arbitrary: x)
  case (Cons c s)
  then show ?case
    by (cases "split_bs s"; cases "c = BSLASH") auto
qed simp

lemma split_append: "split_bs (a @ BSLASH # b) = split_bs a @ split_bs b"
proof (induction a)
  case (Cons c a)
  then show ?case by (cases "split_bs a"; cases "c = BSLASH") auto
qed simp

lemma elems_Cons: "r \<noteq> [] \<Longrightarrow> elems (x # r) = (if x = [] then elems r else x # elems r)"
  by (cases r) auto

lemma elems_empty [simp]: "elems xs = [] \<longleftrightarrow> xs = []"
  by (induction xs rule: elems.induct) auto

lemma elems_good: "\<forall>x \<in> set xs. BSLASH \<notin> set x \<Longrightarrow> xs \<noteq> [] \<Longrightarrow>
    list_all good (butlast (elems xs)) \<and> BSLASH \<notin> set (last (elems xs))"
  by (induction xs rule: elems.induct) (auto simp: good_def)

lemma elems_id: "list_all (\<lambda>x. x \<noteq> []) (butlast xs) \<Longrightarrow> elems xs = xs"
  by (induction xs rule: elems.induct) auto

text \<open>Squeezing double backslashes drops empty elements, and nothing else.\<close>

lemma squeeze_elems: "hd (split_bs (squeeze BSLASH s)) = hd (split_bs s) \<and>
    elems (tl (split_bs (squeeze BSLASH s))) = elems (tl (split_bs s))"
proof (induction BSLASH s rule: squeeze.induct)
  case (1 a b r)
  show ?case
  proof (cases "a = BSLASH \<and> b = BSLASH")
    case True
    have "elems (tl (split_bs (BSLASH # BSLASH # r))) = elems (split_bs r)" by (simp add: elems_Cons)
    then show ?thesis using 1(1) True by simp
  next
    case False
    let ?u = "split_bs (squeeze BSLASH (b # r))" and ?v = "split_bs (b # r)"
    have ih: "hd ?u = hd ?v" "elems (tl ?u) = elems (tl ?v)" using 1(2) [OF False] by simp_all
    have uv: "?u = hd ?u # tl ?u" "?v = hd ?v # tl ?v" by (simp_all del: split_bs.simps)
    have q: "squeeze BSLASH (a # b # r) = a # squeeze BSLASH (b # r)" using False by simp
    show ?thesis
    proof (cases "a = BSLASH")
      case True
      have "tl ?u = [] \<longleftrightarrow> tl ?v = []" using ih(2) elems_empty by metis
      then have "elems ?u = elems ?v" using ih uv by (metis elems.simps(2) elems_Cons)
      then show ?thesis using True unfolding q by (simp add: split_bs_BS del: split_bs.simps squeeze.simps)
    next
      case False
      then show ?thesis using ih by (simp add: q split_bs_Cons del: split_bs.simps squeeze.simps)
    qed
  qed
qed simp_all

lemma squeeze_no_double: "successively (\<lambda>a b. \<not> (a = x \<and> b = x)) (squeeze x s) \<and> (s \<noteq> [] \<longrightarrow> squeeze x s \<noteq> [] \<and> hd (squeeze x s) = hd s)"
  by (induction x s rule: squeeze.induct) (auto simp: successively_Cons)

lemma no_double_elems: "successively (\<lambda>a b. \<not> (a = BSLASH \<and> b = BSLASH)) s \<Longrightarrow>
    list_all (\<lambda>x. x \<noteq> []) (butlast (tl (split_bs s))) \<and> (s \<noteq> [] \<and> hd s \<noteq> BSLASH \<longrightarrow> hd (split_bs s) \<noteq> [])"
proof (induction s)
  case (Cons c s)
  then have ih: "list_all (\<lambda>x. x \<noteq> []) (butlast (tl (split_bs s)))" "s \<noteq> [] \<and> hd s \<noteq> BSLASH \<longrightarrow> hd (split_bs s) \<noteq> []"
    and c: "c = BSLASH \<Longrightarrow> s \<noteq> [] \<Longrightarrow> hd s \<noteq> BSLASH" by (auto simp: successively_Cons)
  show ?case
  proof (cases "c = BSLASH")
    case True
    then show ?thesis using ih c by (cases "split_bs s"; cases s) auto
  next
    case False
    then show ?thesis using ih by (simp add: split_bs_Cons del: split_bs.simps)
  qed
qed simp

lemma normalise_resolve: "normalise s = Some (join_bs (resolve [] (elems (split_bs s))))"
proof -
  define s1 where "s1 = squeeze BSLASH s"
  define s2 where "s2 = (if s1 \<noteq> [] \<and> hd s1 = BSLASH then tl s1 else s1)"
  have nd: "successively (\<lambda>a b. \<not> (a = BSLASH \<and> b = BSLASH)) s1" using squeeze_no_double by (simp add: s1_def)
  have nd2: "successively (\<lambda>a b. \<not> (a = BSLASH \<and> b = BSLASH)) s2" "s2 \<noteq> [] \<longrightarrow> hd s2 \<noteq> BSLASH"
    using nd by (cases s1; auto simp: s2_def successively_Cons)+
  have "list_all (\<lambda>x. x \<noteq> []) (butlast (split_bs s2))"
    using no_double_elems [OF nd2(1)] nd2(2) by (cases "split_bs s2"; cases "s2 = []") auto
  then have e2: "elems (split_bs s2) = split_bs s2" by (rule elems_id)
  have "elems (split_bs s2) = elems (split_bs s1)"
  proof (cases "s1 \<noteq> [] \<and> hd s1 = BSLASH")
    case True
    then have "s1 = BSLASH # s2" by (cases s1) (auto simp: s2_def)
    then show ?thesis by (simp add: elems_Cons)
  qed (auto simp: s2_def)
  also have "\<dots> = elems (split_bs s)"
  proof -
    let ?u = "split_bs s1" and ?v = "split_bs s"
    have ih: "hd ?u = hd ?v" "elems (tl ?u) = elems (tl ?v)" using squeeze_elems [of s] by (simp_all add: s1_def)
    have uv: "?u = hd ?u # tl ?u" "?v = hd ?v # tl ?v" by simp_all
    have "tl ?u = [] \<longleftrightarrow> tl ?v = []" using ih(2) elems_empty by metis
    then show ?thesis using ih uv by (metis elems.simps(2) elems_Cons)
  qed
  finally have E: "split_bs s2 = elems (split_bs s)" using e2 by simp
  have "\<forall>x \<in> set (split_bs s). BSLASH \<notin> set x" using split_bs_free by blast
  then have "list_all good (butlast (split_bs s2))" "BSLASH \<notin> set (last (split_bs s2))"
    using elems_good [of "split_bs s"] by (simp_all add: E)
  then have "norm_loop s2 0 = Some (join_bs (resolve [] (split_bs s2)))"
    using norm_loop_resolve [of "[]" "split_bs s2"] by (simp add: join_split)
  then show ?thesis by (simp add: normalise_def E s1_def [symmetric] s2_def [symmetric] Let_def)
qed

lemma resolve_plain: "list_all (\<lambda>c. c \<noteq> DOT \<and> c \<noteq> DOTDOT) dir \<Longrightarrow> resolve [] (dir @ cs) = resolve dir cs"
proof -
  assume "list_all (\<lambda>c. c \<noteq> DOT \<and> c \<noteq> DOTDOT) dir"
  then have "foldl walk pre dir = pre @ dir" for pre by (induction dir arbitrary: pre) (auto simp: walk_def)
  then show ?thesis by (simp add: resolve_def)
qed

lemma split_join_good: "list_all good dir \<Longrightarrow> dir \<noteq> [] \<Longrightarrow> split_bs (join_bs dir) = dir"
proof (induction dir rule: join_bs.induct)
  case (2 x)
  have "split_bs x = [x]" if "BSLASH \<notin> set x" using that by (induction x) auto
  then show ?case using 2 by (simp add: good_def)
next
  case (3 x y r)
  have "split_bs x = [x]" if "BSLASH \<notin> set x" using that by (induction x) auto
  then show ?case using 3 by (simp add: split_append good_def del: split_bs.simps)
qed simp

text \<open>A current directory: names that are neither empty nor dots.\<close>

definition cwd_ok :: "bytes list \<Rightarrow> bool" where
  "cwd_ok dir \<longleftrightarrow> list_all (\<lambda>c. good c \<and> c \<noteq> DOT \<and> c \<noteq> DOTDOT) dir"

lemma elems_append: "list_all good dir \<Longrightarrow> r \<noteq> [] \<Longrightarrow> elems (dir @ r) = dir @ elems r"
  by (induction dir) (auto simp: elems_Cons good_def)

lemma walk_ok: "cwd_ok dir \<Longrightarrow> good c \<Longrightarrow> cwd_ok (walk dir c)"
  by (cases dir rule: rev_cases) (auto simp: cwd_ok_def walk_def)

lemma resolve_ok: "list_all good cs \<Longrightarrow> cwd_ok dir \<Longrightarrow> cwd_ok (resolve dir cs)"
  unfolding resolve_def by (induction cs arbitrary: dir) (auto intro: walk_ok)

text \<open>
  C34.  Changing the current directory, against its specification on lists of names.  Where the drive's
  current directory is \<open>dir\<close> and the kernel accepts the path, the new one is the path's elements
  walked from \<open>dir\<close> (from the root for a path that starts with a backslash): a dot stays, two dots
  go to the parent and stop at the root, repeated backslashes count once.  The string in place is
  the result's text, no assertion fails, and all names of it are proper where the path's last
  element is not empty.
\<close>

theorem DosSetCurrentDir_walks:
  assumes "pszName \<noteq> []" "pszName = [BSLASH] \<or> last pszName \<noteq> BSLASH"
    "makeUnixPath pszName = Inr path" "chdir path = None" "drive_of dr pszName = (idx, name)" "0 \<le> idx" "idx < 26"
    "current_dir dr (nat idx) = Some (join_bs dir)" "cwd_ok dir"
  shows "DosSetCurrentDir_implementation makeUnixPath chdir True pszName dr
      = Some (NO_ERROR, dr\<lparr>current_dir := (current_dir dr)(nat idx := Some (join_bs
          (resolve (if name \<noteq> [] \<and> hd name = BSLASH then [] else dir) (elems (split_bs name)))))\<rparr>) \<and>
    (name \<noteq> [] \<and> last name \<noteq> BSLASH \<longrightarrow>
      cwd_ok (resolve (if name \<noteq> [] \<and> hd name = BSLASH then [] else dir) (elems (split_bs name))))"
proof -
  let ?abs = "name \<noteq> [] \<and> hd name = BSLASH" and ?cs = "elems (split_bs name)"
  have g: "list_all good dir" "list_all (\<lambda>c. c \<noteq> DOT \<and> c \<noteq> DOTDOT) dir" using assms(9) by (auto simp: cwd_ok_def list_all_iff)
  define old where "old = (if ?abs then [] else join_bs dir)"
  have "resolve [] (elems (split_bs (old @ (if old \<noteq> [] then [BSLASH] else []) @ name))) = resolve (if ?abs then [] else dir) ?cs"
  proof (cases "?abs \<or> dir = []")
    case True
    then have "old = []" "(if ?abs then [] else dir) = []" by (auto simp: old_def)
    then show ?thesis by simp
  next
    case False
    then have o: "old = join_bs dir" "dir \<noteq> []" by (auto simp: old_def)
    have "old \<noteq> []" using o g(1) by (cases dir rule: join_bs.cases) (auto simp: good_def)
    moreover have "elems (split_bs (join_bs dir @ BSLASH # name)) = dir @ ?cs"
      by (simp add: split_append split_join_good [OF g(1) o(2)] elems_append [OF g(1)] del: split_bs.simps)
    ultimately show ?thesis using o False resolve_plain [OF g(2)] by auto
  qed
  note n = normalise_resolve [of "old @ (if old \<noteq> [] then [BSLASH] else []) @ name", unfolded this]
  have d: "\<not> (pszName \<noteq> [BSLASH] \<and> last pszName = BSLASH)" using assms(2) by blast
  have o: "(if ?abs then Some (Some []) else at_drive (current_dir dr) idx) = Some (Some old)"
    using assms(6-8) by (simp add: old_def at_drive_def)
  have "DosSetCurrentDir_implementation makeUnixPath chdir True pszName dr
      = Some (NO_ERROR, dr\<lparr>current_dir := (current_dir dr)(nat idx := Some (join_bs (resolve (if ?abs then [] else dir) ?cs)))\<rparr>)"
    unfolding DosSetCurrentDir_implementation_def assms(3,5) Let_def prod.case sum.case assms(4) option.case o
    using assms(1,6,7) d n by (simp add: guard_def)
  moreover have "cwd_ok (resolve (if ?abs then [] else dir) ?cs)" if l: "name \<noteq> []" "last name \<noteq> BSLASH"
  proof -
    have "last (split_bs s) \<noteq> []" if "s \<noteq> []" "last s \<noteq> BSLASH" for s using that
      by (induction s) (auto split: list.splits if_splits)
    moreover have "last (elems xs) = last xs" if "xs \<noteq> []" for xs using that by (induction xs rule: elems.induct) auto
    ultimately have "last ?cs \<noteq> []" using l by simp
    moreover have "list_all good (butlast ?cs)" "BSLASH \<notin> set (last ?cs)"
      using elems_good [of "split_bs name"] split_bs_free by auto
    ultimately have "list_all good (butlast ?cs @ [last ?cs])" by (simp add: good_def del: append_butlast_last_id)
    then have "list_all good ?cs" by simp
    then show ?thesis using resolve_ok [of ?cs] assms(9) by (simp add: cwd_ok_def)
  qed
  ultimately show ?thesis by blast
qed

definition demo_drives :: drives where
  "demo_drives = \<lparr>disks = (\<lambda>i. if i = 2 then Some (str ''/os2'') else None),
    current_dir = (\<lambda>i. if i = 2 then Some (join_bs [str ''GAMES'', str ''DOOM'']) else None), current_disk = 3, diskmap = 4\<rparr>"

theorem DosSetCurrentDir_walks_witness:
  "\<exists>dr. DosSetCurrentDir_implementation Inr (\<lambda>_. None) True (DOTDOT @ [BSLASH, BSLASH] @ str ''QUAKE'') demo_drives = Some (NO_ERROR, dr) \<and>
    current_dir dr 2 = Some (str ''GAMES'' @ BSLASH # str ''QUAKE'')"
proof -
  have d: "drive_of demo_drives (DOTDOT @ [BSLASH, BSLASH] @ str ''QUAKE'') = (2, DOTDOT @ [BSLASH, BSLASH] @ str ''QUAKE'')" by code_simp
  have e: "elems (split_bs (DOTDOT @ [BSLASH, BSLASH] @ str ''QUAKE'')) = [DOTDOT, str ''QUAKE'']" by code_simp
  have r: "join_bs (resolve [str ''GAMES'', str ''DOOM''] [DOTDOT, str ''QUAKE'']) = str ''GAMES'' @ BSLASH # str ''QUAKE''" by code_simp
  have ok: "cwd_ok [str ''GAMES'', str ''DOOM'']" by code_simp
  have h: "hd (DOTDOT @ [BSLASH, BSLASH] @ str ''QUAKE'') \<noteq> BSLASH" "last (DOTDOT @ [BSLASH, BSLASH] @ str ''QUAKE'') \<noteq> BSLASH" by code_simp+
  have "DosSetCurrentDir_implementation Inr (\<lambda>_. None) True (DOTDOT @ [BSLASH, BSLASH] @ str ''QUAKE'') demo_drives
      = Some (NO_ERROR, demo_drives\<lparr>current_dir := (current_dir demo_drives)(nat 2 := Some (join_bs
          (resolve (if DOTDOT @ [BSLASH, BSLASH] @ str ''QUAKE'' \<noteq> [] \<and> hd (DOTDOT @ [BSLASH, BSLASH] @ str ''QUAKE'') = BSLASH
             then [] else [str ''GAMES'', str ''DOOM'']) (elems (split_bs (DOTDOT @ [BSLASH, BSLASH] @ str ''QUAKE''))))))\<rparr>)"
    using h(2) by (intro DosSetCurrentDir_walks [OF _ _ _ _ d _ _ _ ok, THEN conjunct1]) (simp_all add: demo_drives_def)
  then show ?thesis using h(1) by (simp only: e r if_False simp_thms) (simp add: demo_drives_def)
qed

text \<open>
  Asking for the current directory of the default drive (number 0) reads the next drive's: the
  number of the default drive counts from 1, the array from 0.
\<close>

lemma query_default_drive:
  assumes "current_disk dr = Suc i" "i < 25" "current_dir dr (Suc i) = Some other" "unat cb > length other" "length other < 4294967296"
  shows "DosQueryCurrentDir_implementation 0 cb dr = Some (NO_ERROR, Some (other @ [0]), of_nat (length other))"
proof -
  have "\<not> cb \<le> of_nat (length other)" using assms(4,5) by (simp add: word_le_nat_alt unat_of_nat)
  then show ?thesis using assms(1-3) by (simp add: DosQueryCurrentDir_implementation_def at_drive_def Let_def nat_add_distrib)
qed

end
