(* ===== verification/DosFind.thy ===== *)
theory DosFind
  imports Paths
begin

section \<open>File information and directory searches (\<^verbatim>\<open>native/doscalls.c\<close>)\<close>

text \<open>
  The information levels of files and paths, and the search for files.  A buffer of the program is
  the list of its bytes; the structures are laid out as the 32-bit compiler does it: dates and times
  are packed bit fields of 2 bytes, 32-bit fields are aligned to 4.  \<^verbatim>\<open>localtime\<close> and the results of
  \<^verbatim>\<open>stat\<close> are parameters.
\<close>

record tm =
  tm_sec :: int
  tm_min :: int
  tm_hour :: int
  tm_mday :: int
  tm_mon :: int
  tm_year :: int

record stat =
  st_mode :: u32
  st_size :: int
  st_blocks :: int
  st_atime :: int
  st_mtime :: int

type_synonym localtime = "int \<Rightarrow> tm"

subsection \<open>Dates\<close>

definition fdate :: "u16 \<Rightarrow> u16 \<Rightarrow> u16 \<Rightarrow> u16" where
  "fdate day month year = take_bit 5 day OR push_bit 5 (take_bit 4 month) OR push_bit 9 (take_bit 7 year)"

definition ftime :: "u16 \<Rightarrow> u16 \<Rightarrow> u16 \<Rightarrow> u16" where
  "ftime twosecs minutes hours = take_bit 5 twosecs OR push_bit 5 (take_bit 6 minutes) OR push_bit 11 (take_bit 5 hours)"

text \<open>The bytes of a date and a time.  C divides towards 0, but a second is not negative.\<close>

definition unixTimeToOs2 :: "localtime \<Rightarrow> int \<Rightarrow> bytes" where
  "unixTimeToOs2 localtime_r t =
    (let lt = localtime_r t in
     bytes16 (fdate (of_int (tm_mday lt)) (of_int (tm_mon lt + 1)) (of_int (tm_year lt - 80))) @
     bytes16 (ftime (of_int (tm_sec lt div 2)) (of_int (tm_min lt)) (of_int (tm_hour lt))))"

definition initFileCreationDateTime :: bytes where
  "initFileCreationDateTime = bytes16 (fdate 1 1 0) @ bytes16 (ftime 0 0 0)"

lemma length_dates [simp]: "length (unixTimeToOs2 lt t) = 4" "length initFileCreationDateTime = 4"
  by (simp_all add: unixTimeToOs2_def initFileCreationDateTime_def Let_def)

text \<open>A date in range is read back from its bit fields.\<close>

definition fdate_day :: "u16 \<Rightarrow> u16" where "fdate_day d = take_bit 5 d"
definition fdate_month :: "u16 \<Rightarrow> u16" where "fdate_month d = take_bit 4 (drop_bit 5 d)"
definition fdate_year :: "u16 \<Rightarrow> u16" where "fdate_year d = take_bit 7 (drop_bit 9 d)"

lemma fdate_fields: "fdate_day (fdate d m y) = take_bit 5 d" "fdate_month (fdate d m y) = take_bit 4 m"
  "fdate_year (fdate d m y) = take_bit 7 y"
  by (auto simp: fdate_day_def fdate_month_def fdate_year_def fdate_def bit_eq_iff bit_simps)

subsection \<open>Information levels\<close>

definition S_ISDIR :: "u32 \<Rightarrow> bool" where "S_ISDIR m \<longleftrightarrow> m AND S_IFMT = 0x4000"
definition S_ISREG :: "u32 \<Rightarrow> bool" where "S_ISREG m \<longleftrightarrow> m AND S_IFMT = 0x8000"
definition S_IWUSR :: u32 where "S_IWUSR = 0x80"
definition FILE_DIRECTORY :: u32 where "FILE_DIRECTORY = 0x10"
definition FILE_READONLY :: u32 where "FILE_READONLY = 0x1"

definition attr_of :: "stat \<Rightarrow> u32" where
  "attr_of st = (if S_ISDIR (st_mode st) then FILE_DIRECTORY else 0) OR (if st_mode st AND S_IWUSR = 0 then FILE_READONLY else 0)"

text \<open>The fields from the dates to the sizes, common to all the structures.\<close>

definition stat_fields :: "localtime \<Rightarrow> stat \<Rightarrow> bytes" where
  "stat_fields lt st = initFileCreationDateTime @ unixTimeToOs2 lt (st_atime st) @ unixTimeToOs2 lt (st_mtime st) @
    bytes32 (of_int (st_size st)) @ bytes32 (of_int (st_blocks st * 512))"

lemma length_stat_fields [simp]: "length (stat_fields lt st) = 20"
  by (simp add: stat_fields_def)

definition queryFileInfoStandardFromStat :: "localtime \<Rightarrow> stat \<Rightarrow> bytes \<Rightarrow> (apiret \<times> bytes) option" where
  "queryFileInfoStandardFromStat lt st buf =
    map_option (\<lambda>b. (NO_ERROR, b)) (wr_blk buf 0 (stat_fields lt st @ bytes32 (attr_of st)))"

definition queryFileInfoStandard :: "localtime \<Rightarrow> stat \<Rightarrow> u32 \<Rightarrow> bytes \<Rightarrow> (apiret \<times> bytes) option" where
  "queryFileInfoStandard lt st cb buf =
    (if unat cb < 24 then Some (ERROR_BUFFER_OVERFLOW, buf) else queryFileInfoStandardFromStat lt st buf)"

definition queryFileInfoEaSize :: "localtime \<Rightarrow> stat \<Rightarrow> u32 \<Rightarrow> bytes \<Rightarrow> (apiret \<times> bytes) option" where
  "queryFileInfoEaSize lt st cb buf =
    (if unat cb < 28 then Some (ERROR_BUFFER_OVERFLOW, buf)
     else do {
       (rc, buf1) \<leftarrow> queryFileInfoStandard lt st cb buf;
       if rc \<noteq> NO_ERROR then Some (rc, buf1)
       else map_option (\<lambda>b. (NO_ERROR, b)) (wr_blk buf1 24 (bytes32 0)) })"

definition DosQueryFileInfo ::
  "localtime \<Rightarrow> (int \<Rightarrow> stat option) \<Rightarrow> u32 \<Rightarrow> u32 \<Rightarrow> u32 \<Rightarrow> bytes \<Rightarrow> 'k dosfiles \<Rightarrow> (apiret \<times> bytes) option" where
  "DosQueryFileInfo lt fstat hf level cb buf files =
    (let fd = getHFileUnixDescriptor files hf in
     if fd = -1 then Some (ERROR_INVALID_HANDLE, buf)
     else case fstat fd of
         None \<Rightarrow> Some (ERROR_INVALID_HANDLE, buf)
       | Some st \<Rightarrow>
           if level = 1 then queryFileInfoStandard lt st cb buf
           else if level = 2 then queryFileInfoEaSize lt st cb buf
           else Some (ERROR_INVALID_LEVEL, buf))"

definition queryPathInfoStandard :: "localtime \<Rightarrow> (bytes \<Rightarrow> stat option) \<Rightarrow> bytes \<Rightarrow> u32 \<Rightarrow> bytes \<Rightarrow> (apiret \<times> bytes) option" where
  "queryPathInfoStandard lt stat path cb buf =
    (if unat cb < 24 then Some (ERROR_BUFFER_OVERFLOW, buf)
     else case stat path of
         None \<Rightarrow> Some (ERROR_PATH_NOT_FOUND, buf)
       | Some st \<Rightarrow> queryFileInfoStandardFromStat lt st buf)"

definition queryPathInfoEaSize :: "localtime \<Rightarrow> (bytes \<Rightarrow> stat option) \<Rightarrow> bytes \<Rightarrow> u32 \<Rightarrow> bytes \<Rightarrow> (apiret \<times> bytes) option" where
  "queryPathInfoEaSize lt stat path cb buf =
    (if unat cb < 28 then Some (ERROR_BUFFER_OVERFLOW, buf)
     else do {
       (rc, buf1) \<leftarrow> queryPathInfoStandard lt stat path cb buf;
       if rc \<noteq> NO_ERROR then Some (rc, buf1)
       else map_option (\<lambda>b. (NO_ERROR, b)) (wr_blk buf1 24 (bytes32 0)) })"

definition queryPathInfoFullName :: "(bytes \<Rightarrow> bytes option) \<Rightarrow> bool \<Rightarrow> bytes \<Rightarrow> u32 \<Rightarrow> bytes \<Rightarrow> (apiret \<times> bytes) option" where
  "queryPathInfoFullName realpath mem_ok path cb buf =
    (let r = (case realpath path of Some r \<Rightarrow> Some r | None \<Rightarrow> if mem_ok then Some path else None) in
     case r of
       None \<Rightarrow> Some (ERROR_NOT_ENOUGH_MEMORY, buf)
     | Some real \<Rightarrow>
         if length real + 3 \<ge> unat cb then Some (ERROR_BUFFER_OVERFLOW, buf)
         else map_option (\<lambda>b. (NO_ERROR, b))
           (wr_blk buf 0 (str ''C:'' @ map (\<lambda>c. if c = SLASH then BSLASH else c) real @ [0])))"

definition queryPathInfo ::
  "localtime \<Rightarrow> (bytes \<Rightarrow> stat option) \<Rightarrow> (bytes \<Rightarrow> bytes option) \<Rightarrow> bool \<Rightarrow> bytes \<Rightarrow> u32 \<Rightarrow> u32 \<Rightarrow> bytes
     \<Rightarrow> (apiret \<times> bytes) option" where
  "queryPathInfo lt stat realpath mem_ok path level cb buf =
    (if level = 1 then queryPathInfoStandard lt stat path cb buf
     else if level = 2 then queryPathInfoEaSize lt stat path cb buf
     else if level = 3 then Some (ERROR_INVALID_LEVEL, buf)
     else if level = 7 \<or> level = 5 then queryPathInfoFullName realpath mem_ok path cb buf
     else Some (ERROR_INVALID_LEVEL, buf))"

definition DosQueryPathInfo ::
  "(bytes \<Rightarrow> apiret + bytes) \<Rightarrow> localtime \<Rightarrow> (bytes \<Rightarrow> stat option) \<Rightarrow> (bytes \<Rightarrow> bytes option) \<Rightarrow> bool \<Rightarrow> bytes \<Rightarrow> u32 \<Rightarrow> u32 \<Rightarrow> bytes
     \<Rightarrow> (apiret \<times> bytes) option" where
  "DosQueryPathInfo makeUnixPath lt stat realpath mem_ok name level cb buf =
    (case makeUnixPath name of
       Inl err \<Rightarrow> Some (err, buf)
     | Inr path \<Rightarrow> queryPathInfo lt stat realpath mem_ok path level cb buf)"

text \<open>No query writes past the buffer it is given.\<close>

definition in_bounds :: "bytes \<Rightarrow> ('a \<times> bytes) option \<Rightarrow> bool" where
  "in_bounds buf r \<longleftrightarrow> (\<exists>rc b. r = Some (rc, b) \<and> length b = length buf)"

named_theorems in_bounds_intros

lemma in_bounds_same [in_bounds_intros]: "in_bounds buf (Some (rc, buf))"
  by (simp add: in_bounds_def)

lemma wr_blk_fits: "i + length xs \<le> length dst \<Longrightarrow> \<exists>b. wr_blk dst i xs = Some b \<and> length b = length dst"
  by (simp add: wr_blk_def blit_def)

lemma in_bounds_wr [in_bounds_intros]: "i + length xs \<le> length buf \<Longrightarrow> in_bounds buf (map_option (\<lambda>b. (rc, b)) (wr_blk buf i xs))"
  using wr_blk_fits [of i xs buf] by (auto simp: in_bounds_def)

lemma in_bounds_bind: "in_bounds buf r \<Longrightarrow> (\<And>rc b. length b = length buf \<Longrightarrow> in_bounds buf (f (rc, b))) \<Longrightarrow> in_bounds buf (r \<bind> f)"
  by (auto simp: in_bounds_def)

lemma in_bounds_length: "length b = length buf \<Longrightarrow> in_bounds b r \<Longrightarrow> in_bounds buf r"
  by (simp add: in_bounds_def)

lemma in_bounds_stat [in_bounds_intros]: "24 \<le> length buf \<Longrightarrow> in_bounds buf (queryFileInfoStandardFromStat lt st buf)"
  unfolding queryFileInfoStandardFromStat_def by (rule in_bounds_wr) simp

lemma in_bounds_file_standard: "unat cb \<le> length buf \<Longrightarrow> in_bounds buf (queryFileInfoStandard lt st cb buf)"
  by (simp add: queryFileInfoStandard_def in_bounds_intros)

lemma in_bounds_path_standard: "unat cb \<le> length buf \<Longrightarrow> in_bounds buf (queryPathInfoStandard lt stat p cb buf)"
  by (simp add: queryPathInfoStandard_def in_bounds_intros split: option.split)

lemma in_bounds_ea:
  assumes "28 \<le> length buf" "in_bounds buf r"
  shows "in_bounds buf (r \<bind> (\<lambda>(rc, buf1). if rc \<noteq> NO_ERROR then Some (rc, buf1)
       else map_option (\<lambda>b. (NO_ERROR, b)) (wr_blk buf1 24 (bytes32 0))))"
proof (rule in_bounds_bind [OF assms(2)])
  fix rc :: apiret and b :: bytes
  assume l: "length b = length buf"
  have "in_bounds b (if rc \<noteq> NO_ERROR then Some (rc, b) else map_option (\<lambda>b. (NO_ERROR, b)) (wr_blk b 24 (bytes32 0)))"
    using assms(1) l by (simp add: in_bounds_intros)
  then show "in_bounds buf (case (rc, b) of (rc, buf1) \<Rightarrow> if rc \<noteq> NO_ERROR then Some (rc, buf1)
       else map_option (\<lambda>b. (NO_ERROR, b)) (wr_blk buf1 24 (bytes32 0)))"
    using l by (simp add: in_bounds_def)
qed

lemma in_bounds_full: "unat cb \<le> length buf \<Longrightarrow> in_bounds buf (queryPathInfoFullName rp ok p cb buf)"
  unfolding queryPathInfoFullName_def Let_def
  by (auto simp: str_def split: option.split intro!: in_bounds_intros)

lemma DosQueryFileInfo_in_bounds: "unat cb \<le> length buf \<Longrightarrow> in_bounds buf (DosQueryFileInfo lt fs hf level cb buf files)"
  using in_bounds_ea [OF _ in_bounds_file_standard [of cb buf lt]]
  by (auto simp: DosQueryFileInfo_def Let_def queryFileInfoEaSize_def split: option.split intro!: in_bounds_intros in_bounds_file_standard)

lemma DosQueryPathInfo_in_bounds: "unat cb \<le> length buf \<Longrightarrow>
    in_bounds buf (DosQueryPathInfo mk lt stat rp ok name level cb buf)"
  using in_bounds_ea [OF _ in_bounds_path_standard [of cb buf lt stat]]
  by (auto simp: DosQueryPathInfo_def queryPathInfo_def queryPathInfoEaSize_def split: sum.split
      intro!: in_bounds_intros in_bounds_path_standard in_bounds_full)

subsection \<open>Wildcards\<close>

definition QMARK :: u8 where "QMARK = 0x3F"
definition STAR :: u8 where "STAR = 0x2A"
definition PERIOD :: u8 where "PERIOD = 0x2E"

text \<open>
  The loop over the pattern; \<open>ext\<close> is set after the first period.  A star skips to the next byte that
  is the one after it in the pattern (to the end where the star is last), and is not tried again.
\<close>

fun wildcard_loop :: "bool \<Rightarrow> bytes \<Rightarrow> bytes \<Rightarrow> bool" where
  "wildcard_loop ext s [] \<longleftrightarrow> s = []"
| "wildcard_loop ext s (p # pat) \<longleftrightarrow>
    (if p = QMARK then wildcard_loop ext (tl s) pat
     else if p = PERIOD \<and> \<not> ext then
       (if s \<noteq> [] \<and> hd s = PERIOD then wildcard_loop True (tl s) pat
        else if s \<noteq> [] then False
        else wildcard_loop True s pat)
     else if p = STAR then
       wildcard_loop ext (case pat of [] \<Rightarrow> [] | nxt # _ \<Rightarrow> dropWhile (\<lambda>c. c \<noteq> nxt) s) pat
     else if s \<noteq> [] \<and> lower8 (hd s) = lower8 p then wildcard_loop ext (tl s) pat
     else False)"

definition wildcardMatch :: "bytes \<Rightarrow> bytes \<Rightarrow> bool" where
  "wildcardMatch s pattern = wildcard_loop False s pattern"

text \<open>The reference: what a pattern means.\<close>

inductive glob :: "bool \<Rightarrow> bytes \<Rightarrow> bytes \<Rightarrow> bool" where
  glob_end: "glob ext [] []"
| glob_q: "glob ext s p \<Longrightarrow> glob ext (c # s) (QMARK # p)"
| glob_q_end: "glob ext [] p \<Longrightarrow> glob ext [] (QMARK # p)"
| glob_dot: "glob True s p \<Longrightarrow> glob False (PERIOD # s) (PERIOD # p)"
| glob_dot_end: "glob True [] p \<Longrightarrow> glob False [] (PERIOD # p)"
| glob_star: "glob ext t p \<Longrightarrow> glob ext (u @ t) (STAR # p)"
| glob_char: "lower8 c = lower8 d \<Longrightarrow> d \<noteq> QMARK \<Longrightarrow> d \<noteq> STAR \<Longrightarrow> d \<noteq> PERIOD \<or> ext \<Longrightarrow> glob ext s p \<Longrightarrow> glob ext (c # s) (d # p)"

inductive_cases glob_NilE: "glob ext s []"
inductive_cases glob_ConsE: "glob ext s (d # p)"

lemma glob_dropWhile: "glob ext (dropWhile P s) p \<Longrightarrow> glob ext s (STAR # p)"
  using glob_star [of ext "dropWhile P s" p "takeWhile P s"] by simp

lemma wildcard_star: "wildcard_loop ext s (STAR # p) =
    wildcard_loop ext (case p of [] \<Rightarrow> [] | nxt # _ \<Rightarrow> dropWhile (\<lambda>c. c \<noteq> nxt) s) p"
  by (simp add: STAR_def QMARK_def PERIOD_def)

lemma wildcard_loop_sound: "wildcard_loop ext s p \<Longrightarrow> glob ext s p"
proof (induction p arbitrary: ext s)
  case Nil
  then show ?case by (simp add: glob_end)
next
  case (Cons d p)
  consider "d = QMARK" | "d \<noteq> QMARK" "d = PERIOD" "\<not> ext" | "d \<noteq> QMARK" "d \<noteq> PERIOD \<or> ext" "d = STAR"
    | "d \<noteq> QMARK" "d \<noteq> PERIOD \<or> ext" "d \<noteq> STAR" by blast
  then show ?case
  proof cases
    case 1
    then show ?thesis using Cons by (cases s) (auto intro: glob_q glob_q_end)
  next
    case 2
    then show ?thesis using Cons by (cases s) (auto split: if_splits intro: glob_dot glob_dot_end)
  next
    case 3
    note IH = Cons.IH and prems = Cons.prems
    show ?thesis
    proof (cases p)
      case Nil
      then show ?thesis using 3 glob_star [OF glob_end, of ext s] by simp
    next
      case (Cons n q)
      have "wildcard_loop ext (dropWhile (\<lambda>c. c \<noteq> n) s) p"
        using prems unfolding 3(3) wildcard_star by (simp only: Cons list.case)
      then show ?thesis unfolding 3(3) by (rule glob_dropWhile [OF IH])
    qed
  next
    case 4
    then show ?thesis using Cons by (cases s) (auto split: if_splits intro: glob_char)
  qed
qed

lemma wildcard_loop_complete: "glob ext s p \<Longrightarrow> STAR \<notin> set (butlast p) \<Longrightarrow> wildcard_loop ext s p"
proof (induction rule: glob.induct)
  case (glob_star ext t p u)
  then have "p = []" by (cases p) auto
  then show ?case by (simp add: STAR_def QMARK_def PERIOD_def)
qed (auto simp: STAR_def QMARK_def PERIOD_def split: if_splits)

subsection \<open>Searching a directory\<close>

text \<open>
  A search: the entries of the directory that are still to come, with what \<^verbatim>\<open>fstatat\<close> says of each
  (\<open>None\<close> for a closed directory), and the search's arguments.  The structures are 280, 288 and 292 bytes
  long, 256 of them for the name.
\<close>

record dirfinder =
  df_dirp :: "(bytes \<times> stat option) list option"
  df_attr :: u32
  df_level :: u32
  df_pattern :: bytes

definition LEVEL16 :: u32 where "LEVEL16 = 0xFFFFFFFF"

definition findNextSizeNeeded :: "u32 \<Rightarrow> u32 \<Rightarrow> u32 option" where
  "findNextSizeNeeded level n =
    (if level = LEVEL16 then Some (24 * n) else if level = 1 then Some (32 * n) else if level = 2 then Some (36 * n)
     else if level = 3 then Some 0xFFFFFFFF else None)"

definition wanted :: "u32 \<Rightarrow> stat \<Rightarrow> bool" where
  "wanted attr st \<longleftrightarrow>
    (let musthave = drop_bit 8 (attr AND 0xFF00); mayhave = attr AND 0xFF;
         isdir = S_ISDIR (st_mode st); readonly = (st_mode st AND S_IWUSR = 0) in
     (S_ISREG (st_mode st) \<or> isdir) \<and>
     (if isdir then mayhave AND FILE_DIRECTORY \<noteq> 0 else musthave AND FILE_DIRECTORY = 0) \<and>
     (if readonly then mayhave AND FILE_READONLY \<noteq> 0 else musthave AND FILE_READONLY = 0))"

text \<open>Storing an entry at offset \<open>off\<close>: the buffer, the next offset and the room that is left.\<close>

definition store_entry :: "localtime \<Rightarrow> u32 \<Rightarrow> bytes \<Rightarrow> stat \<Rightarrow> nat \<Rightarrow> u32 \<Rightarrow> bytes \<Rightarrow> (bytes \<times> nat \<times> u32) option" where
  "store_entry lt level name st off cb buf =
    (if level = LEVEL16 then do {
       a \<leftarrow> rd16 buf (off + 20);
       b \<leftarrow> wr_blk buf off (stat_fields lt st @ bytes16 (a OR ucast (attr_of st)) @ [of_nat (length name)] @ name @ [0]);
       Some (b, off, cb) }
     else if level = 1 then do {
       b0 \<leftarrow> wr_blk buf off (replicate 288 0);
       b \<leftarrow> wr_blk b0 off (bytes32 288 @ stat_fields lt st @ bytes32 (attr_of st) @ [of_nat (length name)] @ name @ [0]);
       Some (b, off + 288, cb - 288) }
     else do {
       b0 \<leftarrow> wr_blk buf off (replicate 292 0);
       b \<leftarrow> wr_blk b0 off (bytes32 292 @ stat_fields lt st @ bytes32 (attr_of st) @ bytes32 0 @ [of_nat (length name)] @ name @ [0]);
       Some (b, off + 292, cb - 292) })"

text \<open>The loop over the directory: whether an entry was found, what is left of the directory, the buffer.\<close>

fun find_loop ::
  "localtime \<Rightarrow> dirfinder \<Rightarrow> (bytes \<times> stat option) list \<Rightarrow> nat \<Rightarrow> u32 \<Rightarrow> bytes
     \<Rightarrow> (bool \<times> (bytes \<times> stat option) list \<times> bytes \<times> nat \<times> u32) option" where
  "find_loop lt df [] off cb buf = Some (False, [], buf, off, cb)"
| "find_loop lt df ((name, st) # ents) off cb buf =
    (if length name \<ge> 256 then find_loop lt df ents off cb buf
     else case findNextSizeNeeded (df_level df) 1 of
       None \<Rightarrow> None
     | Some need \<Rightarrow>
       if of_nat (length name) + need \<ge> cb then find_loop lt df ents off cb buf
       else if \<not> wildcardMatch name (df_pattern df) then find_loop lt df ents off cb buf
       else case st of
           None \<Rightarrow> find_loop lt df ents off cb buf
         | Some s \<Rightarrow>
             if \<not> wanted (df_attr df) s \<or> df_level df = 3 then find_loop lt df ents off cb buf
             else map_option (\<lambda>r. (True, ents, r)) (store_entry lt (df_level df) name s off cb buf))"

definition findNextOne ::
  "localtime \<Rightarrow> dirfinder \<Rightarrow> (bytes \<times> stat option) list \<Rightarrow> nat \<Rightarrow> u32 \<Rightarrow> bytes
     \<Rightarrow> (bool \<times> (bytes \<times> stat option) list \<times> bytes \<times> nat \<times> u32) option" where
  "findNextOne lt df ents off cb buf =
    (if drop_bit 8 (df_attr df AND 0xFF00) AND 0x26 \<noteq> 0 then Some (False, ents, buf, off, cb)
     else find_loop lt df ents off cb buf)"

fun find_many ::
  "localtime \<Rightarrow> dirfinder \<Rightarrow> nat \<Rightarrow> nat \<Rightarrow> (bytes \<times> stat option) list \<Rightarrow> nat \<Rightarrow> u32 \<Rightarrow> bytes
     \<Rightarrow> (nat \<times> (bytes \<times> stat option) list \<times> bytes) option" where
  "find_many lt df 0 i ents off cb buf = Some (i, ents, buf)"
| "find_many lt df (Suc n) i ents off cb buf =
    (case findNextOne lt df ents off cb buf of
       None \<Rightarrow> None
     | Some (found, ents', buf', off', cb') \<Rightarrow>
         if found then find_many lt df n (Suc i) ents' off' cb' buf' else Some (i, ents', buf'))"

text \<open>The result: the code and the number of entries, the search, and the buffer.\<close>

definition findNext :: "localtime \<Rightarrow> dirfinder \<Rightarrow> bytes \<Rightarrow> u32 \<Rightarrow> u32 \<Rightarrow> ((apiret \<times> u32) \<times> dirfinder \<times> bytes) option" where
  "findNext lt df buf cb count =
    (case df_dirp df of
       None \<Rightarrow> Some ((ERROR_NO_MORE_FILES, 0), df, buf)
     | Some ents \<Rightarrow> do {
         buf0 \<leftarrow> wr_blk buf 0 (replicate (unat cb) 0);
         (i, ents', buf') \<leftarrow> find_many lt df (unat count) 0 ents 0 cb buf0;
         Some (if i = 0 \<and> count > 0 then ((ERROR_NO_MORE_FILES, 0), df\<lparr>df_dirp := None\<rparr>, buf')
               else ((NO_ERROR, of_nat i), df\<lparr>df_dirp := Some ents'\<rparr>, buf')) })"

subsection \<open>Search handles\<close>

text \<open>
  A handle is the address of a search; \<open>ghdir1\<close> is the address of the one that always exists.  An
  address at which there is no search is a fault.
\<close>

record finders =
  searches :: "u32 \<rightharpoonup> dirfinder"
  ghdir1 :: u32

definition HDIR_CREATE :: u32 where "HDIR_CREATE = 0xFFFFFFFF"
definition HDIR_SYSTEM :: u32 where "HDIR_SYSTEM = 1"

definition set_search :: "u32 \<Rightarrow> dirfinder option \<Rightarrow> finders \<Rightarrow> finders" where
  "set_search h d f = f\<lparr>searches := (searches f)(h := d)\<rparr>"

definition empty_search :: dirfinder where
  "empty_search = \<lparr>df_dirp = None, df_attr = 0, df_level = 0, df_pattern = []\<rparr>"

fun opendir_error :: "errno \<Rightarrow> apiret" where
  "opendir_error EACCES = ERROR_ACCESS_DENIED"
| "opendir_error EMFILE = ERROR_NO_MORE_SEARCH_HANDLES"
| "opendir_error ENFILE = ERROR_NO_MORE_SEARCH_HANDLES"
| "opendir_error ENOMEM = ERROR_NOT_ENOUGH_MEMORY"
| "opendir_error ENAMETOOLONG = ERROR_FILENAME_EXCED_RANGE"
| "opendir_error _ = ERROR_PATH_NOT_FOUND"

text \<open>The directory that is opened, and the pattern.\<close>

definition split_spec :: "bytes \<Rightarrow> bytes \<times> bytes" where
  "split_spec path = (case last_slash path of Some k \<Rightarrow> (take k path, drop (Suc k) path) | None \<Rightarrow> (str ''.'', path))"

definition find_args_error ::
  "u32 option \<Rightarrow> u32 \<Rightarrow> bool \<Rightarrow> u32 \<Rightarrow> u32 option \<Rightarrow> u32 \<Rightarrow> apiret option option" where
  "find_args_error phdir attr buf_given cb count level =
    (if attr AND 0xFFFFC8C8 \<noteq> 0 then Some (Some ERROR_INVALID_PARAMETER)
     else if cb > 0xFFFF then Some (Some ERROR_INVALID_PARAMETER)
     else if level \<noteq> 1 \<and> level \<noteq> 2 \<and> level \<noteq> 3 \<and> level \<noteq> LEVEL16 then Some (Some ERROR_INVALID_PARAMETER)
     else case count of
       None \<Rightarrow> Some (Some ERROR_INVALID_PARAMETER)
     | Some n \<Rightarrow>
       if \<not> buf_given \<and> n \<noteq> 0 then Some (Some ERROR_INVALID_PARAMETER)
       else case phdir of
         None \<Rightarrow> Some (Some ERROR_INVALID_PARAMETER)
       | Some h \<Rightarrow>
         if h = 0 then Some (Some ERROR_INVALID_HANDLE)
         else case findNextSizeNeeded level n of
           None \<Rightarrow> None
         | Some need \<Rightarrow>
             if cb < need then Some (Some ERROR_BUFFER_OVERFLOW)
             else if level \<noteq> 1 \<and> level \<noteq> LEVEL16 then Some (Some ERROR_INVALID_PARAMETER)
             else Some None)"

text \<open>The result: the code, the handle and the count, the searches, the buffer.\<close>

definition DosFindFirst ::
  "localtime \<Rightarrow> (bytes \<Rightarrow> apiret + bytes) \<Rightarrow> (bytes \<Rightarrow> errno + (bytes \<times> stat option) list) \<Rightarrow> u32 option
     \<Rightarrow> bytes \<Rightarrow> u32 option \<Rightarrow> u32 \<Rightarrow> bytes option \<Rightarrow> u32 \<Rightarrow> u32 option \<Rightarrow> u32 \<Rightarrow> finders
     \<Rightarrow> ((apiret \<times> u32 option \<times> u32 option) \<times> finders \<times> bytes option) option" where
  "DosFindFirst lt makeUnixPath opendir malloc spec phdir flAttribute pbuf cb pcount level f = do {
     args \<leftarrow> find_args_error phdir flAttribute (pbuf \<noteq> None) cb pcount level;
     case args of
       Some e \<Rightarrow> Some ((e, phdir, pcount), f, pbuf)
     | None \<Rightarrow> do {
         h \<leftarrow> phdir; count \<leftarrow> pcount;
         let attr = (if flAttribute = 0 then 0x27 else flAttribute);
         case makeUnixPath spec of
           Inl e \<Rightarrow> Some ((e, phdir, pcount), f, pbuf)
         | Inr path \<Rightarrow>
           let (dir, pattern) = split_spec path in
           if length pattern \<ge> 256 then Some ((ERROR_FILENAME_EXCED_RANGE, phdir, pcount), f, pbuf)
           else if h = HDIR_CREATE \<and> malloc = None then Some ((ERROR_NOT_ENOUGH_MEMORY, phdir, pcount), f, pbuf)
           else let a = (if h = HDIR_SYSTEM then ghdir1 f else if h = HDIR_CREATE then the malloc else h);
                    f1 = (if h = HDIR_CREATE then set_search a (Some empty_search) f else f) in
             case opendir dir of
               Inl e \<Rightarrow> Some ((opendir_error e, phdir, pcount), f, pbuf)
             | Inr ents \<Rightarrow>
               if searches f1 a = None then None
               else let df = \<lparr>df_dirp = Some ents, df_attr = attr, df_level = level, df_pattern = pattern\<rparr> in do {
                 ((rc, n), df', buf') \<leftarrow> findNext lt df (case pbuf of Some b \<Rightarrow> b | None \<Rightarrow> []) cb count;
                 let pbuf' = map_option (\<lambda>_. buf') pbuf;
                 if rc \<noteq> NO_ERROR
                 then Some ((rc, phdir, Some n),
                   set_search a (if h = HDIR_CREATE then None else Some (df'\<lparr>df_dirp := None\<rparr>)) f1, pbuf')
                 else Some ((NO_ERROR, Some a, Some n), set_search a (Some df') f1, pbuf') } } }"

definition DosFindNext ::
  "localtime \<Rightarrow> u32 \<Rightarrow> bytes option \<Rightarrow> u32 \<Rightarrow> u32 option \<Rightarrow> finders \<Rightarrow> ((apiret \<times> u32 option) \<times> finders \<times> bytes option) option" where
  "DosFindNext lt hDir pbuf cb pcount f =
    (if hDir = 0 \<or> hDir = HDIR_SYSTEM \<or> hDir = HDIR_CREATE then Some ((ERROR_INVALID_HANDLE, pcount), f, pbuf)
     else if cb > 0xFFFF then Some ((ERROR_INVALID_PARAMETER, pcount), f, pbuf)
     else case pcount of
       None \<Rightarrow> Some ((ERROR_INVALID_PARAMETER, pcount), f, pbuf)
     | Some count \<Rightarrow>
       if pbuf = None \<and> count \<noteq> 0 then Some ((ERROR_INVALID_PARAMETER, pcount), f, pbuf)
       else do {
         df \<leftarrow> searches f hDir;
         need \<leftarrow> findNextSizeNeeded (df_level df) count;
         if cb < need then Some ((ERROR_BUFFER_OVERFLOW, pcount), f, pbuf)
         else do {
           ((rc, n), df', buf') \<leftarrow> findNext lt df (case pbuf of Some b \<Rightarrow> b | None \<Rightarrow> []) cb count;
           Some ((rc, Some n), set_search hDir (Some df') f, map_option (\<lambda>_. buf') pbuf) } })"

definition DosFindClose :: "u32 \<Rightarrow> finders \<Rightarrow> (apiret \<times> finders) option" where
  "DosFindClose hDir f =
    (if hDir = 0 \<or> hDir = HDIR_SYSTEM \<or> hDir = HDIR_CREATE then Some (ERROR_INVALID_HANDLE, f)
     else do {
       df \<leftarrow> searches f hDir;
       Some (NO_ERROR, set_search hDir (if hDir = ghdir1 f then Some empty_search else None) f) })"

subsection \<open>The 16-bit calls\<close>

text \<open>Ten handles, kept in an array that exists after the first call (\<open>None\<close> before).\<close>

definition hdir16_start :: "u32 list" where
  "hdir16_start = replicate 10 0"

fun free_hdir16 :: "u32 list \<Rightarrow> nat option" where
  "free_hdir16 [] = None"
| "free_hdir16 (h # hs) = (if h = 0 then Some 0 else map_option Suc (free_hdir16 hs))"

definition Dos16FindFirst ::
  "localtime \<Rightarrow> (bytes \<Rightarrow> apiret + bytes) \<Rightarrow> (bytes \<Rightarrow> errno + (bytes \<times> stat option) list) \<Rightarrow> u32 option
     \<Rightarrow> bytes \<Rightarrow> u16 \<Rightarrow> u16 \<Rightarrow> bytes option \<Rightarrow> u16 \<Rightarrow> u16 \<Rightarrow> u32 list option \<times> finders
     \<Rightarrow> ((apiret \<times> u16 \<times> u16) \<times> (u32 list option \<times> finders) \<times> bytes option) option" where
  "Dos16FindFirst lt makeUnixPath opendir malloc spec hdir attr pbuf cb count = (\<lambda>(tab0, f). do {
     let tab = (case tab0 of Some t \<Rightarrow> t | None \<Rightarrow> hdir16_start);
     ((rc, h, n), f', pbuf') \<leftarrow> DosFindFirst lt makeUnixPath opendir malloc spec (Some (scast hdir)) (ucast attr) pbuf (ucast cb)
       (Some (ucast count)) LEVEL16 f;
     if rc \<noteq> NO_ERROR then Some ((rc, hdir, count), (Some tab, f'), pbuf')
     else case free_hdir16 tab of
       None \<Rightarrow> Some ((ERROR_NO_MORE_FILES, hdir, count), (Some tab, f'), pbuf')
     | Some i \<Rightarrow> do {
         h32 \<leftarrow> h; n32 \<leftarrow> n;
         Some ((rc, of_nat i, ucast n32), (Some (tab[i := h32]), f'), pbuf') } })"

text \<open>An index outside the array, and an array that does not exist yet, are faults.\<close>

definition hdir16_at :: "u32 list option \<Rightarrow> u16 \<Rightarrow> u32 option" where
  "hdir16_at tab i = (case tab of None \<Rightarrow> None | Some t \<Rightarrow> if unat i < length t then Some (t ! unat i) else None)"

definition Dos16FindNext ::
  "localtime \<Rightarrow> u16 \<Rightarrow> bytes option \<Rightarrow> u16 \<Rightarrow> u16 \<Rightarrow> u32 list option \<times> finders
     \<Rightarrow> ((apiret \<times> u16) \<times> (u32 list option \<times> finders) \<times> bytes option) option" where
  "Dos16FindNext lt hDir pbuf cb count = (\<lambda>(tab, f). do {
     h \<leftarrow> hdir16_at tab hDir;
     ((rc, n), f', pbuf') \<leftarrow> DosFindNext lt h pbuf (ucast cb) (Some (ucast count)) f;
     n32 \<leftarrow> n;
     Some ((rc, ucast n32), (tab, f'), pbuf') })"

definition Dos16FindClose :: "u16 \<Rightarrow> u32 list option \<times> finders \<Rightarrow> (apiret \<times> u32 list option \<times> finders) option" where
  "Dos16FindClose hDir = (\<lambda>(tab, f).
     if hDir > 10 then Some (ERROR_INVALID_HANDLE, tab, f)
     else do {
       h \<leftarrow> hdir16_at tab hDir;
       t \<leftarrow> tab;
       (rc, f') \<leftarrow> DosFindClose h f;
       Some (rc, Some (t[unat hDir := 0]), f') })"

text \<open>The handle 10 passes the check but is outside the array.\<close>

lemma Dos16FindClose_10: "Dos16FindClose 10 (Some hdir16_start, f) = None"
  by (simp add: Dos16FindClose_def hdir16_at_def hdir16_start_def)

text \<open>A search in the root directory opens the directory with the empty name.\<close>

lemma split_spec_root: "SLASH \<notin> set pattern \<Longrightarrow> split_spec (SLASH # pattern) = ([], pattern)"
proof -
  assume "SLASH \<notin> set pattern"
  then have "last_slash pattern = None" by (induction pattern) auto
  then show ?thesis by (simp add: split_spec_def)
qed

subsection \<open>Room in the buffer\<close>

text \<open>
  C35.  A search stores whole structures of 288 bytes, but asks only for room for the 32 bytes before
  the name and the name.  For a program that asks for one entry, with a buffer as long as it
  says, a call that finds a name it takes runs over the end of the buffer exactly when the buffer is
  shorter than the structure.
\<close>

lemma store_entry_level1:
  assumes "length buf = n" "length name < 256"
  shows "store_entry lt 1 name s 0 cb buf = None \<longleftrightarrow> n < 288"
    "288 \<le> n \<Longrightarrow> \<exists>b. store_entry lt 1 name s 0 cb buf = Some (b, 288, cb - 288) \<and> length b = n"
proof -
  have l: "LEVEL16 \<noteq> 1" by (simp add: LEVEL16_def)
  show "store_entry lt 1 name s 0 cb buf = None \<longleftrightarrow> n < 288"
    "288 \<le> n \<Longrightarrow> \<exists>b. store_entry lt 1 name s 0 cb buf = Some (b, 288, cb - 288) \<and> length b = n"
    using assms l by (auto simp: store_entry_def wr_blk_def blit_def Let_def)
qed

theorem DosFindNext_overflow:
  assumes "searches f h = Some df" "h \<noteq> 0" "h \<noteq> HDIR_SYSTEM" "h \<noteq> HDIR_CREATE" "df_level df = 1"
    "df_dirp df = Some ((name, Some s) # ents)" "drop_bit 8 (df_attr df AND 0xFF00) AND 0x26 = 0"
    "length name < 256" "wildcardMatch name (df_pattern df)" "wanted (df_attr df) s"
    "length buf = unat cb" "cb \<le> 0xFFFF" "length name + 32 < unat cb"
  shows "DosFindNext lt h (Some buf) cb (Some 1) f = None \<longleftrightarrow> unat cb < 288"
proof -
  have room: "\<not> of_nat (length name) + 32 \<ge> cb"
  proof -
    have "unat (of_nat (length name) + 32 :: u32) = length name + 32" using assms(8) by (simp add: unat_word_ariths unat_of_nat)
    then show ?thesis using assms(13) by (simp add: word_le_nat_alt)
  qed
  have cb: "\<not> 0xFFFF < cb" "\<not> cb < 32" using assms(12,13) by (auto simp: word_less_nat_alt word_le_nat_alt)
  let ?b0 = "replicate (unat cb) 0"
  have w: "wr_blk buf 0 (replicate (unat cb) 0) = Some (replicate (unat cb) 0)" using assms(11) by (simp add: wr_blk_def blit_def)
  have fl: "find_loop lt df ((name, Some s) # ents) 0 cb ?b0 = map_option (\<lambda>r. (True, ents, r)) (store_entry lt 1 name s 0 cb ?b0)"
    using room assms(5,8-10) by (simp add: findNextSizeNeeded_def LEVEL16_def)
  have fo: "findNextOne lt df ((name, Some s) # ents) 0 cb ?b0 = map_option (\<lambda>r. (True, ents, r)) (store_entry lt 1 name s 0 cb ?b0)"
    unfolding findNextOne_def using fl assms(7) by (simp del: find_loop.simps)
  have "find_many lt df 1 0 ((name, Some s) # ents) 0 cb ?b0 = None \<longleftrightarrow> store_entry lt 1 name s 0 cb ?b0 = None"
    unfolding One_nat_def find_many.simps fo by (cases "store_entry lt 1 name s 0 cb ?b0") auto
  also have "\<dots> \<longleftrightarrow> unat cb < 288" by (rule store_entry_level1(1)) (use assms(8) in simp_all)
  finally have fm: "find_many lt df 1 0 ((name, Some s) # ents) 0 cb ?b0 = None \<longleftrightarrow> unat cb < 288" .
  have "findNext lt df buf cb 1 = None \<longleftrightarrow> unat cb < 288"
    unfolding findNext_def assms(6) option.case w bind.bind_lunit using fm
    by (cases "find_many lt df 1 0 ((name, Some s) # ents) 0 cb ?b0") auto
  then show ?thesis
    using assms(1-5) cb by (cases "findNext lt df buf cb 1") (auto simp: DosFindNext_def findNextSizeNeeded_def LEVEL16_def)
qed

definition demo_localtime :: localtime where
  "demo_localtime t = \<lparr>tm_sec = 0, tm_min = 0, tm_hour = 0, tm_mday = 1, tm_mon = 0, tm_year = 80\<rparr>"

definition demo_search :: dirfinder where
  "demo_search = \<lparr>df_dirp = Some [(str ''a'', Some \<lparr>st_mode = 0x8180, st_size = 5, st_blocks = 1, st_atime = 0, st_mtime = 0\<rparr>)],
    df_attr = 0x27, df_level = 1, df_pattern = str ''*''\<rparr>"

definition demo_finders :: finders where
  "demo_finders = \<lparr>searches = [0x1000 \<mapsto> demo_search], ghdir1 = 0x2000\<rparr>"

theorem DosFindNext_overflow_witness:
  "DosFindNext demo_localtime 0x1000 (Some (replicate 100 0)) 100 (Some 1) demo_finders = None"
proof -
  have w: "wildcardMatch (str ''a'') (str ''*'')" "wanted 0x27 \<lparr>st_mode = 0x8180, st_size = 5, st_blocks = 1, st_atime = 0, st_mtime = 0\<rparr>"
    by code_simp+
  have "DosFindNext demo_localtime 0x1000 (Some (replicate 100 0)) 100 (Some 1) demo_finders = None \<longleftrightarrow> unat (100 :: u32) < 288"
    by (rule DosFindNext_overflow [where df = demo_search and name = "str ''a''" and ents = "[]"
        and s = "\<lparr>st_mode = 0x8180, st_size = 5, st_blocks = 1, st_atime = 0, st_mtime = 0\<rparr>"])
      (use w in \<open>simp_all add: demo_finders_def demo_search_def HDIR_SYSTEM_def HDIR_CREATE_def str_def\<close>)
  then show ?thesis by simp
qed

text \<open>
  C36.  A name that the matcher accepts matches the pattern, and for a pattern without a star before
  its end the matcher accepts exactly the names that match.
\<close>

theorem wildcardMatch_sound:
  shows "(wildcardMatch name pattern \<longrightarrow> glob False name pattern) \<and>
    (STAR \<notin> set (butlast pattern) \<longrightarrow> (wildcardMatch name pattern \<longleftrightarrow> glob False name pattern))"
  using wildcard_loop_sound wildcard_loop_complete by (auto simp: wildcardMatch_def)

theorem wildcardMatch_sound_witness:
  "wildcardMatch (str ''a.b.TXT'') (str ''a.b.tx?'') \<and> glob False (str ''a.b.TXT'') (str ''a.b.tx?'')"
proof -
  have w: "wildcardMatch (str ''a.b.TXT'') (str ''a.b.tx?'')" by code_simp
  then show ?thesis using wildcardMatch_sound [of "str ''a.b.TXT''" "str ''a.b.tx?''"] by blast
qed

text \<open>A star in front is not tried again: a name with two periods is not found by its extension.\<close>

lemma wildcardMatch_incomplete:
  "\<not> wildcardMatch (str ''a.b.txt'') (str ''*.txt'') \<and> glob False (str ''a.b.txt'') (str ''*.txt'')"
proof
  show "\<not> wildcardMatch (str ''a.b.txt'') (str ''*.txt'')" by code_simp
  have "glob True (str ''txt'') (str ''txt'')"
    by (simp add: str_def) (intro glob_char glob_end; simp add: QMARK_def STAR_def PERIOD_def)
  then have "glob False (str ''a.b'' @ PERIOD # str ''txt'') (STAR # PERIOD # str ''txt'')"
    by (intro glob_star glob_dot)
  then show "glob False (str ''a.b.txt'') (str ''*.txt'')" by (simp add: str_def STAR_def PERIOD_def)
qed

end
