(* ===== verification/DosExec.thy ===== *)
theory DosExec
  imports Paths
begin

section \<open>Starting programs (\<^verbatim>\<open>native/doscalls.c\<close>)\<close>

text \<open>
  \<open>DosExecPgm\<close> turns the argument and environment strings of OS/2 into the arrays of \<^verbatim>\<open>execve\<close>.  Each
  array and the strings it points to share one allocated block: first the pointers, then the
  characters.  The block is modelled as its two areas: \<open>slots\<close> pointers and \<open>room\<close> bytes.  A pointer
  stored outside the first area lands in the strings (or behind the block), and a byte outside the second
  is behind the block: both are faults (\<open>None\<close>).
\<close>

definition BLANK :: u8 where "BLANK = 0x20"
definition TAB :: u8 where "TAB = 0x09"
definition QUOTE :: u8 where "QUOTE = 0x22"

definition blank :: "u8 \<Rightarrow> bool" where
  "blank c \<longleftrightarrow> c = BLANK \<or> c = TAB"

record vec =
  v_slots :: nat
  v_room :: nat
  v_args :: "bytes list"

text \<open>Storing the next pointer with its string and the string's NUL.\<close>

definition put_arg :: "bytes \<Rightarrow> vec \<Rightarrow> vec option" where
  "put_arg s v = (if v_slots v = 0 \<or> v_room v < length s + 1 then None
     else Some (v\<lparr>v_slots := v_slots v - 1, v_room := v_room v - (length s + 1), v_args := v_args v @ [s]\<rparr>))"

text \<open>Storing the NULL at the end of the pointers; the result is the array.\<close>

definition end_vec :: "vec \<Rightarrow> bytes list option" where
  "end_vec v = (if v_slots v = 0 then None else Some (v_args v))"

subsection \<open>Arguments\<close>

lemma length_dropWhile_less: "length (dropWhile P s) < Suc (length s)"
  by (simp add: length_dropWhile_le less_Suc_eq_le)

lemma length_after_quote: "length (dropWhile P (drop n (dropWhile Q s))) < Suc (length s)"
proof -
  have "length (dropWhile P (drop n (dropWhile Q s))) \<le> length (drop n (dropWhile Q s))" by (rule length_dropWhile_le)
  also have "\<dots> \<le> length (dropWhile Q s)" by simp
  also have "\<dots> \<le> length s" by (rule length_dropWhile_le)
  finally show ?thesis by simp
qed

text \<open>
  The loop over the arguments: \<open>cur\<close> are the bytes from \<^verbatim>\<open>srcstart\<close> to \<^verbatim>\<open>src\<close>, \<open>s\<close> the bytes from \<^verbatim>\<open>src\<close>
  on.  At a quote \<^verbatim>\<open>srcstart\<close> moves one byte on, whether or not the argument starts with the quote.
\<close>

function argv_loop :: "bytes \<Rightarrow> bytes \<Rightarrow> vec \<Rightarrow> vec option" where
  "argv_loop cur [] v = (if cur \<noteq> [] then put_arg cur v else Some v)"
| "argv_loop cur (c # s) v =
    (if blank c then do { v1 \<leftarrow> put_arg cur v; argv_loop [] (dropWhile blank s) v1 }
     else if c = QUOTE then do {
       v1 \<leftarrow> put_arg (drop 1 (cur @ [c]) @ takeWhile (\<lambda>d. d \<noteq> QUOTE) s) v;
       argv_loop [] (dropWhile blank (drop 1 (dropWhile (\<lambda>d. d \<noteq> QUOTE) s))) v1 }
     else argv_loop (cur @ [c]) s v)"
  by pat_completeness auto

termination by (relation "measure (\<lambda>(cur, s, v). length s)") (use length_dropWhile_less length_after_quote in simp_all)

declare argv_loop.simps(2) [simp del]

text \<open>
  The first string of \<open>args\<close> is the program, the second its arguments.  The block has a slot for each
  blank and four more, and a byte for each byte of the two strings, its NUL and each slot but one.
\<close>

definition calcArgv :: "bool \<Rightarrow> bytes \<Rightarrow> bytes \<Rightarrow> (apiret + bytes list) option" where
  "calcArgv mem_ok prog args =
    (if prog = [] then Some (Inl ERROR_BAD_ENVIRONMENT)
     else
       let idx = 2 + length (filter blank args);
           len = length args + length prog + 1 + 4 + idx * 5;
           slots = idx + 1
       in if \<not> mem_ok then Some (Inl ERROR_NOT_ENOUGH_MEMORY)
          else do {
            v \<leftarrow> put_arg prog \<lparr>v_slots = slots, v_room = len - 4 * slots, v_args = []\<rparr>;
            v1 \<leftarrow> argv_loop [] (dropWhile blank args) v;
            map_option Inr (end_vec v1) })"

lemma words_of_decreases: "dropWhile blank s \<noteq> [] \<Longrightarrow> length (dropWhile (\<lambda>c. \<not> blank c) (dropWhile blank s)) < length s"
proof -
  assume ne: "dropWhile blank s \<noteq> []"
  then obtain c t where t: "dropWhile blank s = c # t" by (cases "dropWhile blank s") auto
  then have "\<not> blank c" using hd_dropWhile [OF ne] by simp
  then have "length (dropWhile (\<lambda>c. \<not> blank c) (dropWhile blank s)) \<le> length t" using t by (simp add: length_dropWhile_le)
  also have "\<dots> < length (dropWhile blank s)" using t by simp
  also have "\<dots> \<le> length s" by (rule length_dropWhile_le)
  finally show ?thesis .
qed

text \<open>The reference: the words of a string.\<close>

function words_of :: "bytes \<Rightarrow> bytes list" where
  "words_of s = (let t = dropWhile blank s in
     if t = [] then [] else takeWhile (\<lambda>c. \<not> blank c) t # words_of (dropWhile (\<lambda>c. \<not> blank c) t))"
  by pat_completeness auto

termination by (relation "measure length") (use words_of_decreases in auto)

declare words_of.simps [simp del]

lemma words_of_blank: "blank c \<Longrightarrow> words_of (c # s) = words_of s"
  by (subst (1 2) words_of.simps) simp

lemma words_of_dropWhile: "words_of (dropWhile blank s) = words_of s"
  by (induction s) (auto simp: words_of_blank)

lemma words_of_Nil [simp]: "words_of [] = []"
  by (simp add: words_of.simps)

text \<open>What is left of the word the loop is in, and then the words after it.\<close>

lemma words_of_word: "cur \<noteq> [] \<Longrightarrow> \<forall>c \<in> set cur. \<not> blank c \<Longrightarrow>
    words_of (cur @ s) = (cur @ takeWhile (\<lambda>c. \<not> blank c) s) # words_of (dropWhile (\<lambda>c. \<not> blank c) s)"
proof -
  assume cur: "cur \<noteq> []" "\<forall>c \<in> set cur. \<not> blank c"
  then have "dropWhile blank (cur @ s) = cur @ s" by (cases cur) auto
  moreover have "takeWhile (\<lambda>c. \<not> blank c) (cur @ s) = cur @ takeWhile (\<lambda>c. \<not> blank c) s"
    "dropWhile (\<lambda>c. \<not> blank c) (cur @ s) = dropWhile (\<lambda>c. \<not> blank c) s" using cur(2) by simp_all
  ultimately show ?thesis using cur(1) by (subst words_of.simps) simp
qed

lemma blank_count_drop: "length (filter blank (dropWhile blank s)) + length (takeWhile blank s) = length (filter blank s)"
  by (induction s) auto

lemma set_dropWhile_sub: "set (dropWhile P s) \<subseteq> set s"
  by (induction s) auto

text \<open>Without quotes the loop stores the words, if there are slots for the blanks and room for the bytes.\<close>

lemma argv_loop_words:
  assumes "QUOTE \<notin> set s" "\<forall>c \<in> set cur. \<not> blank c" "cur = [] \<longrightarrow> s = [] \<or> \<not> blank (hd s)"
    "length (filter blank s) + 2 \<le> v_slots v" "length cur + length s + 1 \<le> v_room v"
  shows "\<exists>v'. argv_loop cur s v = Some v' \<and> v_args v' = v_args v @ words_of (cur @ s) \<and> 0 < v_slots v'"
  using assms
proof (induction cur s v rule: argv_loop.induct)
  case (1 cur v)
  show ?case
  proof (cases "cur = []")
    case False
    then have "words_of cur = [cur]" using words_of_word [of cur "[]"] 1 by simp
    then show ?thesis using 1 False by (simp add: put_arg_def)
  qed (use 1 in simp)
next
  case (2 cur c s v)
  show ?case
  proof (cases "blank c")
    case True
    then have cur: "cur \<noteq> []" using "2.prems"(3) by auto
    define v1 where "v1 = v\<lparr>v_slots := v_slots v - 1, v_room := v_room v - (length cur + 1), v_args := v_args v @ [cur]\<rparr>"
    have p: "put_arg cur v = Some v1" using "2.prems"(4,5) by (simp add: put_arg_def v1_def)
    have w: "words_of (cur @ c # s) = cur # words_of (dropWhile blank s)"
      using words_of_word [OF cur "2.prems"(2), of "c # s"] True by (simp add: words_of_blank words_of_dropWhile)
    have d: "QUOTE \<notin> set (dropWhile blank s)" using "2.prems"(1) using set_dropWhile_sub [of blank s] by auto
    have h: "dropWhile blank s = [] \<or> \<not> blank (hd (dropWhile blank s))" using hd_dropWhile by blast
    have n: "length (filter blank (dropWhile blank s)) + 2 \<le> v_slots v1" "length (dropWhile blank s) + 1 \<le> v_room v1"
      using "2.prems"(4,5) True blank_count_drop [of s] length_dropWhile_le [of blank s] by (simp_all add: v1_def)
    have "\<exists>v'. argv_loop [] (dropWhile blank s) v1 = Some v' \<and> v_args v' = v_args v1 @ words_of ([] @ dropWhile blank s) \<and> 0 < v_slots v'"
      by (rule "2.IH"(1) [OF True p d]) (use h n in simp_all)
    then show ?thesis using True p w by (auto simp: argv_loop.simps(2) v1_def)
  next
    case False
    have q: "c \<noteq> QUOTE" using "2.prems"(1) by auto
    have "\<exists>v'. argv_loop (cur @ [c]) s v = Some v' \<and> v_args v' = v_args v @ words_of ((cur @ [c]) @ s) \<and> 0 < v_slots v'"
      by (rule "2.IH"(3) [OF False q]) (use "2.prems" False in auto)
    then show ?thesis using False q by (simp add: argv_loop.simps(2))
  qed
qed

lemma calcArgv_runs:
  assumes "prog \<noteq> []" "QUOTE \<notin> set args"
  shows "calcArgv True prog args = Some (Inr (prog # words_of args))"
proof -
  let ?n = "length (filter blank args)"
  define v where "v = \<lparr>v_slots = ?n + 2, v_room = length args + ?n + 2, v_args = [prog]\<rparr>"
  have p: "put_arg prog \<lparr>v_slots = 2 + ?n + 1, v_room = length args + length prog + 1 + 4 + (2 + ?n) * 5 - 4 * (2 + ?n + 1), v_args = []\<rparr> = Some v"
    by (simp add: put_arg_def v_def)
  have h: "dropWhile blank args = [] \<or> \<not> blank (hd (dropWhile blank args))" using hd_dropWhile by blast
  have n: "length (filter blank (dropWhile blank args)) + 2 \<le> v_slots v" "length (dropWhile blank args) + 1 \<le> v_room v"
    using blank_count_drop [of args] length_dropWhile_le [of blank args] by (simp_all add: v_def)
  have d: "QUOTE \<notin> set (dropWhile blank args)" using assms(2) using set_dropWhile_sub [of blank args] by auto
  have "\<exists>v'. argv_loop [] (dropWhile blank args) v = Some v' \<and> v_args v' = v_args v @ words_of ([] @ dropWhile blank args) \<and> 0 < v_slots v'"
    by (rule argv_loop_words [OF d]) (use h n in simp_all)
  then obtain v' where "argv_loop [] (dropWhile blank args) v = Some v'" "v_args v' = prog # words_of args" "0 < v_slots v'"
    by (auto simp: words_of_dropWhile v_def)
  then show ?thesis unfolding calcArgv_def Let_def p using assms(1) by (simp add: end_vec_def)
qed

text \<open>
  C37.  Arguments without quotes are split at blanks, safely: the array is the program followed by the
  words of the arguments, and neither the pointers nor the strings leave their part of the block.
\<close>

theorem calcArgv_words:
  assumes "prog \<noteq> []" "QUOTE \<notin> set args"
  shows "calcArgv True prog args = Some (Inr (prog # words_of args))"
  using assms by (rule calcArgv_runs)

theorem calcArgv_words_witness:
  "calcArgv True (str ''game'') (str '' -w  320'') = Some (Inr [str ''game'', str ''-w'', str ''320''])"
proof -
  have w: "words_of (str '' -w  320'') = [str ''-w'', str ''320'']" by code_simp
  show ?thesis unfolding w [symmetric]
    by (rule calcArgv_words) (simp_all add: str_def QUOTE_def)
qed

text \<open>
  With quotes there can be more arguments than blanks and the pointers run into the strings; and a quote
  inside a word takes the word's first byte away instead of the quote.
\<close>

lemma calcArgv_quotes_overflow: "calcArgv True [0x61] [QUOTE, QUOTE, QUOTE, QUOTE, QUOTE, QUOTE] = None"
  by code_simp

lemma calcArgv_quote_inside: "calcArgv True [0x61] ([0x62, 0x63, QUOTE, 0x64, QUOTE]) = Some (Inr [[0x61], [0x63, QUOTE, 0x64]])"
  by code_simp

subsection \<open>The environment\<close>

text \<open>
  The environment is one block: its strings, each with its NUL, and another NUL behind the last.  The
  first pass counts the bytes and the strings (\<open>None\<close>: it runs off the block), the second copies.
\<close>

fun env_count :: "nat \<Rightarrow> nat \<Rightarrow> bytes \<Rightarrow> (nat \<times> nat) option" where
  "env_count len idx [] = None"
| "env_count len idx (c # s) =
    (if c \<noteq> 0 then env_count (len + 1) idx s
     else case s of [] \<Rightarrow> None
       | d # r \<Rightarrow> if d = 0 then Some (len + 5, idx + 1) else env_count (len + 5) (idx + 1) (d # r))"

fun env_copy :: "bytes \<Rightarrow> bytes \<Rightarrow> vec \<Rightarrow> vec option" where
  "env_copy cur [] v = None"
| "env_copy cur (c # s) v =
    (if c \<noteq> 0 then env_copy (cur @ [c]) s v
     else do {
       v1 \<leftarrow> put_arg cur v;
       case s of [] \<Rightarrow> None | d # r \<Rightarrow> if d = 0 then Some v1 else env_copy [] (d # r) v1 })"

text \<open>
  The result: the array, or the null pointer with the error that was stored, if one was.  For an empty
  environment neither \<^verbatim>\<open>IS_2INE\<close> is added nor an error stored.
\<close>

definition calcEnvp :: "bool \<Rightarrow> bytes \<Rightarrow> bytes \<Rightarrow> (apiret option + bytes list) option" where
  "calcEnvp mem_ok env exe = do {
     c \<leftarrow> rd8 env 0;
     if c = 0 then Some (if mem_ok then Inr [] else Inl None)
     else do {
       (len, n) \<leftarrow> env_count 0 0 env;
       let len = len + 4 + (length exe + 16 + 4);
       let idx = n + 1;
       if \<not> mem_ok then Some (Inl (Some ERROR_NOT_ENOUGH_MEMORY))
       else do {
         v \<leftarrow> env_copy [] env \<lparr>v_slots = idx + 1, v_room = len - 4 * (idx + 1), v_args = []\<rparr>;
         v1 \<leftarrow> put_arg (str ''IS_2INE='' @ exe) v;
         guard (0 < v_room v1);
         map_option Inr (end_vec v1) } } }"

text \<open>The block of a list of strings.\<close>

definition env_block :: "bytes list \<Rightarrow> bytes" where
  "env_block ss = concat (map (\<lambda>s. s @ [0]) ss) @ [0]"

definition env_strings :: "bytes list \<Rightarrow> bool" where
  "env_strings ss \<longleftrightarrow> (\<forall>s \<in> set ss. s \<noteq> [] \<and> 0 \<notin> set s)"

lemma env_block_Cons: "env_block (s # ss) = s @ 0 # env_block ss"
  by (simp add: env_block_def)

lemma env_block_start: "env_strings ss \<Longrightarrow> \<exists>d r. env_block ss = d # r \<and> (d = 0 \<longleftrightarrow> ss = [])"
proof (cases ss)
  case (Cons s t)
  moreover assume "env_strings ss"
  ultimately obtain d r where "s = d # r" "d \<noteq> 0" by (cases s) (auto simp: env_strings_def)
  then show ?thesis using Cons by (simp add: env_block_Cons)
qed (simp add: env_block_def)

lemma env_count_string: "0 \<notin> set s \<Longrightarrow> env_count len idx (s @ r) = env_count (len + length s) idx r"
  by (induction s arbitrary: len) auto

lemma env_copy_string: "0 \<notin> set s \<Longrightarrow> env_copy cur (s @ r) v = env_copy (cur @ s) r v"
  by (induction s arbitrary: cur) auto

lemma env_strings_Cons: "env_strings (s # ss) \<longleftrightarrow> s \<noteq> [] \<and> 0 \<notin> set s \<and> env_strings ss"
  by (auto simp: env_strings_def)

lemma env_count_block: "env_strings ss \<Longrightarrow> ss \<noteq> [] \<Longrightarrow>
    env_count len idx (env_block ss) = Some (len + length (concat ss) + 5 * length ss, idx + length ss)"
proof (induction ss arbitrary: len idx)
  case (Cons s ss)
  have s: "0 \<notin> set s" "env_strings ss" using Cons.prems(1) by (auto simp: env_strings_Cons)
  obtain d r where d: "env_block ss = d # r" "d = 0 \<longleftrightarrow> ss = []" using env_block_start [OF s(2)] by blast
  show ?case
  proof (cases "ss = []")
    case True
    then show ?thesis using d s by (simp add: env_block_Cons env_count_string)
  next
    case False
    have "env_count len idx (s @ 0 # d # r) = env_count (len + length s) idx (0 # d # r)" using s(1) by (rule env_count_string)
    also have "\<dots> = env_count (len + length s + 5) (idx + 1) (d # r)"
      using d(2) False by (subst env_count.simps(2)) (simp del: env_count.simps)
    also have "\<dots> = Some (len + length s + 5 + length (concat ss) + 5 * length ss, idx + 1 + length ss)"
      using Cons.IH [OF s(2) False] d(1) by metis
    finally show ?thesis by (simp add: env_block_Cons d(1))
  qed
qed simp

lemma env_copy_block: "env_strings ss \<Longrightarrow> ss \<noteq> [] \<Longrightarrow> length ss \<le> v_slots v \<Longrightarrow>
    length (concat ss) + length ss \<le> v_room v \<Longrightarrow>
    env_copy [] (env_block ss) v = Some (v\<lparr>v_slots := v_slots v - length ss,
      v_room := v_room v - (length (concat ss) + length ss), v_args := v_args v @ ss\<rparr>)"
proof (induction ss arbitrary: v)
  case (Cons s ss)
  have s: "0 \<notin> set s" "env_strings ss" using Cons.prems(1) by (auto simp: env_strings_Cons)
  obtain d r where d: "env_block ss = d # r" "d = 0 \<longleftrightarrow> ss = []" using env_block_start [OF s(2)] by blast
  define v1 where "v1 = v\<lparr>v_slots := v_slots v - 1, v_room := v_room v - (length s + 1), v_args := v_args v @ [s]\<rparr>"
  have p: "put_arg s v = Some v1" using Cons.prems by (simp add: put_arg_def v1_def)
  show ?case
  proof (cases "ss = []")
    case True
    then show ?thesis using d s p by (simp add: env_block_Cons env_copy_string v1_def)
  next
    case False
    have "length ss \<le> v_slots v1" "length (concat ss) + length ss \<le> v_room v1"
      using Cons.prems by (simp_all add: v1_def)
    from Cons.IH [OF s(2) False this] show ?thesis
      using d s p False by (simp add: env_block_Cons env_copy_string v1_def)
  qed
qed simp

text \<open>The array of the child is the strings of the parent and one more, and it fits its block.\<close>

lemma calcEnvp_strings:
  assumes "env_strings ss" "ss \<noteq> []"
  shows "calcEnvp True (env_block ss) exe = Some (Inr (ss @ [str ''IS_2INE='' @ exe]))"
proof -
  obtain d r where d: "env_block ss = d # r" "d \<noteq> 0" using env_block_start [OF assms(1)] assms(2) by blast
  have r: "rd8 (env_block ss) 0 = Some d" using d by (simp add: rd8_def)
  have len: "length (str ''IS_2INE='') = 8" by (simp add: str_def)
  show ?thesis unfolding calcEnvp_def r env_count_block [OF assms] Let_def
    using d(2) assms by (simp add: env_copy_block put_arg_def len end_vec_def guard_def)
qed

lemma calcEnvp_empty: "calcEnvp mem_ok (env_block []) exe = Some (if mem_ok then Inr [] else Inl None)"
  by (simp add: calcEnvp_def env_block_def rd8_def)

subsection \<open>Result codes\<close>

record rescodes =
  codeTerminate :: u32
  codeResult :: u32

definition WTERMSIG :: "u32 \<Rightarrow> u32" where
  "WTERMSIG status = status AND 0x7F"

definition setProcessResultCode :: "rescodes option \<Rightarrow> u32 \<Rightarrow> rescodes option" where
  "setProcessResultCode pRes status = (case pRes of
     None \<Rightarrow> None
   | Some r \<Rightarrow> Some (
       if WTERMSIG status = 0 then r\<lparr>codeTerminate := 0, codeResult := drop_bit 8 (status AND 0xFF00)\<rparr>
       else if WTERMSIG status \<noteq> 0x7F then
         r\<lparr>codeResult := 0, codeTerminate :=
           (if WTERMSIG status \<in> {15, 9, 2, 3} then 3 else if WTERMSIG status \<in> {13, 6} then 1 else 4)\<rparr>
       else r))"

lemma setProcessResultCode_exit:
  assumes "n < 256"
  shows "setProcessResultCode (Some r) (of_nat (256 * n)) = Some \<lparr>codeTerminate = 0, codeResult = of_nat n, \<dots> = rescodes.more r\<rparr>"
proof -
  have s: "(of_nat (256 * n) :: u32) = push_bit 8 (of_nat n)" by (simp add: push_bit_eq_mult)
  have b: "bit (of_nat n :: u32) k \<Longrightarrow> k < 8" for k
  proof -
    assume "bit (of_nat n :: u32) k"
    then have "bit n k" by (simp add: bit_of_nat_iff)
    then have "odd (n div 2 ^ k)" by (rule iffD1 [OF bit_iff_odd])
    then have "2 ^ k \<le> n" by (cases "n < 2 ^ k") (simp_all add: not_less)
    then have "(2 :: nat) ^ k < 2 ^ 8" using assms by simp
    then show "k < 8" by (simp only: power_strict_increasing_iff)
  qed
  have t: "WTERMSIG (push_bit 8 (of_nat n)) = 0"
    unfolding WTERMSIG_def and_mask_nums by (rule bit_word_eqI) (simp add: bit_simps)
  have "drop_bit 8 (push_bit 8 (of_nat n) AND 0xFF00) = (of_nat n :: u32)"
  proof (rule bit_word_eqI)
    fix k :: nat assume "k < LENGTH(32)"
    have m: "(0xFF00 :: u32) = push_bit 8 (Bit_Operations.mask 8)" by (simp add: mask_eq_exp_minus_1)
    show "bit (drop_bit 8 (push_bit 8 (of_nat n) AND 0xFF00) :: u32) k = bit (of_nat n :: u32) k"
      unfolding m using b [of k] by (auto simp add: bit_simps simp del: mask_Suc_exp)
  qed
  then show ?thesis unfolding s setProcessResultCode_def using t by (cases r) simp
qed

subsection \<open>The child process\<close>

text \<open>
  What the host system answers to one call: which allocations succeed, what \<^verbatim>\<open>fork\<close> returns (\<open>None\<close> for a
  failure), whether the second \<^verbatim>\<open>fork\<close> and \<^verbatim>\<open>setsid\<close> succeed in the child, and what \<^verbatim>\<open>waitpid\<close> answers for
  a process id.  The processes a call starts are listed with the way each leaves the code of the loader.
\<close>

record host =
  path_mem :: bool
  exe_mem :: bool
  argv_mem :: bool
  envp_mem :: bool
  fork_pid :: "u32 option"
  fork2_ok :: bool
  setsid_ok :: bool
  waited :: "u32 \<Rightarrow> u32 \<times> u32"

datatype process = Exits nat | Execs bytes "bytes list" "bytes list option"

definition execOs2Child :: "bytes \<Rightarrow> bytes list \<Rightarrow> bytes list option \<Rightarrow> process" where
  "execOs2Child exe argv envp = Execs exe argv envp"

definition findExePath :: "host \<Rightarrow> bytes \<Rightarrow> apiret + bytes" where
  "findExePath h exe = (if exe_mem h then Inr (str ''/proc/self/exe'') else Inl ERROR_NOT_ENOUGH_MEMORY)"

definition child_processes :: "host \<Rightarrow> bool \<Rightarrow> bytes \<Rightarrow> bytes list \<Rightarrow> bytes list option \<Rightarrow> process list" where
  "child_processes h doubleFork exe argv envp =
    (if doubleFork then
       (if \<not> fork2_ok h then [Exits 1]
        else [Exits 0, if \<not> setsid_ok h then Exits 1 else execOs2Child exe argv envp])
     else [execOs2Child exe argv envp])"

text \<open>
  \<open>pObjname\<close> is the caller's buffer, \<open>pRes\<close> its result structure.  When the environment cannot be
  built the code goes on with the null pointer, because it tests \<^verbatim>\<open>argv\<close> a second time.
\<close>

definition exec_parent :: "host \<Rightarrow> u32 \<Rightarrow> rescodes option \<Rightarrow> u32 \<Rightarrow> (apiret \<times> rescodes option) option" where
  "exec_parent h execFlag pRes pid =
    (if execFlag = 0 then
       (let (rc, status) = waited h pid in
        if rc = pid then Some (NO_ERROR, setProcessResultCode pRes status) else None)
     else if execFlag = 1 \<or> execFlag = 2 \<or> execFlag = 4 then
       Some (NO_ERROR, map_option (\<lambda>r. r\<lparr>codeResult := 0, codeTerminate := pid\<rparr>) pRes)
     else None)"

definition exec_run :: "host \<Rightarrow> u32 \<Rightarrow> rescodes option \<Rightarrow> bytes \<Rightarrow> bytes list \<Rightarrow> bytes list option
    \<Rightarrow> (apiret \<times> rescodes option \<times> process list) option" where
  "exec_run h execFlag pRes exe argv envp =
    (case fork_pid h of
       None \<Rightarrow> Some (ERROR_NO_PROC_SLOTS, pRes, [])
     | Some pid \<Rightarrow> do {
         (rc, pRes') \<leftarrow> exec_parent h execFlag pRes pid;
         Some (rc, pRes', child_processes h (execFlag = 1 \<or> execFlag = 4) exe argv envp) })"

definition exec_prepared :: "host \<Rightarrow> u32 \<Rightarrow> bytes \<times> bytes \<Rightarrow> bytes \<Rightarrow> rescodes option \<Rightarrow> bytes
    \<Rightarrow> (apiret \<times> rescodes option \<times> process list) option" where
  "exec_prepared h execFlag pArg pEnv pRes pNameUnix =
    (case findExePath h pNameUnix of
       Inl e \<Rightarrow> Some (e, pRes, [])
     | Inr exe \<Rightarrow> do {
         a \<leftarrow> calcArgv (argv_mem h) (fst pArg) (snd pArg);
         case a of Inl e \<Rightarrow> Some (e, pRes, [])
         | Inr argv \<Rightarrow> do {
             e \<leftarrow> calcEnvp (envp_mem h) pEnv pNameUnix;
             do {
               (rc, pRes', ps) \<leftarrow> exec_run h execFlag pRes exe argv (case e of Inr envp \<Rightarrow> Some envp | Inl _ \<Rightarrow> None);
               Some (if rc = NO_ERROR then (case e of Inl (Some err) \<Rightarrow> err | _ \<Rightarrow> NO_ERROR) else rc, pRes', ps) } } })"

definition DosExecPgm_implementation :: "fs \<Rightarrow> drives \<Rightarrow> host \<Rightarrow> bytes option \<Rightarrow> u32 \<Rightarrow> bytes \<times> bytes \<Rightarrow> bytes
    \<Rightarrow> rescodes option \<Rightarrow> bytes \<Rightarrow> (apiret \<times> bytes option \<times> rescodes option \<times> process list) option" where
  "DosExecPgm_implementation f dr h pObjname execFlag pArg pEnv pRes pName = do {
     obj \<leftarrow> (case pObjname of None \<Rightarrow> Some None | Some b \<Rightarrow> map_option Some (wr8 b 0 0));
     if execFlag = 3 \<or> execFlag = 6 then Some (ERROR_ACCESS_DENIED, obj, pRes, [])
     else if execFlag = 5 then Some (ERROR_GEN_FAILURE, obj, pRes, [])
     else do {
       p \<leftarrow> lxMakeUnixPath f (path_mem h) dr pName;
       case p of Inl e \<Rightarrow> Some (e, obj, pRes, [])
       | Inr pNameUnix \<Rightarrow> do {
           (rc, pRes', ps) \<leftarrow> exec_prepared h execFlag pArg pEnv pRes pNameUnix;
           Some (rc, obj, pRes', ps) } } }"

text \<open>A program that exits with code \<open>n\<close> is reported so to the one that waited for it.\<close>

lemma DosExecPgm_sync:
  assumes "lxMakeUnixPath f (path_mem h) dr pName = Some (Inr u)" "exe_mem h" "argv_mem h" "envp_mem h"
    "fork_pid h = Some pid" "waited h pid = (pid, of_nat (256 * n))" "n < 256"
    "prog \<noteq> []" "QUOTE \<notin> set args" "env_strings ss" "ss \<noteq> []"
  shows "DosExecPgm_implementation f dr h None 0 (prog, args) (env_block ss) (Some r) pName =
    Some (NO_ERROR, None, Some \<lparr>codeTerminate = 0, codeResult = of_nat n, \<dots> = rescodes.more r\<rparr>,
      [Execs (str ''/proc/self/exe'') (prog # words_of args) (Some (ss @ [str ''IS_2INE='' @ u]))])"
proof -
  have a: "calcArgv True prog args = Some (Inr (prog # words_of args))"
    using assms(8,9) by (rule calcArgv_runs)
  show ?thesis unfolding DosExecPgm_implementation_def exec_prepared_def
    using assms(1-7) a calcEnvp_strings [OF assms(10,11), of u] setProcessResultCode_exit [OF assms(7), of r]
    by (simp add: findExePath_def exec_run_def exec_parent_def child_processes_def execOs2Child_def)
qed

text \<open>When there is no memory for the environment the child runs all the same, without one.\<close>

lemma DosExecPgm_no_envp:
  assumes "lxMakeUnixPath f (path_mem h) dr pName = Some (Inr u)" "exe_mem h" "argv_mem h" "\<not> envp_mem h"
    "fork_pid h = Some pid" "execFlag = 2" "prog \<noteq> []" "QUOTE \<notin> set args" "env_strings ss" "ss \<noteq> []"
  shows "DosExecPgm_implementation f dr h None execFlag (prog, args) (env_block ss) None pName =
    Some (ERROR_NOT_ENOUGH_MEMORY, None, None, [Execs (str ''/proc/self/exe'') (prog # words_of args) None])"
proof -
  obtain d r where d: "env_block ss = d # r" "d \<noteq> 0" using env_block_start [OF assms(9)] assms(10) by blast
  have r: "rd8 (env_block ss) 0 = Some d" using d by (simp add: rd8_def)
  have e: "calcEnvp False (env_block ss) u = Some (Inl (Some ERROR_NOT_ENOUGH_MEMORY))"
    unfolding calcEnvp_def r env_count_block [OF assms(9,10)] Let_def using d(2) by simp
  show ?thesis unfolding DosExecPgm_implementation_def exec_prepared_def
    using assms(1-6) calcArgv_runs [OF assms(7,8)] e
    by (simp add: findExePath_def exec_run_def exec_parent_def child_processes_def execOs2Child_def)
qed

text \<open>An asynchronous program is started from an intermediate process that exits at once.\<close>

lemma exec_run_async: "fork_pid h = Some pid \<Longrightarrow> fork2_ok h \<Longrightarrow> setsid_ok h \<Longrightarrow>
    exec_run h 1 (Some r) exe argv envp = Some (NO_ERROR, Some (r\<lparr>codeResult := 0, codeTerminate := pid\<rparr>),
      [Exits 0, Execs exe argv envp])"
  by (simp add: exec_run_def exec_parent_def child_processes_def execOs2Child_def)

subsection \<open>Waiting for a child\<close>

text \<open>
  The answers of the successive calls of \<^verbatim>\<open>waitpid\<close>.  For an action other than \<^verbatim>\<open>DCWA_PROCESS\<close> the process
  id is never set (\<open>None\<close>); answers that are all interruptions leave the loop running (\<open>None\<close>).
\<close>

datatype wait_answer = Reaped u32 u32 | Not_yet | Interrupted | No_child | Wait_fails

fun wait_loop :: "bool \<Rightarrow> wait_answer list \<Rightarrow> (u32 \<times> u32 + wait_answer) option" where
  "wait_loop nohang [] = None"
| "wait_loop nohang (Reaped rc status # ws) = Some (Inl (rc, status))"
| "wait_loop nohang (Not_yet # ws) = (if nohang then Some (Inr Not_yet) else None)"
| "wait_loop nohang (Interrupted # ws) = wait_loop nohang ws"
| "wait_loop nohang (No_child # ws) = Some (Inr No_child)"
| "wait_loop nohang (Wait_fails # ws) = None"

definition DosWaitChild :: "(int \<Rightarrow> bool \<Rightarrow> wait_answer list) \<Rightarrow> u32 \<Rightarrow> u32 \<Rightarrow> rescodes option \<Rightarrow> u32 option \<Rightarrow> u32
    \<Rightarrow> (apiret \<times> rescodes option \<times> u32 option) option" where
  "DosWaitChild waitpid action option pres ppid pid =
    (if action = 1 then Some (ERROR_INVALID_PARAMETER, pres, ppid)
     else if option \<noteq> 0 \<and> option \<noteq> 1 then Some (ERROR_INVALID_PARAMETER, pres, ppid)
     else do {
       unixpid \<leftarrow> (if action = 0 then Some (if pid = 0 then -1 else sint pid) else None);
       w \<leftarrow> wait_loop (option = 1) (waitpid unixpid (option = 1));
       case w of
         Inl (rc, status) \<Rightarrow> Some (NO_ERROR, setProcessResultCode pres status, map_option (\<lambda>_. rc) ppid)
       | Inr a \<Rightarrow> Some (if a = Not_yet then ERROR_CHILD_NOT_COMPLETE
                        else if pid = 0 then ERROR_WAIT_NO_CHILDREN else ERROR_INVALID_PROCID, pres, ppid) })"

lemma wait_loop_interrupted: "wait_loop nohang (replicate n Interrupted @ ws) = wait_loop nohang ws"
  by (induction n) auto

lemma DosWaitChild_reaped:
  assumes "waitpid (if pid = 0 then -1 else sint pid) (option = 1) = replicate n Interrupted @ Reaped rc (of_nat (256 * k)) # ws"
    "k < 256" "option = 0 \<or> option = 1"
  shows "DosWaitChild waitpid 0 option (Some r) (Some p) pid =
    Some (NO_ERROR, Some \<lparr>codeTerminate = 0, codeResult = of_nat k, \<dots> = rescodes.more r\<rparr>, Some rc)"
  unfolding DosWaitChild_def using assms(1,3) setProcessResultCode_exit [OF assms(2), of r]
  by (auto simp: wait_loop_interrupted)

subsection \<open>The 16-bit entry points\<close>

text \<open>The local structure \<open>garbage\<close> is not initialised; it is copied to the caller also on failure.\<close>

record rescodes16 =
  codeTerminate16 :: u16
  codeResult16 :: u16

definition Dos16ExecPgm :: "fs \<Rightarrow> drives \<Rightarrow> host \<Rightarrow> rescodes \<Rightarrow> bytes option \<Rightarrow> u16 \<Rightarrow> bytes \<times> bytes \<Rightarrow> bytes
    \<Rightarrow> bytes \<Rightarrow> (apiret \<times> bytes option \<times> rescodes16 \<times> process list) option" where
  "Dos16ExecPgm f dr h garbage pObjname execFlag pArg pEnv pName = do {
     (ret, obj, pres, ps) \<leftarrow> DosExecPgm_implementation f dr h pObjname (ucast execFlag) pArg pEnv (Some garbage) pName;
     let res = (case pres of Some r \<Rightarrow> r | None \<Rightarrow> garbage);
     Some (ret, obj, \<lparr>codeTerminate16 = ucast (codeTerminate res), codeResult16 = ucast (codeResult res)\<rparr>, ps) }"

definition Dos16CWait :: "(int \<Rightarrow> bool \<Rightarrow> wait_answer list) \<Rightarrow> rescodes \<Rightarrow> u32 \<Rightarrow> u16 \<Rightarrow> u16 \<Rightarrow> u16
    \<Rightarrow> (apiret \<times> rescodes16 \<times> u16) option" where
  "Dos16CWait waitpid garbage garbage_pid action option pid = do {
     (ret, pres, cpid) \<leftarrow> DosWaitChild waitpid (ucast action) (ucast option) (Some garbage) (Some garbage_pid) (ucast pid);
     let res = (case pres of Some r \<Rightarrow> r | None \<Rightarrow> garbage);
     Some (ret, \<lparr>codeTerminate16 = ucast (codeTerminate res), codeResult16 = ucast (codeResult res)\<rparr>,
       ucast (case cpid of Some p \<Rightarrow> p | None \<Rightarrow> garbage_pid)) }"

lemma Dos16CWait_garbage: "Dos16CWait waitpid garbage gp 1 option pid =
    Some (ERROR_INVALID_PARAMETER, \<lparr>codeTerminate16 = ucast (codeTerminate garbage), codeResult16 = ucast (codeResult garbage)\<rparr>, ucast gp)"
  by (simp add: Dos16CWait_def DosWaitChild_def)

lemma Dos16ExecPgm_async_pid:
  "exec_run h 2 (Some r) exe argv envp = Some (rc, Some r', ps) \<Longrightarrow> fork_pid h = Some pid \<Longrightarrow>
    codeTerminate r' = pid \<and> unat (ucast pid :: u16) = unat pid mod 65536"
  by (auto simp: exec_run_def exec_parent_def unsigned_ucast_eq take_bit_eq_mod)

end
