(* ===== verification/DosThreads.thy ===== *)
theory DosThreads
  imports DosExec
begin

section \<open>Threads and exit handlers (\<^verbatim>\<open>native/doscalls.c\<close>)\<close>

text \<open>
  A thread handle is the address of its \<^verbatim>\<open>Thread\<close> structure.  The structures live in a heap, and a
  terminated thread that nobody has waited for is linked into the list \<open>GDeadThreads\<close>; reading or
  writing a structure that was freed is a fault (\<open>None\<close>).  \<open>pstat\<close> is what the host's thread library
  knows of each of its threads, and \<open>deinited\<close> are the selectors given back, in order.
\<close>

subsection \<open>The state\<close>

datatype pstatus = Running | Ended | Joined

record thr =
  pthread :: nat
  stacklen :: u32
  thr_fn :: u32
  fnarg :: u32
  selector :: u16
  prev :: u32
  nxt :: u32

record threads =
  theap :: "u32 \<Rightarrow> thr option"
  GDeadThreads :: u32
  pstat :: "nat \<Rightarrow> pstatus"
  deinited :: "u16 list"

definition put_thr :: "u32 \<Rightarrow> thr \<Rightarrow> threads \<Rightarrow> threads" where
  "put_thr p t s = s\<lparr>theap := (theap s)(p \<mapsto> t)\<rparr>"

definition free_thr :: "u32 \<Rightarrow> threads \<Rightarrow> threads" where
  "free_thr p s = s\<lparr>theap := (theap s)(p := None)\<rparr>"

lemma thr_heap_simps [simp]:
  "theap (put_thr p t s) = (theap s)(p \<mapsto> t)" "GDeadThreads (put_thr p t s) = GDeadThreads s" "pstat (put_thr p t s) = pstat s"
  "theap (free_thr p s) = (theap s)(p := None)" "GDeadThreads (free_thr p s) = GDeadThreads s" "pstat (free_thr p s) = pstat s"
  by (simp_all add: put_thr_def free_thr_def)

subsection \<open>Creating a thread\<close>

definition thread_stack :: "u32 \<Rightarrow> u32" where
  "thread_stack cbStack =
    (if cbStack mod 4096 \<noteq> 0 then cbStack + (4096 - cbStack mod 4096) else cbStack) + 4096"

text \<open>\<open>mem\<close> is the address \<^verbatim>\<open>malloc\<close> returns, \<open>created\<close> the new thread of the host, if there is one.\<close>

definition DosCreateThread :: "u32 option \<Rightarrow> nat option \<Rightarrow> u32 \<Rightarrow> u32 \<Rightarrow> u32 \<Rightarrow> threads
    \<Rightarrow> (apiret \<times> u32 option) \<times> threads" where
  "DosCreateThread mem created pfn param cbStack s =
    (case mem of
       None \<Rightarrow> ((ERROR_NOT_ENOUGH_MEMORY, None), s)
     | Some p \<Rightarrow>
         let t = \<lparr>pthread = 0, stacklen = thread_stack cbStack, thr_fn = pfn, fnarg = param, selector = 0, prev = 0, nxt = 0\<rparr>
         in case created of
           None \<Rightarrow> ((ERROR_MAX_THRDS_REACHED, None), free_thr p (put_thr p t s))
         | Some n \<Rightarrow> ((NO_ERROR, Some p), (put_thr p (t\<lparr>pthread := n\<rparr>) s)\<lparr>pstat := (pstat s)(n := Running)\<rparr>))"

text \<open>
  The new thread first installs its TIB: the stack length and the 16-bit thread id given to
  \<^verbatim>\<open>initOs2Tib\<close>, and the selector it gets.  At its end \<^verbatim>\<open>os2ThreadCleanup\<close> puts it on the list.
\<close>

definition os2ThreadEntry2 :: "u16 \<Rightarrow> u32 \<Rightarrow> threads \<Rightarrow> ((u32 \<times> u32) \<times> threads) option" where
  "os2ThreadEntry2 sel p s = do {
     t \<leftarrow> theap s p;
     Some ((stacklen t, p AND 0xFFFF), put_thr p (t\<lparr>selector := sel\<rparr>) s) }"

definition os2ThreadCleanup :: "u32 \<Rightarrow> threads \<Rightarrow> threads option" where
  "os2ThreadCleanup p s = do {
     t \<leftarrow> theap s p;
     Some ((put_thr p (t\<lparr>prev := 0, nxt := GDeadThreads s\<rparr>) s)\<lparr>GDeadThreads := p, deinited := deinited s @ [selector t]\<rparr>) }"

definition thread_ends :: "u32 \<Rightarrow> threads \<Rightarrow> threads option" where
  "thread_ends p s = do {
     t \<leftarrow> theap s p;
     s1 \<leftarrow> os2ThreadCleanup p s;
     Some (s1\<lparr>pstat := (pstat s1)(pthread t := Ended)\<rparr>) }"

fun threads_end :: "u32 list \<Rightarrow> threads \<Rightarrow> threads option" where
  "threads_end [] s = Some s"
| "threads_end (p # ps) s = do { s1 \<leftarrow> thread_ends p s; threads_end ps s1 }"

subsection \<open>Waiting for a thread\<close>

text \<open>
  \<open>pthread_join\<close> waits for the end of the thread; joining a thread twice is undefined (\<open>None\<close>).  The
  threads that end while the caller waits are given by the list \<open>during\<close>; a thread that is still running then is
  waited for forever (\<open>None\<close>).  \<open>self\<close> is the caller: joining oneself is an error.
\<close>

datatype join_result = Join_ok | Join_busy | Join_error

definition pthread_join :: "bool \<Rightarrow> nat \<Rightarrow> nat \<Rightarrow> u32 list \<Rightarrow> threads \<Rightarrow> (join_result \<times> threads) option" where
  "pthread_join nowait self n during s =
    (if n = self then Some (Join_error, s)
     else if nowait then
       (case pstat s n of Joined \<Rightarrow> None | Running \<Rightarrow> Some (Join_busy, s)
        | Ended \<Rightarrow> Some (Join_ok, s\<lparr>pstat := (pstat s)(n := Joined)\<rparr>))
     else do {
       s1 \<leftarrow> threads_end during s;
       case pstat s1 n of Ended \<Rightarrow> Some (Join_ok, s1\<lparr>pstat := (pstat s1)(n := Joined)\<rparr>) | _ \<Rightarrow> None })"

text \<open>Taking the first thread off the list; it is joined at once, since it has ended.\<close>

definition pop_dead :: "threads \<Rightarrow> (u32 \<times> threads) option" where
  "pop_dead s = do {
     t \<leftarrow> theap s (GDeadThreads s);
     let p = GDeadThreads s;
     s1 \<leftarrow> (if nxt t = 0 then Some (s\<lparr>GDeadThreads := 0\<rparr>)
           else do { u \<leftarrow> theap s (nxt t); Some ((put_thr (nxt t) (u\<lparr>prev := 0\<rparr>) s)\<lparr>GDeadThreads := nxt t\<rparr>) });
     t1 \<leftarrow> theap s1 p;
     guard (prev t1 = 0);
     guard (pstat s1 (pthread t1) = Ended);
     Some (p, free_thr p (s1\<lparr>pstat := (pstat s1)(pthread t1 := Joined)\<rparr>)) }"

text \<open>The polling loop: \<open>sleeps\<close> lists the threads that end during each pause.\<close>

fun wait_any :: "bool \<Rightarrow> u32 list list \<Rightarrow> threads \<Rightarrow> ((apiret \<times> u32) \<times> threads) option" where
  "wait_any nowait [] s =
    (if GDeadThreads s \<noteq> 0 then do { (p, s') \<leftarrow> pop_dead s; Some ((NO_ERROR, p), s') }
     else if nowait then Some ((ERROR_THREAD_NOT_TERMINATED, 0), s) else None)"
| "wait_any nowait (ps # sleeps) s =
    (if GDeadThreads s \<noteq> 0 then do { (p, s') \<leftarrow> pop_dead s; Some ((NO_ERROR, p), s') }
     else if nowait then Some ((ERROR_THREAD_NOT_TERMINATED, 0), s)
     else do { s1 \<leftarrow> threads_end ps s; wait_any nowait sleeps s1 })"

definition unlink_dead :: "u32 \<Rightarrow> threads \<Rightarrow> threads option" where
  "unlink_dead p s = do {
     t \<leftarrow> theap s p;
     s1 \<leftarrow> (if prev t \<noteq> 0 then do { u \<leftarrow> theap s (prev t); Some (put_thr (prev t) (u\<lparr>nxt := nxt t\<rparr>) s) }
           else Some (s\<lparr>GDeadThreads := nxt t\<rparr>));
     if nxt t \<noteq> 0 then do { u \<leftarrow> theap s1 (nxt t); Some (put_thr (nxt t) (u\<lparr>prev := prev t\<rparr>) s1) }
     else Some s1 }"

text \<open>
  Waiting for one thread: first the join, outside the lock, then the unlinking under it, and the structure is freed.  \<open>between\<close> are the
  threads that end after the join and before the lock is taken.
\<close>

definition wait_join :: "bool \<Rightarrow> nat \<Rightarrow> u32 list \<Rightarrow> u32 \<Rightarrow> threads \<Rightarrow> (apiret option \<times> threads) option" where
  "wait_join nowait self during p s = do {
     t \<leftarrow> theap s p;
     (r, s1) \<leftarrow> pthread_join nowait self (pthread t) during s;
     Some (case r of Join_busy \<Rightarrow> Some ERROR_THREAD_NOT_TERMINATED | Join_error \<Rightarrow> Some ERROR_INVALID_THREADID | Join_ok \<Rightarrow> None, s1) }"

definition wait_unlink :: "u32 \<Rightarrow> threads \<Rightarrow> threads option" where
  "wait_unlink p s = do { s1 \<leftarrow> unlink_dead p s; Some (free_thr p s1) }"

definition wait_one :: "bool \<Rightarrow> nat \<Rightarrow> u32 list \<Rightarrow> u32 list \<Rightarrow> u32 \<Rightarrow> threads \<Rightarrow> (apiret \<times> threads) option" where
  "wait_one nowait self during between p s = do {
     (r, s1) \<leftarrow> wait_join nowait self during p s;
     case r of
       Some rc \<Rightarrow> Some (rc, s1)
     | None \<Rightarrow> do { s2 \<leftarrow> threads_end between s1; s3 \<leftarrow> wait_unlink p s2; Some (NO_ERROR, s3) } }"

definition DosWaitThread :: "nat \<Rightarrow> u32 list list \<Rightarrow> u32 list \<Rightarrow> u32 \<Rightarrow> u32 \<Rightarrow> threads \<Rightarrow> ((apiret \<times> u32) \<times> threads) option" where
  "DosWaitThread self during between tid option s =
    (if option \<noteq> 0 \<and> option \<noteq> 1 then Some ((ERROR_INVALID_PARAMETER, tid), s)
     else if tid = 0 then do {
       ((rc, p), s') \<leftarrow> wait_any (option = 1) during s;
       Some ((rc, if rc = NO_ERROR then p else tid), s') }
     else do {
       (rc, s') \<leftarrow> wait_one (option = 1) self (concat during) between tid s;
       Some ((rc, tid), s') })"

subsection \<open>The list in the heap\<close>

fun dead_chain :: "(u32 \<Rightarrow> thr option) \<Rightarrow> u32 \<Rightarrow> u32 list \<Rightarrow> bool" where
  "dead_chain h p [] \<longleftrightarrow> p = 0"
| "dead_chain h p (a # as) \<longleftrightarrow> p = a \<and> a \<noteq> 0 \<and>
    (case h a of None \<Rightarrow> False | Some t \<Rightarrow> prev t = 0 \<and> dead_chain h (nxt t) as)"

lemma dead_chain_upd: "a \<notin> set as \<Longrightarrow> dead_chain (h(a := x)) p as = dead_chain h p as"
  by (induction as arbitrary: p) (auto split: option.split)

lemma dead_chain_heap: "dead_chain h p as \<Longrightarrow> a \<in> set as \<Longrightarrow> \<exists>t. h a = Some t \<and> prev t = 0"
  by (induction as arbitrary: p) (auto split: option.splits)

lemma dead_chain_suffix: "dead_chain h p (as @ a # bs) \<Longrightarrow> \<exists>t. h a = Some t \<and> prev t = 0 \<and> a \<noteq> 0 \<and> dead_chain h (nxt t) bs"
  by (induction as arbitrary: p) (auto split: option.splits)

lemma dead_chain_start: "dead_chain h p as \<Longrightarrow> p \<noteq> 0 \<longleftrightarrow> as \<noteq> []"
  by (cases as) auto

lemma dead_chain_Cons: "dead_chain h p as \<Longrightarrow> p \<noteq> 0 \<Longrightarrow> \<exists>t bs. as = p # bs \<and> h p = Some t \<and> prev t = 0 \<and> dead_chain h (nxt t) bs"
  by (cases as) (auto split: option.splits)

text \<open>Setting the null pointer \<^verbatim>\<open>prev\<close> of the first element again changes nothing.\<close>

lemma dead_chain_prev: "dead_chain h q bs \<Longrightarrow> h q = Some u \<Longrightarrow> q \<noteq> 0 \<Longrightarrow> h(q \<mapsto> u\<lparr>prev := 0\<rparr>) = h"
  using dead_chain_Cons [of h q bs] by (auto simp: fun_upd_idem)

lemma pop_dead_chain:
  assumes "dead_chain (theap s) (GDeadThreads s) (p # ps)" "p \<notin> set ps" "theap s p = Some t" "pstat s (pthread t) = Ended"
  shows "pop_dead s = Some (p, free_thr p (s\<lparr>GDeadThreads := nxt t, pstat := (pstat s)(pthread t := Joined)\<rparr>))"
    "dead_chain ((theap s)(p := None)) (nxt t) ps"
proof -
  have t: "GDeadThreads s = p" "prev t = 0" "dead_chain (theap s) (nxt t) ps" using assms(1,3) by auto
  show "dead_chain ((theap s)(p := None)) (nxt t) ps" using t(3) assms(2) by (simp add: dead_chain_upd)
  show "pop_dead s = Some (p, free_thr p (s\<lparr>GDeadThreads := nxt t, pstat := (pstat s)(pthread t := Joined)\<rparr>))"
  proof (cases "nxt t = 0")
    case True
    then show ?thesis using t assms(3,4) by (simp add: pop_dead_def guard_def)
  next
    case False
    then obtain u where u: "theap s (nxt t) = Some u" using dead_chain_Cons [OF t(3)] by blast
    have e: "put_thr (nxt t) (u\<lparr>prev := 0\<rparr>) s = s" using dead_chain_prev [OF t(3) u False] by (simp add: put_thr_def)
    show ?thesis using t assms(3,4) u False by (simp add: pop_dead_def guard_def e)
  qed
qed

text \<open>
  Taking a thread out of the middle: since \<^verbatim>\<open>prev\<close> is never set, the head of the list becomes the thread
  behind it, and the threads in front of it are no longer on the list.
\<close>

lemma unlink_dead_chain:
  assumes "dead_chain (theap s) (GDeadThreads s) (as @ p # bs)" "theap s p = Some t"
  shows "unlink_dead p s = Some (s\<lparr>GDeadThreads := nxt t\<rparr>)"
proof -
  have t: "prev t = 0" "dead_chain (theap s) (nxt t) bs" using dead_chain_suffix [OF assms(1)] assms(2) by auto
  show ?thesis
  proof (cases "nxt t = 0")
    case True
    then show ?thesis using t assms(2) by (simp add: unlink_dead_def)
  next
    case False
    then obtain u where u: "theap s (nxt t) = Some u" using dead_chain_Cons [OF t(2)] by blast
    have e: "put_thr (nxt t) (u\<lparr>prev := 0\<rparr>) (s\<lparr>GDeadThreads := nxt t\<rparr>) = s\<lparr>GDeadThreads := nxt t\<rparr>"
      using dead_chain_prev [OF t(2) u False] by (simp add: put_thr_def)
    show ?thesis using t assms(2) u False by (simp add: unlink_dead_def e)
  qed
qed

subsection \<open>What the calls do to the set of threads\<close>

text \<open>
  The abstract state: the running threads, the ended ones in the order of the list, and the ended ones
  that are no longer on it.  A call of \<open>DosWaitThread\<close> for one thread moves those in front of it from the second to the
  third.
\<close>

datatype event = Create u32 nat u32 u32 u32 | Ends u32 | Wait nat "u32 list list" "u32 list" u32 u32

record tspec =
  running :: "u32 list"
  ended :: "u32 list"
  lost :: "u32 list"

definition all_threads :: "tspec \<Rightarrow> u32 list" where
  "all_threads a = running a @ ended a @ lost a"

definition pid_of :: "threads \<Rightarrow> u32 \<Rightarrow> nat" where
  "pid_of s p = (case theap s p of Some t \<Rightarrow> pthread t | None \<Rightarrow> 0)"

fun event_step :: "event \<Rightarrow> threads \<Rightarrow> ((apiret \<times> u32) \<times> threads) option" where
  "event_step (Create p n fn arg cb) s = (case DosCreateThread (Some p) (Some n) fn arg cb s of
     ((rc, tid), s') \<Rightarrow> Some ((rc, case tid of Some q \<Rightarrow> q | None \<Rightarrow> 0), s'))"
| "event_step (Ends p) s = map_option (Pair (NO_ERROR, p)) (thread_ends p s)"
| "event_step (Wait self during between tid option) s = DosWaitThread self during between tid option s"

text \<open>Threads end, the last one first on the list; the threads of a wait end one after the other.\<close>

definition end_spec :: "u32 \<Rightarrow> tspec \<Rightarrow> tspec" where
  "end_spec p a = a\<lparr>running := remove1 p (running a), ended := p # ended a\<rparr>"

definition ends_spec :: "u32 list \<Rightarrow> tspec \<Rightarrow> tspec" where
  "ends_spec ps a = a\<lparr>running := filter (\<lambda>q. q \<notin> set ps) (running a), ended := rev ps @ ended a\<rparr>"

definition ends_ok :: "u32 list \<Rightarrow> tspec \<Rightarrow> bool" where
  "ends_ok ps a \<longleftrightarrow> distinct ps \<and> list_all (\<lambda>p. p \<in> set (running a)) ps"

text \<open>Reaping one thread of the list: those in front of it are lost.\<close>

definition reap_spec :: "u32 \<Rightarrow> tspec \<Rightarrow> tspec" where
  "reap_spec p a = a\<lparr>ended := tl (dropWhile (\<lambda>q. q \<noteq> p) (ended a)), lost := takeWhile (\<lambda>q. q \<noteq> p) (ended a) @ lost a\<rparr>"

text \<open>
  A wait without a handle takes the first ended thread, or that of the first pause in which threads end.  A wait for a
  thread takes it as soon as it has ended; without blocking it reports a thread that runs.
\<close>

definition first_pause :: "u32 list list \<Rightarrow> u32 list" where
  "first_pause during = (case dropWhile (\<lambda>ps. ps = []) during of [] \<Rightarrow> [] | ps # _ \<Rightarrow> ps)"

definition any_spec :: "u32 \<Rightarrow> u32 list list \<Rightarrow> tspec \<Rightarrow> tspec" where
  "any_spec option during a = (if ended a = [] \<and> option = 0 then ends_spec (first_pause during) a else a)"

definition one_spec :: "u32 \<Rightarrow> u32 list list \<Rightarrow> tspec \<Rightarrow> tspec" where
  "one_spec option during a = (if option = 0 then ends_spec (concat during) a else a)"

fun event_spec :: "event \<Rightarrow> tspec \<Rightarrow> (apiret \<times> u32) \<times> tspec" where
  "event_spec (Create p n fn arg cb) a = ((NO_ERROR, p), a\<lparr>running := p # running a\<rparr>)"
| "event_spec (Ends p) a = ((NO_ERROR, p), end_spec p a)"
| "event_spec (Wait self during between tid option) a =
    (if tid = 0 then
       (case ended (any_spec option during a) of
          [] \<Rightarrow> ((ERROR_THREAD_NOT_TERMINATED, 0), a)
        | p # ps \<Rightarrow> ((NO_ERROR, p), (any_spec option during a)\<lparr>ended := ps\<rparr>))
     else if tid \<in> set (running (one_spec option during a)) then ((ERROR_THREAD_NOT_TERMINATED, tid), one_spec option during a)
     else ((NO_ERROR, tid), reap_spec tid (ends_spec between (one_spec option during a))))"

text \<open>
  The events that can happen: \<^verbatim>\<open>malloc\<close> and \<^verbatim>\<open>pthread_create\<close> return fresh values, and a running thread ends.  A wait
  is for any thread, or for another thread than the caller that runs or is on the list (one that is lost has no structure on the list,
  one that was reaped has none at all); a blocking wait is shown to its return, so some thread ends during it, or the one it
  is for, unless it has ended before.
\<close>

fun allowed :: "threads \<Rightarrow> tspec \<Rightarrow> event \<Rightarrow> bool" where
  "allowed s a (Create p n fn arg cb) \<longleftrightarrow> p \<noteq> 0 \<and> p \<notin> set (all_threads a) \<and> n \<notin> set (map (pid_of s) (all_threads a))"
| "allowed s a (Ends p) \<longleftrightarrow> p \<in> set (running a)"
| "allowed s a (Wait self during between tid option) \<longleftrightarrow>
    (option = 0 \<or> option = 1) \<and>
    (if tid = 0 then option = 1 \<or> ended a \<noteq> [] \<or> first_pause during \<noteq> [] \<and> ends_ok (first_pause during) a
     else pid_of s tid \<noteq> self \<and> (option = 0 \<longrightarrow> ends_ok (concat during) a) \<and>
       (option = 1 \<and> tid \<in> set (running a) \<or>
        tid \<in> set (ended (one_spec option during a)) \<and> ends_ok between (one_spec option during a)))"

definition thr_inv :: "threads \<Rightarrow> tspec \<Rightarrow> bool" where
  "thr_inv s a \<longleftrightarrow> distinct (all_threads a) \<and> 0 \<notin> set (all_threads a) \<and> dom (theap s) = set (all_threads a) \<and>
    dead_chain (theap s) (GDeadThreads s) (ended a) \<and> inj_on (pid_of s) (set (all_threads a)) \<and>
    (\<forall>p \<in> set (running a). pstat s (pid_of s p) = Running) \<and> (\<forall>p \<in> set (ended a). pstat s (pid_of s p) = Ended)"

fun run_events :: "event list \<Rightarrow> threads \<Rightarrow> ((apiret \<times> u32) list \<times> threads) option" where
  "run_events [] s = Some ([], s)"
| "run_events (e # es) s = do { (r, s1) \<leftarrow> event_step e s; (rs, s2) \<leftarrow> run_events es s1; Some (r # rs, s2) }"

fun spec_events :: "event list \<Rightarrow> tspec \<Rightarrow> (apiret \<times> u32) list \<times> tspec" where
  "spec_events [] a = ([], a)"
| "spec_events (e # es) a = (let (r, a1) = event_spec e a; (rs, a2) = spec_events es a1 in (r # rs, a2))"

fun all_allowed :: "event list \<Rightarrow> threads \<Rightarrow> tspec \<Rightarrow> bool" where
  "all_allowed [] s a \<longleftrightarrow> True"
| "all_allowed (e # es) s a \<longleftrightarrow> allowed s a e \<and>
    (case event_step e s of None \<Rightarrow> True | Some (r, s1) \<Rightarrow> all_allowed es s1 (snd (event_spec e a)))"

lemma thr_invD:
  assumes "thr_inv s a"
  shows "distinct (running a @ ended a @ lost a)" "0 \<notin> set (running a) \<union> set (ended a) \<union> set (lost a)"
    "dom (theap s) = set (running a) \<union> set (ended a) \<union> set (lost a)"
    "dead_chain (theap s) (GDeadThreads s) (ended a)" "inj_on (pid_of s) (dom (theap s))"
    "p \<in> set (running a) \<Longrightarrow> pstat s (pid_of s p) = Running" "q \<in> set (ended a) \<Longrightarrow> pstat s (pid_of s q) = Ended"
  using assms by (auto simp: thr_inv_def all_threads_def)

lemma pid_of_put: "pid_of (put_thr p t s) q = (if q = p then pthread t else pid_of s q)"
  by (simp add: pid_of_def)

lemma Create_step:
  assumes "thr_inv s a" "allowed s a (Create p n fn arg cb)"
  shows "\<exists>s'. event_step (Create p n fn arg cb) s = Some (fst (event_spec (Create p n fn arg cb) a), s') \<and>
    thr_inv s' (snd (event_spec (Create p n fn arg cb) a))"
proof -
  note inv = thr_invD [OF assms(1)]
  let ?t = "\<lparr>pthread = n, stacklen = thread_stack cb, thr_fn = fn, fnarg = arg, selector = 0, prev = 0, nxt = 0\<rparr>"
  define s' where "s' = (put_thr p ?t s)\<lparr>pstat := (pstat s)(n := Running)\<rparr>"
  have p: "p \<noteq> 0" "p \<notin> set (all_threads a)" "p \<notin> dom (theap s)" using assms(2) inv(3) by (auto simp: all_threads_def)
  have n: "q \<in> dom (theap s) \<Longrightarrow> pid_of s q \<noteq> n" for q using assms(2) inv(3) by (auto simp: all_threads_def)
  have s': "theap s' = (theap s)(p \<mapsto> ?t)" "GDeadThreads s' = GDeadThreads s" "pstat s' = (pstat s)(n := Running)"
    by (simp_all add: s'_def)
  have pid: "pid_of s' q = (if q = p then n else pid_of s q)" for q by (simp add: pid_of_def s'(1))
  have "thr_inv s' (a\<lparr>running := p # running a\<rparr>)"
    unfolding thr_inv_def
  proof (intro conjI)
    show "dom (theap s') = set (all_threads (a\<lparr>running := p # running a\<rparr>))"
      using inv(3) by (simp add: s'(1) all_threads_def Un_assoc)
    show "dead_chain (theap s') (GDeadThreads s') (ended (a\<lparr>running := p # running a\<rparr>))"
      using inv(4) p(2) by (simp add: s' dead_chain_upd all_threads_def)
    show "inj_on (pid_of s') (set (all_threads (a\<lparr>running := p # running a\<rparr>)))"
      using inv(3,5) n p(3) by (auto simp: inj_on_def pid all_threads_def)
    show "\<forall>q \<in> set (running (a\<lparr>running := p # running a\<rparr>)). pstat s' (pid_of s' q) = Running"
      using inv(3,6) n by (auto simp: s'(3) pid)
    show "\<forall>q \<in> set (ended (a\<lparr>running := p # running a\<rparr>)). pstat s' (pid_of s' q) = Ended"
      using inv(3,7) n p(2) by (auto simp: s'(3) pid all_threads_def)
  qed (use inv(1,2) p in \<open>simp_all add: all_threads_def\<close>)
  then show ?thesis by (simp add: DosCreateThread_def s'_def Let_def)
qed

lemma Ends_step:
  assumes "thr_inv s a" "p \<in> set (running a)"
  shows "\<exists>s'. thread_ends p s = Some s' \<and> thr_inv s' (end_spec p a) \<and> pid_of s' = pid_of s"
proof -
  note inv = thr_invD [OF assms(1)]
  have p: "p \<in> set (running a)" "p \<notin> set (ended a)" "p \<notin> set (lost a)" "p \<noteq> 0" using assms(2) inv(1,2) by auto
  obtain t where t: "theap s p = Some t" using p(1) inv(3) by blast
  let ?t = "t\<lparr>prev := 0, nxt := GDeadThreads s\<rparr>"
  define s' where "s' = (put_thr p ?t s)\<lparr>GDeadThreads := p, deinited := deinited s @ [selector t], pstat := (pstat s)(pthread t := Ended)\<rparr>"
  let ?a = "a\<lparr>running := remove1 p (running a), ended := p # ended a\<rparr>"
  have s': "theap s' = (theap s)(p \<mapsto> ?t)" "GDeadThreads s' = p" "pstat s' = (pstat s)(pthread t := Ended)"
    by (simp_all add: s'_def)
  have pid: "pid_of s' q = pid_of s q" for q using t by (simp add: pid_of_def s'(1))
  have tp: "pthread t = pid_of s p" using t by (simp add: pid_of_def)
  have inj: "q \<in> dom (theap s) \<Longrightarrow> q \<noteq> p \<Longrightarrow> pid_of s q \<noteq> pthread t" for q
    using inj_onD [OF inv(5), of q p] t by (auto simp: tp)
  have r: "set (remove1 p (running a)) = set (running a) - {p}" using inv(1) by simp
  have eq: "set (all_threads ?a) = dom (theap s)" using r p(1) inv(3) by (auto simp: all_threads_def)
  have "thr_inv s' ?a"
    unfolding thr_inv_def eq
  proof (intro conjI)
    show "dead_chain (theap s') (GDeadThreads s') (ended ?a)"
      using inv(4) p by (simp add: s' dead_chain_upd)
    show "inj_on (pid_of s') (dom (theap s))" using inv(5) by (simp add: inj_on_def pid)
    show "\<forall>q \<in> set (running ?a). pstat s' (pid_of s' q) = Running"
    proof
      fix q assume "q \<in> set (running ?a)"
      then have q: "q \<in> set (running a)" "q \<noteq> p" using r by auto
      then show "pstat s' (pid_of s' q) = Running" using inj [of q] inv(3,6) by (auto simp: s'(3) pid)
    qed
    show "\<forall>q \<in> set (ended ?a). pstat s' (pid_of s' q) = Ended"
    proof
      fix q assume "q \<in> set (ended ?a)"
      then have "q = p \<or> q \<in> set (ended a)" by auto
      then show "pstat s' (pid_of s' q) = Ended" using inv(7) by (auto simp: s'(3) pid tp)
    qed
    show "distinct (all_threads ?a)" using inv(1) p r by (auto simp: all_threads_def)
    show "0 \<notin> dom (theap s)" using inv(2,3) by simp
    show "dom (theap s') = dom (theap s)" using t by (auto simp: s'(1))
  qed
  then show ?thesis using t pid by (auto simp: thread_ends_def os2ThreadCleanup_def s'_def end_spec_def)
qed

lemma reap_inv:
  assumes "thr_inv s a" "ended a = as @ p # bs" "theap s p = Some t"
  shows "thr_inv (free_thr p (s\<lparr>GDeadThreads := nxt t, pstat := (pstat s)(pthread t := Joined)\<rparr>)) (a\<lparr>ended := bs, lost := as @ lost a\<rparr>)"
    (is "thr_inv ?s ?a")
proof -
  note inv = thr_invD [OF assms(1)]
  have d: "p \<notin> set (running a)" "p \<notin> set as" "p \<notin> set bs" "p \<notin> set (lost a)" using inv(1) assms(2) by auto
  have pid: "q \<noteq> p \<Longrightarrow> pid_of ?s q = pid_of s q" for q by (simp add: pid_of_def)
  have tp: "pthread t = pid_of s p" using assms(3) by (simp add: pid_of_def)
  have inj: "q \<in> dom (theap s) \<Longrightarrow> q \<noteq> p \<Longrightarrow> pid_of s q \<noteq> pthread t" for q
    using inj_onD [OF inv(5), of q p] assms(3) by (auto simp: tp)
  have eq: "set (all_threads ?a) = dom (theap s) - {p}" using d inv(3) assms(2) by (auto simp: all_threads_def)
  show ?thesis
    unfolding thr_inv_def eq
  proof (intro conjI)
    show "distinct (all_threads ?a)" using inv(1) assms(2) by (auto simp: all_threads_def)
    show "0 \<notin> dom (theap s) - {p}" using inv(2,3) by simp
    show "dom (theap ?s) = dom (theap s) - {p}" by auto
    show "dead_chain (theap ?s) (GDeadThreads ?s) (ended ?a)"
      using dead_chain_suffix [of "theap s" "GDeadThreads s" as p bs] inv(4) assms(2,3) d by (simp add: dead_chain_upd)
    show "inj_on (pid_of ?s) (dom (theap s) - {p})" using inv(5) pid by (auto simp: inj_on_def)
    show "\<forall>q \<in> set (running ?a). pstat ?s (pid_of ?s q) = Running"
    proof
      fix q assume "q \<in> set (running ?a)"
      then have "q \<in> set (running a)" "q \<noteq> p" using d by auto
      then show "pstat ?s (pid_of ?s q) = Running" using inj [of q] inv(3,6) by (auto simp: pid)
    qed
    show "\<forall>q \<in> set (ended ?a). pstat ?s (pid_of ?s q) = Ended"
    proof
      fix q assume "q \<in> set (ended ?a)"
      then have "q \<in> set (ended a)" "q \<noteq> p" using d assms(2) by auto
      then show "pstat ?s (pid_of ?s q) = Ended" using inj [of q] inv(3,7) by (auto simp: pid)
    qed
  qed
qed

text \<open>Several threads end, and a thread that was joined already does not mind.\<close>

lemma ends_spec_Cons: "distinct (running a) \<Longrightarrow> ends_spec (p # ps) a = ends_spec ps (end_spec p a)"
  by (simp add: ends_spec_def end_spec_def distinct_remove1_removeAll removeAll_filter_not_eq eq_commute [of p])

lemma threads_end_step:
  assumes "thr_inv s a" "ends_ok ps a"
  shows "\<exists>s'. threads_end ps s = Some s' \<and> thr_inv s' (ends_spec ps a) \<and> pid_of s' = pid_of s"
  using assms
proof (induction ps arbitrary: s a)
  case Nil
  then show ?case by (simp add: ends_spec_def)
next
  case (Cons p ps)
  have p: "p \<in> set (running a)" using Cons.prems(2) by (simp add: ends_ok_def)
  have d: "distinct (running a)" using thr_invD(1) [OF Cons.prems(1)] by simp
  obtain s1 where s1: "thread_ends p s = Some s1" "thr_inv s1 (end_spec p a)" "pid_of s1 = pid_of s"
    using Ends_step [OF Cons.prems(1) p] by blast
  have "ends_ok ps (end_spec p a)" using Cons.prems(2) d by (auto simp: ends_ok_def end_spec_def list_all_iff)
  from Cons.IH [OF s1(2) this] show ?case using s1 ends_spec_Cons [OF d] by auto
qed

lemma thread_ends_joined:
  assumes "pid_of s p \<noteq> n" "thread_ends p s = Some s'"
  shows "thread_ends p (s\<lparr>pstat := (pstat s)(n := x)\<rparr>) = Some (s'\<lparr>pstat := (pstat s')(n := x)\<rparr>)"
proof -
  obtain t where t: "theap s p = Some t" using assms(2) by (auto simp: thread_ends_def split: bind_splits)
  then have "pthread t \<noteq> n" using assms(1) by (simp add: pid_of_def)
  then show ?thesis using assms(2) t by (auto simp: thread_ends_def os2ThreadCleanup_def put_thr_def fun_upd_twist)
qed

lemma threads_end_joined:
  assumes "thr_inv s a" "ends_ok ps a" "threads_end ps s = Some s'" "\<forall>p \<in> set ps. pid_of s p \<noteq> n"
  shows "threads_end ps (s\<lparr>pstat := (pstat s)(n := x)\<rparr>) = Some (s'\<lparr>pstat := (pstat s')(n := x)\<rparr>)"
  using assms
proof (induction ps arbitrary: s a)
  case (Cons p ps)
  have p: "p \<in> set (running a)" using Cons.prems(2) by (simp add: ends_ok_def)
  have d: "distinct (running a)" using thr_invD(1) [OF Cons.prems(1)] by simp
  obtain s1 where s1: "thread_ends p s = Some s1" "thr_inv s1 (end_spec p a)" "pid_of s1 = pid_of s"
    using Ends_step [OF Cons.prems(1) p] by blast
  have o: "ends_ok ps (end_spec p a)" using Cons.prems(2) d by (auto simp: ends_ok_def end_spec_def list_all_iff)
  have "thread_ends p (s\<lparr>pstat := (pstat s)(n := x)\<rparr>) = Some (s1\<lparr>pstat := (pstat s1)(n := x)\<rparr>)"
    using thread_ends_joined [OF _ s1(1)] Cons.prems(4) by simp
  moreover have "threads_end ps s1 = Some s'" using Cons.prems(3) s1(1) by simp
  moreover have "\<forall>q \<in> set ps. pid_of s1 q \<noteq> n" using Cons.prems(4) s1(3) by simp
  ultimately have "thread_ends p (s\<lparr>pstat := (pstat s)(n := x)\<rparr>) = Some (s1\<lparr>pstat := (pstat s1)(n := x)\<rparr>)"
    "threads_end ps (s1\<lparr>pstat := (pstat s1)(n := x)\<rparr>) = Some (s'\<lparr>pstat := (pstat s')(n := x)\<rparr>)"
    using Cons.IH [OF s1(2) o] by blast+
  then show ?case by (simp only: threads_end.simps Option.bind.bind_lunit)
qed simp

text \<open>Taking the first thread of the list, and one anywhere on it that was joined.\<close>

lemma pop_step:
  assumes "thr_inv s a" "ended a = p # ps"
  shows "GDeadThreads s \<noteq> 0 \<and> (\<exists>s'. pop_dead s = Some (p, s') \<and> thr_inv s' (a\<lparr>ended := ps\<rparr>))"
proof -
  note inv = thr_invD [OF assms(1)]
  obtain t where t: "theap s p = Some t" using dead_chain_heap [OF inv(4), of p] assms(2) by auto
  have g: "GDeadThreads s \<noteq> 0" using inv(4) assms(2) by simp
  have e: "pstat s (pthread t) = Ended" using inv(7) [of p] assms(2) t by (simp add: pid_of_def)
  have c: "dead_chain (theap s) (GDeadThreads s) (p # ps)" "p \<notin> set ps" using inv(1,4) assms(2) by simp_all
  have "thr_inv (free_thr p (s\<lparr>GDeadThreads := nxt t, pstat := (pstat s)(pthread t := Joined)\<rparr>)) (a\<lparr>ended := ps\<rparr>)"
    using reap_inv [OF assms(1) _ t, of "[]" ps] assms(2) by simp
  then show ?thesis using g pop_dead_chain(1) [OF c t e] by blast
qed

lemma unlink_step:
  assumes "thr_inv s a" "p \<in> set (ended a)"
  shows "\<exists>s'. wait_unlink p (s\<lparr>pstat := (pstat s)(pid_of s p := Joined)\<rparr>) = Some s' \<and> thr_inv s' (reap_spec p a)"
proof -
  note inv = thr_invD [OF assms(1)]
  obtain as bs where ab: "ended a = as @ p # bs" using assms(2) by (auto dest: split_list)
  have d: "p \<notin> set as" using inv(1) ab by auto
  obtain t where t: "theap s p = Some t" using assms(2) inv(3) by blast
  then have n: "pid_of s p = pthread t" by (simp add: pid_of_def)
  let ?s = "s\<lparr>pstat := (pstat s)(pthread t := Joined)\<rparr>"
  have u: "wait_unlink p ?s = Some (free_thr p (?s\<lparr>GDeadThreads := nxt t\<rparr>))"
    using unlink_dead_chain [of ?s as p bs t] inv(4) ab t by (simp add: wait_unlink_def)
  have r: "reap_spec p a = a\<lparr>ended := bs, lost := as @ lost a\<rparr>"
    using d by (simp add: reap_spec_def ab takeWhile_append dropWhile_append)
  have eq: "?s\<lparr>GDeadThreads := nxt t\<rparr> = s\<lparr>GDeadThreads := nxt t, pstat := (pstat s)(pthread t := Joined)\<rparr>" by simp
  show ?thesis unfolding n r using u reap_inv [OF assms(1) ab t, folded eq] by blast
qed

text \<open>The polling loop.\<close>

lemma wait_any_step:
  assumes "thr_inv s a" "ended a \<noteq> [] \<or> first_pause during \<noteq> [] \<and> ends_ok (first_pause during) a"
  shows "\<exists>p ps s'. ended (any_spec 0 during a) = p # ps \<and> wait_any False during s = Some ((NO_ERROR, p), s') \<and>
    thr_inv s' ((any_spec 0 during a)\<lparr>ended := ps\<rparr>)"
proof (cases "ended a")
  case (Cons p ps)
  obtain s' where "GDeadThreads s \<noteq> 0" "pop_dead s = Some (p, s')" "thr_inv s' (a\<lparr>ended := ps\<rparr>)"
    using pop_step [OF assms(1) Cons] by blast
  then show ?thesis using Cons by (cases during) (simp_all add: any_spec_def)
next
  case Nil
  then have f: "first_pause during \<noteq> []" "ends_ok (first_pause during) a" using assms(2) by auto
  have g: "GDeadThreads s = 0" using thr_invD(4) [OF assms(1)] Nil by simp
  show ?thesis using f
  proof (induction during)
    case (Cons qs during)
    show ?case
    proof (cases "qs = []")
      case True
      then have f: "first_pause (qs # during) = first_pause during" by (simp add: first_pause_def)
      then have "any_spec 0 (qs # during) a = any_spec 0 during a" "wait_any False (qs # during) s = wait_any False during s"
        using True g by (simp_all add: any_spec_def)
      then show ?thesis using Cons.IH Cons.prems unfolding f by simp
    next
      case False
      then have q: "first_pause (qs # during) = qs" by (simp add: first_pause_def)
      obtain s1 where s1: "threads_end qs s = Some s1" "thr_inv s1 (ends_spec qs a)"
        using threads_end_step [OF assms(1), of qs] Cons.prems(2) q by auto
      obtain p ps where p: "ended (ends_spec qs a) = p # ps" using False Nil by (cases "rev qs") (auto simp: ends_spec_def)
      obtain s' where "GDeadThreads s1 \<noteq> 0" "pop_dead s1 = Some (p, s')" "thr_inv s' ((ends_spec qs a)\<lparr>ended := ps\<rparr>)"
        using pop_step [OF s1(2) p] by blast
      then have "wait_any False (qs # during) s = Some ((NO_ERROR, p), s')" using g s1(1) by (cases during) simp_all
      then show ?thesis using p \<open>thr_inv s' _\<close> Nil q by (simp add: any_spec_def)
    qed
  qed (simp add: first_pause_def)
qed

lemma Wait_any_step:
  assumes "thr_inv s a" "allowed s a (Wait self during between 0 option)"
  shows "\<exists>s'. event_step (Wait self during between 0 option) s = Some (fst (event_spec (Wait self during between 0 option) a), s') \<and>
    thr_inv s' (snd (event_spec (Wait self during between 0 option) a))"
proof (cases "option = 0")
  case True
  then have "ended a \<noteq> [] \<or> first_pause during \<noteq> [] \<and> ends_ok (first_pause during) a" using assms(2) by simp
  from wait_any_step [OF assms(1) this] obtain p ps s' where "ended (any_spec 0 during a) = p # ps"
    "wait_any False during s = Some ((NO_ERROR, p), s')" "thr_inv s' ((any_spec 0 during a)\<lparr>ended := ps\<rparr>)" by blast
  then show ?thesis using True by (simp add: DosWaitThread_def)
next
  case False
  then have o: "option = 1" using assms(2) by auto
  show ?thesis
  proof (cases "ended a")
    case Nil
    then have "wait_any True during s = Some ((ERROR_THREAD_NOT_TERMINATED, 0), s)"
      using thr_invD(4) [OF assms(1)] by (cases during) simp_all
    then show ?thesis using o Nil assms(1) by (simp add: DosWaitThread_def any_spec_def)
  next
    case (Cons p ps)
    obtain s' where s': "GDeadThreads s \<noteq> 0" "pop_dead s = Some (p, s')" "thr_inv s' (a\<lparr>ended := ps\<rparr>)"
      using pop_step [OF assms(1) Cons] by blast
    then have "wait_any True during s = Some ((NO_ERROR, p), s')" by (cases during) simp_all
    then show ?thesis using o Cons s'(3) by (simp add: DosWaitThread_def any_spec_def)
  qed
qed

text \<open>From the join of an ended thread on.\<close>

lemma wait_joined_step:
  assumes "thr_inv s a" "p \<in> set (ended a)" "ends_ok between a"
  shows "\<exists>s2 s3. threads_end between (s\<lparr>pstat := (pstat s)(pid_of s p := Joined)\<rparr>) = Some s2 \<and> wait_unlink p s2 = Some s3 \<and>
    thr_inv s3 (reap_spec p (ends_spec between a))"
proof -
  note inv = thr_invD [OF assms(1)]
  obtain s' where s': "threads_end between s = Some s'" "thr_inv s' (ends_spec between a)" "pid_of s' = pid_of s"
    using threads_end_step [OF assms(1,3)] by blast
  have "\<forall>q \<in> set between. pid_of s q \<noteq> pid_of s p"
  proof
    fix q assume "q \<in> set between"
    then have q: "q \<in> set (running a)" using assms(3) by (auto simp: ends_ok_def list_all_iff)
    then have "pstat s (pid_of s q) = Running" "pstat s (pid_of s p) = Ended" using inv(6,7) assms(2) by blast+
    then show "pid_of s q \<noteq> pid_of s p" by auto
  qed
  note j = threads_end_joined [OF assms(1,3) s'(1) this]
  have "p \<in> set (ended (ends_spec between a))" using assms(2) by (simp add: ends_spec_def)
  from unlink_step [OF s'(2) this] show ?thesis using j [of Joined] s'(3) by auto
qed

lemma Wait_one_step:
  assumes "thr_inv s a" "allowed s a (Wait self during between p option)" "p \<noteq> 0"
  shows "\<exists>s'. event_step (Wait self during between p option) s = Some (fst (event_spec (Wait self during between p option) a), s') \<and>
    thr_inv s' (snd (event_spec (Wait self during between p option) a))"
proof -
  note inv = thr_invD [OF assms(1)]
  let ?a = "one_spec option during a"
  have o: "option = 0 \<or> option = 1" and self: "pid_of s p \<noteq> self" using assms(2,3) by auto
  have "\<exists>s1. thr_inv s1 ?a \<and> pid_of s1 = pid_of s \<and> (option = 0 \<longrightarrow> threads_end (concat during) s = Some s1) \<and> (option = 1 \<longrightarrow> s1 = s)"
  proof (cases "option = 0")
    case True
    then have "ends_ok (concat during) a" using assms(2,3) by simp
    from threads_end_step [OF assms(1) this] show ?thesis using True by (auto simp: one_spec_def)
  next
    case False
    then show ?thesis using assms(1) by (intro exI [of _ s]) (simp add: one_spec_def)
  qed
  then obtain s1 where s1: "thr_inv s1 ?a" "pid_of s1 = pid_of s" "option = 0 \<Longrightarrow> threads_end (concat during) s = Some s1"
    "option = 1 \<Longrightarrow> s1 = s" by blast
  show ?thesis
  proof (cases "p \<in> set (running ?a)")
    case True
    then have o1: "option = 1" using o assms(2,3) thr_invD(1) [OF s1(1)] by auto
    then have r: "p \<in> set (running a)" "?a = a" using True by (simp_all add: one_spec_def)
    obtain t where t: "theap s p = Some t" using r(1) inv(3) by blast
    have "pstat s (pthread t) = Running" using inv(6) [OF r(1)] t by (simp add: pid_of_def)
    then have "DosWaitThread self during between p option s = Some ((ERROR_THREAD_NOT_TERMINATED, p), s)"
      using o1 self assms(3) t by (simp add: DosWaitThread_def wait_one_def wait_join_def pthread_join_def pid_of_def)
    then show ?thesis using r assms(1,3) by simp
  next
    case False
    then have p: "p \<in> set (ended ?a)" "ends_ok between ?a" using assms(2,3) by (auto simp: one_spec_def split: if_split_asm)
    have e: "pstat s1 (pid_of s p) = Ended" using thr_invD(7) [OF s1(1) p(1)] s1(2) by simp
    have "p \<in> dom (theap s)" using p(1) inv(3) assms(2,3)
      by (auto simp: one_spec_def ends_spec_def ends_ok_def list_all_iff split: if_split_asm)
    then obtain t where t: "theap s p = Some t" by blast
    then have n: "pthread t = pid_of s p" by (simp add: pid_of_def)
    have j: "wait_join (option = 1) self (concat during) p s = Some (None, s1\<lparr>pstat := (pstat s1)(pid_of s p := Joined)\<rparr>)"
      using o self e t s1(3,4) by (auto simp: wait_join_def pthread_join_def n)
    obtain s2 s3 where s3: "threads_end between (s1\<lparr>pstat := (pstat s1)(pid_of s p := Joined)\<rparr>) = Some s2" "wait_unlink p s2 = Some s3"
      "thr_inv s3 (reap_spec p (ends_spec between ?a))"
      using wait_joined_step [OF s1(1) p] s1(2) by auto
    have "DosWaitThread self during between p option s = Some ((NO_ERROR, p), s3)"
      using o assms(3) s3(1,2) by (auto simp: DosWaitThread_def wait_one_def j)
    then show ?thesis using False assms(3) s3(3) by simp
  qed
qed

lemma event_simulation:
  assumes "thr_inv s a" "allowed s a e"
  shows "\<exists>s'. event_step e s = Some (fst (event_spec e a), s') \<and> thr_inv s' (snd (event_spec e a))"
proof (cases e)
  case (Ends p)
  then show ?thesis using assms Ends_step [of s a p] by auto
next
  case (Wait self during between tid option)
  then show ?thesis
    using assms Wait_any_step [of s a self during between option] Wait_one_step [of s a self during between tid option] by blast
qed (use assms Create_step in blast)

lemma events_simulation:
  "thr_inv s a \<Longrightarrow> all_allowed es s a \<Longrightarrow> \<exists>s'. run_events es s = Some (fst (spec_events es a), s') \<and> thr_inv s' (snd (spec_events es a))"
proof (induction es arbitrary: s a)
  case (Cons e es)
  obtain s1 where s1: "event_step e s = Some (fst (event_spec e a), s1)" "thr_inv s1 (snd (event_spec e a))"
    using event_simulation [OF Cons.prems(1)] Cons.prems(2) by auto
  have "all_allowed es s1 (snd (event_spec e a))" using Cons.prems(2) s1(1) by simp
  from Cons.IH [OF s1(2) this] show ?case using s1(1) by (auto simp: split_beta Let_def)
qed simp

definition no_threads :: threads where
  "no_threads = \<lparr>theap = (\<lambda>_. None), GDeadThreads = 0, pstat = (\<lambda>_. Joined), deinited = []\<rparr>"

definition no_tspec :: tspec where
  "no_tspec = \<lparr>running = [], ended = [], lost = []\<rparr>"

text \<open>
  C38. Threads are created, end and are waited for as the abstract machine of running, ended and lost threads says.  The runs are those
  from the start in which each wait is for any thread, or for another thread that runs or is on the list of ended ones, and in which
  each blocking wait returns; threads may end during a blocking wait, and between the join of a thread and its unlinking.  In all of
  them no freed structure is touched, no assertion fails and no thread is joined twice, each call returns the code and the thread
  of the abstract machine, and \<open>GDeadThreads\<close> is its list of ended threads.  (Waits for a thread that is lost or was reaped,
  and two waits at the same time, are not among them: the lemmas below show that they go wrong.)
\<close>

theorem DosWaitThread_refines:
  assumes "all_allowed es no_threads no_tspec"
  shows "\<exists>s'. run_events es no_threads = Some (fst (spec_events es no_tspec), s') \<and>
    dead_chain (theap s') (GDeadThreads s') (ended (snd (spec_events es no_tspec))) \<and>
    dom (theap s') = set (all_threads (snd (spec_events es no_tspec)))"
proof -
  have "thr_inv no_threads no_tspec" by (simp add: thr_inv_def no_threads_def no_tspec_def all_threads_def)
  from events_simulation [OF this assms] show ?thesis by (auto simp: thr_inv_def)
qed

text \<open>
  A run with blocking waits: the first thread is waited for while it runs, and ends with the second, the third ending
  before it is unlinked (the second and third are lost by that); the last wait sleeps twice before a thread ends.
\<close>

definition demo_events :: "event list" where
  "demo_events = [Create 0x100 1 0 0 8192, Create 0x200 2 0 0 8192, Create 0x300 3 0 0 8192, Wait 9 [] [] 0x100 1,
     Wait 9 [[0x100, 0x200]] [0x300] 0x100 0, Create 0x400 4 0 0 8192, Create 0x500 5 0 0 8192, Ends 0x400, Wait 9 [] [] 0x400 1,
     Wait 9 [[], [], [0x500]] [] 0 0, Wait 9 [] [] 0 1]"

theorem DosWaitThread_refines_witness:
  "\<exists>s'. run_events demo_events no_threads = Some ([(NO_ERROR, 0x100), (NO_ERROR, 0x200), (NO_ERROR, 0x300),
    (ERROR_THREAD_NOT_TERMINATED, 0x100), (NO_ERROR, 0x100), (NO_ERROR, 0x400), (NO_ERROR, 0x500), (NO_ERROR, 0x400), (NO_ERROR, 0x400),
    (NO_ERROR, 0x500), (ERROR_THREAD_NOT_TERMINATED, 0)], s') \<and> GDeadThreads s' = 0 \<and> dom (theap s') = {0x200, 0x300}"
proof -
  have a: "all_allowed demo_events no_threads no_tspec" by code_simp
  have s: "fst (spec_events demo_events no_tspec) = [(NO_ERROR, 0x100), (NO_ERROR, 0x200), (NO_ERROR, 0x300),
    (ERROR_THREAD_NOT_TERMINATED, 0x100), (NO_ERROR, 0x100), (NO_ERROR, 0x400), (NO_ERROR, 0x500), (NO_ERROR, 0x400), (NO_ERROR, 0x400),
    (NO_ERROR, 0x500), (ERROR_THREAD_NOT_TERMINATED, 0)]"
    "ended (snd (spec_events demo_events no_tspec)) = []" "all_threads (snd (spec_events demo_events no_tspec)) = [0x300, 0x200]" by code_simp+
  show ?thesis using DosWaitThread_refines [OF a] unfolding s by auto
qed

text \<open>
  A thread in front of the one waited for is lost: nothing finds it any more, and to wait for it by its handle
  later reads the structure behind it, which is freed by then.
\<close>

lemma DosWaitThread_loses:
  "run_events [Create 0x100 1 0 0 0, Create 0x200 2 0 0 0, Ends 0x100, Ends 0x200, Wait 9 [] [] 0x100 0, Wait 9 [] [] 0 1] no_threads \<noteq> None \<and>
   snd (spec_events [Create 0x100 1 0 0 0, Create 0x200 2 0 0 0, Ends 0x100, Ends 0x200, Wait 9 [] [] 0x100 0] no_tspec)
     = \<lparr>running = [], ended = [], lost = [0x200]\<rparr>"
  by code_simp

lemma DosWaitThread_freed:
  "run_events [Create 0x100 1 0 0 0, Create 0x200 2 0 0 0, Ends 0x100, Ends 0x200, Wait 9 [] [] 0x100 0, Wait 9 [] [] 0x200 0] no_threads = None"
  by code_simp

text \<open>A thread that was reaped has no structure: to wait for it again reads freed memory.\<close>

lemma DosWaitThread_again:
  "run_events [Create 0x100 1 0 0 0, Ends 0x100, Wait 9 [] [] 0x100 0, Wait 9 [] [] 0x100 1] no_threads = None"
  by code_simp

text \<open>
  Two waits at a time: the first has joined the thread, which is still on the list because the join is outside
  the lock; the second takes it off and joins it again.
\<close>

lemma DosWaitThread_races:
  assumes "run_events [Create 0x100 1 0 0 0, Ends 0x100] no_threads = Some (r, s)" "wait_join False 9 [] 0x100 s = Some (None, s1)"
  shows "DosWaitThread 8 [] [] 0 1 s1 = None"
proof -
  define s0 where "s0 = snd (the (run_events [Create 0x100 1 0 0 0, Ends 0x100] no_threads))"
  have s: "s = s0" using assms(1) by (simp add: s0_def)
  define j where "j = snd (the (wait_join False 9 [] 0x100 s0))"
  have "s1 = j" using assms(2) by (simp add: s j_def)
  moreover have "DosWaitThread 8 [] [] 0 1 j = None" unfolding j_def s0_def by code_simp
  ultimately show ?thesis by simp
qed

text \<open>The stack is a whole number of pages with one page more than asked for, as long as the sum does not wrap.\<close>

lemma thread_stack_pages:
  assumes "unat cb \<le> 4294959104"
  shows "unat (thread_stack cb) mod 4096 = 0" "unat cb + 4096 \<le> unat (thread_stack cb)" "unat (thread_stack cb) < unat cb + 8192"
proof -
  define n where "n = unat cb"
  have n: "n \<le> 4294959104" using assms by (simp add: n_def)
  have m: "unat (cb mod 4096) = n mod 4096" by (simp add: n_def unat_mod)
  have c: "cb = of_nat n" by (simp add: n_def)
  have z: "cb mod 4096 = 0 \<longleftrightarrow> n mod 4096 = 0" using m by (metis unsigned_0 unsigned_word_eqI)
  define k where "k = (if n mod 4096 \<noteq> 0 then n + (4096 - n mod 4096) else n) + 4096"
  obtain q r where qr: "n = 4096 * q + r" "r < 4096" "n mod 4096 = r"
    using that [of "n div 4096" "n mod 4096"] by simp
  have e: "k = 4096 * (q + (if r \<noteq> 0 then 2 else 1))"
    unfolding k_def qr(3) using qr(1,2) by (cases "r = 0") simp_all
  have k2: "k mod 4096 = 0" unfolding e by simp
  have "k < 4294967296 \<and> n + 4096 \<le> k \<and> k < n + 8192"
    using n qr(1,2) unfolding e by (cases "r = 0") simp_all
  then have k: "k < 4294967296" "k mod 4096 = 0" "n + 4096 \<le> k" "k < n + 8192" using k2 by simp_all
  have d: "unat (4096 - cb mod 4096) = 4096 - n mod 4096"
    by (subst unat_diff_u32) (simp_all add: m less_imp_le)
  have "thread_stack cb = of_nat k"
  proof (cases "n mod 4096 = 0")
    case True
    then show ?thesis using z by (simp add: thread_stack_def k_def c)
  next
    case False
    have "4096 - cb mod 4096 = of_nat (4096 - n mod 4096)" 
      using arg_cong [OF d, of "of_nat :: nat \<Rightarrow> u32"] by (simp only: of_nat_unat ucast_id)
    then show ?thesis using z False by (simp add: thread_stack_def k_def c)
  qed
  then have "unat (thread_stack cb) = k" using k(1) by (simp add: unat_of_nat_u32)
  then show "unat (thread_stack cb) mod 4096 = 0" "unat cb + 4096 \<le> unat (thread_stack cb)" "unat (thread_stack cb) < unat cb + 8192"
    using k by (simp_all add: n_def)
qed

lemma thread_stack_wraps: "thread_stack 0xFFFFF001 = 0x1000"
  by code_simp

subsection \<open>Exit handlers\<close>

text \<open>
  \<open>GExitList\<close> is the linked list of the handlers, each item with its address, its function and its
  priority.  The code never stores the priority: it is what \<^verbatim>\<open>malloc\<close> left there (\<open>garbage\<close>).
\<close>

record exit_item =
  item_addr :: u32
  item_fn :: u32
  item_priority :: u32

definition exit_add :: "u32 \<Rightarrow> exit_item \<Rightarrow> exit_item list \<Rightarrow> exit_item list" where
  "exit_add arg new xs = takeWhile (\<lambda>i. item_priority i < arg) xs @ new # dropWhile (\<lambda>i. item_priority i < arg) xs"

fun exit_remove :: "u32 \<Rightarrow> exit_item list \<Rightarrow> exit_item list option" where
  "exit_remove fn [] = None"
| "exit_remove fn (i # is) = (if item_fn i = fn then Some is else map_option (Cons i) (exit_remove fn is))"

definition DosExitList :: "u32 option \<Rightarrow> u32 \<Rightarrow> u32 \<Rightarrow> u32 \<Rightarrow> exit_item list \<Rightarrow> apiret \<times> exit_item list" where
  "DosExitList mem garbage ordercode fn xs =
    (let cmd = ordercode AND 0xFF; arg = drop_bit 8 ordercode AND 0xFF in
     if fn = 0 then (ERROR_INVALID_FUNCTION, xs)
     else if cmd \<noteq> 1 \<and> arg \<noteq> 0 then (ERROR_INVALID_DATA, xs)
     else if cmd = 1 then
       (case mem of None \<Rightarrow> (ERROR_NOT_ENOUGH_MEMORY, xs)
        | Some p \<Rightarrow> (NO_ERROR, exit_add arg \<lparr>item_addr = p, item_fn = fn, item_priority = garbage\<rparr> xs))
     else if cmd = 2 then
       (case exit_remove fn xs of None \<Rightarrow> (ERROR_INVALID_FUNCTION, xs) | Some ys \<Rightarrow> (NO_ERROR, ys))
     else if cmd = 3 then (NO_ERROR, xs)
     else (ERROR_INVALID_DATA, xs))"

text \<open>
  Running the handlers: the item is taken off the list and freed, and then its function is called, which may change
  the list (\<open>acts\<close>).  The loop goes on at the address it read before the call; when that item is no longer on
  the list it was freed (\<open>None\<close>), and items that were put in front of it are passed over.  The result also lists the
  functions called.
\<close>

fun exit_loop :: "nat \<Rightarrow> (u32 \<Rightarrow> exit_item list \<Rightarrow> exit_item list) \<Rightarrow> u32 \<Rightarrow> exit_item list \<Rightarrow> (u32 list \<times> exit_item list) option" where
  "exit_loop 0 acts p xs = None"
| "exit_loop (Suc n) acts p xs =
    (if p = 0 then Some ([], xs)
     else case dropWhile (\<lambda>i. item_addr i \<noteq> p) xs of
       [] \<Rightarrow> None
     | i # is \<Rightarrow> do {
         (fns, ys) \<leftarrow> exit_loop n acts (case is of [] \<Rightarrow> 0 | j # _ \<Rightarrow> item_addr j) (acts (item_fn i) is);
         Some (item_fn i # fns, ys) })"

definition runDosExitList :: "nat \<Rightarrow> (u32 \<Rightarrow> exit_item list \<Rightarrow> exit_item list) \<Rightarrow> exit_item list \<Rightarrow> (u32 list \<times> exit_item list) option" where
  "runDosExitList n acts xs = exit_loop n acts (case xs of [] \<Rightarrow> 0 | j # _ \<Rightarrow> item_addr j) xs"

datatype exit_outcome = Thread_exits | Terminates u32 "u32 list"

definition DosExit_implementation :: "nat \<Rightarrow> (u32 \<Rightarrow> exit_item list \<Rightarrow> exit_item list) \<Rightarrow> u32 \<Rightarrow> u32 \<Rightarrow> exit_item list
    \<Rightarrow> exit_outcome option" where
  "DosExit_implementation n acts action exitcode xs =
    (if action = 0 then Some Thread_exits
     else do { (fns, _) \<leftarrow> runDosExitList n acts xs; Some (Terminates exitcode fns) })"

text \<open>Handlers that leave the list alone are each called once, in the order of the list.\<close>

lemma exit_loop_all:
  "0 \<notin> set (map item_addr xs) \<Longrightarrow> length xs < n \<Longrightarrow>
    exit_loop n (\<lambda>_ ys. ys) (case xs of [] \<Rightarrow> 0 | j # _ \<Rightarrow> item_addr j) xs = Some (map item_fn xs, [])"
proof (induction xs arbitrary: n)
  case Nil
  then show ?case by (cases n) simp_all
next
  case (Cons x xs)
  then obtain k where k: "n = Suc k" by (cases n) auto
  show ?case using Cons by (simp add: k)
qed

lemma DosExit_runs_all:
  assumes "0 \<notin> set (map item_addr xs)" "length xs < n" "action \<noteq> 0"
  shows "DosExit_implementation n (\<lambda>_ ys. ys) action code xs = Some (Terminates code (map item_fn xs))"
  using exit_loop_all [OF assms(1,2)] assms(3) by (simp add: DosExit_implementation_def runDosExitList_def)

text \<open>If the priority were stored the list would stay sorted; as it is not, the order is that of the garbage.\<close>

lemma exit_add_sorted:
  "sorted_wrt (\<lambda>a b. item_priority a \<le> item_priority b) xs \<Longrightarrow> item_priority new = arg \<Longrightarrow>
    sorted_wrt (\<lambda>a b. item_priority a \<le> item_priority b) (exit_add arg new xs)"
  unfolding exit_add_def
  by (induction xs) (auto simp: sorted_wrt_append not_less dest: set_takeWhileD)

lemma DosExitList_unsorted:
  "map item_fn (snd (DosExitList (Some 0x200) 0 0x0101 0xB (snd (DosExitList (Some 0x100) 0xFFFFFFFF 0x0201 0xA []))))
     = [0xB, 0xA] \<and>
   map item_fn (snd (DosExitList (Some 0x200) 0 0x0201 0xB (snd (DosExitList (Some 0x100) 0xFFFFFFFF 0x0101 0xA []))))
     = [0xB, 0xA]"
  by code_simp

text \<open>A handler that takes the next handler off the list makes the loop read a freed item.\<close>

lemma runDosExitList_freed:
  "runDosExitList 9 (\<lambda>fn ys. if fn = 0xA then snd (DosExitList None 0 2 0xB ys) else ys)
     [\<lparr>item_addr = 0x100, item_fn = 0xA, item_priority = 0\<rparr>, \<lparr>item_addr = 0x200, item_fn = 0xB, item_priority = 0\<rparr>] = None"
  by code_simp

subsection \<open>Sleeping\<close>

text \<open>The microseconds given to \<^verbatim>\<open>usleep\<close>, or the processor is only offered to others.\<close>

definition DosSleep :: "u32 \<Rightarrow> u32 option" where
  "DosSleep msec = (if msec = 0 then None else Some (msec * 1000))"

lemma DosSleep_micro: "msec \<noteq> 0 \<Longrightarrow> unat msec \<le> 4294967 \<Longrightarrow> map_option unat (DosSleep msec) = Some (unat msec * 1000)"
  by (simp add: DosSleep_def unat_word_ariths)

lemma DosSleep_wraps: "DosSleep 4294968 = Some 704"
  by code_simp

end
