(* ===== verification/DosMisc.thy ===== *)
theory DosMisc
  imports DosFind DosDir DosExec Exports
begin

section \<open>System queries and small services (\<^verbatim>\<open>native/doscalls.c\<close>)\<close>

text \<open>
  The operations of the API that keep no state of their own: system values, the environment, code pages, date and
  time, devices, application types, deleting files and creating directories, and the 16-bit variants of
  file and directory operations.  What the host system answers is an argument.  A buffer of the caller is a
  list, and a store outside it is a fault (\<open>None\<close>).
\<close>

subsection \<open>System values\<close>

text \<open>The clocks and memory sizes of the host (\<^verbatim>\<open>long\<close> values as integers).\<close>

record hostinfo =
  uptime :: int
  mono :: int
  unixtime :: int
  totalram :: u32
  freeram :: u32

text \<open>The millisecond counter and its static variable \<^verbatim>\<open>startoffset\<close>.\<close>

definition ms_count :: "hostinfo \<Rightarrow> int \<Rightarrow> u32 \<times> int" where
  "ms_count hi startoffset =
    (let off = (if startoffset = 0 then uptime hi - mono hi else startoffset)
     in (word_of_int (mono hi - off), off))"

definition sysinfo_value :: "hostinfo \<Rightarrow> int \<Rightarrow> u32 \<Rightarrow> (u32 \<times> int) option" where
  "sysinfo_value hi off varid =
    (if varid = 14 then Some (ms_count hi off)
     else map_option (\<lambda>v. (v, off))
       (if varid = 1 then Some 4096 else if varid = 2 \<or> varid = 3 then Some 999999 else if varid = 4 then Some 0
        else if varid = 5 then Some 3 else if varid = 6 \<or> varid = 7 \<or> varid = 8 then Some 1 else if varid = 9 then Some 10
        else if varid = 10 then Some 4096 else if varid = 11 then Some 20 else if varid = 12 then Some 45
        else if varid = 13 then Some 0 else if varid = 15 then Some (word_of_int (unixtime hi))
        else if varid = 16 then Some 0 else if varid = 17 then Some (totalram hi)
        else if varid = 18 then Some (totalram hi - freeram hi) else if varid = 19 then Some (freeram hi)
        else if varid = 20 \<or> varid = 21 then Some 0x7FFFFFFF else if varid = 22 then Some 10
        else if varid = 23 then Some 255 else if varid = 24 \<or> varid = 25 then Some 1 else None))"

text \<open>
  The loop over the \<open>n\<close> variables from \<open>varid\<close> on; no variable number exceeds 25, so the loop returns before the counter
  of the code can wrap.
\<close>

fun sysinfo_loop :: "hostinfo \<Rightarrow> nat \<Rightarrow> u32 \<Rightarrow> nat \<Rightarrow> u32 list \<Rightarrow> int \<Rightarrow> (apiret \<times> u32 list \<times> int) option" where
  "sysinfo_loop hi 0 varid pos buf off = Some (NO_ERROR, buf, off)"
| "sysinfo_loop hi (Suc n) varid pos buf off =
    (case sysinfo_value hi off varid of
       None \<Rightarrow> Some (ERROR_INVALID_PARAMETER, buf, off)
     | Some (v, off1) \<Rightarrow>
         if pos < length buf then sysinfo_loop hi n (varid + 1) (pos + 1) (buf[pos := v]) off1 else None)"

definition DosQuerySysInfo :: "hostinfo \<Rightarrow> u32 \<Rightarrow> u32 \<Rightarrow> u32 list \<Rightarrow> u32 \<Rightarrow> int \<Rightarrow> (apiret \<times> u32 list \<times> int) option" where
  "DosQuerySysInfo hi firstid lastid buf buflen off =
    (if lastid < firstid then Some (ERROR_INVALID_PARAMETER, buf, off)
     else if buflen div 4 < lastid - firstid + 1 then Some (ERROR_BUFFER_OVERFLOW, buf, off)
     else sysinfo_loop hi (unat lastid - unat firstid + 1) firstid 0 buf off)"

lemma sysinfo_loop_safe: "pos + n \<le> length buf \<Longrightarrow> \<exists>rc buf' off'. sysinfo_loop hi n varid pos buf off = Some (rc, buf', off') \<and> length buf' = length buf"
  by (induction hi n varid pos buf off rule: sysinfo_loop.induct) (auto split: option.split)

text \<open>
  The guard on the length keeps every store inside the buffer; when its sum wraps around, the first variable
  is 0, which does not exist.
\<close>

lemma DosQuerySysInfo_safe:
  assumes "unat buflen \<le> 4 * length buf"
  shows "DosQuerySysInfo hi firstid lastid buf buflen off \<noteq> None"
proof (cases "lastid < firstid \<or> buflen div 4 < lastid - firstid + 1")
  case True
  then show ?thesis by (auto simp: DosQuerySysInfo_def)
next
  case False
  then have le: "unat firstid \<le> unat lastid" "lastid - firstid + 1 \<le> buflen div 4" by (simp_all add: word_le_nat_alt not_less)
  have d: "unat (lastid - firstid) = unat lastid - unat firstid" using le(1) by (rule unat_diff_u32)
  have b: "unat (buflen div 4) \<le> length buf" using assms by (simp add: unat_div)
  show ?thesis
  proof (cases "lastid - firstid = - 1")
    case True
    then have "unat lastid - unat firstid = 4294967295" using d by (simp add: unsigned_minus_1_eq_mask mask_eq_exp_minus_1)
    then have "unat firstid = 0" using unat_u32_less(2) [of lastid] by linarith
    then have "firstid = 0" by (simp add: unat_eq_0)
    then show ?thesis using False by (simp add: DosQuerySysInfo_def sysinfo_value_def)
  next
    case ne: False
    have "unat (lastid - firstid + 1) = Suc (unat (lastid - firstid))"
      using ne by (metis add.commute eq_neg_iff_add_eq_0 unatSuc)
    then have "unat lastid - unat firstid + 1 \<le> length buf" using d le(2) b by (simp add: word_le_nat_alt)
    then have "0 + (unat lastid - unat firstid + 1) \<le> length buf" by simp
    from sysinfo_loop_safe [OF this] have "sysinfo_loop hi (unat lastid - unat firstid + 1) firstid 0 buf off \<noteq> None" by (metis option.distinct(1))
    then show ?thesis using False by (simp add: DosQuerySysInfo_def del: sysinfo_loop.simps)
  qed
qed

text \<open>The counter of milliseconds counts seconds.\<close>

lemma ms_count_seconds: "off \<noteq> 0 \<Longrightarrow> ms_count hi off = (v, off') \<Longrightarrow> ms_count (hi\<lparr>mono := mono hi + 1\<rparr>) off' = (v + 1, off)"
  by (auto simp: ms_count_def Let_def)

subsection \<open>Module names and the environment\<close>

definition put_cstr :: "bytes \<Rightarrow> bytes \<Rightarrow> bytes option" where
  "put_cstr buf s = wr_blk buf 0 (s @ [0])"

definition DosQueryModuleName :: "bytes \<Rightarrow> u32 \<Rightarrow> bytes \<Rightarrow> (apiret \<times> bytes) option" where
  "DosQueryModuleName os2path buflen buf =
    (if unat buflen \<le> length os2path then Some (ERROR_BAD_LENGTH, buf)
     else do { buf' \<leftarrow> put_cstr buf os2path; Some (NO_ERROR, buf') })"

lemma DosQueryModuleName_safe: "unat buflen \<le> length buf \<Longrightarrow> DosQueryModuleName p buflen buf \<noteq> None"
  by (auto simp: DosQueryModuleName_def put_cstr_def wr_blk_def)

text \<open>
  The environment of the process is the block of its strings; the result is the offset of the value in the
  block.  \<open>skip_str\<close> moves to the byte behind the NUL of the string at the position.
\<close>

function scan_env :: "bytes \<Rightarrow> bytes \<Rightarrow> nat \<Rightarrow> (nat option) option" where
  "scan_env env name p =
    (case cstr_at env p of None \<Rightarrow> None
     | Some s \<Rightarrow>
         if s = [] then Some None
         else if take (length name + 1) s = name @ [0x3D] then Some (Some (p + length name + 1))
         else scan_env env name (p + length s + 1))"
  by pat_completeness auto

termination by (relation "measure (\<lambda>(env, name, p). length env - p)") (use cstr_at_bound in force)+

declare scan_env.simps [simp del]

definition DosScanEnv :: "bytes \<Rightarrow> bytes \<Rightarrow> (apiret \<times> nat option) option" where
  "DosScanEnv env name = map_option (\<lambda>r. (if r = None then ERROR_ENVVAR_NOT_FOUND else NO_ERROR, r)) (scan_env env name 0)"

text \<open>In the block of a list of strings the first string that starts with the name and an equals sign is found.\<close>

fun env_lookup :: "bytes list \<Rightarrow> bytes \<Rightarrow> bytes option" where
  "env_lookup [] name = None"
| "env_lookup (s # ss) name = (if take (length name + 1) s = name @ [0x3D] then Some (drop (length name + 1) s) else env_lookup ss name)"

lemma scan_env_block:
  "env_strings ss \<Longrightarrow> (case scan_env (pre @ env_block ss) name (length pre) of
     None \<Rightarrow> False
   | Some None \<Rightarrow> env_lookup ss name = None
   | Some (Some p) \<Rightarrow> env_lookup ss name = cstr_at (pre @ env_block ss) p \<and> env_lookup ss name \<noteq> None)"
proof (induction ss arbitrary: pre)
  case Nil
  have "cstr_at (pre @ [0]) (length pre) = Some []" using cstr_at_string [of "[]" pre "[]"] by simp
  then show ?case by (subst scan_env.simps) (simp add: env_block_def)
next
  case (Cons s ss)
  have s: "s \<noteq> []" "0 \<notin> set s" "env_strings ss" using Cons.prems by (auto simp: env_strings_Cons)
  have c: "cstr_at (pre @ s @ 0 # env_block ss) (length pre) = Some s" using s(2) by (rule cstr_at_string)
  show ?case
  proof (cases "take (length name + 1) s = name @ [0x3D]")
    case True
    define t where "t = drop (length name + 1) s"
    have st: "s = name @ [0x3D] @ t" unfolding t_def by (metis True append_assoc append_take_drop_id)
    then have "0 \<notin> set t" using s(2) by simp
    from cstr_at_string [OF this, of "pre @ name @ [0x3D]" "env_block ss"]
    have "cstr_at (pre @ s @ 0 # env_block ss) (length pre + length name + 1) = Some t" by (simp add: st)
    then show ?thesis using c s(1) True by (subst scan_env.simps) (simp add: env_block_Cons t_def)
  next
    case False
    have e1: "scan_env (pre @ env_block (s # ss)) name (length pre)
        = scan_env ((pre @ s @ [0]) @ env_block ss) name (length (pre @ s @ [0]))"
      using c s(1) False by (subst scan_env.simps) (simp add: env_block_Cons)
    have e2: "env_lookup (s # ss) name = env_lookup ss name" using False by simp
    have e3: "pre @ env_block (s # ss) = (pre @ s @ [0]) @ env_block ss" by (simp add: env_block_Cons)
    show ?thesis unfolding e2 e3 e1 [unfolded e3] by (rule Cons.IH [OF s(3)])
  qed
qed

lemma DosScanEnv_finds: "env_strings ss \<Longrightarrow> env_lookup ss name = Some v \<Longrightarrow>
    \<exists>p. DosScanEnv (env_block ss) name = Some (NO_ERROR, Some p) \<and> cstr_at (env_block ss) p = Some v"
  using scan_env_block [where ss = ss and pre = "[]" and name = name] by (auto simp: DosScanEnv_def split: option.splits)

lemma DosScanEnv_missing: "env_strings ss \<Longrightarrow> env_lookup ss name = None \<Longrightarrow>
    DosScanEnv (env_block ss) name = Some (ERROR_ENVVAR_NOT_FOUND, None)"
  using scan_env_block [where ss = ss and pre = "[]" and name = name] by (auto simp: DosScanEnv_def split: option.splits)

subsection \<open>Code pages, libraries' paths, devices\<close>

text \<open>The list of code pages: two entries; \<open>pcCP\<close> gets their size in bytes.\<close>

definition DosQueryCp :: "u32 \<Rightarrow> u32 list \<Rightarrow> u32 option \<Rightarrow> (apiret \<times> u32 list \<times> u32 option) option" where
  "DosQueryCp cb arCP pcCP =
    (if cb < 8 then Some (ERROR_CPLIST_TOO_SMALL, arCP, pcCP)
     else do { ar \<leftarrow> wr_blk arCP 0 [437, 437]; Some (NO_ERROR, ar, map_option (\<lambda>_. 8) pcCP) })"

definition Dos16GetCp :: "u16 \<Rightarrow> u16 list \<Rightarrow> u16 option \<Rightarrow> (apiret \<times> u16 list \<times> u16 option) option" where
  "Dos16GetCp cb arCP pcCP =
    (if cb < 4 then Some (ERROR_CPLIST_TOO_SMALL, arCP, pcCP)
     else do { ar \<leftarrow> wr_blk arCP 0 [437, 437]; Some (NO_ERROR, ar, map_option (\<lambda>_. 4) pcCP) })"

definition DosSetProcessCp :: "u32 \<Rightarrow> apiret" where
  "DosSetProcessCp cp = (if cp \<noteq> 437 then ERROR_INVALID_CODE_PAGE else NO_ERROR)"

lemma cp_roundtrip: "DosQueryCp cb arCP (Some n) = Some (NO_ERROR, ar, r) \<Longrightarrow> DosSetProcessCp (ar ! 0) = NO_ERROR \<and> r = Some 8"
  by (auto simp: DosQueryCp_def DosSetProcessCp_def wr_blk_def blit_def split: if_splits)

definition DosQueryHeaderInfo :: "bytes \<Rightarrow> u32 \<Rightarrow> bytes \<Rightarrow> u32 \<Rightarrow> u32 \<Rightarrow> (apiret \<times> bytes) option" where
  "DosQueryHeaderInfo libpath libpathlen pvBuffer cbBuffer ulSubFunction =
    (if ulSubFunction = 4 then
       (if cbBuffer < 4 then Some (ERROR_BUFFER_OVERFLOW, pvBuffer)
        else do { b \<leftarrow> wr_blk pvBuffer 0 (bytes32 libpathlen); Some (NO_ERROR, b) })
     else if ulSubFunction = 5 then
       (if cbBuffer < libpathlen then Some (ERROR_BUFFER_OVERFLOW, pvBuffer)
        else do { b \<leftarrow> put_cstr pvBuffer libpath; Some (NO_ERROR, b) })
     else Some (ERROR_INVALID_PARAMETER, pvBuffer))"

text \<open>The length that is reported is enough for the path and its NUL.\<close>

lemma DosQueryHeaderInfo_libpath:
  assumes "unat libpathlen = length libpath + 1" "unat cb \<le> length buf"
  shows "libpathlen \<le> cb \<Longrightarrow> DosQueryHeaderInfo libpath libpathlen buf cb 5 = Some (NO_ERROR, blit buf 0 (libpath @ [0]))"
    "DosQueryHeaderInfo libpath libpathlen buf cb sub \<noteq> None"
proof -
  have "libpathlen \<le> cb \<Longrightarrow> length libpath + 1 \<le> length buf" using assms by (simp add: word_le_nat_alt)
  then show "libpathlen \<le> cb \<Longrightarrow> DosQueryHeaderInfo libpath libpathlen buf cb 5 = Some (NO_ERROR, blit buf 0 (libpath @ [0]))"
    by (simp add: DosQueryHeaderInfo_def put_cstr_def wr_blk_def not_less)
  have "\<not> cb < 4 \<Longrightarrow> 4 \<le> length buf" using assms(2) by (simp add: word_less_nat_alt)
  then show "DosQueryHeaderInfo libpath libpathlen buf cb sub \<noteq> None"
    using \<open>libpathlen \<le> cb \<Longrightarrow> length libpath + 1 \<le> length buf\<close>
    by (auto simp: DosQueryHeaderInfo_def put_cstr_def wr_blk_def not_less)
qed

definition DosQueryExtLIBPATH :: "bytes option \<Rightarrow> u32 \<Rightarrow> (apiret \<times> bytes option) option" where
  "DosQueryExtLIBPATH buf flags =
    (if flags \<noteq> 1 \<and> flags \<noteq> 2 then Some (ERROR_INVALID_PARAMETER, buf)
     else case buf of None \<Rightarrow> Some (NO_ERROR, None) | Some b \<Rightarrow> map_option (\<lambda>b'. (NO_ERROR, Some b')) (wr8 b 0 0))"

definition DosDevConfig :: "u8 option \<Rightarrow> u32 \<Rightarrow> apiret \<times> u8 option" where
  "DosDevConfig info item =
    (case info of
       None \<Rightarrow> (ERROR_INVALID_PARAMETER, None)
     | Some _ \<Rightarrow>
         if item < 3 then (NO_ERROR, Some 0)
         else if item = 3 \<or> item = 4 \<or> item = 6 then (NO_ERROR, Some 1)
         else if item = 5 then (NO_ERROR, Some 252)
         else (ERROR_INVALID_PARAMETER, info))"

subsection \<open>Date and time\<close>

record datetime =
  hours :: u8
  minutes :: u8
  seconds :: u8
  hundredths :: u8
  day :: u8
  month :: u8
  year :: u16
  timezone :: u16
  weekday :: u8

text \<open>\<open>wday\<close> and \<open>gmtoff\<close> are the other two fields of the local time; C's division rounds towards 0.\<close>

definition DosGetDateTime :: "int \<Rightarrow> tm \<Rightarrow> int \<Rightarrow> int \<Rightarrow> datetime" where
  "DosGetDateTime usec ltm wday gmtoff =
    \<lparr>hours = word_of_int (tm_hour ltm), minutes = word_of_int (tm_min ltm),
     seconds = word_of_int (if tm_sec ltm = 60 then 59 else tm_sec ltm),
     hundredths = word_of_int (usec div 10000000), day = word_of_int (tm_mday ltm),
     month = word_of_int (tm_mon ltm + 1), year = word_of_int (tm_year ltm + 1900),
     timezone = word_of_int (- (sgn gmtoff * (\<bar>gmtoff\<bar> div 60))), weekday = word_of_int wday\<rparr>"

text \<open>The hundredths are always 0: a microsecond count is below the divisor.\<close>

lemma DosGetDateTime_hundredths: "0 \<le> usec \<Longrightarrow> usec < 1000000 \<Longrightarrow> hundredths (DosGetDateTime usec ltm wday gmtoff) = 0"
  by (simp add: DosGetDateTime_def)

subsection \<open>Files and directories\<close>

fun unlink_error :: "errno \<Rightarrow> apiret" where
  "unlink_error EACCES = ERROR_ACCESS_DENIED"
| "unlink_error EBUSY = ERROR_ACCESS_DENIED"
| "unlink_error EISDIR = ERROR_ACCESS_DENIED"
| "unlink_error ENAMETOOLONG = ERROR_FILENAME_EXCED_RANGE"
| "unlink_error ENOENT = ERROR_FILE_NOT_FOUND"
| "unlink_error ENOTDIR = ERROR_PATH_NOT_FOUND"
| "unlink_error EPERM = ERROR_ACCESS_DENIED"
| "unlink_error EROFS = ERROR_ACCESS_DENIED"
| "unlink_error ETXTBSY = ERROR_ACCESS_DENIED"
| "unlink_error _ = ERROR_INVALID_PARAMETER"

text \<open>The host's \<^verbatim>\<open>unlink\<close> and \<^verbatim>\<open>mkdir\<close> over a file system \<open>'k\<close>.\<close>

definition DosDelete_implementation ::
  "(bytes \<Rightarrow> apiret + bytes) \<Rightarrow> (bytes \<Rightarrow> 'k \<Rightarrow> (errno + unit) \<times> 'k) \<Rightarrow> bytes option \<Rightarrow> 'k \<Rightarrow> apiret \<times> 'k" where
  "DosDelete_implementation makeUnixPath unlink pszFile k =
    (case pszFile of None \<Rightarrow> (ERROR_INVALID_PARAMETER, k)
     | Some name \<Rightarrow> (case makeUnixPath name of
         Inl err \<Rightarrow> (err, k)
       | Inr path \<Rightarrow> (case unlink path k of (Inl e, k') \<Rightarrow> (unlink_error e, k') | (Inr _, k') \<Rightarrow> (NO_ERROR, k'))))"

definition DosCreateDir_implementation ::
  "(bytes \<Rightarrow> apiret + bytes) \<Rightarrow> (bytes \<Rightarrow> 'k \<Rightarrow> (errno + unit) \<times> 'k) \<Rightarrow> bytes \<Rightarrow> bool \<Rightarrow> 'k \<Rightarrow> apiret \<times> 'k" where
  "DosCreateDir_implementation makeUnixPath mkdir pszDirName has_eas k =
    (if has_eas then (ERROR_EA_LIST_INCONSISTENT, k)
     else case makeUnixPath pszDirName of
         Inl err \<Rightarrow> (err, k)
       | Inr path \<Rightarrow> (case mkdir path k of (Inl e, k') \<Rightarrow> (unlink_error e, k') | (Inr _, k') \<Rightarrow> (NO_ERROR, k')))"

text \<open>An error of the host is never reported as success; an existing directory is reported as a wrong parameter.\<close>

lemma unlink_error_fails: "unlink_error e \<noteq> NO_ERROR"
  by (cases e) auto

lemma DosCreateDir_exists: "makeUnixPath name = Inr path \<Longrightarrow> mkdir path k = (Inl EEXIST, k) \<Longrightarrow>
    DosCreateDir_implementation makeUnixPath mkdir name False k = (ERROR_INVALID_PARAMETER, k)"
  by (simp add: DosCreateDir_implementation_def)

definition Dos16QFileMode :: "(bytes \<Rightarrow> apiret + bytes) \<Rightarrow> (bytes \<Rightarrow> stat option) \<Rightarrow> bytes \<Rightarrow> u16 \<Rightarrow> apiret \<times> u16" where
  "Dos16QFileMode makeUnixPath host_stat filepath attr =
    (case makeUnixPath filepath of
       Inl err \<Rightarrow> (err, attr)
     | Inr path \<Rightarrow> (case host_stat path of None \<Rightarrow> (ERROR_FILE_NOT_FOUND, attr)
         | Some st \<Rightarrow> (NO_ERROR, if S_ISDIR (st_mode st) then 0x10 else 0)))"

text \<open>The volume label is written without a look at the size of the buffer.\<close>

definition Dos16QFsInfo :: "u16 \<Rightarrow> bytes \<Rightarrow> u16 \<Rightarrow> (apiret \<times> bytes) option" where
  "Dos16QFsInfo fslevel infobuf infobufsize =
    (if fslevel = 2 then do {
       b1 \<leftarrow> wr8 infobuf 4 6;
       b2 \<leftarrow> wr_blk b1 5 (str ''linux'' @ [0]);
       Some (NO_ERROR, b2) }
     else Some (NO_ERROR, infobuf))"

lemma Dos16QFsInfo_overflow: "Dos16QFsInfo 2 infobuf infobufsize = None \<longleftrightarrow> length infobuf < 11"
  by (auto simp: Dos16QFsInfo_def wr8_def wr_blk_def str_def)

subsection \<open>Application types\<close>

text \<open>What the file at a path says of itself; \<open>open_ro\<close> gives the content of the file.\<close>

fun open_ro_error :: "errno \<Rightarrow> apiret" where
  "open_ro_error EACCES = ERROR_ACCESS_DENIED"
| "open_ro_error EISDIR = ERROR_ACCESS_DENIED"
| "open_ro_error EMFILE = ERROR_TOO_MANY_OPEN_FILES"
| "open_ro_error ENFILE = ERROR_TOO_MANY_OPEN_FILES"
| "open_ro_error ENAMETOOLONG = ERROR_FILENAME_EXCED_RANGE"
| "open_ro_error ENOSPC = ERROR_DISK_FULL"
| "open_ro_error ENOMEM = ERROR_NOT_ENOUGH_MEMORY"
| "open_ro_error ENOENT = ERROR_FILE_NOT_FOUND"
| "open_ro_error ENOTDIR = ERROR_PATH_NOT_FOUND"
| "open_ro_error EPERM = ERROR_ACCESS_DENIED"
| "open_ro_error EROFS = ERROR_ACCESS_DENIED"
| "open_ro_error ETXTBSY = ERROR_ACCESS_DENIED"
| "open_ro_error _ = ERROR_OPEN_FAILED"

text \<open>The reads of the header: \<open>None\<close> when one of them fails.\<close>

definition app_header :: "bytes \<Rightarrow> LxHeader option" where
  "app_header file = do {
     mz \<leftarrow> rd_blk file 0 2;
     guard (mz = [0x4D, 0x5A]);
     lxoffset \<leftarrow> rd32 file 0x3C;
     read_LxHeader file (unat lxoffset) }"

definition app_flags :: "u32 \<Rightarrow> u32" where
  "app_flags mf =
    (let t = mf AND 0x00038000 in
     (if mf AND 0x100 \<noteq> 0 then 0x1 else 0) OR (if mf AND 0x200 \<noteq> 0 then 0x2 else 0) OR
     (if mf AND 0x300 \<noteq> 0 then 0x3 else 0) OR (if t AND 0x8000 \<noteq> 0 then 0x10 else 0) OR
     (if t AND 0x20000 \<noteq> 0 then 0x40 else 0) OR (if t AND 0x28000 \<noteq> 0 then 0x80 else 0) OR
     (if t AND 0x18000 \<noteq> 0 then 0x100 else 0) OR 0x4000)"

text \<open>The flags are computed and dropped: the result of the caller keeps its value.\<close>

definition DosQueryAppType ::
  "(bytes \<Rightarrow> apiret + bytes) \<Rightarrow> (bytes \<Rightarrow> errno + bytes) \<Rightarrow> bytes \<Rightarrow> u32 option \<Rightarrow> apiret \<times> u32 option" where
  "DosQueryAppType makeUnixPath open_ro pszName pFlags =
    (case pFlags of None \<Rightarrow> (ERROR_INVALID_PARAMETER, None)
     | Some out \<Rightarrow>
       (case makeUnixPath pszName of
          Inl err \<Rightarrow> (err, pFlags)
        | Inr path \<Rightarrow>
          (case open_ro path of
             Inl e \<Rightarrow> (open_ro_error e, pFlags)
           | Inr file \<Rightarrow>
             (case app_header file of
                None \<Rightarrow> (ERROR_INVALID_EXE_SIGNATURE, pFlags)
              | Some lx \<Rightarrow>
                  if magic_l lx \<noteq> 0x4C \<or> magic_x lx \<noteq> 0x58 then (ERROR_INVALID_EXE_SIGNATURE, pFlags)
                  else if module_flags lx AND 0x2000 \<noteq> 0 then (ERROR_EXE_MARKED_INVALID, pFlags)
                  else let flags = app_flags (module_flags lx) in (NO_ERROR, pFlags)))))"

lemma DosQueryAppType_keeps: "snd (DosQueryAppType makeUnixPath open_ro name pFlags) = pFlags"
  by (auto simp: DosQueryAppType_def split: option.split sum.split)

lemma open_ro_error_fails: "open_ro_error e \<noteq> NO_ERROR"
  by (cases e) auto

text \<open>A program for windowed text sessions also gets both flags of the full-screen one.\<close>

lemma app_flags_windowcompat: "app_flags 0x200 AND 3 = 3" "app_flags 0x100 AND 3 = 3" "app_flags 0x8000 AND 0x180 = 0x180"
  by code_simp+

subsection \<open>Modules\<close>

text \<open>The search for a loaded module: \<open>mods\<close> are the handles and names of the list, from its head.\<close>

definition DosQueryModuleHandle :: "(u32 \<times> bytes) list \<Rightarrow> bytes \<Rightarrow> apiret \<times> u32" where
  "DosQueryModuleHandle mods pszModname =
    (case filter (\<lambda>(h, name). strcasecmp_eq name pszModname) mods of
       [] \<Rightarrow> (ERROR_INVALID_NAME, 0) | (h, _) # _ \<Rightarrow> (NO_ERROR, h))"

definition DosQueryProcAddr :: "LxExport list \<Rightarrow> u32 \<Rightarrow> bytes \<Rightarrow> u32 \<Rightarrow> apiret \<times> u32" where
  "DosQueryProcAddr exports ordinal pszName ppfn =
    (if 65533 < ordinal then (ERROR_INVALID_ORDINAL, ppfn)
     else if ordinal \<noteq> 0 then
       (case filter (\<lambda>e. ex_ordinal e = ordinal) exports of [] \<Rightarrow> (ERROR_INVALID_ORDINAL, ppfn) | e # _ \<Rightarrow> (NO_ERROR, ex_addr e))
     else
       (case filter (\<lambda>e. ex_name e = Some pszName) exports of [] \<Rightarrow> (ERROR_INVALID_NAME, ppfn) | e # _ \<Rightarrow> (NO_ERROR, ex_addr e)))"

lemma filter_head: "filter P xs = e # r \<Longrightarrow> e \<in> set xs \<and> P e"
proof -
  assume f: "filter P xs = e # r"
  have "e \<in> set (filter P xs)" by (simp add: f)
  then show ?thesis by simp
qed

lemma DosQueryProcAddr_ordinal:
  assumes "DosQueryProcAddr exports ordinal name p = (NO_ERROR, a)" "ordinal \<noteq> 0"
  shows "\<exists>e \<in> set exports. ex_addr e = a \<and> ex_ordinal e = ordinal"
proof (cases "filter (\<lambda>e. ex_ordinal e = ordinal) exports")
  case (Cons e r)
  then show ?thesis using assms filter_head [OF Cons] by (auto simp: DosQueryProcAddr_def split: if_splits)
qed (use assms in \<open>simp add: DosQueryProcAddr_def split: if_splits\<close>)

lemma DosQueryProcAddr_name:
  assumes "DosQueryProcAddr exports 0 name p = (NO_ERROR, a)"
  shows "\<exists>e \<in> set exports. ex_addr e = a \<and> ex_name e = Some name"
proof (cases "filter (\<lambda>e. ex_name e = Some name) exports")
  case (Cons e r)
  then show ?thesis using assms filter_head [OF Cons] by (auto simp: DosQueryProcAddr_def)
qed (use assms in \<open>simp add: DosQueryProcAddr_def\<close>)

definition DosLoadModule :: "(bytes \<Rightarrow> u32 option) \<Rightarrow> bytes \<Rightarrow> bytes \<Rightarrow> u32 \<Rightarrow> (apiret \<times> bytes \<times> u32) option" where
  "DosLoadModule loadModule pszName pszModname phmod = do {
     name \<leftarrow> wr8 pszName 0 0;
     Some (case loadModule pszModname of None \<Rightarrow> (ERROR_BAD_FORMAT, name, phmod) | Some m \<Rightarrow> (NO_ERROR, name, m)) }"

end
