(* ===== verification/Dos16.thy ===== *)
theory Dos16
  imports DosMisc DosThreads
begin

section \<open>The 16-bit variants (\<^verbatim>\<open>native/doscalls.c\<close>)\<close>

text \<open>
  Entry points for 16-bit programs around the 32-bit operations: arguments are widened, results cut to 16
  bits.  A local variable that the 32-bit operation does not set on failure is an argument called \<open>garbage\<close>.
\<close>

definition Dos16Write :: "'k unix \<Rightarrow> u16 \<Rightarrow> bytes \<Rightarrow> u16 option \<Rightarrow> 'k dosfiles \<Rightarrow> (apiret \<times> u16 option) \<times> 'k dosfiles" where
  "Dos16Write u h buf actual st =
    (case DosWrite_implementation u (ucast h) buf (case actual of Some a \<Rightarrow> ucast a | None \<Rightarrow> 0) st of
       ((rc, ulactual), st') \<Rightarrow> ((rc, map_option (\<lambda>_. ucast ulactual) actual), st'))"

definition Dos16Read :: "'k unix \<Rightarrow> u32 \<Rightarrow> u16 \<Rightarrow> u16 \<Rightarrow> 'k dosfiles \<Rightarrow> (apiret \<times> bytes \<times> u16) \<times> 'k dosfiles" where
  "Dos16Read u garbage hFile cbRead st =
    (case DosRead_implementation u (ucast hFile) (ucast cbRead) st of
       ((rc, bs), st') \<Rightarrow> ((rc, bs, ucast (if rc = NO_ERROR then of_nat (length bs) else garbage)), st'))"

definition Dos16Open ::
  "'k unix \<Rightarrow> (bytes \<Rightarrow> apiret + bytes) \<Rightarrow> u32 \<Rightarrow> bytes \<Rightarrow> u32 \<Rightarrow> u16 \<Rightarrow> u16 \<Rightarrow> u16 \<Rightarrow> bool \<Rightarrow> 'k dosfiles
     \<Rightarrow> (apiret \<times> u16 \<times> action option) \<times> 'k dosfiles" where
  "Dos16Open u makeUnixPath garbage pszFileName cbFile ulAttribute fsOpenFlags fsOpenMode has_eas st =
    (case doDosOpen u makeUnixPath pszFileName (int (unat cbFile)) (ucast ulAttribute) (ucast fsOpenFlags) (ucast fsOpenMode) has_eas st of
       ((rc, None), st') \<Rightarrow> ((rc, ucast garbage, None), st')
     | ((rc, Some (hf, act)), st') \<Rightarrow> ((rc, ucast hf, Some act), st'))"

definition Dos16Close :: "'k unix \<Rightarrow> u16 \<Rightarrow> 'k dosfiles \<Rightarrow> apiret \<times> 'k dosfiles" where
  "Dos16Close u hFile st = DosClose_implementation u (ucast hFile) st"

text \<open>The new handle is sign extended: 0xFFFF asks for a new one.\<close>

definition Dos16DupHandle :: "'k unix \<Rightarrow> u16 \<Rightarrow> u16 \<Rightarrow> 'k dosfiles \<Rightarrow> ((apiret \<times> u16) \<times> 'k dosfiles) option" where
  "Dos16DupHandle u hFile pHfile st = do {
     ((rc, phf), st') \<leftarrow> DosDupHandle_implementation u (ucast hFile) (scast pHfile) st;
     Some ((rc, ucast phf), st') }"

definition Dos16ChgFilePtr :: "'k unix \<Rightarrow> u16 \<Rightarrow> int \<Rightarrow> u16 \<Rightarrow> 'k dosfiles \<Rightarrow> (apiret \<times> u32 option) \<times> 'k dosfiles" where
  "Dos16ChgFilePtr u handle distance whence st = DosSetFilePtr_implementation u (ucast handle) distance (ucast whence) st"

definition Dos16QHandType :: "u16 \<Rightarrow> u16 \<Rightarrow> u16 \<Rightarrow> 'k dosfiles \<Rightarrow> apiret \<times> u16 \<times> u16" where
  "Dos16QHandType handle ptype pflags st =
    (case DosQueryHType_implementation (ucast handle) st of
       (rc, Some (t, a)) \<Rightarrow> (rc, ucast t, ucast a) | (rc, None) \<Rightarrow> (rc, ptype, pflags))"

definition Dos16QCurDisk :: "drives \<Rightarrow> apiret \<times> u16 \<times> u32" where
  "Dos16QCurDisk dr = (case DosQueryCurrentDisk_implementation dr of (rc, n, m) \<Rightarrow> (rc, ucast n, m))"

definition Dos16QCurDir :: "u16 \<Rightarrow> u16 \<Rightarrow> drives \<Rightarrow> (apiret \<times> bytes option \<times> u16) option" where
  "Dos16QCurDir drivenum dirpathlen dr = do {
     (rc, out, len) \<leftarrow> DosQueryCurrentDir_implementation (ucast drivenum) (ucast dirpathlen) dr;
     Some (rc, out, ucast len) }"

definition Dos16ChDir ::
  "(bytes \<Rightarrow> apiret + bytes) \<Rightarrow> (bytes \<Rightarrow> errno option) \<Rightarrow> bool \<Rightarrow> bytes \<Rightarrow> u32 \<Rightarrow> drives \<Rightarrow> (apiret \<times> drives) option" where
  "Dos16ChDir makeUnixPath chdir mem_ok pszDir res dr =
    (if res \<noteq> 0 then Some (ERROR_INVALID_PARAMETER, dr) else DosSetCurrentDir_implementation makeUnixPath chdir mem_ok pszDir dr)"

definition Dos16Delete ::
  "(bytes \<Rightarrow> apiret + bytes) \<Rightarrow> (bytes \<Rightarrow> 'k \<Rightarrow> (errno + unit) \<times> 'k) \<Rightarrow> bytes option \<Rightarrow> 'k \<Rightarrow> apiret \<times> 'k" where
  "Dos16Delete = DosDelete_implementation"

definition Dos16MkDir ::
  "(bytes \<Rightarrow> apiret + bytes) \<Rightarrow> (bytes \<Rightarrow> 'k \<Rightarrow> (errno + unit) \<times> 'k) \<Rightarrow> bytes \<Rightarrow> bool \<Rightarrow> 'k \<Rightarrow> apiret \<times> 'k" where
  "Dos16MkDir = DosCreateDir_implementation"

definition Dos16Exit :: "nat \<Rightarrow> (u32 \<Rightarrow> exit_item list \<Rightarrow> exit_item list) \<Rightarrow> u16 \<Rightarrow> u16 \<Rightarrow> exit_item list \<Rightarrow> exit_outcome option" where
  "Dos16Exit n acts action exitcode xs = DosExit_implementation n acts (ucast action) (ucast exitcode) xs"

text \<open>The process and thread ids have to fit 16 bits, or an assertion fails.\<close>

record pidinfo16 =
  pid16 :: u16
  tid16 :: u16
  ppid16 :: u16

definition Dos16GetPID :: "u32 \<Rightarrow> u32 \<Rightarrow> u32 \<Rightarrow> (apiret \<times> pidinfo16) option" where
  "Dos16GetPID ulpid ulppid ultid =
    (if ulpid \<le> 0xFFFF \<and> ulppid \<le> 0xFFFF \<and> ultid \<le> 0xFFFF
     then Some (NO_ERROR, \<lparr>pid16 = ucast ulpid, tid16 = ucast ultid, ppid16 = ucast ulppid\<rparr>) else None)"

definition Dos16GetVersion :: "bytes \<Rightarrow> (apiret \<times> bytes) option" where
  "Dos16GetVersion pver = do { b \<leftarrow> wr_blk pver 0 [45, 20]; Some (NO_ERROR, b) }"

definition Dos16GetMachineMode :: "apiret \<times> u8" where
  "Dos16GetMachineMode = (NO_ERROR, 1)"

text \<open>The environment of the 16-bit program as selector and offset; \<open>convert32to1616\<close> is the loader's.\<close>

definition Dos16GetEnv :: "(u32 \<Rightarrow> u32) \<Rightarrow> u32 \<Rightarrow> apiret \<times> u16 \<times> u16" where
  "Dos16GetEnv convert32to1616 pchcmd =
    (let cmd1616 = convert32to1616 pchcmd in (NO_ERROR, ucast (drop_bit 16 cmd1616), ucast cmd1616))"

text \<open>What is read through the 16-bit call is what the 32-bit call reads, and its length is not cut off.\<close>

lemma Dos16Read_length:
  assumes "Dos16Read u g h cbRead st = ((NO_ERROR, bs, n), st')" "length bs \<le> unat cbRead"
  shows "unat n = length bs \<and> DosRead_implementation u (ucast h) (ucast cbRead) st = ((NO_ERROR, bs), st')"
proof -
  obtain rc b s where d: "DosRead_implementation u (ucast h) (ucast cbRead) st = ((rc, b), s)" by (metis prod.exhaust)
  then have e: "rc = NO_ERROR" "b = bs" "s = st'" "n = ucast (of_nat (length bs) :: u32)" using assms(1) by (auto simp: Dos16Read_def)
  have l: "length bs < 65536" using assms(2) unat_u16_less(1) [of cbRead] by linarith
  have "unat (of_nat (length bs) :: u32) = length bs" using l by (intro unat_of_nat_u32) simp
  then have "unat n = length bs" using l by (simp add: e(4) unsigned_ucast_eq take_bit_nat_eq_self)
  then show ?thesis using d e by simp
qed

lemma Dos16Read_garbage: "getHFileUnixDescriptor st (ucast h) = -1 \<Longrightarrow> Dos16Read u g h cb st = ((ERROR_INVALID_HANDLE, [], ucast g), st)"
  by (simp add: Dos16Read_def DosRead_implementation_def)

text \<open>A new handle that fits 16 bits is returned as it is; one that does not names another file.\<close>

lemma Dos16Open_handle:
  assumes "doDosOpen u mk name (int (unat cb)) (ucast attr) (ucast fl) (ucast mode) eas st = ((rc, Some (hf, act)), st')"
  shows "\<exists>h. Dos16Open u mk g name cb attr fl mode eas st = ((rc, h, Some act), st') \<and>
    (unat hf < 65536 \<longrightarrow> ucast h = hf) \<and> unat h = unat hf mod 65536"
proof -
  have "unat (ucast hf :: u16) = unat hf mod 65536" by (simp add: unsigned_ucast_eq take_bit_eq_mod)
  moreover from this have "unat hf < 65536 \<Longrightarrow> ucast (ucast hf :: u16) = hf"
    by (intro word_unat_eq_iff [THEN iffD2]) simp
  ultimately show ?thesis using assms by (simp add: Dos16Open_def)
qed

lemma Dos16GetEnv_pair: "Dos16GetEnv conv p = (NO_ERROR, sel, off) \<Longrightarrow> conv p = push_bit 16 (ucast sel) OR ucast off"
proof -
  assume "Dos16GetEnv conv p = (NO_ERROR, sel, off)"
  then have e: "sel = ucast (drop_bit 16 (conv p))" "off = ucast (conv p)" by (auto simp: Dos16GetEnv_def Let_def)
  show ?thesis unfolding e
  proof (rule bit_word_eqI)
    fix n :: nat assume "n < LENGTH(32)"
    moreover have "16 \<le> n \<Longrightarrow> 16 + (n - 16) = n" by simp
    ultimately show "bit (conv p) n = bit (push_bit 16 (ucast (ucast (drop_bit 16 (conv p)) :: u16)) OR ucast (ucast (conv p) :: u16) :: u32) n"
      by (cases "16 \<le> n") (auto simp: bit_simps)
  qed
qed

lemma Dos16DupHandle_new: "(scast (0xFFFF :: u16) :: u32) = 0xFFFFFFFF"
  by code_simp

end
