(* ===== verification/DosBeep.thy ===== *)
theory DosBeep
  imports DosFiles
begin

section \<open>The speaker (\<^verbatim>\<open>native/doscalls.c\<close>)\<close>

text \<open>
  \<open>DosBeep\<close> leaves a command for a generator that the audio thread calls to mix a square wave into a stream.
  The samples are of any type \<open>'f\<close>, with the two functions that add the volume and its negative to a sample; the number of
  samples of a duration, computed in floating point, is a function argument.
\<close>

record beep_info =
  samples_remaining :: u32
  positive :: bool
  square_remaining :: u32
  square_length :: u32
  square_remainder :: u32
  accumulator :: u32
  next_freq :: u32
  next_duration :: u32

definition silent :: beep_info where
  "silent = \<lparr>samples_remaining = 0, positive = False, square_remaining = 0, square_length = 0, square_remainder = 0,
     accumulator = 0, next_freq = 0, next_duration = 0\<rparr>"

text \<open>The three things the generator does: it takes the next command, flips the wave, or mixes a part of it.\<close>

definition beep_setup :: "(u32 \<Rightarrow> u32 \<Rightarrow> u32) \<Rightarrow> u32 \<Rightarrow> beep_info \<Rightarrow> beep_info" where
  "beep_setup nsamples freq i = i\<lparr>square_length := freq div next_freq i, square_remainder := freq mod next_freq i,
     samples_remaining := nsamples (next_duration i) freq, accumulator := 0, next_freq := 0, next_duration := 0\<rparr>"

definition beep_flip :: "beep_info \<Rightarrow> beep_info" where
  "beep_flip i =
    (let acc = accumulator i + square_remainder i in
     if square_length i \<le> acc
     then i\<lparr>positive := \<not> positive i, square_remaining := square_length i + 1, accumulator := acc - square_length i\<rparr>
     else i\<lparr>positive := \<not> positive i, square_remaining := square_length i, accumulator := acc\<rparr>)"

definition beep_total :: "beep_info \<Rightarrow> nat \<Rightarrow> nat" where
  "beep_total i samples = min (min (unat (square_remaining i)) (unat (samples_remaining i))) samples"

definition beep_mix :: "('f \<Rightarrow> 'f) \<Rightarrow> 'f list \<Rightarrow> nat \<Rightarrow> nat \<Rightarrow> 'f list option" where
  "beep_mix add stream pos n = (if pos + n \<le> length stream
     then Some (take pos stream @ map add (take n (drop pos stream)) @ drop (pos + n) stream) else None)"

text \<open>
  The loop, with a bound on its iterations.  A square of \<open>2\<^sup>3\<^sup>1\<close> samples or more would be negative as an \<^verbatim>\<open>int\<close> (\<open>None\<close>).
  The result is 1 while there is more to play.
\<close>

fun beep_loop :: "nat \<Rightarrow> (u32 \<Rightarrow> u32 \<Rightarrow> u32) \<Rightarrow> ('f \<Rightarrow> 'f) \<Rightarrow> ('f \<Rightarrow> 'f) \<Rightarrow> u32 \<Rightarrow> beep_info \<Rightarrow> 'f list \<Rightarrow> nat \<Rightarrow> nat
    \<Rightarrow> (nat \<times> beep_info \<times> 'f list) option" where
  "beep_loop 0 nsamples up down freq i stream pos samples = None"
| "beep_loop (Suc n) nsamples up down freq i stream pos samples =
    (if samples = 0 then Some (1, i, stream)
     else if samples_remaining i = 0 then
       (if next_freq i = 0 then Some (0, i, stream)
        else beep_loop n nsamples up down freq (beep_setup nsamples freq i) stream pos samples)
     else if square_remaining i = 0 then beep_loop n nsamples up down freq (beep_flip i) stream pos samples
     else if 2 ^ 31 \<le> unat (square_remaining i) then None
     else case beep_mix (if positive i then up else down) stream pos (beep_total i samples) of
         None \<Rightarrow> None
       | Some stream' \<Rightarrow>
           beep_loop n nsamples up down freq
             (i\<lparr>samples_remaining := samples_remaining i - of_nat (beep_total i samples),
                square_remaining := square_remaining i - of_nat (beep_total i samples)\<rparr>)
             stream' (pos + beep_total i samples) (samples - beep_total i samples))"

definition DosBeepGenerator :: "(u32 \<Rightarrow> u32 \<Rightarrow> u32) \<Rightarrow> ('f \<Rightarrow> 'f) \<Rightarrow> ('f \<Rightarrow> 'f) \<Rightarrow> u32 \<Rightarrow> beep_info \<Rightarrow> 'f list \<Rightarrow> nat
    \<Rightarrow> (nat \<times> beep_info \<times> 'f list) option" where
  "DosBeepGenerator nsamples up down freq i stream samples =
    beep_loop (3 * samples + 4) nsamples up down freq i stream 0 samples"

text \<open>
  The call: it waits until the generator has taken the command before (\<open>None\<close>: it never does), and the
  last argument says whether the generator could be registered.  The result has the microseconds slept.
\<close>

definition DosBeep_implementation :: "u32 \<Rightarrow> u32 \<Rightarrow> beep_info \<Rightarrow> bool \<Rightarrow> (apiret \<times> beep_info \<times> u32 option) option" where
  "DosBeep_implementation freq duration i registered =
    (if freq < 0x25 \<or> 0x7FFF < freq then Some (ERROR_INVALID_FREQUENCY, i, None)
     else if duration = 0 then Some (NO_ERROR, i, None)
     else if next_freq i \<noteq> 0 then None
     else
       let mix_duration = duration + (if duration mod 55 \<noteq> 0 then 55 - duration mod 55 else 0);
           i1 = i\<lparr>next_duration := mix_duration, next_freq := freq\<rparr>
       in Some (NO_ERROR, if registered then i1 else silent, if 55 < duration then Some ((duration - 55) * 1000) else None))"

definition Dos16Beep :: "u16 \<Rightarrow> u16 \<Rightarrow> beep_info \<Rightarrow> bool \<Rightarrow> (apiret \<times> beep_info \<times> u32 option) option" where
  "Dos16Beep freq duration = DosBeep_implementation (ucast freq) (ucast duration)"

subsection \<open>The generator returns and stays in the stream\<close>

text \<open>The squares are at most the sample rate over the lowest frequency long, with one sample more.\<close>

definition beep_inv :: "beep_info \<Rightarrow> bool" where
  "beep_inv i \<longleftrightarrow> (next_freq i = 0 \<or> 37 \<le> unat (next_freq i)) \<and> unat (square_length i) \<le> 58040098 \<and>
    unat (square_remaining i) \<le> 58040099"

lemma beep_inv_silent: "beep_inv silent"
  by (simp add: beep_inv_def silent_def)

lemma DosBeep_inv: "beep_inv i \<Longrightarrow> DosBeep_implementation freq duration i registered = Some (rc, i', sl) \<Longrightarrow> beep_inv i'"
  using beep_inv_silent
  by (auto simp: DosBeep_implementation_def Let_def beep_inv_def word_less_nat_alt not_less split: if_splits)

lemma beep_setup_inv:
  assumes "beep_inv i" "next_freq i \<noteq> 0" "unat freq < 2 ^ 31"
  shows "beep_inv (beep_setup nsamples freq i)"
proof -
  have n: "37 \<le> unat (next_freq i)" using assms(1,2) by (simp add: beep_inv_def)
  have "unat freq div unat (next_freq i) \<le> unat freq div 37" using n by (intro div_le_mono2) simp_all
  also have "\<dots> \<le> 58040098" using assms(3) by simp
  finally show ?thesis using assms(1) by (simp add: beep_inv_def beep_setup_def unat_div)
qed

lemma beep_flip_inv:
  assumes "beep_inv i"
  shows "beep_inv (beep_flip i)" "square_remaining (beep_flip i) \<noteq> 0" "next_freq (beep_flip i) = next_freq i"
    "samples_remaining (beep_flip i) = samples_remaining i"
proof -
  have l: "unat (square_length i) \<le> 58040098" using assms by (simp add: beep_inv_def)
  have s: "unat (square_length i + 1) = unat (square_length i) + 1"
    using unat_add_small [of "square_length i" 1] l by simp
  show "beep_inv (beep_flip i)" using assms l s by (auto simp: beep_inv_def beep_flip_def Let_def)
  have z: "square_length i + 1 \<noteq> 0" using s by (metis add_is_0 one_neq_zero unsigned_0)
  show "square_remaining (beep_flip i) \<noteq> 0" using z by (auto simp: beep_flip_def Let_def)
qed (simp_all add: beep_flip_def Let_def)

lemma beep_total_props:
  assumes "samples_remaining i \<noteq> 0" "square_remaining i \<noteq> 0" "samples \<noteq> 0"
  shows "0 < beep_total i samples" "beep_total i samples \<le> samples"
    "unat (square_remaining i - of_nat (beep_total i samples)) = unat (square_remaining i) - beep_total i samples"
proof -
  have "0 < unat (samples_remaining i)" "0 < unat (square_remaining i)" using assms by (simp_all add: unat_gt_0)
  then show "0 < beep_total i samples" using assms(3) by (simp add: beep_total_def)
  show "beep_total i samples \<le> samples" by (simp add: beep_total_def)
  have le: "beep_total i samples \<le> unat (square_remaining i)" by (simp add: beep_total_def)
  then have "beep_total i samples < 4294967296" using unat_u32_less(1) [of "square_remaining i"] by linarith
  then have u: "unat (of_nat (beep_total i samples) :: u32) = beep_total i samples" by (rule unat_of_nat_u32)
  show "unat (square_remaining i - of_nat (beep_total i samples)) = unat (square_remaining i) - beep_total i samples"
    using le unat_diff_u32 [of "of_nat (beep_total i samples)" "square_remaining i"] u by simp
qed

lemma beep_mix_part:
  assumes "pos + n \<le> length stream"
  obtains s1 where "beep_mix add stream pos n = Some s1" "length s1 = length stream"
    "\<And>k. k < pos \<or> pos + n \<le> k \<Longrightarrow> s1 ! k = stream ! k"
proof
  let ?s = "take pos stream @ map add (take n (drop pos stream)) @ drop (pos + n) stream"
  show "beep_mix add stream pos n = Some ?s" "length ?s = length stream" using assms by (simp_all add: beep_mix_def)
  fix k assume "k < pos \<or> pos + n \<le> k"
  then show "?s ! k = stream ! k"
  proof
    assume "pos + n \<le> k"
    moreover from this have "\<not> k < pos" "\<not> k - pos < n" by linarith+
    ultimately have "?s ! k = drop (pos + n) stream ! (k - pos - n)" using assms by (simp add: nth_append)
    then show ?thesis using assms \<open>pos + n \<le> k\<close> by simp
  qed (use assms in \<open>simp add: nth_append\<close>)
qed

definition beep_work :: "beep_info \<Rightarrow> nat \<Rightarrow> nat" where
  "beep_work i samples = 3 * samples + (if next_freq i \<noteq> 0 then 2 else 0) + (if square_remaining i = 0 then 1 else 0)"

lemma beep_loop_returns:
  "beep_inv i \<Longrightarrow> unat freq < 2 ^ 31 \<Longrightarrow> pos + samples \<le> length stream \<Longrightarrow> beep_work i samples < n \<Longrightarrow>
    \<exists>r i' stream'. beep_loop n nsamples up down freq i stream pos samples = Some (r, i', stream') \<and> r \<le> 1 \<and> beep_inv i' \<and>
      length stream' = length stream \<and> (\<forall>k. k < pos \<or> pos + samples \<le> k \<longrightarrow> stream' ! k = stream ! k)"
proof (induction n arbitrary: i stream pos samples)
  case (Suc n)
  show ?case
  proof (cases "samples = 0 \<or> samples_remaining i = 0 \<and> next_freq i = 0")
    case True
    then show ?thesis using Suc.prems(1) by auto
  next
    case work: False
    show ?thesis
    proof (cases "samples_remaining i = 0")
      case True
      then have nf: "next_freq i \<noteq> 0" using work by simp
      have w: "beep_work (beep_setup nsamples freq i) samples < n"
        using Suc.prems(4) nf by (simp add: beep_work_def beep_setup_def split: if_splits)
      show ?thesis using Suc.IH [OF beep_setup_inv [OF Suc.prems(1) nf Suc.prems(2)] Suc.prems(2,3) w] work True nf by simp
    next
      case sr: False
      show ?thesis
      proof (cases "square_remaining i = 0")
        case True
        have w: "beep_work (beep_flip i) samples < n"
          using Suc.prems(4) True beep_flip_inv [OF Suc.prems(1)] by (simp add: beep_work_def split: if_splits)
        show ?thesis using Suc.IH [OF beep_flip_inv(1) [OF Suc.prems(1)] Suc.prems(2,3) w] work True sr by simp
      next
        case sq: False
        let ?t = "beep_total i samples"
        let ?i = "i\<lparr>samples_remaining := samples_remaining i - of_nat ?t, square_remaining := square_remaining i - of_nat ?t\<rparr>"
        have t: "0 < ?t" "?t \<le> samples" "unat (square_remaining i - of_nat ?t) = unat (square_remaining i) - ?t"
          using beep_total_props [OF sr sq] work by simp_all
        have le: "pos + ?t \<le> length stream" using Suc.prems(3) t(2) by simp
        obtain s1 where s1: "beep_mix (if positive i then up else down) stream pos ?t = Some s1"
          "length s1 = length stream" "\<And>k. k < pos \<or> pos + ?t \<le> k \<Longrightarrow> s1 ! k = stream ! k"
          by (rule beep_mix_part [OF le, where add = "if positive i then up else down"]) (rule that)
        have "unat (square_remaining i) - ?t \<le> 58040099" using Suc.prems(1) unfolding beep_inv_def by linarith
        then have inv: "beep_inv ?i" using Suc.prems(1) t(3) by (simp add: beep_inv_def)
        have small: "\<not> 2 ^ 31 \<le> unat (square_remaining i)" using Suc.prems(1) by (simp add: beep_inv_def)
        have w: "beep_work ?i (samples - ?t) < n"
          using Suc.prems(4) t(1,2) by (auto simp: beep_work_def split: if_splits)
        have p: "pos + ?t + (samples - ?t) \<le> length s1" using Suc.prems(3) t(2) s1(2) by simp
        obtain r i' s2 where r: "beep_loop n nsamples up down freq ?i s1 (pos + ?t) (samples - ?t) = Some (r, i', s2)" "r \<le> 1"
          "beep_inv i'" "length s2 = length s1" "\<forall>k. k < pos + ?t \<or> pos + ?t + (samples - ?t) \<le> k \<longrightarrow> s2 ! k = s1 ! k"
          using Suc.IH [OF inv Suc.prems(2) p w] by blast
        have "\<forall>k. k < pos \<or> pos + samples \<le> k \<longrightarrow> s2 ! k = stream ! k" using r(5) s1(3) t(2) by simp
        then show ?thesis using r s1 work sr sq small by simp
      qed
    qed
  qed
qed simp

text \<open>
  For any samples asked for, the generator returns and writes only those, from the state any sequence of calls leaves.
\<close>

lemma DosBeepGenerator_safe:
  assumes "beep_inv i" "unat freq < 2 ^ 31" "samples \<le> length stream"
  shows "\<exists>r i' stream'. DosBeepGenerator nsamples up down freq i stream samples = Some (r, i', stream') \<and> beep_inv i' \<and>
    length stream' = length stream \<and> drop samples stream' = drop samples stream"
proof -
  have "beep_work i samples < 3 * samples + 4" by (simp add: beep_work_def)
  then obtain r i' s where r: "DosBeepGenerator nsamples up down freq i stream samples = Some (r, i', s)" "beep_inv i'"
    "length s = length stream" "\<forall>k. k < 0 \<or> 0 + samples \<le> k \<longrightarrow> s ! k = stream ! k"
    using beep_loop_returns [of i freq 0 samples stream "3 * samples + 4" nsamples up down] assms
    unfolding DosBeepGenerator_def by auto
  have "drop samples s = drop samples stream" by (rule nth_equalityI) (use r(3,4) in auto)
  then show ?thesis using r by blast
qed

text \<open>
  The remainder is compared with the length of the square, not with the frequency: for 440 Hz at 44100 samples a second
  every square has 101 samples, although the right mean is 100.23.
\<close>

lemma beep_flip_440:
  "let i = beep_setup (\<lambda>_ _. 1) 44100 (silent\<lparr>next_freq := 440\<rparr>)
   in square_remaining (beep_flip i) = 101 \<and> square_remaining (beep_flip (beep_flip i)) = 101 \<and>
      square_remaining (beep_flip (beep_flip (beep_flip i))) = 101"
  by code_simp

end
