(* ===== verification/Modules.thy ===== *)
theory Modules
  imports Paths "HOL-Library.Multiset"
begin

section \<open>Modules and their reference counts (\<^verbatim>\<open>lx_loader.c\<close>)\<close>

text \<open>
  A loaded module is the address of its structure, 0 is the null pointer.  The structures live in a heap:
  reading one that was freed is a fault (\<open>None\<close>).  What is modelled here is how modules refer to each
  other: the count of references, the modules a module depends on, and the list \<open>loaded_modules\<close> (the newest first), whose
  links are the order of the list \<open>loaded\<close>.  The mappings of a module's objects are kept as address, size and selector;
  \<open>log\<close> records the calls that leave this state: running a library's termination code, closing a native library, and giving
  mappings and selectors back.
\<close>

subsection \<open>The state\<close>

record mapping =
  map_addr :: u32
  map_size :: u32
  map_alias :: u16

datatype mevent = Term u32 | Unmap u32 u32 | Free_selector u16 | Free_stack u32 u32 | Close_native u32 | Init u32

record lmod =
  refcount :: u32
  mname :: bytes
  deps :: "u32 list"
  maps :: "mapping list"
  stack_object :: nat
  native :: bool
  initialized :: bool

record modules =
  mheap :: "u32 \<Rightarrow> lmod option"
  loaded :: "u32 list"
  main_module :: u32
  mallocs :: nat
  log :: "mevent list"

definition put_mod :: "u32 \<Rightarrow> lmod \<Rightarrow> modules \<Rightarrow> modules" where
  "put_mod m x s = s\<lparr>mheap := (mheap s)(m \<mapsto> x)\<rparr>"

definition free_struct :: "u32 \<Rightarrow> modules \<Rightarrow> modules" where
  "free_struct m s = s\<lparr>mheap := (mheap s)(m := None)\<rparr>"

definition logged :: "mevent list \<Rightarrow> modules \<Rightarrow> modules" where
  "logged as s = s\<lparr>log := log s @ as\<rparr>"

fun in_turn :: "('a \<Rightarrow> 's \<Rightarrow> 's option) \<Rightarrow> 'a list \<Rightarrow> 's \<Rightarrow> 's option" where
  "in_turn f [] s = Some s"
| "in_turn f (x # xs) s = do { s1 \<leftarrow> f x s; in_turn f xs s1 }"

subsection \<open>Freeing a module\<close>

text \<open>
  The stack of the main program stays mapped, since the process may be running on it; only its selectors are
  given back.  Its object is the one that the header names.
\<close>

definition leave_main :: "u32 \<Rightarrow> lmod \<Rightarrow> modules \<Rightarrow> (mapping list \<times> modules) option" where
  "leave_main m x s =
    (if main_module s = m then
       (if stack_object x = 0 \<or> length (maps x) < stack_object x then None
        else let i = stack_object x - 1; st = maps x ! i
             in Some ((maps x)[i := st\<lparr>map_addr := 0\<rparr>], logged [Free_stack (map_addr st) (map_size st)] (s\<lparr>main_module := 0\<rparr>)))
     else Some (maps x, s))"

definition unmap_events :: "mapping \<Rightarrow> mevent list" where
  "unmap_events p = (if map_alias p \<noteq> 0xFFFF then [Free_selector (map_alias p)] else []) @
     (if map_addr p \<noteq> 0 then [Unmap (map_addr p) (map_size p)] else [])"

text \<open>Running the termination code, if there is some to run, and leaving the list.\<close>

definition leave_list :: "u32 \<Rightarrow> lmod \<Rightarrow> modules \<Rightarrow> modules" where
  "leave_list m x s =
    (let s1 = (if initialized x \<and> m \<noteq> main_module s then logged [Term m] s else s)
     in s1\<lparr>loaded := filter (\<lambda>y. y \<noteq> m) (loaded s1)\<rparr>)"

lemma leave_list_simps [simp]:
  "mheap (leave_list m x s) = mheap s" "loaded (leave_list m x s) = filter (\<lambda>y. y \<noteq> m) (loaded s)"
  "mallocs (leave_list m x s) = mallocs s" "main_module (leave_list m x s) = main_module s"
  by (simp_all add: leave_list_def logged_def Let_def)

text \<open>
  One reference less; with the last one the module is taken off the list, its dependencies are freed, the
  last first, and then itself.  The first argument bounds the depth of the recursion.
\<close>

fun free_mod :: "nat \<Rightarrow> u32 \<Rightarrow> modules \<Rightarrow> modules option" where
  "free_mod 0 m s = None"
| "free_mod (Suc n) m s =
    (if m = 0 then Some s
     else case mheap s m of None \<Rightarrow> None
       | Some x \<Rightarrow>
         (let s1 = put_mod m (x\<lparr>refcount := refcount x - 1\<rparr>) s in
          if refcount x - 1 \<noteq> 0 then Some s1
          else do {
            (ms, s2) \<leftarrow> leave_main m x (leave_list m x s1);
            s3 \<leftarrow> in_turn (free_mod n) (rev (deps x)) s2;
            Some (free_struct m (logged (concat (map unmap_events ms) @ (if native x then [Close_native m] else [])) s3)) }))"

definition freeLxModule :: "u32 \<Rightarrow> modules \<Rightarrow> modules option" where
  "freeLxModule m s = free_mod (Suc (mallocs s)) m s"

text \<open>The end of the process: the main program, then everything that is still loaded, from the head of the list.\<close>

fun terminate_loop :: "nat \<Rightarrow> modules \<Rightarrow> modules option" where
  "terminate_loop n s =
    (case loaded s of [] \<Rightarrow> Some s
     | m # _ \<Rightarrow> (case n of 0 \<Rightarrow> None | Suc k \<Rightarrow> do {
         x \<leftarrow> mheap s m;
         s1 \<leftarrow> freeLxModule m (put_mod m (x\<lparr>refcount := 1\<rparr>) s);
         terminate_loop k s1 }))"

declare terminate_loop.simps [simp del]

definition lxTerminate :: "u32 \<Rightarrow> modules \<Rightarrow> (modules \<times> u32) option" where
  "lxTerminate exitcode s = do {
     s1 \<leftarrow> freeLxModule (main_module s) s;
     s2 \<leftarrow> terminate_loop (length (loaded s1)) s1;
     Some (s2, exitcode AND 0xFF) }"

subsection \<open>Exact reference counts\<close>

text \<open>
  \<open>E\<close> are the references that modules do not hold (of the program's own calls and of the calls in progress).  \<open>Z\<close> are the
  modules being freed, whose count is already 0.
\<close>

definition deps_of :: "modules \<Rightarrow> u32 \<Rightarrow> u32 list" where
  "deps_of s m = (case mheap s m of Some x \<Rightarrow> deps x | None \<Rightarrow> [])"

definition refs :: "modules \<Rightarrow> u32 \<Rightarrow> nat" where
  "refs s m = (case mheap s m of Some x \<Rightarrow> unat (refcount x) | None \<Rightarrow> 0)"

definition live :: "modules \<Rightarrow> u32 set \<Rightarrow> u32 set" where
  "live s Z = dom (mheap s) - Z"

definition counts :: "modules \<Rightarrow> u32 set \<Rightarrow> u32 multiset \<Rightarrow> bool" where
  "counts s Z E \<longleftrightarrow> Z \<subseteq> dom (mheap s) \<and> finite (dom (mheap s)) \<and> 0 \<notin> dom (mheap s) \<and> set_mset E \<subseteq> live s Z \<and>
    (\<forall>m \<in> live s Z. set (deps_of s m) \<subseteq> insert 0 (live s Z)) \<and>
    (\<forall>m \<in> live s Z. refs s m = count E m + (\<Sum>x \<in> live s Z. count_list (deps_of s x) m))"

lemma in_turn_append: "in_turn f (xs @ ys) s = do { s1 \<leftarrow> in_turn f xs s; in_turn f ys s1 }"
  by (induction xs arbitrary: s) (simp_all split: bind_splits)

text \<open>What freeing leaves of a state: some modules are gone, the others have only another count, and zombies are as they were.\<close>

definition shrinks :: "u32 set \<Rightarrow> modules \<Rightarrow> modules \<Rightarrow> bool" where
  "shrinks Z s s' \<longleftrightarrow> dom (mheap s') \<subseteq> dom (mheap s) \<and> (\<forall>z \<in> Z. mheap s' z = mheap s z) \<and>
    (\<forall>y x'. mheap s' y = Some x' \<longrightarrow> (\<exists>x. mheap s y = Some x \<and> x' = x\<lparr>refcount := refcount x'\<rparr>)) \<and>
    loaded s' = filter (\<lambda>y. y \<in> dom (mheap s')) (loaded s) \<and> mallocs s' = mallocs s \<and> main_module s' \<in> {0, main_module s}"

definition stack_ok :: "modules \<Rightarrow> bool" where
  "stack_ok s \<longleftrightarrow> main_module s = 0 \<or>
    (\<exists>x. mheap s (main_module s) = Some x \<and> 0 < stack_object x \<and> stack_object x \<le> length (maps x))"

lemma filter_known: "set xs \<subseteq> A \<Longrightarrow> filter (\<lambda>y. y \<in> A) xs = xs"
  by (auto simp: filter_id_conv)

lemma shrinks_refl: "set (loaded s) \<subseteq> dom (mheap s) \<Longrightarrow> shrinks Z s s"
  by (auto simp: shrinks_def filter_known)

lemma shrinksD:
  assumes "shrinks Z s s'"
  shows "dom (mheap s') \<subseteq> dom (mheap s)" "z \<in> Z \<Longrightarrow> mheap s' z = mheap s z"
    "mheap s' y = Some x' \<Longrightarrow> \<exists>x. mheap s y = Some x \<and> x' = x\<lparr>refcount := refcount x'\<rparr>"
    "loaded s' = filter (\<lambda>y. y \<in> dom (mheap s')) (loaded s)" "mallocs s' = mallocs s"
    "main_module s' = 0 \<or> main_module s' = main_module s"
  using assms unfolding shrinks_def by blast+

lemma shrinks_trans:
  assumes "shrinks Z s s1" "shrinks Z s1 s2"
  shows "shrinks Z s s2"
proof -
  note a = shrinksD [OF assms(1)]
  note b = shrinksD [OF assms(2)]
  have r: "\<exists>x. mheap s y = Some x \<and> x2 = x\<lparr>refcount := refcount x2\<rparr>" if y: "mheap s2 y = Some x2" for y x2
  proof -
    obtain x1 where x1: "mheap s1 y = Some x1" "x2 = x1\<lparr>refcount := refcount x2\<rparr>" using b(3) [OF y] by blast
    obtain x where x: "mheap s y = Some x" "x1 = x\<lparr>refcount := refcount x1\<rparr>" using a(3) [OF x1(1)] by blast
    have "x2 = x\<lparr>refcount := refcount x2\<rparr>" by (subst x1(2), subst x(2)) simp
    then show ?thesis using x(1) by blast
  qed
  have "filter (\<lambda>y. y \<in> dom (mheap s2)) (filter (\<lambda>y. y \<in> dom (mheap s1)) (loaded s)) = filter (\<lambda>y. y \<in> dom (mheap s2)) (loaded s)"
    using b(1) by (auto simp: filter_filter intro!: filter_cong)
  then have l: "loaded s2 = filter (\<lambda>y. y \<in> dom (mheap s2)) (loaded s)" using a(4) b(4) by metis
  show ?thesis unfolding shrinks_def
  proof (intro conjI)
    show "dom (mheap s2) \<subseteq> dom (mheap s)" using a(1) b(1) by (rule subset_trans [rotated])
    show "\<forall>z \<in> Z. mheap s2 z = mheap s z" using a(2) b(2) by metis
    show "\<forall>y x2. mheap s2 y = Some x2 \<longrightarrow> (\<exists>x. mheap s y = Some x \<and> x2 = x\<lparr>refcount := refcount x2\<rparr>)" using r by blast
    show "mallocs s2 = mallocs s" using a(5) b(5) by simp
    show "main_module s2 \<in> {0, main_module s}" using a(6) b(6) by auto
  qed (rule l)
qed

lemma shrinks_deps:
  assumes "shrinks Z s s'" "y \<in> dom (mheap s')"
  shows "deps_of s' y = deps_of s y"
proof -
  obtain x' where x': "mheap s' y = Some x'" using assms(2) by blast
  then obtain x where x: "mheap s y = Some x" "x' = x\<lparr>refcount := refcount x'\<rparr>" using shrinksD(3) [OF assms(1)] by blast
  have "deps x' = deps x" by (subst x(2)) simp
  then show ?thesis using x(1) x' by (simp add: deps_of_def)
qed

text \<open>Dropping a reference that is not the last.\<close>

lemma mset_nonzero_count: "y \<noteq> 0 \<Longrightarrow> count (mset (filter (\<lambda>d. d \<noteq> 0) ds)) y = count_list ds (y :: u32)"
  by (induction ds) auto

lemma countsD:
  assumes "counts s Z E"
  shows "Z \<subseteq> dom (mheap s)" "finite (dom (mheap s))" "0 \<notin> dom (mheap s)" "set_mset E \<subseteq> live s Z"
    "y \<in> live s Z \<Longrightarrow> set (deps_of s y) \<subseteq> insert 0 (live s Z)"
    "y \<in> live s Z \<Longrightarrow> refs s y = count E y + (\<Sum>x \<in> live s Z. count_list (deps_of s x) y)"
    "finite (live s Z)"
  using assms by (auto simp: counts_def live_def)

lemma counts_fresh_state:
  "mheap s' = mheap s \<Longrightarrow> counts s' Z E = counts s Z E"
  by (simp add: counts_def live_def deps_of_def refs_def)

lemma counts_drop:
  assumes "counts s Z (add_mset m E)" "mheap s m = Some x" "refcount x - 1 \<noteq> 0"
  shows "counts (put_mod m (x\<lparr>refcount := refcount x - 1\<rparr>) s) Z E"
proof -
  let ?s = "put_mod m (x\<lparr>refcount := refcount x - 1\<rparr>) s"
  note c = countsD [OF assms(1)]
  have m: "m \<in> live s Z" using c(4) by simp
  have d: "dom (mheap ?s) = dom (mheap s)" using assms(2) by (auto simp: put_mod_def)
  have L: "live ?s Z = live s Z" by (simp add: live_def d)
  have D: "deps_of ?s y = deps_of s y" for y using assms(2) by (simp add: deps_of_def put_mod_def)
  have r: "refs s m = unat (refcount x)" using assms(2) by (simp add: refs_def)
  have "0 < unat (refcount x)" using c(6) [OF m] r by simp
  then have "unat (refcount x - 1) = unat (refcount x) - 1" by (subst unat_diff_u32) simp_all
  then have R: "refs ?s y = (if y = m then refs s m - 1 else refs s y)" for y
    using assms(2) by (simp add: refs_def put_mod_def)
  show ?thesis unfolding counts_def L D
  proof (intro conjI ballI)
    fix y assume y: "y \<in> live s Z"
    show "set (deps_of s y) \<subseteq> insert 0 (live s Z)" using c(5) [OF y] .
    show "refs ?s y = count E y + (\<Sum>x \<in> live s Z. count_list (deps_of s x) y)"
      using c(6) [OF y] c(6) [OF m] by (cases "y = m") (simp_all add: R)
  qed (use c(1,2,3,4) d in auto)
qed

text \<open>
  Dropping the last one: nobody else refers to the module, so it becomes a zombie, and the references it
  holds are now those of the call.
\<close>

lemma counts_last:
  assumes "counts s Z (add_mset m E)" "mheap s m = Some x" "refcount x - 1 = 0" "mheap s' = (mheap s)(m \<mapsto> x\<lparr>refcount := r\<rparr>)"
  shows "counts s' (insert m Z) (E + mset (filter (\<lambda>d. d \<noteq> 0) (deps x)))" "m \<in> live s Z" "live s' (insert m Z) = live s Z - {m}"
proof -
  note c = countsD [OF assms(1)]
  show m: "m \<in> live s Z" using c(4) by simp
  have d: "dom (mheap s') = dom (mheap s)" using assms(2,4) by auto
  show L: "live s' (insert m Z) = live s Z - {m}" by (auto simp: live_def d)
  have D: "deps_of s' y = deps_of s y" for y using assms(2,4) by (simp add: deps_of_def)
  have dx: "deps_of s m = deps x" using assms(2) by (simp add: deps_of_def)
  have "refcount x = 1" using assms(3) by simp
  then have r: "refs s m = 1" using assms(2) by (simp add: refs_def)
  then have z: "count E m = 0" "(\<Sum>x \<in> live s Z. count_list (deps_of s x) m) = 0" using c(6) [OF m] by simp_all
  have nm: "m \<notin> set (deps_of s y)" if "y \<in> live s Z" for y
    using z(2) c(7) that by (simp add: count_list_0_iff)
  have R: "y \<noteq> m \<Longrightarrow> refs s' y = refs s y" for y using assms(4) by (simp add: refs_def)
  show "counts s' (insert m Z) (E + mset (filter (\<lambda>d. d \<noteq> 0) (deps x)))"
    unfolding counts_def L D
  proof (intro conjI ballI)
    show "insert m Z \<subseteq> dom (mheap s')" using c(1) d assms(2) by auto
    show "set_mset (E + mset (filter (\<lambda>d. d \<noteq> 0) (deps x))) \<subseteq> live s Z - {m}"
    proof
      fix y assume "y \<in># E + mset (filter (\<lambda>d. d \<noteq> 0) (deps x))"
      then consider "y \<in># E" | "y \<in> set (deps x)" "y \<noteq> 0" by auto
      then show "y \<in> live s Z - {m}"
      proof cases
        case 1
        then have "y \<noteq> m" using z(1) by (auto simp: count_eq_zero_iff)
        then show ?thesis using 1 c(4) by auto
      next
        case 2
        then show ?thesis using c(5) [OF m] nm [OF m] dx by auto
      qed
    qed
    fix y assume y: "y \<in> live s Z - {m}"
    then have y': "y \<in> live s Z" "y \<noteq> m" "y \<noteq> 0" using c(3) by (auto simp: live_def)
    show "set (deps_of s y) \<subseteq> insert 0 (live s Z - {m})" using c(5) [OF y'(1)] nm [OF y'(1)] by auto
    have "(\<Sum>x \<in> live s Z. count_list (deps_of s x) y) = count_list (deps x) y + (\<Sum>x \<in> live s Z - {m}. count_list (deps_of s x) y)"
      using c(7) m by (simp add: sum.remove dx)
    then show "refs s' y = count (E + mset (filter (\<lambda>d. d \<noteq> 0) (deps x))) y + (\<Sum>x \<in> live s Z - {m}. count_list (deps_of s x) y)"
      using c(6) [OF y'(1)] y'(2,3) by (simp add: R mset_nonzero_count del: mset_filter)
  qed (use c(2,3) d in simp_all)
qed

text \<open>A state a call can free modules in.\<close>

definition ready :: "modules \<Rightarrow> u32 set \<Rightarrow> u32 multiset \<Rightarrow> bool" where
  "ready s Z E \<longleftrightarrow> counts s Z E \<and> set (loaded s) \<subseteq> live s Z \<and> stack_ok s \<and> main_module s \<notin> Z"

lemma ready_after:
  assumes "ready s Z E0" "shrinks Z s s'" "counts s' Z E" "stack_ok s'"
  shows "ready s' Z E"
proof -
  have "set (loaded s') \<subseteq> live s' Z" using assms(1) shrinksD(4) [OF assms(2)] by (auto simp: ready_def live_def)
  moreover have "0 \<notin> Z" using countsD(1,3) [OF assms(3)] by blast
  then have "main_module s' \<notin> Z" using assms(1) shrinksD(6) [OF assms(2)] by (auto simp: ready_def)
  ultimately show ?thesis using assms(3,4) by (simp add: ready_def)
qed

lemma live_shrinks: "shrinks Z s s' \<Longrightarrow> live s' Z \<subseteq> live s Z"
  using shrinksD(1) [of Z s s'] by (auto simp: live_def)

lemma leave_main_ok:
  assumes "stack_ok s" "mheap s m = Some x" "main_module t = main_module s" "m \<noteq> 0"
  obtains ms t' where "leave_main m x t = Some (ms, t')" "mheap t' = mheap t" "loaded t' = loaded t" "mallocs t' = mallocs t"
    "main_module t' = (if main_module s = m then 0 else main_module s)"
  using assms by (cases "main_module s = m") (auto simp: leave_main_def stack_ok_def Let_def logged_def)

definition freed_by :: "(u32 \<Rightarrow> modules \<Rightarrow> modules option) \<Rightarrow> nat \<Rightarrow> bool" where
  "freed_by f n \<longleftrightarrow> (\<forall>m s Z E. ready s Z (if m = 0 then E else add_mset m E) \<longrightarrow> card (live s Z) < n \<longrightarrow>
     (\<exists>s'. f m s = Some s' \<and> ready s' Z E \<and> shrinks Z s s'))"

lemma in_turn_freed:
  assumes "freed_by f n"
  shows "ready s Z (E + mset (filter (\<lambda>d. d \<noteq> 0) ds)) \<Longrightarrow> card (live s Z) < n \<Longrightarrow>
    \<exists>s'. in_turn f ds s = Some s' \<and> ready s' Z E \<and> shrinks Z s s'"
proof (induction ds arbitrary: s)
  case Nil
  have "set (loaded s) \<subseteq> dom (mheap s)" using Nil(1) by (auto simp: ready_def live_def)
  then show ?case using Nil(1) by (simp add: shrinks_refl)
next
  case (Cons d ds)
  let ?E = "E + mset (filter (\<lambda>d. d \<noteq> 0) ds)"
  have "ready s Z (if d = 0 then ?E else add_mset d ?E)" using Cons.prems(1) by (cases "d = 0") simp_all
  then obtain s1 where s1: "f d s = Some s1" "ready s1 Z ?E" "shrinks Z s s1"
    using assms Cons.prems(2) unfolding freed_by_def by blast
  have fin: "finite (live s Z)" using Cons.prems(1) countsD(7) by (auto simp: ready_def)
  have "card (live s1 Z) < n" using card_mono [OF fin live_shrinks [OF s1(3)]] Cons.prems(2) by linarith
  from Cons.IH [OF s1(2) this] obtain s2 where s2: "in_turn f ds s1 = Some s2" "ready s2 Z E" "shrinks Z s1 s2" by blast
  then show ?case using s1 shrinks_trans by (auto simp: bind_eq_Some_conv)
qed

text \<open>The module leaves the heap.\<close>

lemma counts_free_struct:
  assumes "counts s (insert m Z) E" "m \<notin> Z"
  shows "counts (free_struct m s) Z E"
proof -
  note c = countsD [OF assms(1)]
  have L: "live (free_struct m s) Z = live s (insert m Z)" by (auto simp: live_def free_struct_def)
  have D: "deps_of (free_struct m s) y = deps_of s y" "refs (free_struct m s) y = refs s y" if "y \<in> live s (insert m Z)" for y
    using that by (simp_all add: deps_of_def refs_def free_struct_def live_def)
  show ?thesis unfolding counts_def L
  proof (intro conjI ballI)
    show "Z \<subseteq> dom (mheap (free_struct m s))" using c(1) assms(2) by (auto simp: free_struct_def)
    fix y assume y: "y \<in> live s (insert m Z)"
    show "set (deps_of (free_struct m s) y) \<subseteq> insert 0 (live s (insert m Z))" using c(5) [OF y] D(1) [OF y] by simp
    have "(\<Sum>x \<in> live s (insert m Z). count_list (deps_of (free_struct m s) x) y) = (\<Sum>x \<in> live s (insert m Z). count_list (deps_of s x) y)"
      by (rule sum.cong) (simp_all add: D(1))
    then show "refs (free_struct m s) y = count E y + (\<Sum>x \<in> live s (insert m Z). count_list (deps_of (free_struct m s) x) y)"
      using c(6) [OF y] D(2) [OF y] by simp
  qed (use c(2,3,4) in \<open>auto simp: free_struct_def\<close>)
qed

text \<open>Dropping a reference inside \<open>freeLxModule\<close> when others remain.\<close>

lemma drop_ready:
  assumes "ready s Z (add_mset m E)" "mheap s m = Some x" "refcount x - 1 \<noteq> 0"
  shows "ready (put_mod m (x\<lparr>refcount := refcount x - 1\<rparr>) s) Z E \<and> shrinks Z s (put_mod m (x\<lparr>refcount := refcount x - 1\<rparr>) s)"
proof -
  let ?s = "put_mod m (x\<lparr>refcount := refcount x - 1\<rparr>) s"
  have c: "counts s Z (add_mset m E)" using assms(1) by (simp add: ready_def)
  have m: "m \<notin> Z" using countsD(4) [OF c] by (auto simp: live_def)
  have d: "dom (mheap ?s) = dom (mheap s)" using assms(2) by (auto simp: put_mod_def)
  have l: "set (loaded s) \<subseteq> dom (mheap s)" using assms(1) by (auto simp: ready_def live_def)
  have sh: "shrinks Z s ?s" unfolding shrinks_def d
  proof (intro conjI)
    show "\<forall>y x'. mheap ?s y = Some x' \<longrightarrow> (\<exists>x. mheap s y = Some x \<and> x' = x\<lparr>refcount := refcount x'\<rparr>)"
      using assms(2) by (simp add: put_mod_def)
    show "loaded ?s = filter (\<lambda>y. y \<in> dom (mheap s)) (loaded s)" using filter_known [OF l] by (simp add: put_mod_def)
  qed (use m in \<open>auto simp: put_mod_def\<close>)
  have "stack_ok s" using assms(1) by (simp add: ready_def)
  then have "stack_ok ?s" using assms(2) by (auto simp: stack_ok_def put_mod_def)
  then show ?thesis using ready_after [OF assms(1) sh counts_drop [OF c assms(2,3)]] sh by simp
qed

text \<open>The module, now a zombie, and its dependencies freed.\<close>

lemma zombie_ready:
  assumes "ready s Z (add_mset m E)" "mheap s m = Some x" "refcount x - 1 = 0"
    "mheap t = (mheap s)(m \<mapsto> x\<lparr>refcount := refcount x - 1\<rparr>)" "loaded t = filter (\<lambda>y. y \<noteq> m) (loaded s)"
    "main_module t = (if main_module s = m then 0 else main_module s)"
  shows "ready t (insert m Z) (E + mset (filter (\<lambda>d. d \<noteq> 0) (rev (deps x))))" "card (live t (insert m Z)) < card (live s Z)" "m \<notin> Z"
proof -
  have c: "counts s Z (add_mset m E)" using assms(1) by (simp add: ready_def)
  note l = counts_last [OF c assms(2,3,4)]
  have fin: "finite (live s Z)" using countsD(7) [OF c] .
  show "card (live t (insert m Z)) < card (live s Z)" unfolding l(3) using fin l(2) by (rule card_Diff1_less)
  show "m \<notin> Z" using l(2) by (simp add: live_def)
  have z: "0 \<notin> insert m Z" using countsD(1,3) [OF l(1)] by blast
  have s: "stack_ok t" using assms(1,4,6) by (auto simp: ready_def stack_ok_def)
  have "E + mset (filter (\<lambda>d. d \<noteq> 0) (rev (deps x))) = E + mset (filter (\<lambda>d. d \<noteq> 0) (deps x))"
    by (simp add: rev_filter [symmetric] del: mset_filter)
  moreover have "set (loaded t) \<subseteq> live t (insert m Z)" using assms(1,5) by (auto simp: ready_def l(3))
  ultimately show "ready t (insert m Z) (E + mset (filter (\<lambda>d. d \<noteq> 0) (rev (deps x))))"
    using l(1) s z assms(1,6) by (auto simp: ready_def)
qed

lemma zombie_gone:
  assumes "ready s Z E0" "m \<notin> Z" "mheap s m = Some x" "mheap t = (mheap s)(m \<mapsto> x')" "loaded t = filter (\<lambda>y. y \<noteq> m) (loaded s)"
    "mallocs t = mallocs s" "main_module t = (if main_module s = m then 0 else main_module s)"
    "ready u (insert m Z) E" "shrinks (insert m Z) t u" "mheap v = (mheap u)(m := None)" "loaded v = loaded u"
    "mallocs v = mallocs u" "main_module v = main_module u"
  shows "ready v Z E \<and> shrinks Z s v"
proof -
  note a = shrinksD [OF assms(9)]
  have d: "dom (mheap t) = dom (mheap s)" using assms(3,4) by auto
  have nm: "m \<notin> set (loaded u)" using assms(8) by (auto simp: ready_def live_def)
  have z: "0 \<noteq> m" using assms(8) countsD(1,3) [of u "insert m Z" E] by (auto simp: ready_def)
  have sh: "shrinks Z s v" unfolding shrinks_def
  proof (intro conjI allI impI)
    show "dom (mheap v) \<subseteq> dom (mheap s)" using a(1) d assms(10) by auto
    show "\<forall>w \<in> Z. mheap v w = mheap s w" using a(2) assms(2,4,10) by auto
    show "mallocs v = mallocs s" "main_module v \<in> {0, main_module s}" using a(5,6) assms(6,7,12,13) by (auto split: if_splits)
    have "loaded v = filter (\<lambda>y. y \<in> dom (mheap u)) (filter (\<lambda>y. y \<noteq> m) (loaded s))" using a(4) assms(5,11) by simp
    then show "loaded v = filter (\<lambda>y. y \<in> dom (mheap v)) (loaded s)" using assms(10) by (auto intro: filter_cong simp: conj_commute)
    fix y w assume y: "mheap v y = Some w"
    then have "mheap u y = Some w" "y \<noteq> m" using assms(10) by (auto split: if_splits)
    then show "\<exists>x. mheap s y = Some x \<and> w = x\<lparr>refcount := refcount w\<rparr>" using a(3) [of y w] assms(4) by simp
  qed
  have c: "counts v Z E" using counts_free_struct [OF _ assms(2), of u E] assms(8,10)
    counts_fresh_state [of v "free_struct m u" Z E] by (simp add: ready_def free_struct_def)
  have "main_module u \<noteq> m \<or> main_module u = 0" using a(6) assms(7) by (auto split: if_splits)
  then have "stack_ok v" using assms(8,10,13) z by (auto simp: ready_def stack_ok_def)
  then show ?thesis using ready_after [OF assms(1) sh c] sh by simp
qed

lemma free_mod_freed: "freed_by (free_mod n) n"
proof (induction n)
  case (Suc n)
  show ?case unfolding freed_by_def
  proof (intro allI impI)
    fix m s Z E
    assume rdy: "ready s Z (if m = 0 then E else add_mset m E)" and n: "card (live s Z) < Suc n"
    show "\<exists>s'. free_mod (Suc n) m s = Some s' \<and> ready s' Z E \<and> shrinks Z s s'"
    proof (cases "m = 0")
      case True
      have "set (loaded s) \<subseteq> dom (mheap s)" using rdy by (auto simp: ready_def live_def)
      then show ?thesis using rdy True by (simp add: shrinks_refl)
    next
      case False
      then have rdy: "ready s Z (add_mset m E)" using rdy by simp
      then have "m \<in> live s Z" using countsD(4) [of s Z "add_mset m E"] by (simp add: ready_def)
      then obtain x where x: "mheap s m = Some x" by (auto simp: live_def)
      let ?s1 = "put_mod m (x\<lparr>refcount := refcount x - 1\<rparr>) s"
      show ?thesis
      proof (cases "refcount x - 1 = 0")
        case last: True
        define s3 where "s3 = leave_list m x ?s1"
        have s3: "mheap s3 = (mheap s)(m \<mapsto> x\<lparr>refcount := refcount x - 1\<rparr>)" "loaded s3 = filter (\<lambda>y. y \<noteq> m) (loaded s)"
          "mallocs s3 = mallocs s" "main_module s3 = main_module s"
          by (simp_all add: s3_def put_mod_def)
        obtain ms s4 where s4: "leave_main m x s3 = Some (ms, s4)" "mheap s4 = mheap s3" "loaded s4 = loaded s3" "mallocs s4 = mallocs s3"
          "main_module s4 = (if main_module s = m then 0 else main_module s)"
          using leave_main_ok [of s m x s3] rdy x s3(4) False by (auto simp: ready_def)
        have h4: "mheap s4 = (mheap s)(m \<mapsto> x\<lparr>refcount := refcount x - 1\<rparr>)" using s4(2) s3(1) by simp
        have l4: "loaded s4 = filter (\<lambda>y. y \<noteq> m) (loaded s)" using s4(3) s3(2) by simp
        note z = zombie_ready [OF rdy x last h4 l4 s4(5)]
        have k: "card (live s4 (insert m Z)) < n" using z(2) n by linarith
        obtain s5 where s5: "in_turn (free_mod n) (rev (deps x)) s4 = Some s5" "ready s5 (insert m Z) E" "shrinks (insert m Z) s4 s5"
          using in_turn_freed [OF Suc z(1) k] by blast
        define v where "v = free_struct m (logged (concat (map unmap_events ms) @ (if native x then [Close_native m] else [])) s5)"
        have v: "mheap v = (mheap s5)(m := None)" "loaded v = loaded s5" "mallocs v = mallocs s5" "main_module v = main_module s5"
          by (simp_all add: v_def free_struct_def logged_def)
        have m4: "mallocs s4 = mallocs s" using s4(4) s3(3) by simp
        have "free_mod (Suc n) m s = Some v"
          using False x last s4(1) s5(1) unfolding s3_def v_def by (simp add: Let_def)
        then show ?thesis using zombie_gone [OF rdy z(3) x h4 l4 m4 s4(5) s5(2,3) v] by blast
      next
        case False
        then show ?thesis using drop_ready [OF rdy x False] x \<open>m \<noteq> 0\<close> by (simp add: Let_def)
      qed
    qed
  qed
qed (simp add: freed_by_def)

text \<open>
  With exact counts a call of \<open>freeLxModule\<close> drops one reference and whatever only that reference kept, whatever the
  dependencies are; no freed module is touched, and the counts stay exact.
\<close>

lemma freeLxModule_counts:
  assumes "ready s {} (if m = 0 then E else add_mset m E)" "card (dom (mheap s)) \<le> mallocs s"
  shows "\<exists>s'. freeLxModule m s = Some s' \<and> ready s' {} E \<and> shrinks {} s s'"
proof -
  have "card (live s {}) < Suc (mallocs s)" using assms(2) by (simp add: live_def)
  then show ?thesis using free_mod_freed [of "Suc (mallocs s)"] assms(1) unfolding freed_by_def freeLxModule_def by blast
qed

lemma freeLxModule_last:
  assumes "freeLxModule m s = Some s'" "m \<noteq> 0" "mheap s m = Some x" "refcount x = 1"
  shows "mheap s' m = None"
  using assms by (auto simp: freeLxModule_def Let_def free_struct_def bind_eq_Some_conv split: prod.splits)

subsection \<open>The end of the process\<close>

text \<open>The list is in the order of dependency: what a module needs is further down.\<close>

fun topo :: "modules \<Rightarrow> u32 list \<Rightarrow> bool" where
  "topo s [] \<longleftrightarrow> True"
| "topo s (m # ms) \<longleftrightarrow> set (deps_of s m) \<subseteq> insert 0 (set ms) \<and> topo s ms"

lemma topo_closed: "topo s ms \<Longrightarrow> y \<in> set ms \<Longrightarrow> set (deps_of s y) \<subseteq> insert 0 (set ms)"
  by (induction ms) auto

lemma topo_deps: "(\<And>y. y \<in> set ms \<Longrightarrow> deps_of s' y = deps_of s y) \<Longrightarrow> topo s' ms = topo s ms"
  by (induction ms) auto

lemma topo_shrinks:
  assumes "shrinks {} s s'" "counts s' {} E"
  shows "topo s ms \<Longrightarrow> topo s' (filter (\<lambda>y. y \<in> dom (mheap s')) ms)"
proof (induction ms)
  case (Cons m ms)
  show ?case
  proof (cases "m \<in> dom (mheap s')")
    case True
    have "set (deps_of s' m) \<subseteq> insert 0 (set ms)" using Cons.prems shrinks_deps [OF assms(1) True] by simp
    moreover have "set (deps_of s' m) \<subseteq> insert 0 (dom (mheap s'))" using countsD(5) [OF assms(2), of m] True by (simp add: live_def)
    ultimately show ?thesis using Cons True by auto
  qed (use Cons in simp)
qed simp

lemma sum_no_deps: "(\<And>y. y \<in> A \<Longrightarrow> m \<notin> set (f y)) \<Longrightarrow> (\<Sum>y \<in> A. count_list (f y) m) = 0"
  by (rule sum.neutral) simp

lemma force_ready:
  assumes "ready s {} E" "loaded s = m # ms" "dom (mheap s) = set (loaded s)" "distinct (loaded s)" "topo s (loaded s)" "mheap s m = Some x"
  shows "ready (put_mod m (x\<lparr>refcount := 1\<rparr>) s) {} (add_mset m (filter_mset (\<lambda>y. y \<noteq> m) E))"
proof -
  let ?s = "put_mod m (x\<lparr>refcount := 1\<rparr>) s"
  let ?E = "add_mset m (filter_mset (\<lambda>y. y \<noteq> m) E)"
  have c: "counts s {} E" using assms(1) by (simp add: ready_def)
  have d: "dom (mheap ?s) = dom (mheap s)" using assms(6) by (auto simp: put_mod_def)
  have L: "live ?s {} = live s {}" by (simp add: live_def d)
  have D: "deps_of ?s y = deps_of s y" for y using assms(6) by (simp add: deps_of_def put_mod_def)
  have R: "refs ?s y = (if y = m then 1 else refs s y)" for y by (simp add: refs_def put_mod_def)
  have "m \<notin> set (deps_of s y)" if "y \<in> live s {}" for y
  proof (cases "y = m")
    case True
    then have "set (deps_of s y) \<subseteq> insert 0 (set ms)" using assms(2,5) by simp
    moreover have "m \<notin> insert 0 (set ms)" using assms(2,3,4) countsD(3) [OF c] by auto
    ultimately show ?thesis by blast
  next
    case False
    then have "y \<in> set ms" using that assms(2,3) by (simp add: live_def)
    then have "set (deps_of s y) \<subseteq> insert 0 (set ms)" using topo_closed [of s ms y] assms(2,5) by simp
    moreover have "m \<notin> insert 0 (set ms)" using assms(2,3,4) countsD(3) [OF c] by auto
    ultimately show ?thesis by blast
  qed
  then have z: "(\<Sum>y \<in> live s {}. count_list (deps_of s y) m) = 0" by (rule sum_no_deps)
  have "counts ?s {} ?E" unfolding counts_def L D
  proof (intro conjI ballI)
    fix y assume y: "y \<in> live s {}"
    show "set (deps_of s y) \<subseteq> insert 0 (live s {})" using countsD(5) [OF c y] .
    show "refs ?s y = count ?E y + (\<Sum>x \<in> live s {}. count_list (deps_of s x) y)"
      using countsD(6) [OF c y] z by (simp add: R)
  qed (use countsD(2,3,4) [OF c] d assms(6) in \<open>auto simp: live_def\<close>)
  moreover have "stack_ok ?s" using assms(1,6) by (auto simp: ready_def stack_ok_def put_mod_def)
  moreover have "set (loaded ?s) \<subseteq> live ?s {}" using assms(3) L by (simp add: put_mod_def live_def)
  ultimately show ?thesis by (simp add: ready_def)
qed

lemma terminate_loop_frees:
  "ready s {} E \<Longrightarrow> dom (mheap s) = set (loaded s) \<Longrightarrow> distinct (loaded s) \<Longrightarrow> topo s (loaded s) \<Longrightarrow>
    card (dom (mheap s)) \<le> mallocs s \<Longrightarrow> length (loaded s) \<le> n \<Longrightarrow>
    \<exists>s'. terminate_loop n s = Some s' \<and> dom (mheap s') = {} \<and> loaded s' = []"
proof (induction n arbitrary: s E)
  case 0
  then show ?case by (simp add: terminate_loop.simps [of 0])
next
  case (Suc n)
  show ?case
  proof (cases "loaded s")
    case Nil
    then show ?thesis using Suc.prems(2) by (simp add: terminate_loop.simps)
  next
    case (Cons m ms)
    then obtain x where x: "mheap s m = Some x" using Suc.prems(2) by force
    let ?s = "put_mod m (x\<lparr>refcount := 1\<rparr>) s"
    let ?E = "filter_mset (\<lambda>y. y \<noteq> m) E"
    have m0: "m \<noteq> 0" using Suc.prems(1) x countsD(3) by (auto simp: ready_def dest: domI)
    have d: "dom (mheap ?s) = dom (mheap s)" using x by (auto simp: put_mod_def)
    have r: "ready ?s {} (add_mset m ?E)" using force_ready [OF Suc.prems(1) Cons Suc.prems(2-4) x] .
    have "card (dom (mheap ?s)) \<le> mallocs ?s" using Suc.prems(5) d by (simp add: put_mod_def)
    then obtain s1 where s1: "freeLxModule m ?s = Some s1" "ready s1 {} ?E" "shrinks {} ?s s1"
      using freeLxModule_counts [of ?s m ?E] r m0 by auto
    have gone: "m \<notin> dom (mheap s1)" using freeLxModule_last [OF s1(1) m0] by (simp add: put_mod_def domIff)
    note sh = shrinksD [OF s1(3)]
    have l1: "loaded s1 = filter (\<lambda>y. y \<in> dom (mheap s1)) (loaded s)" using sh(4) by (simp add: put_mod_def)
    have dom1: "dom (mheap s1) = set (loaded s1)" using sh(1) d Suc.prems(2) l1 by auto
    have "length (loaded s1) \<le> length ms" using gone by (simp add: l1 Cons)
    then have len: "length (loaded s1) \<le> n" using Suc.prems(6) Cons by simp
    have "topo ?s (loaded s)" using Suc.prems(4) topo_deps [of "loaded s" ?s s] x by (simp add: deps_of_def put_mod_def)
    then have t: "topo s1 (loaded s1)" unfolding l1 using topo_shrinks [OF s1(3), of ?E "loaded s"] s1(2) by (simp add: ready_def)
    have "card (dom (mheap s1)) \<le> card (dom (mheap ?s))" using sh(1) d Suc.prems(2) by (intro card_mono) auto
    then have k: "card (dom (mheap s1)) \<le> mallocs s1" using Suc.prems(5) d sh(5) by (simp add: put_mod_def)
    have "distinct (loaded s1)" using Suc.prems(3) l1 by simp
    from Suc.IH [OF s1(2) dom1 this t k len] show ?thesis using Cons x s1(1) by (subst terminate_loop.simps) simp
  qed
qed

text \<open>
  A loaded program: the counts are exact (\<open>E\<close> are the references of calls of \<open>DosLoadModule\<close>), the main program is
  referred to once, and the list has the order of dependency.
\<close>

definition program :: "modules \<Rightarrow> u32 multiset \<Rightarrow> bool" where
  "program s E \<longleftrightarrow> main_module s \<noteq> 0 \<and> ready s {} (add_mset (main_module s) E) \<and> refs s (main_module s) = 1 \<and>
    dom (mheap s) = insert (main_module s) (set (loaded s)) \<and> main_module s \<notin> set (loaded s) \<and> distinct (loaded s) \<and>
    topo s (loaded s) \<and> card (dom (mheap s)) \<le> mallocs s"

lemma lxTerminate_runs:
  assumes "program s E"
  shows "\<exists>s'. lxTerminate code s = Some (s', code AND 0xFF) \<and> dom (mheap s') = {} \<and> loaded s' = []"
proof -
  note a = assms [unfolded program_def]
  let ?m = "main_module s"
  obtain s1 where s1: "freeLxModule ?m s = Some s1" "ready s1 {} E" "shrinks {} s s1"
    using freeLxModule_counts [of s ?m E] a by auto
  obtain x where x: "mheap s ?m = Some x" using a by blast
  have "refcount x = 1" using a x by (simp add: refs_def word_unat_eq_iff)
  then have gone: "?m \<notin> dom (mheap s1)" using freeLxModule_last [OF s1(1) _ x] a by (simp add: domIff)
  note sh = shrinksD [OF s1(3)]
  have d: "dom (mheap s1) = set (loaded s1)" using sh(1,4) a gone by auto
  have t: "topo s1 (loaded s1)" unfolding sh(4) using topo_shrinks [OF s1(3), of E "loaded s"] s1(2) a by (simp add: ready_def)
  have "finite (dom (mheap s))" using a by simp
  then have "card (dom (mheap s1)) \<le> card (dom (mheap s))" using sh(1) by (rule card_mono)
  then have k: "card (dom (mheap s1)) \<le> mallocs s1" using a sh(5) by linarith
  have "distinct (loaded s1)" using a sh(4) by simp
  from terminate_loop_frees [OF s1(2) d this t k order_refl] show ?thesis using s1(1) by (auto simp: lxTerminate_def)
qed

text \<open>
  C39.  The end of the process frees every module exactly once: from a loaded program with exact reference
  counts, whatever the calls of \<open>DosLoadModule\<close> still hold, no freed structure is touched, none is left, and the
  exit code is cut to a byte.
\<close>

theorem lxTerminate_frees_all:
  assumes "program s E"
  shows "\<exists>s'. lxTerminate code s = Some (s', code AND 0xFF) \<and> dom (mheap s') = {} \<and> loaded s' = []"
  using assms by (rule lxTerminate_runs)

definition demo_mod :: "u32 \<Rightarrow> bytes \<Rightarrow> u32 list \<Rightarrow> mapping list \<Rightarrow> nat \<Rightarrow> bool \<Rightarrow> lmod" where
  "demo_mod r n ds ms so nt = \<lparr>refcount = r, mname = n, deps = ds, maps = ms, stack_object = so, native = nt, initialized = True\<rparr>"

text \<open>A program that needs two libraries, one of which also needs the other, and loaded the first once more itself.\<close>

definition demo_modules :: modules where
  "demo_modules = \<lparr>mheap = [0x100 \<mapsto> demo_mod 1 (str ''GAME'') [0x200, 0x300] [\<lparr>map_addr = 0x10000, map_size = 0x1000, map_alias = 0xFFFF\<rparr>] 1 False,
     0x200 \<mapsto> demo_mod 2 (str ''SOUND'') [0x300] [\<lparr>map_addr = 0x20000, map_size = 0x1000, map_alias = 7\<rparr>] 0 False,
     0x300 \<mapsto> demo_mod 2 (str ''DOSCALLS'') [] [] 0 True],
     loaded = [0x200, 0x300], main_module = 0x100, mallocs = 3, log = []\<rparr>"

lemma demo_dom: "dom (mheap demo_modules) = {0x100, 0x200, 0x300}"
  by (auto simp: demo_modules_def split: if_splits)

lemma demo_program: "program demo_modules {#0x200#}"
proof -
  have L: "live demo_modules {} = {0x100, 0x200, 0x300}" by (simp add: live_def demo_dom)
  have D: "deps_of demo_modules 0x100 = [0x200, 0x300]" "deps_of demo_modules 0x200 = [0x300]" "deps_of demo_modules 0x300 = []"
    "refs demo_modules 0x100 = 1" "refs demo_modules 0x200 = 2" "refs demo_modules 0x300 = 2"
    by code_simp+
  have M: "main_module demo_modules = 0x100" "loaded demo_modules = [0x200, 0x300]" "mallocs demo_modules = 3"
    by (simp_all add: demo_modules_def)
  have S: "stack_ok demo_modules" unfolding stack_ok_def M
    by (auto simp: demo_modules_def demo_mod_def)
  have "counts demo_modules {} {#0x100, 0x200#}"
    unfolding counts_def L by (simp add: demo_dom D)
  then show ?thesis unfolding program_def ready_def L M demo_dom by (simp add: D S M)
qed

theorem lxTerminate_frees_all_witness:
  "\<exists>s'. lxTerminate 0x1FF demo_modules = Some (s', 0xFF) \<and> dom (mheap s') = {} \<and> loaded s' = []"
  using lxTerminate_frees_all [OF demo_program, of "0x1FF"] by simp

text \<open>The order of the calls there: each library ends before those it needs, and the stack of the program stays mapped.\<close>

lemma lxTerminate_demo_log:
  "map_option (\<lambda>(s, _). log s) (lxTerminate 0 demo_modules) =
    Some [Free_stack 0x10000 0x1000, Term 0x200, Term 0x300, Close_native 0x300, Free_selector 7, Unmap 0x20000 0x1000]"
  by code_simp

subsection \<open>Loading a module by name\<close>

text \<open>
  A library file as far as other modules are concerned: its own name, the names it imports, its mappings, and whether the steps
  before its imports (objects, exports, name tables) and after them (fixups, page protection, its path) succeed.
  \<open>dlls\<close> gives the readable modules by file name, \<open>natives\<close> the native libraries that can be opened.
\<close>

record dll =
  dll_name :: bytes
  imports_of :: "bytes list"
  dll_maps :: "mapping list"
  before_ok :: bool
  after_ok :: bool

record libraries =
  dlls :: "bytes \<Rightarrow> dll option"
  natives :: "bytes \<Rightarrow> bool"

type_synonym loading = "modules \<Rightarrow> (u32 \<times> modules) option"

definition alloc_mod :: "u32 \<Rightarrow> lmod \<Rightarrow> modules \<Rightarrow> modules" where
  "alloc_mod m x s = (put_mod m x s)\<lparr>mallocs := mallocs s + 1\<rparr>"

definition load_failed :: "u32 \<Rightarrow> loading" where
  "load_failed m s = do { s1 \<leftarrow> freeLxModule m s; Some (0, s1) }"

fun load_imports :: "(bytes \<Rightarrow> loading) \<Rightarrow> u32 \<Rightarrow> nat \<Rightarrow> bytes list \<Rightarrow> modules \<Rightarrow> (bool \<times> modules) option" where
  "load_imports sub m i [] s = Some (True, s)"
| "load_imports sub m i (name # names) s =
    (if 127 < length name then Some (False, s)
     else do {
       (d, s1) \<leftarrow> sub name s;
       x \<leftarrow> mheap s1 m;
       let s2 = put_mod m (x\<lparr>deps := (deps x)[i := d]\<rparr>) s1;
       if d = 0 then Some (False, s2) else load_imports sub m (i + 1) names s2 })"

definition prepend_loaded :: "u32 \<Rightarrow> modules \<Rightarrow> modules" where
  "prepend_loaded m s = s\<lparr>loaded := m # loaded s\<rparr>"

text \<open>
  Loading a library; \<open>sub\<close> loads what it imports, or is \<open>None\<close> when the chain of imports is too long.  Without a
  main program the code jumps to the end before it has set \<^verbatim>\<open>retval\<close> (\<open>None\<close>).
\<close>

definition load_dll :: "(modules \<Rightarrow> u32) \<Rightarrow> (bytes \<Rightarrow> loading) option \<Rightarrow> dll \<Rightarrow> loading" where
  "load_dll malloc sub f s =
    (if main_module s = 0 then None
     else let m = malloc s in
       if m = 0 then Some (0, s)
       else
         let x = \<lparr>refcount = 1, mname = dll_name f, deps = replicate (length (imports_of f)) 0, maps = [],
               stack_object = 0, native = False, initialized = False\<rparr>;
             s1 = alloc_mod m x s
         in case sub of
             None \<Rightarrow> load_failed m s1
           | Some load \<Rightarrow>
               let s2 = put_mod m (x\<lparr>maps := dll_maps f\<rparr>) s1 in
               if \<not> before_ok f then load_failed m s2
               else do {
                 (ok, s3) \<leftarrow> load_imports load m 0 (imports_of f) s2;
                 if \<not> ok \<or> \<not> after_ok f then load_failed m s3
                 else do {
                   y \<leftarrow> mheap s3 m;
                   Some (m, prepend_loaded m (put_mod m (y\<lparr>initialized := True\<rparr>) (logged [Init m] s3))) } })"

definition native_file :: "bytes \<Rightarrow> bytes" where
  "native_file modname = map lower8 (take 255 (str ''./lib'' @ modname @ str ''.so''))"

text \<open>The name is copied into an array of 256 bytes.\<close>

definition loadNativeModule :: "(modules \<Rightarrow> u32) \<Rightarrow> libraries \<Rightarrow> bytes \<Rightarrow> loading" where
  "loadNativeModule malloc fs modname s =
    (let m = malloc s in
     if m = 0 \<or> \<not> natives fs (native_file modname) then Some (0, s)
     else if 256 \<le> length modname then None
     else Some (m, alloc_mod m \<lparr>refcount = 1, mname = modname, deps = [], maps = [], stack_object = 0, native = True, initialized = True\<rparr> s))"

fun find_loaded :: "modules \<Rightarrow> bytes \<Rightarrow> u32 list \<Rightarrow> (u32 option) option" where
  "find_loaded s name [] = Some None"
| "find_loaded s name (m # ms) =
    (case mheap s m of None \<Rightarrow> None
     | Some x \<Rightarrow> if strcasecmp_eq (mname x) name then Some (Some m) else find_loaded s name ms)"

definition load_named :: "(modules \<Rightarrow> u32) \<Rightarrow> libraries \<Rightarrow> (bytes \<Rightarrow> loading) option \<Rightarrow> bytes \<Rightarrow> loading" where
  "load_named malloc fs sub name s = do {
     f \<leftarrow> find_loaded s name (loaded s);
     case f of
       Some m \<Rightarrow> do { x \<leftarrow> mheap s m; Some (m, put_mod m (x\<lparr>refcount := refcount x + 1\<rparr>) s) }
     | None \<Rightarrow> do {
         (r, s1) \<leftarrow> (case dlls fs (take 255 (name @ str ''.dll'')) of None \<Rightarrow> Some (0, s) | Some d \<Rightarrow> load_dll malloc sub d s);
         if r \<noteq> 0 then Some (r, s1)
         else do {
           (r2, s2) \<leftarrow> loadNativeModule malloc fs name s1;
           Some (r2, if r2 \<noteq> 0 then prepend_loaded r2 s2 else s2) } } }"

text \<open>
  The first argument is how much longer the chain of imports may get: 32 less \<^verbatim>\<open>dependency_tree_depth\<close>.
\<close>

fun loadModuleByModuleNameInternal :: "nat \<Rightarrow> (modules \<Rightarrow> u32) \<Rightarrow> libraries \<Rightarrow> bytes \<Rightarrow> loading" where
  "loadModuleByModuleNameInternal 0 malloc fs name s = load_named malloc fs None name s"
| "loadModuleByModuleNameInternal (Suc n) malloc fs name s =
    load_named malloc fs (Some (loadModuleByModuleNameInternal n malloc fs)) name s"

definition loadModuleByModuleName :: "(modules \<Rightarrow> u32) \<Rightarrow> libraries \<Rightarrow> bytes \<Rightarrow> loading" where
  "loadModuleByModuleName = loadModuleByModuleNameInternal 32"

text \<open>A name without slashes is a module name, less what follows its last dot; otherwise it is a path (\<open>by_path\<close>).\<close>

definition cut_extension :: "bytes \<Rightarrow> bytes" where
  "cut_extension s = (if 0x2E \<in> set s then rev (drop 1 (dropWhile (\<lambda>c. c \<noteq> 0x2E) (rev s))) else s)"

definition loadModuleByPathOrModuleName ::
  "(modules \<Rightarrow> u32) \<Rightarrow> libraries \<Rightarrow> (bytes \<Rightarrow> apiret + bytes) \<Rightarrow> (bytes \<Rightarrow> loading) \<Rightarrow> bytes \<Rightarrow> loading" where
  "loadModuleByPathOrModuleName malloc fs makeUnixPath by_path modname s =
    (if SLASH \<notin> set modname \<and> BSLASH \<notin> set modname then loadModuleByModuleName malloc fs (cut_extension modname) s
     else case makeUnixPath modname of Inl _ \<Rightarrow> Some (0, s) | Inr path \<Rightarrow> by_path path s)"

text \<open>A module that is loaded already is found under its name in any case, and only gets one more reference.\<close>

lemma find_loaded_name:
  "find_loaded s name ms = Some (Some m) \<Longrightarrow> m \<in> set ms \<and> (\<exists>x. mheap s m = Some x \<and> strcasecmp_eq (mname x) name)"
  by (induction ms) (auto split: option.splits if_splits)

lemma find_loaded_counts: "ready s {} E \<Longrightarrow> find_loaded s name (loaded s) \<noteq> None"
proof -
  assume "ready s {} E"
  then have "set (loaded s) \<subseteq> dom (mheap s)" by (auto simp: ready_def live_def)
  moreover have "set ms \<subseteq> dom (mheap s) \<Longrightarrow> find_loaded s name ms \<noteq> None" for ms by (induction ms) (auto split: option.splits)
  ultimately show ?thesis by blast
qed

lemma counts_ref:
  assumes "counts s Z E" "m \<in> live s Z" "mheap s m = Some x" "refcount x + 1 \<noteq> 0"
  shows "counts (put_mod m (x\<lparr>refcount := refcount x + 1\<rparr>) s) Z (add_mset m E)"
proof -
  let ?s = "put_mod m (x\<lparr>refcount := refcount x + 1\<rparr>) s"
  note c = countsD [OF assms(1)]
  have d: "dom (mheap ?s) = dom (mheap s)" using assms(3) by (auto simp: put_mod_def)
  have L: "live ?s Z = live s Z" by (simp add: live_def d)
  have D: "deps_of ?s y = deps_of s y" for y using assms(3) by (simp add: deps_of_def put_mod_def)
  have "1 + refcount x \<noteq> 0" using assms(4) by (simp add: add.commute)
  then have "unat (1 + refcount x) = Suc (unat (refcount x))" by (rule unatSuc)
  then have "unat (refcount x + 1) = Suc (unat (refcount x))" by (simp add: add.commute)
  then have R: "refs ?s y = (if y = m then Suc (refs s m) else refs s y)" for y
    using assms(3) by (simp add: refs_def put_mod_def)
  show ?thesis unfolding counts_def L D
  proof (intro conjI ballI)
    fix y assume y: "y \<in> live s Z"
    show "set (deps_of s y) \<subseteq> insert 0 (live s Z)" using c(5) [OF y] .
    show "refs ?s y = count (add_mset m E) y + (\<Sum>x \<in> live s Z. count_list (deps_of s x) y)"
      using c(6) [OF y] c(6) [OF assms(2)] by (cases "y = m") (simp_all add: R)
  qed (use c(1,2,3,4) d assms(2) in auto)
qed

lemma load_found:
  assumes "ready s {} E" "find_loaded s name (loaded s) = Some (Some m)" "\<And>x. mheap s m = Some x \<Longrightarrow> refcount x + 1 \<noteq> 0"
  shows "\<exists>s'. load_named malloc fs sub name s = Some (m, s') \<and> counts s' {} (add_mset m E) \<and> loaded s' = loaded s \<and> log s' = log s"
proof -
  obtain x where x: "mheap s m = Some x" using find_loaded_name [OF assms(2)] by blast
  then have "counts (put_mod m (x\<lparr>refcount := refcount x + 1\<rparr>) s) {} (add_mset m E)"
    using assms(1,3) by (intro counts_ref) (auto simp: ready_def live_def)
  then show ?thesis using assms(2) x by (simp add: load_named_def put_mod_def)
qed

text \<open>Libraries that import each other: the chain of imports is cut off, and the failure leaves the state as it was.\<close>

definition demo_malloc :: "modules \<Rightarrow> u32" where
  "demo_malloc s = of_nat (0x1000 + mallocs s)"

definition demo_libraries :: libraries where
  "demo_libraries = \<lparr>dlls = (\<lambda>n. if n = str ''A.dll'' then Some \<lparr>dll_name = str ''A'', imports_of = [str ''DOSCALLS'', str ''B''], dll_maps = [], before_ok = True, after_ok = True\<rparr>
       else if n = str ''B.dll'' then Some \<lparr>dll_name = str ''B'', imports_of = [str ''A''], dll_maps = [], before_ok = True, after_ok = True\<rparr>
       else if n = str ''C.dll'' then Some \<lparr>dll_name = str ''C'', imports_of = [str ''sound'', str ''DOSCALLS''], dll_maps = [], before_ok = True, after_ok = True\<rparr> else None),
     natives = (\<lambda>n. False)\<rparr>"

lemma load_circular:
  "map_option (\<lambda>(r, s). (r, loaded s, refs s 0x300, log s)) (loadModuleByModuleNameInternal 1 demo_malloc demo_libraries (str ''A'') demo_modules)
    = Some (0, [0x200, 0x300], 2, [])"
  by code_simp

lemma load_shares:
  "map_option (\<lambda>(r, s). (r, loaded s, refs s 0x200, refs s 0x300)) (loadModuleByModuleName demo_malloc demo_libraries (str ''C'') demo_modules)
    = Some (0x1003, [0x1003, 0x200, 0x300], 3, 3)"
  by code_simp

end
