(* ===== verification/LxLoad.thy ===== *)
theory LxLoad
  imports Fixups Decompress Paths
begin

section \<open>Loading the objects of an LX module (\<^verbatim>\<open>lx_loader.c\<close>: \<^verbatim>\<open>loadLxModule\<close>)\<close>

text \<open>
  What \<^verbatim>\<open>loadLxModule\<close> does between the header checks and the dependencies, and after them: it maps each object,
  fills its pages from the file, computes the entry point and the stack, gives 16:16 aliases, applies the
  fixups and sets the protection.  \<open>origexe\<close> is the file, \<open>exe\<close> the part from the LX header on.  The memory of an object is
  the list of the bytes of its mapping; \<open>mmap\<close> is the host's call.  A result inside \<open>Some\<close> is \<open>Inl ()\<close> when the code refuses
  the module; \<open>None\<close> is an access outside the file or the mapping, or a failed assertion.
\<close>

subsection \<open>Is it a module that can be loaded now\<close>

text \<open>The result says if it is a library; refusing here goes to the end of the function with \<^verbatim>\<open>retval\<close> not set (\<open>None\<close>).\<close>

definition lx_admit :: "LxHeader \<Rightarrow> bool \<Rightarrow> bool option" where
  "lx_admit lx have_main =
    (let module_type = module_flags lx AND 0x00038000; isDLL = module_type = 0x8000 in
     if module_type \<noteq> 0 \<and> module_type \<noteq> 0x8000 then None
     else if module_flags lx AND 0x2000 \<noteq> 0 then None
     else if isDLL \<and> \<not> have_main then None
     else if \<not> isDLL \<and> have_main then None
     else Some isDLL)"

text \<open>The module's name is the first entry of the resident name table, in capitals.\<close>

definition lx_module_name :: "bytes \<Rightarrow> LxHeader \<Rightarrow> bytes option" where
  "lx_module_name exe lx =
    (if resident_name_table_offset lx = 0 then Some []
     else do {
       namelen \<leftarrow> rd8 exe (unat (resident_name_table_offset lx));
       name \<leftarrow> rd_blk exe (unat (resident_name_table_offset lx) + 1) (unat namelen);
       Some (map upper8 name) })"

subsection \<open>Pages\<close>

definition page_source :: "LxHeader \<Rightarrow> LxObjectPageTableEntry \<Rightarrow> nat" where
  "page_source lx e = unat (data_pages_offset lx) + unat (push_bit (unat (page_offset_shift lx)) (page_data_offset e))"

text \<open>A decompressor works on the memory from \<open>dst\<close> on and the file from the page's data on.\<close>

definition unpack_page :: "(bytes \<Rightarrow> nat \<Rightarrow> bytes \<Rightarrow> nat \<Rightarrow> (u32 \<times> bytes) option) \<Rightarrow> bytes \<Rightarrow> LxHeader \<Rightarrow> LxObjectPageTableEntry
    \<Rightarrow> nat \<Rightarrow> bytes \<Rightarrow> (unit + bytes) option" where
  "unpack_page decompress origexe lx e dst mem =
    (if length mem < dst \<or> length origexe < page_source lx e then None
     else do {
       (rc, d) \<leftarrow> decompress (drop dst mem) (unat (page_size lx)) (drop (page_source lx e) origexe) (unat (opt_data_size e));
       Some (if rc = 0 then Inl () else Inr (take dst mem @ d)) })"

definition load_page :: "bytes \<Rightarrow> LxHeader \<Rightarrow> LxObjectPageTableEntry \<Rightarrow> nat \<Rightarrow> bytes \<Rightarrow> (unit + bytes) option" where
  "load_page origexe lx e dst mem =
    (if opt_flags e = 0 then do {
       src \<leftarrow> rd_blk origexe (page_source lx e) (unat (opt_data_size e));
       mem1 \<leftarrow> wr_blk mem dst src;
       if unat (opt_data_size e) < unat (page_size lx)
       then map_option Inr (wr_blk mem1 (dst + unat (opt_data_size e)) (replicate (unat (page_size lx) - unat (opt_data_size e)) 0))
       else Some (Inr mem1) }
     else if opt_flags e = 1 then unpack_page decompressIterated origexe lx e dst mem
     else if opt_flags e = 2 \<or> opt_flags e = 3 then map_option Inr (wr_blk mem dst (replicate (unat (page_size lx)) 0))
     else if opt_flags e = 5 then unpack_page decompressExePack2 origexe lx e dst mem
     else Some (Inl ()))"

fun load_pages :: "bytes \<Rightarrow> bytes \<Rightarrow> LxHeader \<Rightarrow> nat \<Rightarrow> nat \<Rightarrow> nat \<Rightarrow> bytes \<Rightarrow> (unit + nat \<times> bytes) option" where
  "load_pages origexe exe lx 0 tab dst mem = Some (Inr (dst, mem))"
| "load_pages origexe exe lx (Suc n) tab dst mem = do {
     e \<leftarrow> read_LxObjectPageTableEntry exe tab;
     r \<leftarrow> load_page origexe lx e dst mem;
     case r of Inl _ \<Rightarrow> Some (Inl ())
     | Inr mem1 \<Rightarrow> load_pages origexe exe lx n (tab + 8) (dst + unat (page_size lx)) mem1 }"

subsection \<open>Objects\<close>

record lxobject =
  ob_map :: LxMmaps
  ob_mem :: bytes

definition round_up :: "u32 \<Rightarrow> u32 \<Rightarrow> u32" where
  "round_up page v = (if v mod page \<noteq> 0 then v + (page - v mod page) else v)"

definition no_object :: lxobject where
  "no_object = \<lparr>ob_map = \<lparr>mm_mapped = 0, mm_addr = 0, mm_size = 0, mm_prot = 0, mm_alias = 0xFFFF\<rparr>, ob_mem = []\<rparr>"

text \<open>
  The size of an object and its place: an object with a 16:16 alias has to fit 64 kB and start at a multiple
  of 64 kB, so a library's gets 64 kB more and the data starts \<open>diff\<close> bytes into the mapping.
\<close>

definition object_size :: "LxHeader \<Rightarrow> bool \<Rightarrow> LxObjectTableEntry \<Rightarrow> u32 option" where
  "object_size lx isDLL obj =
    (let vsize = round_up (page_size lx) (virtual_size obj) in
     if object_flags obj AND 0x1000 = 0 then Some vsize
     else if 0x10000 < vsize then None
     else Some (if isDLL then vsize + 0x10000 else vsize))"

definition object_start :: "bool \<Rightarrow> LxObjectTableEntry \<Rightarrow> u32 \<Rightarrow> u32 option" where
  "object_start isDLL obj mapped =
    (if object_flags obj AND 0x1000 \<noteq> 0 \<and> mapped mod 0x10000 \<noteq> 0
     then (if isDLL then Some (0x10000 - mapped mod 0x10000) else None)
     else Some 0)"

definition load_object :: "(u32 \<Rightarrow> u32 \<Rightarrow> bool \<Rightarrow> u32 option) \<Rightarrow> bytes \<Rightarrow> bytes \<Rightarrow> LxHeader \<Rightarrow> bool \<Rightarrow> LxObjectTableEntry
    \<Rightarrow> (unit + lxobject) option" where
  "load_object mmap origexe exe lx isDLL obj =
    (if object_flags obj AND 0x8 \<noteq> 0 then Some (Inr no_object)
     else case object_size lx isDLL obj of None \<Rightarrow> Some (Inl ())
       | Some len \<Rightarrow>
         (case mmap (if isDLL then 0 else reloc_base_addr obj) len (\<not> isDLL) of None \<Rightarrow> Some (Inl ())
          | Some mapped \<Rightarrow> do {
              diff \<leftarrow> object_start isDLL obj mapped;
              r \<leftarrow> load_pages origexe exe lx (unat (num_page_table_entries obj))
                   (unat (object_page_table_offset lx) + 8 * unat (page_table_index obj - 1)) (unat diff) (replicate (unat len) 0);
              case r of Inl _ \<Rightarrow> Some (Inl ())
              | Inr (dst, mem) \<Rightarrow> do {
                  let remain = (len - diff) - of_nat (dst - unat diff);
                  mem1 \<leftarrow> (if remain = 0 then Some mem else wr_blk mem dst (replicate (unat remain) 0));
                  Some (Inr \<lparr>ob_map = \<lparr>mm_mapped = mapped, mm_addr = mapped + diff, mm_size = len, mm_prot = 0, mm_alias = 0xFFFF\<rparr>,
                    ob_mem = mem1\<rparr>) } }))"

fun load_objects :: "(u32 \<Rightarrow> u32 \<Rightarrow> bool \<Rightarrow> u32 option) \<Rightarrow> bytes \<Rightarrow> bytes \<Rightarrow> LxHeader \<Rightarrow> bool \<Rightarrow> nat \<Rightarrow> nat
    \<Rightarrow> (unit + (LxObjectTableEntry \<times> lxobject) list) option" where
  "load_objects mmap origexe exe lx isDLL 0 p = Some (Inr [])"
| "load_objects mmap origexe exe lx isDLL (Suc n) p = do {
     obj \<leftarrow> read_LxObjectTableEntry exe p;
     r \<leftarrow> load_object mmap origexe exe lx isDLL obj;
     case r of Inl _ \<Rightarrow> Some (Inl ())
     | Inr ob \<Rightarrow> do {
         rs \<leftarrow> load_objects mmap origexe exe lx isDLL n (p + 24);
         Some (case rs of Inl _ \<Rightarrow> Inl () | Inr obs \<Rightarrow> Inr ((obj, ob) # obs)) } }"

subsection \<open>Entry point, stack, aliases\<close>

definition object_addr :: "lxobject list \<Rightarrow> u32 \<Rightarrow> u32 option" where
  "object_addr obs i = (if 0 < unat i \<and> unat i \<le> length obs then Some (mm_addr (ob_map (obs ! (unat i - 1)))) else None)"

definition lx_entry_point :: "LxHeader \<Rightarrow> lxobject list \<Rightarrow> u32 option" where
  "lx_entry_point lx obs =
    (if eip_object lx = 0 then Some (lx_eip lx)
     else map_option (\<lambda>base. lx_eip lx + base) (object_addr obs (eip_object lx)))"

text \<open>For a program: the stack pointer, the size of the stack, and the stack's selectors.\<close>

definition lx_stack :: "(user_desc \<Rightarrow> bool) \<Rightarrow> LxHeader \<Rightarrow> lxobject list \<Rightarrow> ldt_state \<Rightarrow> (u32 \<times> u32 \<times> ldt_state) option" where
  "lx_stack sys lx obs st = do {
     stackbase \<leftarrow> object_addr obs (esp_object lx);
     let stacksize = mm_size (ob_map (obs ! (unat (esp_object lx) - 1)));
     st1 \<leftarrow> initOs2StackSegments sys stackbase stacksize False st;
     Some (lx_esp lx + stackbase, stacksize, st1) }"

fun lx_aliases :: "(user_desc \<Rightarrow> bool) \<Rightarrow> LxMmaps list list \<Rightarrow> u16 \<Rightarrow> (LxObjectTableEntry \<times> lxobject) list \<Rightarrow> ldt_state
    \<Rightarrow> (unit + lxobject list \<times> ldt_state) option" where
  "lx_aliases sys mods original_cs [] st = Some (Inr ([], st))"
| "lx_aliases sys mods original_cs ((obj, ob) # obs) st =
    (if object_flags obj AND 0x1000 = 0
     then map_option (map_sum id (\<lambda>(r, st'). (ob # r, st'))) (lx_aliases sys mods original_cs obs st)
     else do {
       (found, st1) \<leftarrow> lxFindSelector sys mods (mm_addr (ob_map ob)) (if object_flags obj AND 0x4 \<noteq> 0 then 1 else 0) st;
       case found of None \<Rightarrow> Some (Inl ())
       | Some (selector, offset) \<Rightarrow>
           if offset \<noteq> 0 then None
           else do {
             mem \<leftarrow> (if object_flags obj AND 0x4 \<noteq> 0
                     then fixupLinearCodeSegmentReferences original_cs (ob_mem ob) (unat (mm_size (ob_map ob))) else Some (ob_mem ob));
             map_option (map_sum id (\<lambda>(r, st'). (ob\<lparr>ob_map := (ob_map ob)\<lparr>mm_alias := selector\<rparr>, ob_mem := mem\<rparr> # r, st')))
               (lx_aliases sys mods original_cs obs st1) } })"

subsection \<open>Fixups and protection\<close>

fun fix_pages :: "world \<Rightarrow> bytes \<Rightarrow> LxHeader \<Rightarrow> modview \<Rightarrow> LxObjectTableEntry \<Rightarrow> u32 \<Rightarrow> nat \<Rightarrow> nat \<Rightarrow> u32 \<Rightarrow> bytes \<times> tramps
    \<Rightarrow> (bytes \<times> tramps) option" where
  "fix_pages w exe lx mv obj base page 0 pagenum s = Some s"
| "fix_pages w exe lx mv obj base page (Suc n) pagenum s = do {
     s1 \<leftarrow> fixupPage w exe lx mv obj pagenum base page s;
     fix_pages w exe lx mv obj base (page + unat (page_size lx)) n (pagenum + 1) s1 }"

text \<open>Two libraries get special treatment: code of EMX is replaced, and an object of HPI becomes executable.\<close>

definition object_hacks :: "bytes \<Rightarrow> nat \<Rightarrow> nat \<Rightarrow> u32 \<Rightarrow> bytes \<Rightarrow> (u32 \<times> bytes) option" where
  "object_hacks modname i start flags mem = do {
     mem1 \<leftarrow> (if i = 1 \<and> strcasecmp_eq modname (str ''EMX'') then wr_blk mem (start + 28596) (replicate 37 0x90) else Some mem);
     Some (if i = 4 \<and> strcasecmp_eq modname (str ''HPI'') then flags OR 0x4 else flags, mem1) }"

definition object_prot :: "u32 \<Rightarrow> nat" where
  "object_prot flags = (if flags AND 0x1 \<noteq> 0 then PROT_READ else 0) + (if flags AND 0x2 \<noteq> 0 then PROT_WRITE else 0) +
     (if flags AND 0x4 \<noteq> 0 then PROT_EXEC else 0)"

definition finish_object :: "world \<Rightarrow> (LxMmaps \<Rightarrow> bool) \<Rightarrow> bytes \<Rightarrow> LxHeader \<Rightarrow> modview \<Rightarrow> nat \<Rightarrow> LxObjectTableEntry \<Rightarrow> lxobject \<times> tramps
    \<Rightarrow> (unit + lxobject \<times> tramps) option" where
  "finish_object w mprotect exe lx mv i obj = (\<lambda>(ob, tr).
    (if object_flags obj AND 0x8 \<noteq> 0 then Some (Inr (ob, tr))
     else do {
       let start = unat (mm_addr (ob_map ob) - mm_mapped (ob_map ob));
       (mem, tr1) \<leftarrow> fix_pages w exe lx mv obj (mm_mapped (ob_map ob)) start (unat (num_page_table_entries obj)) 0 (ob_mem ob, tr);
       (flags, mem1) \<leftarrow> object_hacks (mv_name mv) i start (object_flags obj) mem;
       let m = (ob_map ob)\<lparr>mm_prot := object_prot flags\<rparr>;
       Some (if mprotect m then Inr (ob\<lparr>ob_map := m, ob_mem := mem1\<rparr>, tr1) else Inl ()) }))"

subsection \<open>When the pages stay in their object\<close>

text \<open>A page table entry that fits: its data is in the file and no longer than a page.\<close>

definition page_ok :: "bytes \<Rightarrow> LxHeader \<Rightarrow> LxObjectPageTableEntry \<Rightarrow> bool" where
  "page_ok origexe lx e \<longleftrightarrow> page_source lx e + unat (opt_data_size e) \<le> length origexe \<and> unat (opt_data_size e) \<le> unat (page_size lx)"

definition page_result :: "nat \<Rightarrow> nat \<Rightarrow> bytes \<Rightarrow> (unit + bytes) option \<Rightarrow> bool" where
  "page_result dst n mem r \<longleftrightarrow> (case r of None \<Rightarrow> False | Some (Inl _) \<Rightarrow> True
     | Some (Inr mem') \<Rightarrow> length mem' = length mem \<and> take dst mem' = take dst mem \<and> drop (dst + n) mem' = drop (dst + n) mem)"

lemma unpack_page_result:
  assumes "\<And>dst src. unat (opt_data_size e) \<le> length src \<Longrightarrow> unat (page_size lx) \<le> length dst \<Longrightarrow>
      \<exists>rc dst'. decompress dst (unat (page_size lx)) src (unat (opt_data_size e)) = Some (rc, dst') \<and>
        length dst' = length dst \<and> drop (unat (page_size lx)) dst' = drop (unat (page_size lx)) dst"
    "page_ok origexe lx e" "dst + unat (page_size lx) \<le> length mem"
  shows "page_result dst (unat (page_size lx)) mem (unpack_page decompress origexe lx e dst mem)"
proof -
  have "unat (opt_data_size e) \<le> length (drop (page_source lx e) origexe)" "unat (page_size lx) \<le> length (drop dst mem)"
    using assms(2,3) unfolding page_ok_def length_drop by linarith+
  from assms(1) [OF this] obtain rc d where d: "decompress (drop dst mem) (unat (page_size lx)) (drop (page_source lx e) origexe) (unat (opt_data_size e)) = Some (rc, d)"
    "length d = length mem - dst" "drop (unat (page_size lx)) d = drop (unat (page_size lx)) (drop dst mem)" by auto
  have l: "length (take dst mem) = dst" using assms(3) by simp
  have "drop (dst + unat (page_size lx)) (take dst mem @ d) = drop (unat (page_size lx)) d" using l by simp
  then have "drop (dst + unat (page_size lx)) (take dst mem @ d) = drop (dst + unat (page_size lx)) mem" using d(3) by (simp add: add.commute)
  then show ?thesis using d(1,2) assms(2,3) by (simp add: page_result_def unpack_page_def page_ok_def)
qed

lemma wr_blk_result:
  assumes "dst \<le> i" "i + length xs \<le> dst + n" "dst + n \<le> length mem"
  obtains mem' where "wr_blk mem i xs = Some mem'" "length mem' = length mem" "take dst mem' = take dst mem" "drop (dst + n) mem' = drop (dst + n) mem"
proof
  show "wr_blk mem i xs = Some (blit mem i xs)" "length (blit mem i xs) = length mem" using assms by (simp_all add: wr_blk_def)
  show "take dst (blit mem i xs) = take dst mem" using assms by (simp add: blit_def)
  show "drop (dst + n) (blit mem i xs) = drop (dst + n) mem"
    by (rule nth_equalityI) (use assms in \<open>auto simp: nth_blit\<close>)
qed

lemma load_page_result:
  assumes "page_ok origexe lx e" "dst + unat (page_size lx) \<le> length mem"
  shows "page_result dst (unat (page_size lx)) mem (load_page origexe lx e dst mem)"
proof -
  let ?p = "unat (page_size lx)" and ?n = "unat (opt_data_size e)"
  have n: "?n \<le> ?p" "page_source lx e + ?n \<le> length origexe" using assms(1) by (simp_all add: page_ok_def)
  consider "opt_flags e = 0" | "opt_flags e = 1" | "opt_flags e = 2 \<or> opt_flags e = 3" | "opt_flags e = 5"
    | "opt_flags e \<noteq> 0 \<and> opt_flags e \<noteq> 1 \<and> opt_flags e \<noteq> 2 \<and> opt_flags e \<noteq> 3 \<and> opt_flags e \<noteq> 5" by blast
  then show ?thesis
  proof cases
    case 1
    define src where "src = take ?n (drop (page_source lx e) origexe)"
    have s: "rd_blk origexe (page_source lx e) ?n = Some src" "length src = ?n" using n(2) by (simp_all add: rd_blk_def src_def)
    obtain m1 where m1: "wr_blk mem dst src = Some m1" "length m1 = length mem" "take dst m1 = take dst mem" "drop (dst + ?p) m1 = drop (dst + ?p) mem"
      by (rule wr_blk_result [of dst dst src ?p mem]) (use s(2) n(1) assms(2) in simp_all)
    obtain m2 where m2: "wr_blk m1 (dst + ?n) (replicate (?p - ?n) 0) = Some m2" "length m2 = length m1" "take dst m2 = take dst m1" "drop (dst + ?p) m2 = drop (dst + ?p) m1"
      by (rule wr_blk_result [of dst "dst + ?n" "replicate (?p - ?n) 0" ?p m1]) (use m1(2) n(1) assms(2) in simp_all)
    show ?thesis using 1 s(1) m1 m2 by (simp add: load_page_def page_result_def)
  next
    case 2
    have "page_result dst ?p mem (unpack_page decompressIterated origexe lx e dst mem)"
      by (rule unpack_page_result [OF _ assms]) (use decompressIterated_safe in blast)
    then show ?thesis using 2 by (simp add: load_page_def)
  next
    case 3
    obtain m1 where "wr_blk mem dst (replicate ?p 0) = Some m1" "length m1 = length mem" "take dst m1 = take dst mem" "drop (dst + ?p) m1 = drop (dst + ?p) mem"
      by (rule wr_blk_result [of dst dst "replicate ?p 0" ?p mem]) (use assms(2) in simp_all)
    then show ?thesis using 3 by (auto simp: load_page_def page_result_def)
  next
    case 4
    have "?p < 2 ^ 32" using unat_u32_less(1) [of "page_size lx"] by simp
    then have "page_result dst ?p mem (unpack_page decompressExePack2 origexe lx e dst mem)"
      by (intro unpack_page_result [OF _ assms]) (use decompressExePack2_safe in blast)
    then show ?thesis using 4 by (simp add: load_page_def)
  next
    case 5
    then show ?thesis by (simp add: load_page_def page_result_def)
  qed
qed

text \<open>
  If the pages of the object are no more than fit it, and each entry is in order, then loading them touches nothing
  outside the object and nothing before its start; the code tests neither.
\<close>

lemma load_pages_result:
  assumes "\<And>k. k < n \<Longrightarrow> \<exists>e. read_LxObjectPageTableEntry exe (tab + 8 * k) = Some e \<and> page_ok origexe lx e"
    "dst + n * unat (page_size lx) \<le> length mem"
  shows "\<exists>r. load_pages origexe exe lx n tab dst mem = Some r \<and>
    (\<forall>dst' mem'. r = Inr (dst', mem') \<longrightarrow> dst' = dst + n * unat (page_size lx) \<and> length mem' = length mem \<and> take dst mem' = take dst mem)"
  using assms
proof (induction n arbitrary: tab dst mem)
  case (Suc n)
  let ?p = "unat (page_size lx)"
  obtain e where e: "read_LxObjectPageTableEntry exe tab = Some e" "page_ok origexe lx e" using Suc.prems(1) [of 0] by auto
  have "dst + ?p \<le> length mem" using Suc.prems(2) by simp
  note r = load_page_result [OF e(2) this]
  show ?case
  proof (cases "load_page origexe lx e dst mem")
    case None
    then show ?thesis using r by (simp add: page_result_def)
  next
    case (Some o1)
    show ?thesis
    proof (cases o1)
      case (Inl u)
      then show ?thesis using Some e(1) by simp
    next
      case (Inr m1)
      then have m1: "length m1 = length mem" "take dst m1 = take dst mem" using r Some by (simp_all add: page_result_def)
      have h: "\<exists>e. read_LxObjectPageTableEntry exe (tab + 8 + 8 * k) = Some e \<and> page_ok origexe lx e" if "k < n" for k
        using Suc.prems(1) [of "Suc k"] that by (simp add: ac_simps)
      have l: "dst + ?p + n * ?p \<le> length m1" using Suc.prems(2) m1(1) by simp
      obtain r where r: "load_pages origexe exe lx n (tab + 8) (dst + ?p) m1 = Some r"
        "\<And>dst' mem'. r = Inr (dst', mem') \<Longrightarrow> dst' = dst + ?p + n * ?p \<and> length mem' = length m1 \<and> take (dst + ?p) mem' = take (dst + ?p) m1"
        using Suc.IH [OF h l] by blast
      have "take dst mem' = take dst mem" if "take (dst + ?p) mem' = take (dst + ?p) m1" for mem'
      proof -
        have "take dst mem' = take dst (take (dst + ?p) mem')" by simp
        also have "\<dots> = take dst m1" using that by simp
        finally show ?thesis using m1(2) by simp
      qed
      then show ?thesis using Some Inr e(1) r m1(1) by (auto simp: ac_simps)
    qed
  qed
qed simp

text \<open>One page more than the object has room for is stored behind the mapping.\<close>

lemma load_page_behind:
  assumes "opt_flags e = 3" "length mem < dst + unat (page_size lx)"
  shows "load_page origexe lx e dst mem = None"
  using assms by (simp add: load_page_def wr_blk_def)

lemma load_object_safe:
  assumes "object_size lx isDLL obj = Some len" "\<And>b. object_flags obj AND 0x8 = 0 \<Longrightarrow> mmap b len (\<not> isDLL) = Some mapped"
    "object_start isDLL obj mapped = Some diff"
    "\<And>k. k < unat (num_page_table_entries obj) \<Longrightarrow>
      \<exists>e. read_LxObjectPageTableEntry exe (unat (object_page_table_offset lx) + 8 * unat (page_table_index obj - 1) + 8 * k) = Some e \<and> page_ok origexe lx e"
    "unat diff + unat (num_page_table_entries obj) * unat (page_size lx) \<le> unat len"
  shows "load_object mmap origexe exe lx isDLL obj \<noteq> None"
proof (cases "object_flags obj AND 0x8 = 0")
  case True
  let ?n = "unat (num_page_table_entries obj) * unat (page_size lx)"
  let ?t = "unat (object_page_table_offset lx) + 8 * unat (page_table_index obj - 1)"
  have len: "unat diff + ?n \<le> length (replicate (unat len) (0 :: u8))" using assms(5) by simp
  obtain r where r: "load_pages origexe exe lx (unat (num_page_table_entries obj)) ?t (unat diff) (replicate (unat len) 0) = Some r"
    "\<And>dst mem. r = Inr (dst, mem) \<Longrightarrow> dst = unat diff + ?n \<and> length mem = unat len"
    using load_pages_result [of "unat (num_page_table_entries obj)" exe ?t origexe lx, OF assms(4) len] by auto
  have d: "unat (len - diff) = unat len - unat diff" using assms(5) by (intro unat_diff_u32) simp
  have "?n < 4294967296" using assms(5) unat_u32_less(1) [of len] by linarith
  then have n: "unat (of_nat ?n :: u32) = ?n" by (rule unat_of_nat_u32)
  have "?n \<le> unat len - unat diff" using assms(5) by linarith
  then have "unat ((len - diff) - of_nat ?n) = unat len - unat diff - ?n"
    using unat_diff_u32 [of "of_nat ?n" "len - diff"] d n by simp
  then have rem: "unat diff + ?n + unat ((len - diff) - of_nat ?n) \<le> unat len" using assms(5) by simp
  show ?thesis
  proof (cases r)
    case (Inl u)
    then show ?thesis using True assms(1,2,3) r(1) by (simp add: load_object_def)
  next
    case (Inr p)
    obtain dst mem where p: "r = Inr (dst, mem)" using Inr by (cases p) simp
    have "dst = unat diff + ?n" "length mem = unat len" using r(2) [OF p] by simp_all
    then show ?thesis using True assms(1,2,3) r(1) p rem by (simp add: load_object_def Let_def wr_blk_def)
  qed
qed (simp add: load_object_def)

text \<open>The start of an object with an alias is a multiple of 64 kB.\<close>

lemma object_start_aligned:
  assumes "object_start True obj mapped = Some diff" "object_flags obj AND 0x1000 \<noteq> 0"
  shows "unat (mapped + diff) mod 0x10000 = 0" "unat diff < 0x10000"
proof -
  have m: "unat (mapped mod 0x10000) = unat mapped mod 65536" by (simp add: unat_mod)
  have z: "mapped mod 0x10000 = 0 \<longleftrightarrow> unat mapped mod 65536 = 0" using m by (metis unsigned_0 unsigned_word_eqI)
  have d: "unat diff = (if unat mapped mod 65536 = 0 then 0 else 65536 - unat mapped mod 65536)"
  proof (cases "mapped mod 0x10000 = 0")
    case True
    then show ?thesis using assms z by (auto simp: object_start_def split: if_splits)
  next
    case False
    then have "diff = 0x10000 - mapped mod 0x10000" using assms by (auto simp: object_start_def split: if_splits)
    then have "unat diff = 65536 - unat mapped mod 65536" using m by (simp add: unat_diff_u32 less_imp_le)
    then show ?thesis using False z by simp
  qed
  then show "unat diff < 0x10000" by simp
  have dvd: "65536 dvd unat mapped + unat diff"
  proof (cases "unat mapped mod 65536 = 0")
    case False
    have "unat mapped + unat diff = 65536 * (unat mapped div 65536) + 65536"
      using d False by (simp add: minus_mod_eq_mult_div [symmetric])
    then show ?thesis by simp
  qed (use d in \<open>simp add: mod_eq_0_iff_dvd\<close>)
  have "unat (mapped + diff) = (unat mapped + unat diff) mod 4294967296" by (simp add: unat_word_ariths)
  moreover have "65536 dvd (unat mapped + unat diff) mod 4294967296" using dvd by (simp add: dvd_mod)
  ultimately show "unat (mapped + diff) mod 0x10000 = 0" by (simp add: mod_eq_0_iff_dvd)
qed

end
