(* ===== verification/NeLoad.thy ===== *)
theory NeLoad
  imports LxLoad
begin

section \<open>Loading the segments of an NE module (\<^verbatim>\<open>lx_loader.c\<close>: \<^verbatim>\<open>loadNeModule\<close>)\<close>

text \<open>
  The same for 16-bit modules: every segment gets a 64 kB mapping with a selector of its own, and is filled from the file;
  then come the entry point, the stack and the protection.  The header is checked as little as the code does.
\<close>

text \<open>As for LX modules, refusing at this point jumps to the end with \<^verbatim>\<open>retval\<close> not set (\<open>None\<close>).\<close>

definition ne_admit :: "NeHeader \<Rightarrow> bool \<Rightarrow> bool option" where
  "ne_admit ne have_main =
    (let isDLL = ne_module_flags ne AND 0x8000 = 0x8000 in
     if ne_module_flags ne AND 0x2000 \<noteq> 0 then None
     else if isDLL \<and> \<not> have_main then None
     else if \<not> isDLL \<and> have_main then None
     else Some isDLL)"

definition ne_module_name :: "bytes \<Rightarrow> NeHeader \<Rightarrow> bytes option" where
  "ne_module_name exe ne =
    (if ne_resident_name_table_offset ne = 0 then Some []
     else do {
       namelen \<leftarrow> rd8 exe (unat (ne_resident_name_table_offset ne));
       name \<leftarrow> rd_blk exe (unat (ne_resident_name_table_offset ne) + 1) (unat namelen);
       Some (map upper8 name) })"

definition ne_stack_segment_ok :: "NeHeader \<Rightarrow> bool" where
  "ne_stack_segment_ok ne \<longleftrightarrow> reg_ss ne \<noteq> 0 \<and> reg_ss ne \<le> num_segment_table_entries ne"

text \<open>
  The entry of the automatic data segment.  Segment numbers count from 1, but the number is added to the
  start of the table as it is: the entry is the one of the segment behind.
\<close>

definition ne_autodata :: "bytes \<Rightarrow> NeHeader \<Rightarrow> NeSegmentTableEntry option option" where
  "ne_autodata exe ne =
    (if auto_data_segment ne = 0 then Some None
     else map_option Some (read_NeSegmentTableEntry exe (unat (segment_table_offset ne) + 8 * unat (auto_data_segment ne))))"

subsection \<open>Segments\<close>

definition seg_iscode :: "NeSegmentTableEntry \<Rightarrow> bool" where
  "seg_iscode seg \<longleftrightarrow> segment_flags seg AND 0x7 = 0"

definition seg_data_len :: "NeSegmentTableEntry \<Rightarrow> nat" where
  "seg_data_len seg = (if seg_size seg \<noteq> 0 then unat (seg_size seg) else 0x10000)"

definition seg_source :: "NeHeader \<Rightarrow> NeSegmentTableEntry \<Rightarrow> nat" where
  "seg_source ne seg = unat (push_bit (unat (sector_alignment_shift_count ne)) (ucast (seg_offset seg) :: u32))"

text \<open>The data of a segment; a segment without data in the file is cleared.  \<open>mem\<close> are the 64 kB of its mapping.\<close>

definition load_segment_data :: "bytes \<Rightarrow> NeHeader \<Rightarrow> NeSegmentTableEntry \<Rightarrow> bytes \<Rightarrow> (unit + bytes) option" where
  "load_segment_data origexe ne seg mem =
    (let src = seg_source ne seg in
     if segment_flags seg AND 0x8 \<noteq> 0 then
       (if length origexe < src then None
        else do {
          (rc, d) \<leftarrow> decompressIterated mem 0x10000 (drop src origexe) (seg_data_len seg);
          Some (if rc = 0 then Inl () else Inr d) })
     else if seg_offset seg \<noteq> 0 then do {
       data \<leftarrow> rd_blk origexe src (seg_data_len seg);
       mem1 \<leftarrow> wr_blk mem 0 data;
       map_option Inr (wr_blk mem1 (seg_data_len seg) (replicate (0x10000 - seg_data_len seg) 0)) }
     else map_option Inr (wr_blk mem 0 (replicate 0x10000 0)))"

definition load_segment :: "(user_desc \<Rightarrow> bool) \<Rightarrow> (u32 \<Rightarrow> u32 option) \<Rightarrow> LxMmaps list list \<Rightarrow> bytes \<Rightarrow> NeHeader \<Rightarrow> NeSegmentTableEntry
    \<Rightarrow> ldt_state \<Rightarrow> ((unit + lxobject) \<times> ldt_state) option" where
  "load_segment sys mmap mods origexe ne seg st = do {
     (r, st1) \<leftarrow> lxAllocSegment sys mmap mods (if seg_iscode seg then 1 else 0) st;
     case r of None \<Rightarrow> Some (Inl (), st1)
     | Some (addr, selector) \<Rightarrow>
         if selector = 0xFFFF then Some (Inl (), st1)
         else do {
           d \<leftarrow> load_segment_data origexe ne seg (replicate 0x10000 0);
           Some (map_sum id (\<lambda>mem. \<lparr>ob_map = \<lparr>mm_mapped = addr, mm_addr = addr, mm_size = 0x10000, mm_prot = 0, mm_alias = selector\<rparr>,
             ob_mem = mem\<rparr>) d, st1) } }"

fun load_segments :: "(user_desc \<Rightarrow> bool) \<Rightarrow> (u32 \<Rightarrow> u32 option) \<Rightarrow> LxMmaps list list \<Rightarrow> bytes \<Rightarrow> bytes \<Rightarrow> NeHeader \<Rightarrow> nat \<Rightarrow> nat
    \<Rightarrow> ldt_state \<Rightarrow> ((unit + lxobject list) \<times> ldt_state) option" where
  "load_segments sys mmap mods origexe exe ne 0 p st = Some (Inr [], st)"
| "load_segments sys mmap mods origexe exe ne (Suc n) p st = do {
     seg \<leftarrow> read_NeSegmentTableEntry exe p;
     (r, st1) \<leftarrow> load_segment sys mmap mods origexe ne seg st;
     case r of Inl _ \<Rightarrow> Some (Inl (), st1)
     | Inr ob \<Rightarrow> do {
         (rs, st2) \<leftarrow> load_segments sys mmap mods origexe exe ne n (p + 8) st1;
         Some (map_sum id (\<lambda>obs. ob # obs) rs, st2) } }"

subsection \<open>Entry point, stack, protection\<close>

definition far_pointer :: "lxobject list \<Rightarrow> u16 \<Rightarrow> u16 \<Rightarrow> u32 option" where
  "far_pointer obs n off = (if 0 < unat n \<and> unat n \<le> length obs
     then Some (push_bit 16 (ucast (lxSelectorToSegment (mm_alias (ob_map (obs ! (unat n - 1)))))) OR ucast off) else None)"

definition ne_entry_point :: "NeHeader \<Rightarrow> lxobject list \<Rightarrow> u32 option" where
  "ne_entry_point ne obs = far_pointer obs (reg_cs ne) (reg_ip ne)"

text \<open>For a program: the stack pointer and the size of the stack; \<open>Inl ()\<close> when there is no automatic data to put it behind.\<close>

definition ne_stack :: "NeHeader \<Rightarrow> NeSegmentTableEntry option \<Rightarrow> lxobject list \<Rightarrow> (unit + u32 \<times> u16) option" where
  "ne_stack ne autodata obs =
    (let in_auto = reg_ss ne = auto_data_segment ne in
     if in_auto \<and> reg_sp ne = 0 \<and> autodata = None then Some (Inl ())
     else do {
       let autosize = (case autodata of Some s \<Rightarrow> seg_size s | None \<Rightarrow> 0);
       let sp = (if in_auto \<and> reg_sp ne = 0 then autosize + stack_size ne else reg_sp ne);
       esp \<leftarrow> far_pointer obs (reg_ss ne) (if sp \<noteq> 0 then sp else 0xFFFF);
       guard (stack_size ne \<noteq> 0 \<or> sp = 0 \<or> \<not> in_auto \<or> autodata \<noteq> None);
       let size16 = (if stack_size ne \<noteq> 0 then stack_size ne else if sp \<noteq> 0 \<and> in_auto then sp - autosize else sp);
       Some (Inr (esp, size16)) })"

definition seg_prot :: "NeSegmentTableEntry \<Rightarrow> nat" where
  "seg_prot seg = (if segment_flags seg AND 0x40 \<noteq> 0 \<and> \<not> seg_iscode seg then 0 else PROT_WRITE) +
     (if seg_iscode seg then PROT_EXEC else 0) + PROT_READ"

definition finish_segment :: "world \<Rightarrow> (LxMmaps \<Rightarrow> bool) \<Rightarrow> bytes \<Rightarrow> bytes \<Rightarrow> NeHeader \<Rightarrow> modview \<Rightarrow> NeSegmentTableEntry \<Rightarrow> lxobject \<times> tramps
    \<Rightarrow> (unit + lxobject \<times> tramps) option" where
  "finish_segment w mprotect origexe exe ne mv seg = (\<lambda>(ob, tr). do {
     (mem, tr1) \<leftarrow> fixupNeSegment w origexe exe ne mv seg (ob_mem ob, tr);
     let m = (ob_map ob)\<lparr>mm_prot := seg_prot seg\<rparr>;
     Some (if mprotect m then Inr (ob\<lparr>ob_map := m, ob_mem := mem\<rparr>, tr1) else Inl ()) })"

subsection \<open>Results\<close>

lemma seg_data_len_fits: "seg_data_len seg \<le> 0x10000" "0 < seg_data_len seg"
proof -
  have "unat (seg_size seg) \<le> 65536" using unat_u16_less(1) [of "seg_size seg"] by linarith
  then show "seg_data_len seg \<le> 0x10000" by (simp add: seg_data_len_def)
  show "0 < seg_data_len seg" by (simp add: seg_data_len_def unat_gt_0)
qed

text \<open>Whatever the header says, a segment's data stays in its mapping if it is in the file, and the rest is cleared.\<close>

lemma load_segment_data_plain:
  assumes "segment_flags seg AND 0x8 = 0" "seg_offset seg \<noteq> 0" "length mem = 0x10000"
    "seg_source ne seg + seg_data_len seg \<le> length origexe"
  shows "load_segment_data origexe ne seg mem = Some (Inr (take (seg_data_len seg)
      (drop (seg_source ne seg) origexe) @ replicate (0x10000 - seg_data_len seg) 0))"
proof -
  let ?src = "seg_source ne seg" and ?n = "seg_data_len seg"
  define d where "d = take ?n (drop ?src origexe)"
  have d: "rd_blk origexe ?src ?n = Some d" "length d = ?n" using assms(4) by (simp_all add: rd_blk_def d_def)
  have n: "?n \<le> 0x10000" by (rule seg_data_len_fits)
  have w1: "wr_blk mem 0 d = Some (d @ drop ?n mem)" using d(2) n assms(3) by (simp add: wr_blk_def blit_def)
  have w2: "wr_blk (d @ drop ?n mem) ?n (replicate (0x10000 - ?n) 0) = Some (d @ replicate (0x10000 - ?n) 0)"
    using d(2) n assms(3) by (simp add: wr_blk_def blit_def)
  show ?thesis using assms(1,2) d w1 w2 by (simp add: load_segment_data_def Let_def flip: d_def)
qed

lemma load_segment_data_iterated:
  assumes "segment_flags seg AND 0x8 \<noteq> 0" "length mem = 0x10000"
    "seg_source ne seg + seg_data_len seg \<le> length origexe"
  shows "\<exists>r. load_segment_data origexe ne seg mem = Some r \<and> (\<forall>d. r = Inr d \<longrightarrow> length d = 0x10000)"
proof -
  let ?src = "seg_source ne seg"
  have l: "seg_data_len seg \<le> length (drop ?src origexe)" "0x10000 \<le> length mem" using assms(2,3) unfolding length_drop by linarith+
  obtain rc d where d: "decompressIterated mem 0x10000 (drop ?src origexe) (seg_data_len seg) = Some (rc, d)" "length d = length mem"
    using decompressIterated_safe [OF l] by blast
  have "\<not> length origexe < ?src" using assms(3) by linarith
  then show ?thesis using d assms(1,2) by (simp add: load_segment_data_def Let_def)
qed

text \<open>A far pointer reads back as its segment and offset.\<close>

lemma far_pointer_parts:
  assumes "far_pointer obs n off = Some p"
  shows "ucast p = off" "ucast (drop_bit 16 p) = lxSelectorToSegment (mm_alias (ob_map (obs ! (unat n - 1))))"
proof -
  define s where "s = lxSelectorToSegment (mm_alias (ob_map (obs ! (unat n - 1))))"
  have p: "p = push_bit 16 (ucast s) OR ucast off" using assms by (simp add: far_pointer_def s_def split: if_splits)
  show "ucast p = off" unfolding p by (rule bit_word_eqI) (simp add: bit_simps)
  have "ucast (drop_bit 16 (push_bit 16 (ucast s) OR ucast off :: u32)) = s"
    by (rule bit_word_eqI) (auto simp: bit_simps dest: bit_imp_le_length)
  then show "ucast (drop_bit 16 p) = lxSelectorToSegment (mm_alias (ob_map (obs ! (unat n - 1))))" unfolding p s_def .
qed

text \<open>
  The entry of the automatic data segment that is read is the next one; for the last segment it is whatever is behind the table.
\<close>

lemma ne_autodata_next: "auto_data_segment ne = of_nat k \<Longrightarrow> 0 < k \<Longrightarrow> k < 65536 \<Longrightarrow>
    ne_autodata exe ne = map_option Some (read_NeSegmentTableEntry exe (unat (segment_table_offset ne) + 8 * k))"
proof -
  assume a: "auto_data_segment ne = of_nat k" "0 < k" "k < 65536"
  then have "unat (auto_data_segment ne) = k" by (simp add: unat_of_nat_u16)
  moreover from this have "auto_data_segment ne \<noteq> 0" using a(2) by auto
  ultimately show ?thesis by (simp add: ne_autodata_def)
qed

lemma seg_prot_range: "seg_prot seg \<in> {1, 3, 5, 7}"
  by (auto simp: seg_prot_def PROT_READ_def PROT_WRITE_def PROT_EXEC_def)

end
