(* ===== verification/Lib2ine.thy ===== *)
theory Lib2ine
  imports Paths
begin

section \<open>The base library: configuration and drives (\<^verbatim>\<open>lib2ine.c\<close>)\<close>

text \<open>
  Before anything runs, the constructor of \<^verbatim>\<open>lib2ine\<close> reads the configuration files, which mount the
  drives, and finds the current directory of each drive.  The file system and the libc functions are a
  record of functions: the text of a file, \<^verbatim>\<open>stat\<close> (whether the path is a directory), \<^verbatim>\<open>malloc\<close> for
  the text of a mount point, \<^verbatim>\<open>strtof\<close> (\<open>None\<close> where it sets \<^verbatim>\<open>errno\<close>), \<^verbatim>\<open>realpath\<close>, and \<^verbatim>\<open>realpath\<close> of
  \<^verbatim>\<open>getcwd\<close> (\<open>None\<close> where either fails).  Warnings go to the standard error stream; the model collects
  them with their line.
\<close>

record 'f libc =
  lc_file :: "bytes \<Rightarrow> bytes option"
  lc_isdir :: "bytes \<Rightarrow> bool option"
  lc_malloc :: "bytes \<Rightarrow> bool"
  lc_strtof :: "bytes \<Rightarrow> 'f option"
  lc_realpath :: "bytes \<Rightarrow> bytes option"
  lc_cwd :: "bytes option"
  lc_getenv :: "bytes \<Rightarrow> bytes option"

datatype cfg_warning =
    InvalidLine | InvalidDisk bytes | NotAccessible bytes | NotDirectory bytes | OutOfMemory
  | InvalidBool bytes | InvalidFloat bytes | UnknownVariable bytes | UnknownCategory bytes

record 'f config =
  cfg_disks :: "nat \<Rightarrow> bytes option"
  cfg_trace_native :: bool
  cfg_trace_events :: bool
  cfg_beep_volume :: 'f
  cfg_warnings :: "(nat \<times> cfg_warning) list"

subsection \<open>Characters and values\<close>

definition cfgIsSpace :: "u8 \<Rightarrow> bool" where
  "cfgIsSpace ch \<longleftrightarrow> ch \<in> {0x20, 0x09, 0x0D, 0x0A}"

definition cfgIsSymChar :: "u8 \<Rightarrow> bool" where
  "cfgIsSymChar ch \<longleftrightarrow> ch = 0x5F \<or> (0x61 \<le> ch \<and> ch \<le> 0x7A) \<or> (0x41 \<le> ch \<and> ch \<le> 0x5A)"

definition cfgWarn :: "nat \<Rightarrow> cfg_warning \<Rightarrow> 'f config \<Rightarrow> 'f config" where
  "cfgWarn lineno w c = c\<lparr>cfg_warnings := cfg_warnings c @ [(lineno, w)]\<rparr>"

definition yes_words :: "bytes list" where
  "yes_words = map str [''1'', ''yes'', ''y'', ''true'', ''t'', ''on'']"

definition no_words :: "bytes list" where
  "no_words = map str [''0'', ''no'', ''n'', ''false'', ''f'', ''off'']"

fun bool_loop :: "bytes \<Rightarrow> (bytes \<times> bytes) list \<Rightarrow> bool option" where
  "bool_loop val [] = None"
| "bool_loop val ((y, n) # r) =
    (if strcasecmp_eq val y then Some True else if strcasecmp_eq val n then Some False else bool_loop val r)"

definition cfgProcessBoolString :: "nat \<Rightarrow> (bool \<Rightarrow> 'f config \<Rightarrow> 'f config) \<Rightarrow> bytes \<Rightarrow> 'f config \<Rightarrow> 'f config" where
  "cfgProcessBoolString lineno put val c =
    (case bool_loop val (zip yes_words no_words) of
       Some b \<Rightarrow> put b c
     | None \<Rightarrow> cfgWarn lineno (InvalidBool val) c)"

definition cfgProcessFloatString :: "'f libc \<Rightarrow> nat \<Rightarrow> ('f \<Rightarrow> 'f config \<Rightarrow> 'f config) \<Rightarrow> bytes \<Rightarrow> 'f config \<Rightarrow> 'f config" where
  "cfgProcessFloatString lc lineno put val c =
    (case lc_strtof lc val of
       Some v \<Rightarrow> put v c
     | None \<Rightarrow> cfgWarn lineno (InvalidFloat val) c)"

subsection \<open>Settings\<close>

definition with_slash :: "bytes \<Rightarrow> bytes" where
  "with_slash val = (if val ! (length val - 1) \<noteq> SLASH then val @ [SLASH] else val)"

definition cfgProcessMountPoint :: "'f libc \<Rightarrow> nat \<Rightarrow> bytes \<Rightarrow> bytes \<Rightarrow> 'f config \<Rightarrow> 'f config" where
  "cfgProcessMountPoint lc lineno var val c =
    (let letter = upper8 (case var of [] \<Rightarrow> 0 | a # _ \<Rightarrow> a) in
     if letter < 0x41 \<or> 0x5A < letter \<or> length var \<noteq> 1 then cfgWarn lineno (InvalidDisk var) c
     else
       let idx = unat (letter - 0x41);
           c0 = c\<lparr>cfg_disks := (cfg_disks c)(idx := None)\<rparr>
       in if val = [] then c0
          else case lc_isdir lc val of
              None \<Rightarrow> cfgWarn lineno (NotAccessible val) c0
            | Some False \<Rightarrow> cfgWarn lineno (NotDirectory val) c0
            | Some True \<Rightarrow>
                if \<not> lc_malloc lc val then cfgWarn lineno OutOfMemory c0
                else c0\<lparr>cfg_disks := (cfg_disks c0)(idx \<mapsto> with_slash val)\<rparr>)"

definition cfgProcessSystem :: "'f libc \<Rightarrow> nat \<Rightarrow> bytes \<Rightarrow> bytes \<Rightarrow> 'f config \<Rightarrow> 'f config" where
  "cfgProcessSystem lc lineno var val c =
    (if var = str ''trace_native'' then cfgProcessBoolString lineno (\<lambda>b. cfg_trace_native_update (\<lambda>_. b)) val c
     else if var = str ''trace_events'' then cfgProcessBoolString lineno (\<lambda>b. cfg_trace_events_update (\<lambda>_. b)) val c
     else if var = str ''beep_volume'' then cfgProcessFloatString lc lineno (\<lambda>v. cfg_beep_volume_update (\<lambda>_. v)) val c
     else cfgWarn lineno (UnknownVariable var) c)"

definition cfgProcessLine :: "'f libc \<Rightarrow> nat \<Rightarrow> bytes \<Rightarrow> bytes \<Rightarrow> bytes \<Rightarrow> 'f config \<Rightarrow> 'f config" where
  "cfgProcessLine lc lineno category var val c =
    (if category = [] \<or> var = [] then cfgWarn lineno InvalidLine c
     else if category = str ''mountpoint'' then cfgProcessMountPoint lc lineno var val c
     else if category = str ''system'' then cfgProcessSystem lc lineno var val c
     else cfgWarn lineno (UnknownCategory category) c)"

subsection \<open>Files\<close>

text \<open>The lines of a file with their line ends, as \<^verbatim>\<open>getline\<close> gives them.\<close>

fun getlines :: "bytes \<Rightarrow> bytes \<Rightarrow> bytes list" where
  "getlines cur [] = (if cur = [] then [] else [cur])"
| "getlines cur (b # bs) = (if b = 0x0A then (cur @ [b]) # getlines [] bs else getlines (cur @ [b]) bs)"

fun strip_end :: "bytes \<Rightarrow> bytes" where
  "strip_end line = (if line \<noteq> [] \<and> cfgIsSpace (last line) then strip_end (butlast line) else line)"

declare strip_end.simps [simp del]

datatype cfg_line = Blank | Bad | Assign bytes bytes bytes

text \<open>
  A line without the space around it, up to its first NUL: a comment or nothing; the name of a category up to a
  dot; a variable up to an equal sign, with space before it or not; the value, after space.
\<close>

definition cfg_value :: "bytes \<Rightarrow> bytes \<Rightarrow> bytes \<Rightarrow> cfg_line" where
  "cfg_value category var rest = Assign category var (dropWhile cfgIsSpace rest)"

definition cfg_equals :: "bytes \<Rightarrow> bytes \<Rightarrow> bytes \<Rightarrow> cfg_line" where
  "cfg_equals category var p =
    (case p of
       [] \<Rightarrow> Bad
     | a # r \<Rightarrow>
         if a = 0x3D then cfg_value category var r
         else if \<not> cfgIsSpace a then Bad
         else case dropWhile cfgIsSpace r of
             [] \<Rightarrow> Bad
           | e # r' \<Rightarrow> if e \<noteq> 0x3D then Bad else cfg_value category var r')"

definition cfg_parse :: "bytes \<Rightarrow> cfg_line" where
  "cfg_parse line =
    (let p = dropWhile cfgIsSpace (takeWhile (\<lambda>b. b \<noteq> 0) (strip_end line)) in
     case p of
       [] \<Rightarrow> Blank
     | a # r \<Rightarrow>
         if a = 0x3B \<or> a = 0x23 \<or> (a = 0x2F \<and> r \<noteq> [] \<and> hd r = 0x2F) then Blank
         else case dropWhile cfgIsSymChar p of
             [] \<Rightarrow> Bad
           | d # q \<Rightarrow>
               if d \<noteq> 0x2E then Bad
               else cfg_equals (takeWhile cfgIsSymChar p) (takeWhile cfgIsSymChar q) (dropWhile cfgIsSymChar q))"

definition cfg_one_line :: "'f libc \<Rightarrow> nat \<Rightarrow> bytes \<Rightarrow> 'f config \<Rightarrow> 'f config" where
  "cfg_one_line lc lineno line c =
    (case cfg_parse line of
       Blank \<Rightarrow> c
     | Bad \<Rightarrow> cfgWarn lineno InvalidLine c
     | Assign category var val \<Rightarrow> cfgProcessLine lc lineno category var val c)"

fun cfg_lines :: "'f libc \<Rightarrow> nat \<Rightarrow> bytes list \<Rightarrow> 'f config \<Rightarrow> 'f config" where
  "cfg_lines lc lineno [] c = c"
| "cfg_lines lc lineno (l # ls) c = cfg_lines lc (Suc lineno) ls (cfg_one_line lc lineno l c)"

definition cfgLoad :: "'f libc \<Rightarrow> bytes \<Rightarrow> 'f config \<Rightarrow> 'f config" where
  "cfgLoad lc fname c =
    (case lc_file lc fname of
       None \<Rightarrow> c
     | Some text \<Rightarrow> cfg_lines lc 1 (getlines [] text) c)"

definition user_cfg :: "'f libc \<Rightarrow> bytes option" where
  "user_cfg lc =
    (case lc_getenv lc (str ''XDG_CONFIG_HOME'') of
       Some env \<Rightarrow> if lc_malloc lc env then Some (env @ str ''/2ine/2ine.cfg'') else None
     | None \<Rightarrow>
         (case lc_getenv lc (str ''HOME'') of
            Some env \<Rightarrow> if lc_malloc lc env then Some (env @ str ''/.config/2ine/2ine.cfg'') else None
          | None \<Rightarrow> None))"

definition cfgLoadFiles :: "'f libc \<Rightarrow> 'f config \<Rightarrow> 'f config" where
  "cfgLoadFiles lc c =
    (let c1 = cfgLoad lc (str ''/etc/2ine.cfg'') c in
     case user_cfg lc of
       None \<Rightarrow> c1
     | Some fname \<Rightarrow> cfgLoad lc fname c1)"

subsection \<open>Drives\<close>

text \<open>
  The first letter from C on is preferred: a number below 3 is replaced by a later drive.  An empty result of
  \<^verbatim>\<open>realpath\<close> fails an assertion (\<open>None\<close>); the copies of strings are taken to succeed.
\<close>

record drive_scan =
  ds_disks :: "nat \<Rightarrow> bytes option"
  ds_cwd :: "nat \<Rightarrow> bytes option"
  ds_map :: u32
  ds_mounted :: nat
  ds_lowcwd :: nat

definition os2_slashes :: "bytes \<Rightarrow> bytes" where
  "os2_slashes = map (\<lambda>c. if c = SLASH then BSLASH else c)"

definition under_mount :: "bytes \<Rightarrow> bytes \<Rightarrow> bool" where
  "under_mount rp cwd \<longleftrightarrow> take (length rp) cwd = rp \<and>
    (last rp = SLASH \<or> length cwd = length rp \<or> cwd ! length rp = SLASH)"

definition scan_drive :: "'f libc \<Rightarrow> bytes \<Rightarrow> nat \<Rightarrow> drive_scan \<Rightarrow> drive_scan option" where
  "scan_drive lc cwd i s =
    (case ds_disks s i of
       None \<Rightarrow> Some s
     | Some m \<Rightarrow>
         (case lc_realpath lc m of
            None \<Rightarrow> Some (s\<lparr>ds_disks := (ds_disks s)(i := None)\<rparr>)
          | Some rp \<Rightarrow>
              if rp = [] then None
              else
                let s1 = s\<lparr>ds_mounted := (if ds_mounted s < 3 then i + 1 else ds_mounted s),
                           ds_map := ds_map s OR push_bit i 1\<rparr>
                in if under_mount rp cwd then
                     let d = drop (length rp) cwd in
                     Some (s1\<lparr>ds_cwd := (ds_cwd s1)(i \<mapsto> os2_slashes (if d \<noteq> [] \<and> hd d = SLASH then tl d else d)),
                              ds_lowcwd := (if ds_lowcwd s1 < 3 then i + 1 else ds_lowcwd s1)\<rparr>)
                   else Some (s1\<lparr>ds_cwd := (ds_cwd s1)(i \<mapsto> [])\<rparr>)))"

fun scan_drives :: "'f libc \<Rightarrow> bytes \<Rightarrow> nat list \<Rightarrow> drive_scan \<Rightarrow> drive_scan option" where
  "scan_drives lc cwd [] s = Some s"
| "scan_drives lc cwd (i # is) s = Option.bind (scan_drive lc cwd i s) (scan_drives lc cwd is)"

definition choose_drive :: "bytes \<Rightarrow> drive_scan \<Rightarrow> drives option" where
  "choose_drive cwd s =
    (if ds_mounted s = 0 then
       (if cwd = [] then None
        else Some \<lparr>disks = (ds_disks s)(2 \<mapsto> [SLASH]), current_dir = (ds_cwd s)(2 \<mapsto> os2_slashes (tl cwd)),
          current_disk = 3, diskmap = ds_map s\<rparr>)
     else Some \<lparr>disks = ds_disks s, current_dir = ds_cwd s,
       current_disk = (if ds_lowcwd s = 0 then ds_mounted s else ds_lowcwd s), diskmap = ds_map s\<rparr>)"

definition prepOs2Drives :: "'f libc \<Rightarrow> (nat \<Rightarrow> bytes option) \<Rightarrow> drives option" where
  "prepOs2Drives lc mounts =
    (let cwd = (case lc_cwd lc of Some rp \<Rightarrow> rp | None \<Rightarrow> [SLASH]) in
     Option.bind (scan_drives lc cwd [0..<26]
       \<lparr>ds_disks = mounts, ds_cwd = (\<lambda>_. None), ds_map = 0, ds_mounted = 0, ds_lowcwd = 0\<rparr>)
       (choose_drive cwd))"

definition no_config :: "'f \<Rightarrow> 'f config" where
  "no_config volume = \<lparr>cfg_disks = (\<lambda>_. None), cfg_trace_native = False, cfg_trace_events = False,
     cfg_beep_volume = volume, cfg_warnings = []\<rparr>"

text \<open>The part of the constructor that reads the configuration; two environment variables override it.\<close>

definition lib2ine_constructor :: "'f libc \<Rightarrow> 'f \<Rightarrow> ('f config \<times> drives) option" where
  "lib2ine_constructor lc volume =
    (let c = cfgLoadFiles lc (no_config volume) in
     case prepOs2Drives lc (cfg_disks c) of
       None \<Rightarrow> None
     | Some dr \<Rightarrow> Some (c\<lparr>cfg_trace_native := cfg_trace_native c \<or> lc_getenv lc (str ''TRACE_NATIVE'') \<noteq> None,
                        cfg_trace_events := cfg_trace_events c \<or> lc_getenv lc (str ''TRACE_EVENTS'') \<noteq> None\<rparr>, dr))"

subsection \<open>What the constructor leaves\<close>

text \<open>A mount point ends in a slash; only the letters A to Z have one.\<close>

definition mounts_ok :: "(nat \<Rightarrow> bytes option) \<Rightarrow> bool" where
  "mounts_ok t \<longleftrightarrow> (\<forall>i m. t i = Some m \<longrightarrow> i < 26 \<and> m \<noteq> [] \<and> last m = SLASH)"

lemma mounts_ok_none [simp]: "mounts_ok (\<lambda>_. None)"
  by (simp add: mounts_ok_def)

lemma mounts_ok_drop: "mounts_ok t \<Longrightarrow> mounts_ok (t(i := None))"
  by (simp add: mounts_ok_def)

lemma mounts_ok_mount: "mounts_ok t \<Longrightarrow> i < 26 \<Longrightarrow> m \<noteq> [] \<Longrightarrow> last m = SLASH \<Longrightarrow> mounts_ok (t(i \<mapsto> m))"
  by (simp add: mounts_ok_def)

lemma with_slash_ok: "val \<noteq> [] \<Longrightarrow> with_slash val \<noteq> [] \<and> last (with_slash val) = SLASH"
  by (auto simp: with_slash_def last_conv_nth)

lemma cfgWarn_disks [simp]: "cfg_disks (cfgWarn n w c) = cfg_disks c"
  by (simp add: cfgWarn_def)

lemma letter_index: "\<not> (letter < 0x41 \<or> 0x5A < letter) \<Longrightarrow> unat (letter - 0x41 :: u8) < 26"
  by (simp add: unat_sub_if' word_less_nat_alt) arith

lemma cfgProcessMountPoint_ok:
  assumes "mounts_ok (cfg_disks c)"
  shows "mounts_ok (cfg_disks (cfgProcessMountPoint lc n var val c))"
  using assms letter_index
  by (auto simp: cfgProcessMountPoint_def Let_def mounts_ok_drop with_slash_ok
      intro!: mounts_ok_mount mounts_ok_drop split: option.splits bool.splits)

lemma cfgProcessSystem_disks [simp]: "cfg_disks (cfgProcessSystem lc n var val c) = cfg_disks c"
  by (auto simp: cfgProcessSystem_def cfgProcessBoolString_def cfgProcessFloatString_def split: option.splits)

lemma cfg_one_line_ok: "mounts_ok (cfg_disks c) \<Longrightarrow> mounts_ok (cfg_disks (cfg_one_line lc n l c))"
  by (auto simp: cfg_one_line_def cfgProcessLine_def cfgProcessMountPoint_ok split: cfg_line.splits)

lemma cfg_lines_ok: "mounts_ok (cfg_disks c) \<Longrightarrow> mounts_ok (cfg_disks (cfg_lines lc n ls c))"
  by (induction ls arbitrary: n c) (simp_all add: cfg_one_line_ok)

lemma cfgLoad_ok: "mounts_ok (cfg_disks c) \<Longrightarrow> mounts_ok (cfg_disks (cfgLoad lc fname c))"
  by (simp add: cfgLoad_def cfg_lines_ok split: option.splits)

lemma cfgLoadFiles_ok: "mounts_ok (cfg_disks c) \<Longrightarrow> mounts_ok (cfg_disks (cfgLoadFiles lc c))"
  by (simp add: cfgLoadFiles_def Let_def cfgLoad_ok split: option.splits)

text \<open>
  The type of a table of drives: the current drive is one of the 26 letters and mounted, just the mounted
  drives have a current directory, which has no slash, and the bit map has just their bits, except that it
  is empty when the root of the file system was mounted for want of any drive.
\<close>

definition drives_ok :: "drives \<Rightarrow> bool" where
  "drives_ok dr \<longleftrightarrow> mounts_ok (disks dr) \<and> 1 \<le> current_disk dr \<and> current_disk dr \<le> 26 \<and>
    disks dr (current_disk dr - 1) \<noteq> None \<and>
    (\<forall>i. disks dr i = None \<longleftrightarrow> current_dir dr i = None) \<and>
    (\<forall>i d. current_dir dr i = Some d \<longrightarrow> SLASH \<notin> set d) \<and>
    ((\<forall>i < 32. bit (diskmap dr) i \<longleftrightarrow> disks dr i \<noteq> None) \<or>
     diskmap dr = 0 \<and> (\<forall>i. disks dr i = (if i = 2 then Some [SLASH] else None)))"

text \<open>The scan with the drives below \<open>n\<close> done.\<close>

definition scan_inv :: "nat \<Rightarrow> drive_scan \<Rightarrow> bool" where
  "scan_inv n s \<longleftrightarrow> mounts_ok (ds_disks s) \<and>
    (\<forall>i. ds_cwd s i \<noteq> None \<longleftrightarrow> i < n \<and> ds_disks s i \<noteq> None) \<and>
    (\<forall>i d. ds_cwd s i = Some d \<longrightarrow> SLASH \<notin> set d) \<and>
    (\<forall>i < 32. bit (ds_map s) i \<longleftrightarrow> i < n \<and> ds_disks s i \<noteq> None) \<and>
    (if ds_mounted s = 0 then \<forall>i < n. ds_disks s i = None
     else ds_mounted s \<le> n \<and> ds_disks s (ds_mounted s - 1) \<noteq> None) \<and>
    (ds_lowcwd s \<noteq> 0 \<longrightarrow> ds_mounted s \<noteq> 0 \<and> ds_lowcwd s \<le> n \<and> ds_disks s (ds_lowcwd s - 1) \<noteq> None)"

lemma os2_slashes_free: "SLASH \<notin> set (os2_slashes d)"
  by (auto simp: os2_slashes_def SLASH_def BSLASH_def)

lemma scan_inv_unmounted: "scan_inv n s \<Longrightarrow> ds_disks s n = None \<Longrightarrow> scan_inv (Suc n) s"
  by (auto simp: scan_inv_def less_Suc_eq split: if_splits)

lemma scan_inv_dropped: "scan_inv n s \<Longrightarrow> scan_inv (Suc n) (s\<lparr>ds_disks := (ds_disks s)(n := None)\<rparr>)"
  by (auto simp: scan_inv_def less_Suc_eq mounts_ok_drop split: if_splits)

lemma scan_inv_mounted:
  assumes "scan_inv n s" "ds_disks s n \<noteq> None" "n < 26" "SLASH \<notin> set d"
    "lm = (if ds_mounted s < 3 then n + 1 else ds_mounted s)" "lc = ds_lowcwd s \<or> lc = n + 1"
  shows "scan_inv (Suc n) (s\<lparr>ds_mounted := lm, ds_map := ds_map s OR push_bit n 1,
    ds_cwd := (ds_cwd s)(n \<mapsto> d), ds_lowcwd := lc\<rparr>)"
proof -
  have b: "bit (ds_map s OR push_bit n 1) i \<longleftrightarrow> i < Suc n \<and> ds_disks s i \<noteq> None" if "i < 32" for i
    using assms(1,2) that by (auto simp: scan_inv_def bit_simps less_Suc_eq)
  have m: "lm \<noteq> 0" "lm \<le> Suc n" "ds_disks s (lm - 1) \<noteq> None"
    using assms(1,2,5) by (auto simp: scan_inv_def split: if_splits)
  have l: "lc \<le> Suc n \<and> (lc \<noteq> 0 \<longrightarrow> ds_disks s (lc - 1) \<noteq> None)"
    using assms(1,2,6) by (auto simp: scan_inv_def)
  show ?thesis using assms(1,2,4) b m l by (auto simp: scan_inv_def less_Suc_eq)
qed

lemma scan_drive_inv: "scan_inv n s \<Longrightarrow> n < 26 \<Longrightarrow> scan_drive lc cwd n s = Some s' \<Longrightarrow> scan_inv (Suc n) s'"
proof (cases "ds_disks s n")
  case None
  moreover assume "scan_inv n s" "scan_drive lc cwd n s = Some s'"
  ultimately show ?thesis using scan_inv_unmounted by (simp add: scan_drive_def)
next
  case (Some m)
  assume a: "scan_inv n s" "n < 26" "scan_drive lc cwd n s = Some s'"
  show ?thesis
  proof (cases "lc_realpath lc m")
    case None
    then show ?thesis using a Some scan_inv_dropped by (auto simp: scan_drive_def)
  next
    case (Some rp)
    obtain d l where s': "s' = s\<lparr>ds_mounted := (if ds_mounted s < 3 then n + 1 else ds_mounted s),
        ds_map := ds_map s OR push_bit n 1, ds_cwd := (ds_cwd s)(n \<mapsto> d), ds_lowcwd := l\<rparr>"
        "SLASH \<notin> set d" "l = ds_lowcwd s \<or> l = n + 1"
    proof (cases "under_mount rp cwd")
      case True
      let ?d = "drop (length rp) cwd"
      show ?thesis
        by (rule that [where d = "os2_slashes (if ?d \<noteq> [] \<and> hd ?d = SLASH then tl ?d else ?d)"
              and l = "if ds_lowcwd s < 3 then n + 1 else ds_lowcwd s"])
          (use True Some \<open>ds_disks s n = Some m\<close> a(3) os2_slashes_free in \<open>auto simp: scan_drive_def Let_def split: if_splits\<close>)
    next
      case False
      show ?thesis
        by (rule that [where d = "[]" and l = "ds_lowcwd s"])
          (use False Some \<open>ds_disks s n = Some m\<close> a(3) in \<open>auto simp: scan_drive_def Let_def split: if_splits\<close>)
    qed
    show ?thesis unfolding s'(1)
      by (rule scan_inv_mounted [OF a(1) _ a(2) s'(2) refl s'(3)]) (simp add: \<open>ds_disks s n = Some m\<close>)
  qed
qed

lemma scan_drives_inv: "scan_inv n s \<Longrightarrow> m \<le> 26 \<Longrightarrow> n \<le> m \<Longrightarrow>
    scan_drives lc cwd [n..<m] s = Some s' \<Longrightarrow> scan_inv m s'"
proof (induction "m - n" arbitrary: n s)
  case (Suc k)
  then have "n < m" by simp
  then have "[n..<m] = n # [Suc n..<m]" by (simp add: upt_conv_Cons)
  then obtain s1 where "scan_drive lc cwd n s = Some s1" "scan_drives lc cwd [Suc n..<m] s1 = Some s'"
    using Suc.prems(4) by (auto split: bind_splits)
  then show ?case using Suc.hyps(1) [of "Suc n" s1] Suc.hyps(2) Suc.prems \<open>n < m\<close> scan_drive_inv [of n s lc cwd s1] by simp
qed simp

text \<open>What the libc promises: the path that \<^verbatim>\<open>realpath\<close> answers is not empty.\<close>

definition libc_ok :: "'f libc \<Rightarrow> bool" where
  "libc_ok lc \<longleftrightarrow> (\<forall>p. lc_realpath lc p \<noteq> Some []) \<and> lc_cwd lc \<noteq> Some []"

lemma scan_drive_total: "libc_ok lc \<Longrightarrow> \<exists>s'. scan_drive lc cwd i s = Some s'"
  by (auto simp: scan_drive_def Let_def libc_ok_def split: option.splits)

lemma scan_drives_total: "libc_ok lc \<Longrightarrow> \<exists>s'. scan_drives lc cwd is s = Some s'"
proof (induction "is" arbitrary: s)
  case (Cons i "is")
  then show ?case using scan_drive_total [of lc cwd i s] by force
qed simp

lemma scan_inv_start: "mounts_ok t \<Longrightarrow>
    scan_inv 0 \<lparr>ds_disks = t, ds_cwd = (\<lambda>_. None), ds_map = 0, ds_mounted = 0, ds_lowcwd = 0\<rparr>"
  by (simp add: scan_inv_def)

lemma scan_done:
  assumes "scan_inv 26 s"
  shows "ds_disks s i = None \<longleftrightarrow> ds_cwd s i = None"
    "j < 32 \<Longrightarrow> bit (ds_map s) j \<longleftrightarrow> ds_disks s j \<noteq> None"
    "ds_mounted s = 0 \<Longrightarrow> ds_disks s i = None"
    "ds_mounted s = 0 \<Longrightarrow> ds_map s = 0"
proof -
  have out: "ds_disks s i = None" if "\<not> i < 26" for i
    using assms that by (auto simp: scan_inv_def mounts_ok_def)
  have "ds_cwd s i \<noteq> None \<longleftrightarrow> i < 26 \<and> ds_disks s i \<noteq> None" using assms by (simp add: scan_inv_def)
  then show "ds_disks s i = None \<longleftrightarrow> ds_cwd s i = None" using out [of i] by blast
  show "bit (ds_map s) j \<longleftrightarrow> ds_disks s j \<noteq> None" if "j < 32" for j
    using assms out [of j] that by (auto simp: scan_inv_def)
  show none: "ds_disks s i = None" if "ds_mounted s = 0" for i
  proof -
    have "i < 26 \<Longrightarrow> ds_disks s i = None" using assms that by (simp add: scan_inv_def)
    then show ?thesis using out [of i] by blast
  qed
  show "ds_map s = 0" if "ds_mounted s = 0"
    by (rule bit_word_eqI) (use assms none [OF that] in \<open>auto simp: scan_inv_def\<close>)
qed

lemma choose_drive_ok:
  assumes "scan_inv 26 s" "choose_drive cwd s = Some dr"
  shows "drives_ok dr"
proof (cases "ds_mounted s = 0")
  case True
  have dr: "dr = \<lparr>disks = (ds_disks s)(2 \<mapsto> [SLASH]), current_dir = (ds_cwd s)(2 \<mapsto> os2_slashes (tl cwd)),
          current_disk = 3, diskmap = 0\<rparr>"
    using assms(2) True scan_done(4) [OF assms(1) True] by (simp add: choose_drive_def split: if_splits)
  have d: "ds_disks s i = None" "ds_cwd s i = None" for i
    using scan_done(1,3) [OF assms(1)] True by blast+
  show ?thesis using d os2_slashes_free by (auto simp: drives_ok_def dr mounts_ok_def)
next
  case False
  have dr: "dr = \<lparr>disks = ds_disks s, current_dir = ds_cwd s,
       current_disk = (if ds_lowcwd s = 0 then ds_mounted s else ds_lowcwd s), diskmap = ds_map s\<rparr>"
    using assms(2) False by (simp add: choose_drive_def)
  have c: "1 \<le> current_disk dr" "current_disk dr \<le> 26" "disks dr (current_disk dr - 1) \<noteq> None"
    using assms(1) False by (auto simp: scan_inv_def dr)
  have f: "mounts_ok (disks dr)" "\<forall>i d. current_dir dr i = Some d \<longrightarrow> SLASH \<notin> set d"
    using assms(1) by (auto simp: scan_inv_def dr)
  have n: "\<forall>i. disks dr i = None \<longleftrightarrow> current_dir dr i = None" "\<forall>i < 32. bit (diskmap dr) i \<longleftrightarrow> disks dr i \<noteq> None"
    using scan_done(1,2) [OF assms(1)] by (auto simp: dr)
  show ?thesis unfolding drives_ok_def using c f n by blast
qed

lemma prepOs2Drives_ok:
  assumes "libc_ok lc" "mounts_ok t"
  obtains dr where "prepOs2Drives lc t = Some dr" "drives_ok dr"
proof -
  define cwd where "cwd = (case lc_cwd lc of Some rp \<Rightarrow> rp | None \<Rightarrow> [SLASH])"
  let ?s0 = "\<lparr>ds_disks = t, ds_cwd = (\<lambda>_. None), ds_map = 0, ds_mounted = 0, ds_lowcwd = 0\<rparr>"
  obtain s where s: "scan_drives lc cwd [0..<26] ?s0 = Some s" using scan_drives_total [OF assms(1)] by blast
  have i: "scan_inv 26 s" by (rule scan_drives_inv [OF scan_inv_start [OF assms(2)] _ _ s]) simp_all
  have "cwd \<noteq> []" using assms(1) by (auto simp: cwd_def libc_ok_def split: option.splits)
  then obtain dr where "choose_drive cwd s = Some dr" unfolding choose_drive_def by (metis (full_types))
  then show ?thesis using that choose_drive_ok [OF i] s by (simp add: prepOs2Drives_def cwd_def)
qed

lemma lib2ine_constructor_ok:
  assumes "libc_ok lc"
  shows "\<exists>c dr. lib2ine_constructor lc volume = Some (c, dr) \<and> mounts_ok (cfg_disks c) \<and> drives_ok dr"
proof -
  define c where "c = cfgLoadFiles lc (no_config volume)"
  have m: "mounts_ok (cfg_disks c)" by (simp add: c_def cfgLoadFiles_ok no_config_def)
  obtain dr where "prepOs2Drives lc (cfg_disks c) = Some dr" "drives_ok dr" by (rule prepOs2Drives_ok [OF assms m])
  then show ?thesis using m by (auto simp: lib2ine_constructor_def c_def Let_def)
qed

text \<open>
  C40.  Whatever the configuration files hold, the constructor leaves a table of drives of the type the path
  functions rely on: each mount point ends in a slash, the current drive is one of the 26 and mounted, just the
  mounted drives have a current directory, in OS/2 notation, and the bit map names the mounted drives or, where the
  root was mounted for want of any drive, none.
\<close>

theorem lib2ine_constructor_types:
  assumes "libc_ok lc"
  shows "\<exists>c dr. lib2ine_constructor lc volume = Some (c, dr) \<and> mounts_ok (cfg_disks c) \<and> drives_ok dr"
  by (rule lib2ine_constructor_ok [OF assms])

definition demo_libc :: "bytes \<Rightarrow> u8 libc" where
  "demo_libc text = \<lparr>lc_file = (\<lambda>f. if f = str ''/etc/2ine.cfg'' then Some text else None),
    lc_isdir = (\<lambda>p. if p = str ''/os2'' then Some True else None), lc_malloc = (\<lambda>_. True),
    lc_strtof = (\<lambda>_. None), lc_realpath = (\<lambda>p. if p = [] then None else Some (if last p = SLASH \<and> tl p \<noteq> [] then butlast p else p)),
    lc_cwd = Some (str ''/os2/apps/ed''), lc_getenv = (\<lambda>_. None)\<rparr>"

definition demo_cfg :: bytes where
  "demo_cfg = str ''# drives'' @ [0x0A] @ str ''mountpoint.d = /os2'' @ [0x0A] @ str ''system.trace_native=yes'' @ [0x0A] @ str ''bad'' @ [0x0A]"

lemma demo_libc_ok: "libc_ok (demo_libc text)"
proof -
  have "butlast p \<noteq> []" if "tl p \<noteq> []" for p :: bytes using that by (cases p) auto
  then show ?thesis by (auto simp: libc_ok_def demo_libc_def str_def split: if_splits)
qed

theorem lib2ine_constructor_types_witness:
  "\<exists>c dr. lib2ine_constructor (demo_libc demo_cfg) 5 = Some (c, dr) \<and> drives_ok dr \<and>
    current_disk dr = 4 \<and> disks dr 3 = Some (str ''/os2/'') \<and> current_dir dr 3 = Some (str ''apps'' @ BSLASH # str ''ed'') \<and>
    cfg_trace_native c \<and> cfg_warnings c = [(4, InvalidLine)]"
proof -
  have r: "case lib2ine_constructor (demo_libc demo_cfg) 5 of None \<Rightarrow> False
      | Some (c, dr) \<Rightarrow> current_disk dr = 4 \<and> disks dr 3 = Some (str ''/os2/'') \<and>
          current_dir dr 3 = Some (str ''apps'' @ BSLASH # str ''ed'') \<and>
          cfg_trace_native c \<and> cfg_warnings c = [(4, InvalidLine)]" by code_simp
  then show ?thesis using lib2ine_constructor_types [OF demo_libc_ok, of demo_cfg 5] by (auto split: option.splits)
qed

text \<open>Without a mounted drive the root is mounted as C:, but the bit map does not have its bit.\<close>

lemma prepOs2Drives_no_map:
  assumes "libc_ok lc"
  shows "\<exists>dr. prepOs2Drives lc (\<lambda>_. None) = Some dr \<and> disks dr 2 = Some [SLASH] \<and> current_disk dr = 3 \<and> diskmap dr = 0"
proof -
  define cwd where "cwd = (case lc_cwd lc of Some rp \<Rightarrow> rp | None \<Rightarrow> [SLASH])"
  let ?s0 = "\<lparr>ds_disks = (\<lambda>_. None), ds_cwd = (\<lambda>_. None), ds_map = 0, ds_mounted = 0, ds_lowcwd = 0\<rparr>"
  have "scan_drives lc cwd is ?s0 = Some ?s0" for "is" by (induction "is") (simp_all add: scan_drive_def)
  moreover have "cwd \<noteq> []" using assms by (auto simp: cwd_def libc_ok_def split: option.splits)
  ultimately show ?thesis by (simp add: prepOs2Drives_def choose_drive_def flip: cwd_def)
qed

text \<open>So a path without a letter is never on a drive that is not mounted.\<close>

lemma lxMakeUnixPath_current_drive:
  assumes "drives_ok dr" "drive_of dr p = (int (current_disk dr) - 1, p)"
  shows "lxMakeUnixPath f mem_ok dr p \<noteq> Some (Inl ERROR_NOT_DOS_DISK)"
proof -
  obtain m where "at_drive (disks dr) (int (current_disk dr) - 1) = Some (Some m)"
    using assms(1) by (auto simp: drives_ok_def at_drive_def nat_diff_distrib)
  moreover have "at_drive (current_dir dr) (int (current_disk dr) - 1) \<noteq> None"
    using assms(1) by (auto simp: drives_ok_def at_drive_def)
  ultimately show ?thesis using assms(2)
    by (auto simp: lxMakeUnixPath_def split: option.splits if_splits)
qed

end
