(* ===== verification/Lib2ineRun.thy ===== *)
theory Lib2ineRun
  imports Lib2ine DosExec
begin

section \<open>The base library: process block, thread block, sound (\<^verbatim>\<open>lib2ine.c\<close>)\<close>

text \<open>
  The command line of the process and its environment become the block of a segment that the process
  information block points into; the sound device mixes a list of generators.  The chunks that \<^verbatim>\<open>read\<close> delivers
  are a list (\<open>None\<close> for a failure), as are the strings of the environment.
\<close>

subsection \<open>Reading a file\<close>

text \<open>A read that gives less than the 128 bytes asked for ends the file; a list that ends before is a read that never returns.\<close>

datatype read_result = ReadData bytes | ReadFailed

fun readfile_loop :: "bytes \<Rightarrow> (bool \<times> bytes option) list \<Rightarrow> read_result option" where
  "readfile_loop buf [] = None"
| "readfile_loop buf ((mem_ok, br) # rs) =
    (if \<not> mem_ok then Some ReadFailed
     else case br of
         None \<Rightarrow> Some ReadFailed
       | Some bs \<Rightarrow> if length bs < 128 then Some (ReadData (buf @ bs)) else readfile_loop (buf @ bs) rs)"

definition readfile :: "bool \<Rightarrow> (bool \<times> bytes option) list \<Rightarrow> read_result option" where
  "readfile opened rs = (if \<not> opened then Some ReadFailed else readfile_loop [] rs)"

subsection \<open>The process information block\<close>

text \<open>The strings that end in a NUL.\<close>

fun cmdline_args :: "bytes \<Rightarrow> bytes \<Rightarrow> bytes list" where
  "cmdline_args cur [] = []"
| "cmdline_args cur (b # bs) = (if b = 0 then cur # cmdline_args [] bs else cmdline_args (cur @ [b]) bs)"

definition is_lx_loader :: "bytes \<Rightarrow> bool" where
  "is_lx_loader arg0 \<longleftrightarrow>
    (case last_slash arg0 of Some k \<Rightarrow> drop (Suc k) arg0 | None \<Rightarrow> arg0) = str ''lx_loader''"

definition starts :: "bytes \<Rightarrow> bytes \<Rightarrow> bool" where
  "starts p s \<longleftrightarrow> take (length p) s = p"

text \<open>
  \<open>path\<close> is an array of 255 bytes, of which 253 are used; \<open>nullstr\<close> is the text that \<^verbatim>\<open>snprintf\<close> writes for a null
  pointer, where \<^verbatim>\<open>OS2PATH\<close> is not set.
\<close>

definition os2_path :: "bytes \<Rightarrow> bytes option \<Rightarrow> bytes" where
  "os2_path nullstr os2path = take 253 (str ''PATH='' @ (case os2path of Some p \<Rightarrow> p | None \<Rightarrow> nullstr))"

definition env_string :: "bool \<Rightarrow> bytes \<Rightarrow> bytes \<Rightarrow> bytes option" where
  "env_string subprocess path s =
    (if starts (str ''PATH='') s then Some (if subprocess then s else path)
     else if starts (str ''LIBPATH='') s then Some s
     else if starts (str ''IS_2INE='') s then None
     else Some s)"

definition env_entries :: "bool \<Rightarrow> bytes \<Rightarrow> bytes list \<Rightarrow> bytes list" where
  "env_entries subprocess path envp =
    concat (map (\<lambda>s. case env_string subprocess path s of Some t \<Rightarrow> [t] | None \<Rightarrow> []) envp)"

definition env_libpath :: "bytes list \<Rightarrow> bytes" where
  "env_libpath envp =
    (case filter (starts (str ''LIBPATH='')) envp of [] \<Rightarrow> [] | ls \<Rightarrow> drop 8 (last ls))"

definition quote_arg :: "bytes \<Rightarrow> bytes" where
  "quote_arg arg =
    (if BLANK \<in> set arg \<or> TAB \<in> set arg
     then QUOTE # concat (map (\<lambda>ch. if ch = BSLASH \<or> ch = 0x0A then [BSLASH, ch] else [ch]) arg) @ [QUOTE]
     else arg)"

fun cmd_tail :: "bytes list \<Rightarrow> bytes" where
  "cmd_tail [] = []"
| "cmd_tail [a] = quote_arg a"
| "cmd_tail (a # b # r) = quote_arg a @ BLANK # cmd_tail (b # r)"

record pib =
  pib_ulpid :: u32
  pib_ulppid :: u32
  pib_pchcmd :: nat
  pib_pchenv :: bytes
  pib_libpath :: bytes

text \<open>
  The block has 64K, which nothing checks (\<open>None\<close> where more would be written).  No argument at all, or none but the
  loader's name, is a null pointer that is used.  The command is an offset into the block.
\<close>

definition env_part :: "bytes list \<Rightarrow> bytes \<Rightarrow> bytes" where
  "env_part entries arg0 = env_block entries @ arg0 @ [0]"

definition initPib :: "bytes \<Rightarrow> bytes option \<Rightarrow> bool \<Rightarrow> u32 \<Rightarrow> u32 \<Rightarrow> bytes list \<Rightarrow> bytes \<Rightarrow> pib option" where
  "initPib nullstr os2path subprocess pid ppid envp cmdline =
    (case cmdline_args [] cmdline of
       [] \<Rightarrow> None
     | a # as \<Rightarrow>
         (case (if is_lx_loader a then as else a # as) of
            [] \<Rightarrow> None
          | arg0 # rest \<Rightarrow>
              let env = env_part (env_entries subprocess (os2_path nullstr os2path) envp) arg0;
                  block = env @ arg0 @ [0] @ cmd_tail rest @ [0]
              in if 0x10000 < length block then None
                 else Some \<lparr>pib_ulpid = pid AND 0xFFFF, pib_ulppid = ppid AND 0xFFFF,
                   pib_pchcmd = length env, pib_pchenv = block, pib_libpath = env_libpath envp\<rparr>))"

subsection \<open>The thread information block\<close>

record tib =
  tib_pexchain :: u32
  tib_pstack :: u32
  tib_pstacklimit :: u32
  tib_version :: u32
  tib_ordinal :: u32
  tib2_ultid :: u32
  tib2_ulpri :: u32
  tib2_version :: u32
  tib2_usMCCount :: u16
  tib2_fMCForceFlag :: u16

definition initOs2Tib_lib2ine :: "u32 \<Rightarrow> u32 \<Rightarrow> u32 \<Rightarrow> tib" where
  "initOs2Tib_lib2ine topOfStack stacklen tid = \<lparr>tib_pexchain = 0, tib_pstack = topOfStack - stacklen,
     tib_pstacklimit = topOfStack, tib_version = 20, tib_ordinal = 79, tib2_ultid = tid AND 0xFFFF,
     tib2_ulpri = 512, tib2_version = 20, tib2_usMCCount = 0, tib2_fMCForceFlag = 0\<rparr>"

text \<open>The slot of the thread that holds its block: a key of the thread library.\<close>

definition setOs2Tib_lib2ine :: "'t \<Rightarrow> 't option \<Rightarrow> u16 \<times> 't option" where
  "setOs2Tib_lib2ine t key = (1, Some t)"

definition getOs2Tib_lib2ine :: "'t option \<Rightarrow> 't option" where
  "getOs2Tib_lib2ine key = key"

definition deinitOs2Tib_lib2ine :: "u16 \<Rightarrow> 't option \<Rightarrow> 't option" where
  "deinitOs2Tib_lib2ine selector key = None"

text \<open>A native program uses Unix paths.\<close>

definition makeUnixPath_lib2ine :: "bool \<Rightarrow> bytes \<Rightarrow> u32 \<Rightarrow> bytes option \<times> u32" where
  "makeUnixPath_lib2ine mem_ok os2path err = (if mem_ok then (Some os2path, err) else (None, 8))"

subsection \<open>Sound\<close>

text \<open>
  A generator is a function with its data; running it changes the stream (and the data it owns) and says
  whether it has more.  The list is the newest first.
\<close>

record ('g, 'd) audio =
  generators :: "('g \<times> 'd) list"
  audio_device :: u32
  idle_timeout :: u32

definition SDL_TICKS_PASSED :: "u32 \<Rightarrow> u32 \<Rightarrow> bool" where
  "SDL_TICKS_PASSED a b \<longleftrightarrow> sint (b - a) \<le> 0"

definition closeAudioDeviceFromAnotherThread :: "bool \<Rightarrow> ('g, 'd) audio \<Rightarrow> ('g, 'd) audio \<times> u32 list" where
  "closeAudioDeviceFromAnotherThread thread_ok a =
    (if audio_device a = 0 then (a, [])
     else if thread_ok then (a\<lparr>audio_device := 0\<rparr>, [audio_device a])
     else (a, []))"

fun mix_generators :: "('g \<Rightarrow> 'd \<Rightarrow> 's \<Rightarrow> nat \<Rightarrow> u32 \<Rightarrow> bool \<times> 's) \<Rightarrow> nat \<Rightarrow> u32 \<Rightarrow> ('g \<times> 'd) list \<Rightarrow> 's
    \<Rightarrow> ('g \<times> 'd) list \<times> 's" where
  "mix_generators run samples freq [] s = ([], s)"
| "mix_generators run samples freq ((fn, data) # gs) s =
    (let (more, s1) = run fn data s samples freq;
         (gs', s2) = mix_generators run samples freq gs s1
     in (if more then (fn, data) # gs' else gs', s2))"

text \<open>The callback; \<open>s\<close> is the silent stream.  The result lists the devices that a thread closes.\<close>

definition audioCallback :: "('g \<Rightarrow> 'd \<Rightarrow> 's \<Rightarrow> nat \<Rightarrow> u32 \<Rightarrow> bool \<times> 's) \<Rightarrow> u32 \<Rightarrow> u32 \<Rightarrow> bool \<Rightarrow> nat \<Rightarrow> 's
    \<Rightarrow> ('g, 'd) audio \<Rightarrow> ('g, 'd) audio \<times> 's \<times> u32 list" where
  "audioCallback run freq ticks thread_ok len s a =
    (if generators a = [] then
       (if idle_timeout a = 0 then (a\<lparr>idle_timeout := ticks + 5000\<rparr>, s, [])
        else if SDL_TICKS_PASSED ticks (idle_timeout a)
        then let (a', closed) = closeAudioDeviceFromAnotherThread thread_ok a in (a', s, closed)
        else (a, s, []))
     else
       let (gs, s') = mix_generators run (len div 4) freq (generators a) s
       in (a\<lparr>idle_timeout := 0, generators := gs\<rparr>, s', []))"

text \<open>
  Registering: \<open>opened\<close> is the device that \<^verbatim>\<open>SDL\<close> opens (0 for none), \<open>usable\<close> the size of the block that
  \<^verbatim>\<open>malloc\<close> gives for the 4 bytes asked for (\<open>None\<close>: it fails).  The entry has three pointers, and a store outside the
  block is a fault.
\<close>

definition open_device :: "u32 \<Rightarrow> ('g, 'd) audio \<Rightarrow> ('g, 'd) audio option" where
  "open_device opened a =
    (if audio_device a \<noteq> 0 then Some a
     else if opened = 0 then None
     else Some (a\<lparr>audio_device := opened, idle_timeout := 0\<rparr>))"

definition registerAudioGenerator_lib2ine :: "u32 \<Rightarrow> nat option \<Rightarrow> 'g \<Rightarrow> 'd \<Rightarrow> bool \<Rightarrow> ('g, 'd) audio
    \<Rightarrow> (nat \<times> ('g, 'd) audio) option" where
  "registerAudioGenerator_lib2ine opened block fn data singleton a =
    (case open_device opened a of
       None \<Rightarrow> Some (0, a)
     | Some a1 \<Rightarrow>
         (case block of
            None \<Rightarrow> Some (0, a1)
          | Some usable \<Rightarrow>
              if usable < 8 then None
              else if singleton \<and> (\<exists>g \<in> set (generators a1). fst g = fn) then Some (2, a1)
              else if usable < 12 then None
              else Some (1, a1\<lparr>idle_timeout := 0, generators := (fn, data) # generators a1\<rparr>)))"

text \<open>The end: the device is closed after two more callbacks, and the generators, the drives and the block are freed.\<close>

record ('g, 'd) lib2ine =
  lib_audio :: "('g, 'd) audio"
  lib_disks :: "nat \<Rightarrow> bytes option"
  lib_env :: "bytes option"

definition lib2ine_shutdown :: "('g, 'd) lib2ine \<Rightarrow> ('g, 'd) lib2ine" where
  "lib2ine_shutdown l = l\<lparr>lib_audio := (lib_audio l)\<lparr>audio_device := 0, generators := []\<rparr>,
     lib_disks := (\<lambda>i. if i < 26 then None else lib_disks l i), lib_env := None\<rparr>"

subsection \<open>The start\<close>

text \<open>
  The rest of the constructor: the stack of the main thread is measured from an address on it, with a limit of 8 MB where the
  limit is not known.
\<close>

record 'f started =
  st_config :: "'f config"
  st_drives :: drives
  st_tib :: tib
  st_subprocess :: bool
  st_pib :: pib

definition lib2ine_start :: "'f libc \<Rightarrow> 'f \<Rightarrow> u32 \<Rightarrow> u32 option \<Rightarrow> bytes \<Rightarrow> u32 \<Rightarrow> u32 \<Rightarrow> bytes list \<Rightarrow> bytes \<Rightarrow> 'f started option" where
  "lib2ine_start lc volume stackaddr limit nullstr pid ppid envp cmdline = do {
     (c, dr) \<leftarrow> lib2ine_constructor lc volume;
     p \<leftarrow> initPib nullstr (lc_getenv lc (str ''OS2PATH'')) (lc_getenv lc (str ''IS_2INE'') \<noteq> None) pid ppid envp cmdline;
     Some \<lparr>st_config = c, st_drives = dr,
       st_tib = initOs2Tib_lib2ine stackaddr (case limit of Some n \<Rightarrow> n | None \<Rightarrow> 8 * 1024 * 1024) 0,
       st_subprocess = (lc_getenv lc (str ''IS_2INE'') \<noteq> None), st_pib = p\<rparr> }"

subsection \<open>What programs find\<close>

lemma readfile_chunks: "\<forall>c \<in> set cs. length c = 128 \<Longrightarrow> length e < 128 \<Longrightarrow>
    readfile_loop buf (map (\<lambda>c. (True, Some c)) (cs @ [e])) = Some (ReadData (buf @ concat cs @ e))"
  by (induction cs arbitrary: buf) simp_all

lemma cmdline_args_string: "0 \<notin> set s \<Longrightarrow> cmdline_args cur (s @ r) = cmdline_args (cur @ s) r"
  by (induction s arbitrary: cur) auto

lemma cmdline_args_strings: "\<forall>s \<in> set as. 0 \<notin> set s \<Longrightarrow> cmdline_args [] (concat (map (\<lambda>s. s @ [0]) as)) = as"
  by (induction as) (simp_all add: cmdline_args_string)

text \<open>The command line of words without blanks splits into them again when it is passed on.\<close>

definition plain_word :: "bytes \<Rightarrow> bool" where
  "plain_word w \<longleftrightarrow> w \<noteq> [] \<and> (\<forall>c \<in> set w. \<not> blank c)"

lemma quote_arg_plain: "plain_word w \<Longrightarrow> quote_arg w = w"
  by (auto simp: plain_word_def quote_arg_def blank_def)

lemma words_of_plain: "plain_word w \<Longrightarrow> words_of (w @ (if r = [] then [] else BLANK # r)) = w # words_of r"
proof -
  assume w: "plain_word w"
  then obtain a v where a: "w = a # v" "\<not> blank a" by (cases w) (auto simp: plain_word_def)
  let ?s = "w @ (if r = [] then [] else BLANK # r)"
  have b: "blank BLANK" by (simp add: blank_def)
  have "dropWhile blank ?s = ?s" using a by simp
  moreover have "takeWhile (\<lambda>c. \<not> blank c) ?s = w" using w b by (auto simp: plain_word_def takeWhile_append)
  moreover have "dropWhile (\<lambda>c. \<not> blank c) ?s = (if r = [] then [] else BLANK # r)"
    using w b by (auto simp: plain_word_def dropWhile_append)
  ultimately show ?thesis using a(1) b by (subst words_of.simps) (auto simp: words_of_blank)
qed

lemma cmd_tail_Nil: "\<forall>a \<in> set as. plain_word a \<Longrightarrow> cmd_tail as = [] \<longleftrightarrow> as = []"
  by (cases as rule: cmd_tail.cases) (auto simp: plain_word_def quote_arg_def)

lemma cmd_tail_words: "\<forall>a \<in> set as. plain_word a \<Longrightarrow> words_of (cmd_tail as) = as"
proof (induction as rule: cmd_tail.induct)
  case (2 a)
  then show ?case using words_of_plain [of a "[]"] by (simp add: quote_arg_plain)
next
  case (3 a b r)
  then have "cmd_tail (b # r) \<noteq> []" using cmd_tail_Nil [of "b # r"] by simp
  then show ?case using 3 words_of_plain [of a "cmd_tail (b # r)"] by (simp add: quote_arg_plain)
qed simp

text \<open>A process number is a number of 16 bits, and the command starts behind the environment and the program's name.\<close>

lemma initPib_parts:
  assumes "initPib nullstr os2path sub pid ppid envp cmdline = Some p"
  obtains entries arg0 rest where "entries = env_entries sub (os2_path nullstr os2path) envp"
    "pib_pchenv p = env_block entries @ arg0 @ [0] @ arg0 @ [0] @ cmd_tail rest @ [0]"
    "drop (pib_pchcmd p) (pib_pchenv p) = arg0 @ [0] @ cmd_tail rest @ [0]"
    "length (pib_pchenv p) \<le> 0x10000" "unat (pib_ulpid p) < 65536"
proof -
  obtain a as where a: "cmdline_args [] cmdline = a # as" using assms by (auto simp: initPib_def split: list.splits)
  obtain arg0 rest where r: "(if is_lx_loader a then as else a # as) = arg0 # rest"
    using assms a by (auto simp: initPib_def split: list.splits if_splits)
  let ?e = "env_entries sub (os2_path nullstr os2path) envp"
  let ?block = "env_part ?e arg0 @ arg0 @ [0] @ cmd_tail rest @ [0]"
  have p: "\<not> 0x10000 < length ?block" "p = \<lparr>pib_ulpid = pid AND 0xFFFF, pib_ulppid = ppid AND 0xFFFF,
      pib_pchcmd = length (env_part ?e arg0), pib_pchenv = ?block, pib_libpath = env_libpath envp\<rparr>"
    using assms unfolding initPib_def a list.case r Let_def by (simp_all split: if_splits)
  have "unat (pid AND 0xFFFF) = unat (take_bit 16 pid)" by (simp add: take_bit_eq_mask mask_eq_exp_minus_1)
  then have "unat (pid AND 0xFFFF) < 65536" by (simp add: unat_take_bit_word)
  then show ?thesis using that [of ?e arg0 rest] p by (simp add: env_part_def)
qed

text \<open>Neither the path of Unix nor the mark of a child reaches an OS/2 program that is not a child.\<close>

lemma set_env_entries: "set (env_entries sub path envp) = {t. \<exists>s \<in> set envp. env_string sub path s = Some t}"
  by (force simp: env_entries_def split: option.splits)

lemma prefixes_differ: "starts (str ''PATH='') s \<Longrightarrow> \<not> starts (str ''IS_2INE='') s"
  "starts (str ''LIBPATH='') s \<Longrightarrow> \<not> starts (str ''IS_2INE='') s"
  by (cases s; simp add: starts_def str_def; auto)+

lemma env_string_cases:
  "env_string sub path s = Some t \<longleftrightarrow>
    (if starts (str ''PATH='') s then t = (if sub then s else path)
     else (starts (str ''LIBPATH='') s \<or> \<not> starts (str ''IS_2INE='') s) \<and> t = s)"
  unfolding env_string_def by (simp only: option.inject split: if_split) blast

lemma env_entries_replaced:
  "s \<in> set (env_entries False path envp) \<Longrightarrow> starts (str ''PATH='') s \<Longrightarrow> s = path"
  "s \<in> set (env_entries sub path envp) \<Longrightarrow> starts (str ''IS_2INE='') s \<Longrightarrow> \<not> sub \<and> s = path"
  unfolding set_env_entries mem_Collect_eq env_string_cases using prefixes_differ by (metis (full_types))+

text \<open>A long environment overruns the block.\<close>

lemma initPib_overrun:
  assumes "0x10000 < length (concat (env_entries sub (os2_path nullstr os2path) envp))"
  shows "initPib nullstr os2path sub pid ppid envp cmdline = None"
proof (rule ccontr)
  assume "initPib nullstr os2path sub pid ppid envp cmdline \<noteq> None"
  then obtain p where p: "initPib nullstr os2path sub pid ppid envp cmdline = Some p" by blast
  have l: "length (concat es) \<le> length (env_block es)" for es by (induction es) (simp_all add: env_block_def)
  show False
    by (rule initPib_parts [OF p]) (use l assms in \<open>fastforce dest: less_le_trans\<close>)
qed

subsection \<open>What the sound list keeps\<close>

lemma mix_generators_keeps: "mix_generators run n freq gs s = (gs', s') \<Longrightarrow> set gs' \<subseteq> set gs \<and> length gs' \<le> length gs"
  by (induction gs arbitrary: s gs' s') (fastforce simp: Let_def split: prod.splits if_splits)+

lemma mix_generators_all: "\<forall>fn d s. fst (run fn d s n freq) \<Longrightarrow> fst (mix_generators run n freq gs s) = gs"
proof (induction gs arbitrary: s)
  case (Cons g gs)
  obtain fn d where g: "g = (fn, d)" by (cases g)
  obtain s1 where "run fn d s n freq = (True, s1)" using Cons.prems by (metis prod.collapse)
  then show ?case using Cons.IH [of s1] Cons.prems
    by (cases "mix_generators run n freq gs s1") (simp add: g)
qed simp

text \<open>With a device and no generator the device is closed once the five seconds have passed.\<close>

lemma audioCallback_idle:
  assumes "generators a = []" "idle_timeout a = 0" "ticks + 5000 \<noteq> 0" "audio_device a \<noteq> 0"
  shows "audioCallback run freq ticks ok len s a = (a\<lparr>idle_timeout := ticks + 5000\<rparr>, s, [])"
    "audioCallback run freq (ticks + 5000) True len s (a\<lparr>idle_timeout := ticks + 5000\<rparr>)
      = (a\<lparr>idle_timeout := ticks + 5000, audio_device := 0\<rparr>, s, [audio_device a])"
  using assms by (simp_all add: audioCallback_def SDL_TICKS_PASSED_def closeAudioDeviceFromAnotherThread_def)

text \<open>
  The block for a generator is too small by what \<^verbatim>\<open>malloc\<close> promises: only the slack of its block sizes saves the store.
  With enough of it a single generator is registered once.
\<close>

lemma registerAudioGenerator_overruns:
  "audio_device a \<noteq> 0 \<Longrightarrow> registerAudioGenerator_lib2ine dev (Some 4) fn d singleton a = None"
  by (simp add: registerAudioGenerator_lib2ine_def open_device_def)

lemma registerAudioGenerator_once:
  assumes "registerAudioGenerator_lib2ine dev (Some n) fn d True a = Some (1, a')" "12 \<le> m"
  shows "registerAudioGenerator_lib2ine dev' (Some m) fn d' True a' = Some (2, a')"
proof -
  have "audio_device a' \<noteq> 0" "fn \<in> fst ` set (generators a')"
    using assms(1) by (auto simp: registerAudioGenerator_lib2ine_def open_device_def split: option.splits if_splits)
  then show ?thesis using assms(2) by (force simp: registerAudioGenerator_lib2ine_def open_device_def)
qed

end
