(* ===== verification/Dwarf.thy ===== *)
theory Dwarf
  imports Paths
begin

section \<open>Debug information: numbers, sections and address ranges (\<^verbatim>\<open>debugger/dwarf_info.c\<close>)\<close>

text \<open>
  The debugger reads the whole executable into a block and walks over it with pointers; a pointer is an
  offset into the block, and reading outside it, or moving a pointer more than one byte behind it, is a fault
  (\<open>None\<close>).  Comparisons with the end of a unit are those of the offsets.
\<close>

definition read_u16_le :: "bytes \<Rightarrow> nat \<Rightarrow> u16 option" where
  "read_u16_le f p = rd16 f p"

definition read_u32_le :: "bytes \<Rightarrow> nat \<Rightarrow> u32 option" where
  "read_u32_le f p = rd32 f p"

definition move :: "bytes \<Rightarrow> nat \<Rightarrow> nat \<Rightarrow> nat option" where
  "move f p n = (if p + n \<le> length f then Some (p + n) else None)"

subsection \<open>Variable-length numbers\<close>

text \<open>
  The loop of both readers; a shift by 32 bits or more is a fault.  The result has the bits, the position behind
  the number, the final shift and the last byte.
\<close>

function leb_loop :: "bytes \<Rightarrow> nat \<Rightarrow> u32 \<Rightarrow> nat \<Rightarrow> (u32 \<times> nat \<times> nat \<times> u8) option" where
  "leb_loop f p result shift =
    (if p < length f \<and> shift < 32 then
       let r = result OR push_bit shift (ucast (f ! p AND 0x7F)) in
       if f ! p AND 0x80 \<noteq> 0 then leb_loop f (p + 1) r (shift + 7)
       else Some (r, p + 1, shift + 7, f ! p)
     else None)"
  by pat_completeness auto

termination by (relation "measure (\<lambda>(f, p, r, s). length f - p)") auto

declare leb_loop.simps [simp del]

definition read_uleb128 :: "bytes \<Rightarrow> nat \<Rightarrow> (u32 \<times> nat) option" where
  "read_uleb128 f p = map_option (\<lambda>(r, q, _). (r, q)) (leb_loop f p 0 0)"

text \<open>The signed number, as the word of its 32 bits.\<close>

definition read_sleb128 :: "bytes \<Rightarrow> nat \<Rightarrow> (u32 \<times> nat) option" where
  "read_sleb128 f p = map_option (\<lambda>(r, q, shift, b).
     (if shift < 32 \<and> b AND 0x40 \<noteq> 0 then r OR - push_bit shift 1 else r, q)) (leb_loop f p 0 0)"

subsection \<open>The image of the debug information\<close>

definition ELF_MAGIC :: bytes where "ELF_MAGIC = 0x7F # str ''ELF''"

text \<open>Inside the fault option, \<open>None\<close> is the answer \<open>-1\<close>.\<close>

definition find_elf_debug_ne :: "bytes \<Rightarrow> nat option option" where
  "find_elf_debug_ne f =
    (let n = length f in
     if n < 16 then Some None
     else do {
       sig \<leftarrow> rd_blk f (n - 16) 3;
       if sig \<noteq> str ''TIS'' then Some None
       else do {
         info_size \<leftarrow> read_u32_le f (n - 16 + 12);
         if info_size = 0 \<or> of_nat n < info_size then Some None
         else do {
           magic \<leftarrow> rd_blk f (n - unat info_size) 4;
           Some (if magic \<noteq> ELF_MAGIC then None else Some (n - unat info_size)) } } })"

definition LX_DEBUG_INFO_OFFSET :: nat where "LX_DEBUG_INFO_OFFSET = 0x70"
definition LX_DEBUG_INFO_LEN :: nat where "LX_DEBUG_INFO_LEN = 0x74"

definition find_elf_debug_lx :: "bytes \<Rightarrow> nat option option" where
  "find_elf_debug_lx f =
    (let n = length f in
     if n < 64 then Some None
     else do {
       hdr_off \<leftarrow> read_u16_le f 0x3C;
       if hdr_off = 0 \<or> n - 4 \<le> unat hdr_off then Some None
       else do {
         let hdr = unat hdr_off;
         c0 \<leftarrow> rd8 f hdr;
         c1 \<leftarrow> rd8 f (hdr + 1);
         if c0 \<noteq> 0x4C \<or> (c1 \<noteq> 0x58 \<and> c1 \<noteq> 0x45) then Some None
         else do {
           dbg_off \<leftarrow> read_u32_le f (hdr + LX_DEBUG_INFO_OFFSET);
           dbg_len \<leftarrow> read_u32_le f (hdr + LX_DEBUG_INFO_LEN);
           if dbg_off = 0 \<or> dbg_len = 0 then Some None
           else if of_nat n \<le> dbg_off then Some None
           else do {
             magic \<leftarrow> rd_blk f (unat dbg_off) 4;
             Some (if magic \<noteq> ELF_MAGIC then None else Some (unat dbg_off)) } } } })"

subsection \<open>Sections\<close>

record shdr =
  sh_name :: u32
  sh_offset :: u32
  sh_size :: u32

text \<open>A section that is known: where it starts in the block and its size.\<close>

record sections =
  debug_info :: "(nat \<times> u32) option"
  debug_abbrev :: "(nat \<times> u32) option"
  debug_line :: "(nat \<times> u32) option"
  debug_aranges :: "(nat \<times> u32) option"

definition no_sections :: sections where
  "no_sections = \<lparr>debug_info = None, debug_abbrev = None, debug_line = None, debug_aranges = None\<rparr>"

definition read_shdr :: "bytes \<Rightarrow> nat \<Rightarrow> shdr option" where
  "read_shdr f p = do {
     guard (p + 40 \<le> length f);
     nm \<leftarrow> rd32 f p; off \<leftarrow> rd32 f (p + 16); sz \<leftarrow> rd32 f (p + 20);
     Some \<lparr>sh_name = nm, sh_offset = off, sh_size = sz\<rparr> }"

fun read_shdrs :: "bytes \<Rightarrow> nat \<Rightarrow> nat \<Rightarrow> nat \<Rightarrow> shdr list option" where
  "read_shdrs f p esize 0 = Some []"
| "read_shdrs f p esize (Suc n) = do { s \<leftarrow> read_shdr f p; ss \<leftarrow> read_shdrs f (p + esize) esize n; Some (s # ss) }"

fun strcmp_at :: "bytes \<Rightarrow> nat \<Rightarrow> bytes \<Rightarrow> bool option" where
  "strcmp_at f p [] = map_option (\<lambda>b. b = 0) (rd8 f p)"
| "strcmp_at f p (c # cs) = (case rd8 f p of None \<Rightarrow> None | Some b \<Rightarrow> if b = c then strcmp_at f (p + 1) cs else Some False)"

definition name_section :: "bytes \<Rightarrow> nat \<Rightarrow> nat \<Rightarrow> shdr \<Rightarrow> sections \<Rightarrow> sections option" where
  "name_section f elf name s secs = (let v = Some (elf + unat (sh_offset s), sh_size s) in do {
     i \<leftarrow> strcmp_at f name (str ''.debug_info'');
     if i then Some (secs\<lparr>debug_info := v\<rparr>) else do {
     a \<leftarrow> strcmp_at f name (str ''.debug_abbrev'');
     if a then Some (secs\<lparr>debug_abbrev := v\<rparr>) else do {
     l \<leftarrow> strcmp_at f name (str ''.debug_line'');
     if l then Some (secs\<lparr>debug_line := v\<rparr>) else do {
     r \<leftarrow> strcmp_at f name (str ''.debug_aranges'');
     Some (if r then secs\<lparr>debug_aranges := v\<rparr> else secs) } } } })"

fun name_sections :: "bytes \<Rightarrow> nat \<Rightarrow> nat option \<Rightarrow> shdr list \<Rightarrow> sections \<Rightarrow> sections option" where
  "name_sections f elf strtab [] secs = Some secs"
| "name_sections f elf strtab (s # ss) secs =
    (case strtab of
       Some t \<Rightarrow>
         if sh_name s < 0x10000
         then Option.bind (name_section f elf (t + unat (sh_name s)) s secs) (name_sections f elf strtab ss)
         else name_sections f elf strtab ss secs
     | None \<Rightarrow> name_sections f elf strtab ss secs)"

definition parse_elf_sections :: "bytes \<Rightarrow> bool \<Rightarrow> nat \<Rightarrow> sections option option" where
  "parse_elf_sections f mem_ok elf = do {
     shnum \<leftarrow> rd16 f (elf + 48);
     shentsize \<leftarrow> rd16 f (elf + 46);
     if shnum = 0 \<or> shentsize < 40 then Some None
     else if \<not> mem_ok then Some None
     else do {
       shoff \<leftarrow> rd32 f (elf + 32);
       shdrs \<leftarrow> read_shdrs f (elf + unat shoff) (unat shentsize) (unat shnum);
       shstrndx \<leftarrow> rd16 f (elf + 50);
       let strtab = (if shstrndx < shnum \<and> 0 < sh_size (shdrs ! unat shstrndx)
                     then Some (elf + unat (sh_offset (shdrs ! unat shstrndx))) else None);
       map_option Some (name_sections f elf strtab shdrs no_sections) } }"

subsection \<open>Address ranges\<close>

record arange =
  ar_segment :: u16
  ar_address :: u32
  ar_length :: u32

fun le_bytes :: "bytes \<Rightarrow> nat \<Rightarrow> nat \<Rightarrow> nat \<Rightarrow> u32 \<Rightarrow> u32 option" where
  "le_bytes f p i 0 acc = Some acc"
| "le_bytes f p i (Suc n) acc =
    (if i < 4 \<and> p < length f then le_bytes f (p + 1) (i + 1) n (acc OR push_bit (8 * i) (ucast (f ! p))) else None)"

text \<open>A range of a unit, and the position behind it.\<close>

definition read_range :: "bytes \<Rightarrow> nat \<Rightarrow> nat \<Rightarrow> nat \<Rightarrow> (u32 \<times> u32 \<times> u32 \<times> nat) option" where
  "read_range f addr_size seg_size p = do {
     a \<leftarrow> le_bytes f p 0 addr_size 0;
     s \<leftarrow> le_bytes f (p + addr_size) 0 seg_size 0;
     l \<leftarrow> le_bytes f (p + addr_size + seg_size) 0 addr_size 0;
     Some (a, s, l, p + addr_size + seg_size + addr_size) }"

lemma read_range_moves: "read_range f as ss p = Some (a, s, l, q) \<Longrightarrow> \<not> (a = 0 \<and> s = 0 \<and> l = 0) \<Longrightarrow> p < q"
  by (cases "as = 0 \<and> ss = 0") (auto simp: read_range_def split: bind_splits)

lemma read_range_room: "read_range f as ss p = Some (a, s, l, q) \<Longrightarrow> q = p + as + ss + as"
  by (auto simp: read_range_def split: bind_splits)

lemma read_range_decreases:
  "\<not> unit_end < p + as + ss + as \<Longrightarrow> read_range f as ss p = Some (a, s, l, q) \<Longrightarrow> a = 0 \<longrightarrow> s = 0 \<longrightarrow> l \<noteq> 0 \<Longrightarrow>
    Suc unit_end - q < Suc unit_end - p"
  using read_range_moves [of f as ss p a s l q] read_range_room [of f as ss p a s l q] by auto

text \<open>The two passes over a unit: counting its ranges, and storing them while there is room.\<close>

function count_ranges :: "bytes \<Rightarrow> nat \<Rightarrow> nat \<Rightarrow> nat \<Rightarrow> nat \<Rightarrow> nat \<Rightarrow> nat option" where
  "count_ranges f as ss unit_end p n =
    (if unit_end < p + as + ss + as then Some n
     else case read_range f as ss p of
         None \<Rightarrow> None
       | Some (a, s, l, q) \<Rightarrow>
           if a = 0 \<and> s = 0 \<and> l = 0 then Some n else count_ranges f as ss unit_end q (n + 1))"
  by pat_completeness auto

termination by (relation "measure (\<lambda>(f, as, ss, e, p, n). Suc e - p)") (use read_range_decreases in auto)

declare count_ranges.simps [simp del]

definition as_range :: "u32 \<Rightarrow> u32 \<Rightarrow> u32 \<Rightarrow> arange" where
  "as_range a s l = \<lparr>ar_segment = ucast s, ar_address = a, ar_length = l\<rparr>"

function store_ranges :: "bytes \<Rightarrow> nat \<Rightarrow> nat \<Rightarrow> nat \<Rightarrow> nat \<Rightarrow> nat \<Rightarrow> arange list \<Rightarrow> arange list option" where
  "store_ranges f as ss unit_end cap p rs =
    (if unit_end < p + as + ss + as \<or> cap \<le> length rs then Some rs
     else case read_range f as ss p of
         None \<Rightarrow> None
       | Some (a, s, l, q) \<Rightarrow>
           if a = 0 \<and> s = 0 \<and> l = 0 then Some rs
           else store_ranges f as ss unit_end cap q (rs @ [as_range a s l]))"
  by pat_completeness auto

termination by (relation "measure (\<lambda>(f, as, ss, e, c, p, rs). Suc e - p)") (use read_range_decreases in auto)

declare store_ranges.simps [simp del]

text \<open>The units of a section that ends at \<open>e\<close>: a length, and the bytes it counts.\<close>

function count_range_units :: "bytes \<Rightarrow> nat \<Rightarrow> nat \<Rightarrow> nat \<Rightarrow> nat option" where
  "count_range_units f e cursor n =
    (if e < cursor + 12 then Some n
     else case read_u32_le f cursor of
         None \<Rightarrow> None
       | Some total_length \<Rightarrow>
           if total_length = 0 \<or> e < cursor + 4 + unat total_length then Some n
           else case rd8 f (cursor + 10) of None \<Rightarrow> None | Some as \<Rightarrow> case rd8 f (cursor + 11) of None \<Rightarrow> None | Some ss \<Rightarrow>
             (case count_ranges f (unat as) (unat ss) (cursor + 4 + unat total_length) (cursor + 12) n of
                None \<Rightarrow> None
              | Some n' \<Rightarrow> count_range_units f e (cursor + 4 + unat total_length) n'))"
  by pat_completeness auto

termination by (relation "measure (\<lambda>(f, e, c, n). e - c)") auto

declare count_range_units.simps [simp del]

function store_range_units :: "bytes \<Rightarrow> nat \<Rightarrow> nat \<Rightarrow> nat \<Rightarrow> arange list \<Rightarrow> arange list option" where
  "store_range_units f e cap cursor rs =
    (if e < cursor + 12 \<or> cap \<le> length rs then Some rs
     else case read_u32_le f cursor of
         None \<Rightarrow> None
       | Some total_length \<Rightarrow>
           if total_length = 0 \<or> e < cursor + 4 + unat total_length then Some rs
           else case rd8 f (cursor + 10) of None \<Rightarrow> None | Some as \<Rightarrow> case rd8 f (cursor + 11) of None \<Rightarrow> None | Some ss \<Rightarrow>
             (case store_ranges f (unat as) (unat ss) (cursor + 4 + unat total_length) cap (cursor + 12) rs of
                None \<Rightarrow> None
              | Some rs' \<Rightarrow> store_range_units f e cap (cursor + 4 + unat total_length) rs'))"
  by pat_completeness auto

termination by (relation "measure (\<lambda>(f, e, cap, c, rs). e - c)") auto

declare store_range_units.simps [simp del]

text \<open>The table has the counted size and is cleared; a result of \<open>-1\<close> leaves it as it is.\<close>

definition parse_debug_aranges :: "bytes \<Rightarrow> bool \<Rightarrow> (nat \<times> u32) option \<Rightarrow> arange list option option" where
  "parse_debug_aranges f mem_ok sec =
    (case sec of
       None \<Rightarrow> Some None
     | Some (pos, sz) \<Rightarrow>
         if sz < 12 then Some None
         else do {
           n \<leftarrow> count_range_units f (pos + unat sz) pos 0;
           if n = 0 then Some (Some [])
           else if \<not> mem_ok then Some None
           else do {
             rs \<leftarrow> store_range_units f (pos + unat sz) n pos [];
             Some (Some (rs @ replicate (n - length rs) (as_range 0 0 0))) } })"

subsection \<open>The second pass fills the table\<close>

lemma count_ranges_stop: "e < p + as + ss + as \<Longrightarrow> count_ranges f as ss e p n = Some n"
  "\<not> e < p + as + ss + as \<Longrightarrow> read_range f as ss p = None \<Longrightarrow> count_ranges f as ss e p n = None"
  "\<not> e < p + as + ss + as \<Longrightarrow> read_range f as ss p = Some (0, 0, 0, q) \<Longrightarrow> count_ranges f as ss e p n = Some n"
  by (subst count_ranges.simps; simp)+

lemma count_ranges_step: "\<not> e < p + as + ss + as \<Longrightarrow> read_range f as ss p = Some (a, s, l, q) \<Longrightarrow>
    \<not> (a = 0 \<and> s = 0 \<and> l = 0) \<Longrightarrow> count_ranges f as ss e p n = count_ranges f as ss e q (n + 1)"
  by (subst count_ranges.simps) auto

lemma store_ranges_stop: "e < p + as + ss + as \<Longrightarrow> store_ranges f as ss e cap p rs = Some rs"
  "\<not> e < p + as + ss + as \<Longrightarrow> length rs < cap \<Longrightarrow> read_range f as ss p = Some (0, 0, 0, q) \<Longrightarrow>
    store_ranges f as ss e cap p rs = Some rs"
  by (subst store_ranges.simps; simp)+

lemma store_ranges_full: "cap \<le> length rs \<Longrightarrow> store_ranges f as ss e cap p rs = Some rs"
  by (subst store_ranges.simps) simp

lemma store_ranges_step: "\<not> e < p + as + ss + as \<Longrightarrow> length rs < cap \<Longrightarrow> read_range f as ss p = Some (a, s, l, q) \<Longrightarrow>
    \<not> (a = 0 \<and> s = 0 \<and> l = 0) \<Longrightarrow>
    store_ranges f as ss e cap p rs = store_ranges f as ss e cap q (rs @ [as_range a s l])"
  by (subst store_ranges.simps) auto

text \<open>Whatever the first pass counts on top of the ranges stored so far, the second pass stores, within the table.\<close>

lemma ranges_passes:
  "count_ranges f as ss e p (length rs) = Some n \<Longrightarrow> n \<le> cap \<Longrightarrow>
    \<exists>rs'. store_ranges f as ss e cap p rs = Some rs' \<and> length rs' = n \<and> length rs \<le> n"
proof (induction f as ss e p "length rs" arbitrary: rs rule: count_ranges.induct)
  case (1 f as ss e p)
  show ?case
  proof (cases "e < p + as + ss + as")
    case True
    then show ?thesis using 1(2) by (simp add: count_ranges_stop store_ranges_stop)
  next
    case False
    show ?thesis
    proof (cases "read_range f as ss p")
      case None
      then show ?thesis using 1(2) False by (simp add: count_ranges_stop)
    next
      case (Some r)
      obtain a s l q where r: "read_range f as ss p = Some (a, s, l, q)" using Some by (cases r) auto
      show ?thesis
      proof (cases "a = 0 \<and> s = 0 \<and> l = 0")
        case True
        then have n: "n = length rs" using 1(2) r count_ranges_stop(3) [OF False, of f q] by simp
        then show ?thesis using r True store_ranges_stop(2) [OF False, of rs cap f q] store_ranges_full [of cap rs]
          by (cases "length rs < cap") simp_all
      next
        case ne: False
        let ?rs = "rs @ [as_range a s l]"
        have c: "count_ranges f as ss e q (length ?rs) = Some n"
          using 1(2) count_ranges_step [OF False r ne, of "length rs"] by simp
        have "length rs + 1 = length ?rs" by simp
        from 1(1) [OF False r refl refl refl ne this c 1(3)]
        obtain rs' where rs': "store_ranges f as ss e cap q ?rs = Some rs'" "length rs' = n" "length ?rs \<le> n" by blast
        then have "length rs < cap" using 1(3) by simp
        then show ?thesis using rs' store_ranges_step [OF False _ r ne, of rs cap] by simp
      qed
    qed
  qed
qed

lemma count_ranges_le: "count_ranges f as ss e p k = Some n \<Longrightarrow> k \<le> n"
  using ranges_passes [of f as ss e p "replicate k undefined" n n] by auto

lemma count_range_units_stop: "e < cursor + 12 \<Longrightarrow> count_range_units f e cursor k = Some k"
  "\<not> e < cursor + 12 \<Longrightarrow> read_u32_le f cursor = Some t \<Longrightarrow> t = 0 \<or> e < cursor + 4 + unat t \<Longrightarrow>
    count_range_units f e cursor k = Some k"
  by (subst count_range_units.simps; auto)+

lemma store_range_units_stop: "e < cursor + 12 \<or> cap \<le> length rs \<Longrightarrow> store_range_units f e cap cursor rs = Some rs"
  "\<not> e < cursor + 12 \<Longrightarrow> length rs < cap \<Longrightarrow> read_u32_le f cursor = Some t \<Longrightarrow> t = 0 \<or> e < cursor + 4 + unat t \<Longrightarrow>
    store_range_units f e cap cursor rs = Some rs"
  by (subst store_range_units.simps; auto)+

lemma store_range_units_step:
  "\<not> e < cursor + 12 \<Longrightarrow> length rs < cap \<Longrightarrow> read_u32_le f cursor = Some t \<Longrightarrow> \<not> (t = 0 \<or> e < cursor + 4 + unat t) \<Longrightarrow>
    rd8 f (cursor + 10) = Some as \<Longrightarrow> rd8 f (cursor + 11) = Some ss \<Longrightarrow>
    store_ranges f (unat as) (unat ss) (cursor + 4 + unat t) cap (cursor + 12) rs = Some rs' \<Longrightarrow>
    store_range_units f e cap cursor rs = store_range_units f e cap (cursor + 4 + unat t) rs'"
  by (subst store_range_units.simps) auto

text \<open>The cases of a count that succeeds.\<close>

lemma count_range_units_cases:
  assumes "count_range_units f e cursor k = Some n"
  obtains (stop) "n = k" "e < cursor + 12"
  | (len) t where "n = k" "\<not> e < cursor + 12" "read_u32_le f cursor = Some t" "t = 0 \<or> e < cursor + 4 + unat t"
  | (step) t as ss k' where "\<not> e < cursor + 12" "read_u32_le f cursor = Some t" "\<not> (t = 0 \<or> e < cursor + 4 + unat t)"
      "rd8 f (cursor + 10) = Some as" "rd8 f (cursor + 11) = Some ss"
      "count_ranges f (unat as) (unat ss) (cursor + 4 + unat t) (cursor + 12) k = Some k'"
      "count_range_units f e (cursor + 4 + unat t) k' = Some n"
  using assms by (subst (asm) count_range_units.simps) (auto split: if_splits option.splits)

lemma count_range_units_le: "count_range_units f e cursor k = Some n \<Longrightarrow> k \<le> n"
proof (induction "e - cursor" arbitrary: cursor k rule: less_induct)
  case less
  from less.prems show ?case
  proof (cases rule: count_range_units_cases)
    case (step t as ss k')
    then have "0 < unat t" by (simp add: unat_gt_0)
    then have "e - (cursor + 4 + unat t) < e - cursor" using step(1) by simp
    then have "k' \<le> n" using less.hyps step(7) by blast
    then show ?thesis using count_ranges_le [OF step(6)] by simp
  qed auto
qed

lemma range_units_passes:
  "count_range_units f e cursor (length rs) = Some n \<Longrightarrow> n \<le> cap \<Longrightarrow>
    \<exists>rs'. store_range_units f e cap cursor rs = Some rs' \<and> length rs' = n"
proof (induction "e - cursor" arbitrary: cursor rs rule: less_induct)
  case less
  from less.prems(1) show ?case
  proof (cases rule: count_range_units_cases)
    case stop
    then show ?thesis by (simp add: store_range_units_stop(1))
  next
    case (len t)
    then show ?thesis using store_range_units_stop [where e = e and cursor = cursor and cap = cap and rs = rs and f = f] by (cases "length rs < cap") auto
  next
    case (step t as ss k')
    have k': "length rs \<le> k'" "k' \<le> n" using count_ranges_le [OF step(6)] count_range_units_le [OF step(7)] .
    show ?thesis
    proof (cases "length rs < cap")
      case False
      then show ?thesis using k' less.prems(2) store_range_units_stop(1) [where e = e and cursor = cursor and cap = cap and rs = rs and f = f] by auto
    next
      case True
      have "k' \<le> cap" using k' less.prems(2) by simp
      from ranges_passes [OF step(6) this] obtain rs1 where
        r1: "store_ranges f (unat as) (unat ss) (cursor + 4 + unat t) cap (cursor + 12) rs = Some rs1" "length rs1 = k'" by blast
      have "e - (cursor + 4 + unat t) < e - cursor" using step(1) by simp
      from less.hyps [OF this, of rs1] show ?thesis
        using step r1 less.prems(2) store_range_units_step [OF step(1) True step(2-5) r1(1)] by simp
    qed
  qed
qed

text \<open>So the table that is allocated for the counted ranges is filled exactly, whatever the section holds.\<close>

lemma parse_debug_aranges_exact:
  assumes "12 \<le> sz" "count_range_units f (pos + unat sz) pos 0 = Some n" "0 < n"
  shows "\<exists>rs. parse_debug_aranges f True (Some (pos, sz)) = Some (Some rs) \<and> length rs = n \<and>
    store_range_units f (pos + unat sz) n pos [] = Some rs"
proof -
  obtain rs where "store_range_units f (pos + unat sz) n pos [] = Some rs" "length rs = n"
    using range_units_passes [of f "pos + unat sz" pos "[]" n n] assms(2) by auto
  then show ?thesis using assms by (simp add: parse_debug_aranges_def not_less)
qed

subsection \<open>The readers of numbers invert the encoding\<close>

fun enc_uleb128 :: "nat \<Rightarrow> bytes" where
  "enc_uleb128 n = (if n < 128 then [of_nat n] else of_nat (n mod 128 + 128) # enc_uleb128 (n div 128))"

declare enc_uleb128.simps [simp del]

function enc_sleb128 :: "int \<Rightarrow> bytes" where
  "enc_sleb128 i =
    (if - 64 \<le> i \<and> i < 64 then [of_int (i mod 128)] else of_int (i mod 128 + 128) # enc_sleb128 (i div 128))"
  by pat_completeness auto

termination by (relation "measure (\<lambda>i. nat (if i < 0 then - i else i))") auto

declare enc_sleb128.simps [simp del]

lemma leb_loop_last: "p < length f \<Longrightarrow> s < 32 \<Longrightarrow> f ! p AND 0x80 = 0 \<Longrightarrow>
    leb_loop f p r s = Some (r OR push_bit s (ucast (f ! p AND 0x7F)), p + 1, s + 7, f ! p)"
  by (subst leb_loop.simps) (simp add: Let_def)

lemma leb_loop_more: "p < length f \<Longrightarrow> s < 32 \<Longrightarrow> f ! p AND 0x80 \<noteq> 0 \<Longrightarrow>
    leb_loop f p r s = leb_loop f (p + 1) (r OR push_bit s (ucast (f ! p AND 0x7F))) (s + 7)"
  by (subst leb_loop.simps) (simp add: Let_def)

lemma mod_128: "n mod 128 = take_bit 7 n" "n div 128 = drop_bit 7 n" for n :: nat
  by (simp_all add: take_bit_eq_mod drop_bit_eq_div)

lemma imod_128: "i mod 128 = take_bit 7 i" "i div 128 = drop_bit 7 i" for i :: int
  by (simp_all add: take_bit_eq_mod drop_bit_eq_div)

lemma u8_and_80: "(b :: u8) AND 0x80 = 0 \<longleftrightarrow> \<not> bit b 7"
  using and_exp_eq_0_iff_not_bit [of b 7] by simp

lemma u8_and_40: "(b :: u8) AND 0x40 = 0 \<longleftrightarrow> \<not> bit b 6"
  using and_exp_eq_0_iff_not_bit [of b 6] by simp

text \<open>A byte of the encoding: seven bits of the number, and the mark that more follow.\<close>

lemma leb_byte:
  fixes n :: nat
  shows "(of_nat (n mod 128 + 128) :: u8) AND 0x7F = of_nat (n mod 128)" "(of_nat (n mod 128 + 128) :: u8) AND 0x80 \<noteq> 0"
    "n < 128 \<Longrightarrow> (of_nat n :: u8) AND 0x7F = of_nat n" "n < 128 \<Longrightarrow> (of_nat n :: u8) AND 0x80 = 0"
proof -
  have t: "(of_nat k :: u8) AND 0x7F = of_nat (k mod 128)" for k
    by (simp add: and_mask_nums mod_128 take_bit_of_nat)
  have "(n mod 128 + 128) div 128 = 1" by (simp add: div_add_self2)
  then have odd: "odd ((n mod 128 + 128) div 128)" by simp
  show "(of_nat (n mod 128 + 128) :: u8) AND 0x7F = of_nat (n mod 128)" unfolding t by simp
  have b: "bit (of_nat k :: u8) 7 = bit k 7" for k by (simp add: bit_of_nat_iff)
  have "bit (of_nat (n mod 128 + 128) :: u8) 7 = bit (n mod 128 + 128) 7" by (rule b)
  also have "\<dots>" using odd by (simp add: bit_iff_odd)
  finally show "(of_nat (n mod 128 + 128) :: u8) AND 0x80 \<noteq> 0" by (simp add: u8_and_80)
  show "n < 128 \<Longrightarrow> (of_nat n :: u8) AND 0x7F = of_nat n" unfolding t by simp
  show "n < 128 \<Longrightarrow> (of_nat n :: u8) AND 0x80 = 0"
    by (simp only: u8_and_80 b) (simp add: bit_iff_odd)
qed

lemma ucast_small_u8: "k < 256 \<Longrightarrow> (ucast (of_nat k :: u8) :: u32) = of_nat k"
  by (rule word_unat_eq_iff [THEN iffD2]) (simp add: unat_of_nat_u8 unat_of_nat_u32)

lemma push_split: "push_bit s (of_nat (n mod 128)) OR push_bit (s + 7) (of_nat (n div 128)) = (push_bit s (of_nat n) :: u32)"
proof (rule bit_word_eqI)
  fix i
  have "7 + (i - (s + 7)) = i - s" if "s + 7 \<le> i" using that by simp
  then show "bit (push_bit s (of_nat (n mod 128)) OR push_bit (s + 7) (of_nat (n div 128)) :: u32) i
      = bit (push_bit s (of_nat n) :: u32) i"
    unfolding mod_128 by (cases "s + 7 \<le> i") (auto simp: bit_simps)
qed

lemma power_numeral_128: "(2 :: nat) ^ 7 = 128"
  by simp

lemma power_numeral_128i: "(2 :: int) ^ 7 = 128"
  by simp

lemma uleb_loop_enc:
  "s < 32 \<Longrightarrow> n < 2 ^ (32 - s) \<Longrightarrow>
    \<exists>b. leb_loop (pre @ enc_uleb128 n @ r) (length pre) acc s
      = Some (acc OR push_bit s (of_nat n), length pre + length (enc_uleb128 n), s + 7 * length (enc_uleb128 n), b)"
proof (induction n arbitrary: pre acc s rule: enc_uleb128.induct)
  case (1 n)
  show ?case
  proof (cases "n < 128")
    case True
    then have "enc_uleb128 n = [of_nat n]" by (simp add: enc_uleb128.simps)
    then show ?thesis using True "1.prems"(1) leb_byte(3,4) [OF True]
        leb_loop_last [of "length pre" "pre @ enc_uleb128 n @ r" s acc]
      by (simp add: ucast_small_u8)
  next
    case False
    let ?b = "of_nat (n mod 128 + 128) :: u8"
    have e: "enc_uleb128 n = ?b # enc_uleb128 (n div 128)" using False by (subst enc_uleb128.simps) simp
    have s: "s + 7 < 32"
    proof (rule ccontr)
      assume "\<not> s + 7 < 32"
      then have "(2 :: nat) ^ (32 - s) \<le> 2 ^ 7" by (intro power_increasing) auto
      then show False using "1.prems"(2) False by simp
    qed
    have "32 - s = 7 + (32 - (s + 7))" using s by simp
    then have "2 ^ (32 - s) = (128 :: nat) * 2 ^ (32 - (s + 7))" by (metis power_add power_numeral_128)
    then have n: "n div 128 < 2 ^ (32 - (s + 7))" using "1.prems"(2) by (simp add: less_mult_imp_div_less mult.commute)
    let ?acc = "acc OR push_bit s (of_nat (n mod 128))"
    have l: "leb_loop (pre @ enc_uleb128 n @ r) (length pre) acc s
        = leb_loop (pre @ enc_uleb128 n @ r) (length pre + 1) ?acc (s + 7)"
      using leb_loop_more [of "length pre" "pre @ enc_uleb128 n @ r" s acc] leb_byte(1,2) [of n] "1.prems"(1)
      by (simp add: e ucast_small_u8)
    from "1.IH" [OF False s n, of "pre @ [?b]" ?acc] show ?thesis
      by (simp add: l) (simp add: e push_split or.assoc add.assoc)
  qed
qed

lemma read_uleb128_enc: "n < 2 ^ 32 \<Longrightarrow>
    read_uleb128 (pre @ enc_uleb128 n @ r) (length pre) = Some (of_nat n, length pre + length (enc_uleb128 n))"
  using uleb_loop_enc [of 0 n pre r 0] by (auto simp: read_uleb128_def)

lemma int_bits_above: "- (2 ^ m) \<le> i \<Longrightarrow> i < 2 ^ m \<Longrightarrow> m \<le> j \<Longrightarrow> bit i j \<longleftrightarrow> i < (0 :: int)"
proof -
  assume a: "- (2 ^ m) \<le> i" "i < 2 ^ m" "m \<le> j"
  then have p: "(2 :: int) ^ m \<le> 2 ^ j" by simp
  show ?thesis
  proof (cases "i < 0")
    case True
    have "0 \<le> i + 2 ^ j" using a(1) p by linarith
    then have "i div 2 ^ j = - 1" using True by (intro int_div_pos_eq [where r = "i + 2 ^ j"]) auto
    then show ?thesis using True by (simp add: bit_iff_odd)
  next
    case False
    moreover have "i < 2 ^ j" using a(2) p by linarith
    ultimately have "i div 2 ^ j = 0" by (intro div_pos_pos_trivial) auto
    then show ?thesis using False by (simp add: bit_iff_odd)
  qed
qed

lemma push_split_int:
  "push_bit s (of_int (i mod 128)) OR push_bit (s + 7) (of_int (take_bit m (i div 128)))
    = (push_bit s (of_int (take_bit (7 + m) i)) :: u32)"
proof (rule bit_word_eqI)
  fix j
  have "7 + (j - (s + 7)) = j - s" if "s + 7 \<le> j" using that by simp
  then show "bit (push_bit s (of_int (i mod 128)) OR push_bit (s + 7) (of_int (take_bit m (i div 128))) :: u32) j
      = bit (push_bit s (of_int (take_bit (7 + m) i)) :: u32) j"
    unfolding imod_128 by (cases "s + 7 \<le> j") (auto simp: bit_simps)
qed

lemma leb_byte_int:
  fixes i :: int
  shows "(of_int (i mod 128 + 128) :: u8) AND 0x7F = of_int (i mod 128)" "(of_int (i mod 128 + 128) :: u8) AND 0x80 \<noteq> 0"
    "(of_int (i mod 128) :: u8) AND 0x7F = of_int (i mod 128)" "(of_int (i mod 128) :: u8) AND 0x80 = 0"
    "(ucast (of_int (i mod 128) :: u8) :: u32) = of_int (i mod 128)"
proof -
  define n where "n = nat (i mod 128)"
  have n: "n < 128" "i mod 128 = int n" by (simp_all add: n_def nat_less_iff)
  have c: "of_int (int n + 128) = (of_nat (n mod 128 + 128) :: u8)" using n(1) by simp
  show "(of_int (i mod 128 + 128) :: u8) AND 0x7F = of_int (i mod 128)" "(of_int (i mod 128 + 128) :: u8) AND 0x80 \<noteq> 0"
    unfolding n(2) c using leb_byte(1,2) [of n] n(1) by simp_all
  show "(of_int (i mod 128) :: u8) AND 0x7F = of_int (i mod 128)" "(of_int (i mod 128) :: u8) AND 0x80 = 0"
    "(ucast (of_int (i mod 128) :: u8) :: u32) = of_int (i mod 128)"
    unfolding n(2) using leb_byte(3,4) [OF n(1)] n(1) ucast_small_u8 [of n] by simp_all
qed

lemma sign_byte: "- 64 \<le> i \<Longrightarrow> i < 64 \<Longrightarrow> (of_int (i mod 128) :: u8) AND 0x40 \<noteq> 0 \<longleftrightarrow> i < 0"
  using int_bits_above [of 6 i 6] by (simp add: u8_and_40 imod_128 bit_simps)

lemma sleb_loop_enc:
  "s < 32 \<Longrightarrow> - (2 ^ (31 - s)) \<le> i \<Longrightarrow> i < 2 ^ (31 - s) \<Longrightarrow> m = 7 * length (enc_sleb128 i) \<Longrightarrow>
    \<exists>b. leb_loop (pre @ enc_sleb128 i @ r) (length pre) acc s
        = Some (acc OR push_bit s (of_int (take_bit m i)), length pre + length (enc_sleb128 i), s + m, b) \<and>
      (b AND 0x40 \<noteq> 0 \<longleftrightarrow> i < 0) \<and> - (2 ^ (m - 1)) \<le> i \<and> i < 2 ^ (m - 1)"
proof (induction i arbitrary: pre acc s m rule: enc_sleb128.induct)
  case (1 i)
  show ?case
  proof (cases "- 64 \<le> i \<and> i < 64")
    case True
    then have e: "enc_sleb128 i = [of_int (i mod 128)]" by (simp add: enc_sleb128.simps)
    then have m: "m = 7" using "1.prems"(4) by simp
    show ?thesis using True "1.prems"(1) leb_byte_int(3,4,5) [of i] sign_byte [of i]
        leb_loop_last [of "length pre" "pre @ enc_sleb128 i @ r" s acc]
      unfolding m by (simp add: e flip: imod_128)
  next
    case False
    let ?b = "of_int (i mod 128 + 128) :: u8" and ?j = "i div 128"
    have e: "enc_sleb128 i = ?b # enc_sleb128 ?j" using False by (subst enc_sleb128.simps) simp
    have s: "s + 7 < 32"
    proof (rule ccontr)
      assume "\<not> s + 7 < 32"
      then have "(2 :: int) ^ (31 - s) \<le> 2 ^ 6" by (intro power_increasing) auto
      then show False using "1.prems"(2,3) False by simp
    qed
    have "31 - s = 7 + (31 - (s + 7))" using s by simp
    then have pw: "(2 :: int) ^ (31 - s) = 128 * 2 ^ (31 - (s + 7))" by (metis power_add power_numeral_128i)
    have j: "- (2 ^ (31 - (s + 7))) \<le> ?j" "?j < 2 ^ (31 - (s + 7))" using "1.prems"(2,3) pw by linarith+
    let ?acc = "acc OR push_bit s (of_int (i mod 128))"
    have l: "leb_loop (pre @ enc_sleb128 i @ r) (length pre) acc s
        = leb_loop (pre @ enc_sleb128 i @ r) (length pre + 1) ?acc (s + 7)"
      using leb_loop_more [of "length pre" "pre @ enc_sleb128 i @ r" s acc] leb_byte_int(1,2,5) [of i] "1.prems"(1)
      by (simp add: e)
    let ?m = "7 * length (enc_sleb128 ?j)"
    obtain b where IH: "leb_loop ((pre @ [?b]) @ enc_sleb128 ?j @ r) (length (pre @ [?b])) ?acc (s + 7)
        = Some (?acc OR push_bit (s + 7) (of_int (take_bit ?m ?j)), length (pre @ [?b]) + length (enc_sleb128 ?j), s + 7 + ?m, b)"
      "b AND 0x40 \<noteq> 0 \<longleftrightarrow> ?j < 0" "- (2 ^ (?m - 1)) \<le> ?j" "?j < 2 ^ (?m - 1)"
      using "1.IH" [OF False s j refl, of "pre @ [?b]" ?acc] by blast
    have m: "m = 7 + ?m" using "1.prems"(4) e by simp
    have "enc_sleb128 ?j \<noteq> []" by (subst enc_sleb128.simps) simp
    then have "m - 1 = 7 + (?m - 1)" using m by (cases "enc_sleb128 ?j") auto
    then have mp: "(2 :: int) ^ (m - 1) = 128 * 2 ^ (?m - 1)" by (metis power_add power_numeral_128i)
    have bounds: "- (2 ^ (m - 1)) \<le> i" "i < 2 ^ (m - 1)" unfolding mp using IH(3,4) by linarith+
    have "?j < 0 \<longleftrightarrow> i < 0" by linarith
    then show ?thesis using IH(1,2) bounds unfolding l
      by (simp add: e m push_split_int or.assoc add.assoc)
  qed
qed

lemma read_sleb128_enc:
  assumes "- (2 ^ 31) \<le> i" "i < 2 ^ 31"
  shows "read_sleb128 (pre @ enc_sleb128 i @ r) (length pre) = Some (of_int i, length pre + length (enc_sleb128 i))"
proof -
  let ?m = "7 * length (enc_sleb128 i)"
  obtain b where l: "leb_loop (pre @ enc_sleb128 i @ r) (length pre) 0 0
        = Some (of_int (take_bit ?m i), length pre + length (enc_sleb128 i), ?m, b)"
      and b: "b AND 0x40 \<noteq> 0 \<longleftrightarrow> i < 0" and i: "- (2 ^ (?m - 1)) \<le> i" "i < 2 ^ (?m - 1)"
    using sleb_loop_enc [of 0 i ?m pre r 0] assms by auto
  have above: "?m \<le> j \<Longrightarrow> bit i j \<longleftrightarrow> i < 0" for j using int_bits_above [OF i, of j] by simp
  have "(if ?m < 32 \<and> i < 0 then of_int (take_bit ?m i) OR - push_bit ?m 1 else of_int (take_bit ?m i)) = (of_int i :: u32)"
  proof (rule bit_word_eqI)
    fix j :: nat
    assume j: "j < LENGTH(32)"
    have "- push_bit ?m 1 = (NOT (mask ?m) :: u32)" by (simp add: push_bit_eq_mult minus_exp_eq_not_mask)
    then show "bit (if ?m < 32 \<and> i < 0 then of_int (take_bit ?m i) OR - push_bit ?m 1 else of_int (take_bit ?m i) :: u32) j
        = bit (of_int i :: u32) j"
      using j above [of j] by (cases "j < ?m") (auto simp: bit_simps)
  qed
  then show ?thesis using l b by (simp add: read_sleb128_def)
qed

end
