(* ===== verification/DwarfLine.thy ===== *)
theory DwarfLine
  imports Dwarf
begin

section \<open>Debug information: the line table (\<^verbatim>\<open>debugger/dwarf_info.c\<close>)\<close>

text \<open>
  The \<^verbatim>\<open>.debug_line\<close> section is a list of units, each with a header, the names of its source files and a program
  for a small machine whose rows are the line table.  A first pass over all units counts rows and names, a second pass
  fills tables of the counted sizes.  Signed 32-bit numbers are the words of their bits.
\<close>

lemma leb_loop_moves: "leb_loop f p r s = Some (v, q, s', b) \<Longrightarrow> p < q"
proof (induction f p r s rule: leb_loop.induct)
  case (1 f p r s)
  have c: "p < length f \<and> s < 32" using "1.prems" by (subst (asm) leb_loop.simps) (auto split: if_splits)
  show ?case
  proof (cases "f ! p AND 0x80 = 0")
    case True
    then show ?thesis using "1.prems" leb_loop_last [of p f s r] c by simp
  next
    case False
    then show ?thesis using "1.prems" "1.IH" [OF c refl False] leb_loop_more [of p f s r] c by simp
  qed
qed

lemma read_uleb128_moves: "read_uleb128 f p = Some (v, q) \<Longrightarrow> p < q"
  by (auto simp: read_uleb128_def dest: leb_loop_moves)

lemma read_sleb128_moves: "read_sleb128 f p = Some (v, q) \<Longrightarrow> p < q"
  by (auto simp: read_sleb128_def dest: leb_loop_moves)

subsection \<open>File names\<close>

text \<open>The bytes of a number are skipped without reading it, up to the end of the unit.\<close>

function skip_high :: "bytes \<Rightarrow> nat \<Rightarrow> nat \<Rightarrow> nat option" where
  "skip_high f e p =
    (if p < e then
       case rd8 f p of None \<Rightarrow> None | Some b \<Rightarrow> if b AND 0x80 \<noteq> 0 then skip_high f e (p + 1) else Some p
     else Some p)"
  by pat_completeness auto

termination by (relation "measure (\<lambda>(f, e, p). e - p)") auto

declare skip_high.simps [simp del]

definition skip_leb :: "bytes \<Rightarrow> nat \<Rightarrow> nat \<Rightarrow> nat option" where
  "skip_leb f e p = map_option (\<lambda>q. if q < e then q + 1 else q) (skip_high f e p)"

lemma skip_high_le: "skip_high f e p = Some q \<Longrightarrow> p \<le> q"
proof (induction f e p rule: skip_high.induct)
  case (1 f e p)
  then show ?case
    by (subst (asm) (2) skip_high.simps) (fastforce split: if_splits option.splits)
qed

lemma skip_leb_le: "skip_leb f e p = Some q \<Longrightarrow> p \<le> q"
  by (auto simp: skip_leb_def dest!: skip_high_le split: if_splits)

text \<open>The include directories: strings up to an empty one.\<close>

function skip_dirs :: "bytes \<Rightarrow> nat \<Rightarrow> nat \<Rightarrow> nat option" where
  "skip_dirs f e p =
    (if p < e then
       case cstr_at f p of None \<Rightarrow> None
       | Some s \<Rightarrow> if s = [] then Some (p + 1) else skip_dirs f e (p + length s + 1)
     else Some p)"
  by pat_completeness auto

termination by (relation "measure (\<lambda>(f, e, p). e - p)") auto

declare skip_dirs.simps [simp del]

text \<open>A file name and its three numbers.\<close>

definition after_name :: "bytes \<Rightarrow> nat \<Rightarrow> nat \<Rightarrow> bytes \<Rightarrow> nat option" where
  "after_name f e p s = do {
     q1 \<leftarrow> skip_leb f e (p + length s + 1);
     q2 \<leftarrow> skip_leb f e q1;
     skip_leb f e q2 }"

lemma after_name_moves: "after_name f e p s = Some q \<Longrightarrow> p < q"
  by (auto simp: after_name_def split: bind_splits dest!: skip_leb_le)

function count_names :: "bytes \<Rightarrow> nat \<Rightarrow> nat \<Rightarrow> nat \<Rightarrow> nat option" where
  "count_names f e p n =
    (if p < e then
       case cstr_at f p of None \<Rightarrow> None
       | Some s \<Rightarrow>
           if s = [] then Some n
           else case after_name f e p s of None \<Rightarrow> None | Some q \<Rightarrow> count_names f e q (n + 1)
     else Some n)"
  by pat_completeness auto

termination by (relation "measure (\<lambda>(f, e, p, n). e - p)") (auto dest!: after_name_moves)

declare count_names.simps [simp del]

text \<open>
  The second pass stores the names behind those of the units before (in the table of \<open>cap\<close> entries), up to 256 of
  them, and in the 256 entries of \<^verbatim>\<open>file_map\<close> the number that each local one has; a store outside is a fault.
\<close>

function store_names :: "bytes \<Rightarrow> nat \<Rightarrow> nat \<Rightarrow> nat \<Rightarrow> nat \<Rightarrow> bytes list \<Rightarrow> nat list \<Rightarrow> (bytes list \<times> nat list) option" where
  "store_names f e cap p local names fm =
    (if p < e then
       case cstr_at f p of None \<Rightarrow> None
       | Some s \<Rightarrow>
           if s = [] \<or> 256 \<le> local then Some (names, fm)
           else case after_name f e p s of None \<Rightarrow> None
             | Some q \<Rightarrow>
                 if length names < 256 then
                   (if length names < cap \<and> local + 1 < 256
                    then store_names f e cap q (local + 1) (names @ [s]) (fm[local + 1 := length names + 1])
                    else None)
                 else store_names f e cap q local names fm
     else Some (names, fm))"
  by pat_completeness auto

termination by (relation "measure (\<lambda>(f, e, cap, p, l, names, fm). e - p)") (auto dest!: after_name_moves)

declare store_names.simps [simp del]

definition names_start :: "bytes \<Rightarrow> nat \<Rightarrow> nat \<Rightarrow> nat option" where
  "names_start f e cursor = do {
     opcode_base \<leftarrow> rd8 f (cursor + 14);
     skip_dirs f e (cursor + 14 + unat opcode_base) }"

definition count_unit_files :: "bytes \<Rightarrow> nat \<Rightarrow> u32 \<Rightarrow> nat option" where
  "count_unit_files f cursor total_length = do {
     guard (cursor + 10 \<le> length f);
     p \<leftarrow> names_start f (cursor + 4 + unat total_length) cursor;
     count_names f (cursor + 4 + unat total_length) p 0 }"

definition parse_unit_files :: "bytes \<Rightarrow> nat \<Rightarrow> u32 \<Rightarrow> nat \<Rightarrow> bytes list \<Rightarrow> (bytes list \<times> nat list) option" where
  "parse_unit_files f cursor total_length cap names = do {
     guard (cursor + 10 \<le> length f);
     p \<leftarrow> names_start f (cursor + 4 + unat total_length) cursor;
     store_names f (cursor + 4 + unat total_length) cap p 0 names (replicate 256 0) }"

subsection \<open>The first pass over a program\<close>

fun skip_ulebs :: "bytes \<Rightarrow> nat \<Rightarrow> nat \<Rightarrow> nat option" where
  "skip_ulebs f p 0 = Some p"
| "skip_ulebs f p (Suc n) = (case read_uleb128 f p of None \<Rightarrow> None | Some (v, q) \<Rightarrow> skip_ulebs f q n)"

lemma skip_ulebs_le: "skip_ulebs f p n = Some q \<Longrightarrow> p \<le> q"
  by (induction n arbitrary: p) (auto split: option.splits dest!: read_uleb128_moves dest: order.strict_implies_order order_trans)

text \<open>The position behind the operands of a standard instruction; \<open>lens\<close> is the table of operand counts.\<close>

definition std_skip :: "bytes \<Rightarrow> nat \<Rightarrow> u8 \<Rightarrow> nat \<Rightarrow> nat option" where
  "std_skip f lens opcode p =
    (if opcode \<in> {2, 4, 5} then map_option snd (read_uleb128 f p)
     else if opcode = 3 then map_option snd (read_sleb128 f p)
     else if opcode \<in> {1, 6, 7, 8} then Some p
     else if opcode = 9 then move f p 2
     else do { n \<leftarrow> rd8 f (lens + unat opcode - 1); skip_ulebs f p (unat n) })"

lemma std_skip_le: "std_skip f lens opcode p = Some q \<Longrightarrow> p \<le> q"
  by (auto simp: std_skip_def move_def split: if_splits bind_splits
      dest!: read_uleb128_moves read_sleb128_moves skip_ulebs_le)

text \<open>An instruction: the rows it counts for, the position behind it, and whether the pass over the program ends.\<close>

definition count_op :: "bytes \<Rightarrow> nat \<Rightarrow> u8 \<Rightarrow> nat \<Rightarrow> nat \<Rightarrow> (nat \<times> nat \<times> bool) option" where
  "count_op f lens opcode_base e p = do {
     opcode \<leftarrow> rd8 f p;
     if opcode = 0 then do {
       (len, q) \<leftarrow> read_uleb128 f (p + 1);
       if e \<le> q then Some (0, q, True)
       else do {
         sub \<leftarrow> rd8 f q;
         if sub = 1 then Some (1, q + 1, False)
         else do { q' \<leftarrow> move f (q + 1) (unat (len - 1)); Some (0, q', False) } } }
     else if opcode < opcode_base then do { q \<leftarrow> std_skip f lens opcode (p + 1); Some (1, q, False) }
     else Some (1, p + 1, False) }"

lemma count_op_moves: "count_op f lens ob e p = Some (k, q, stop) \<Longrightarrow> p < q"
  by (auto simp: count_op_def move_def split: bind_splits if_splits dest!: read_uleb128_moves std_skip_le)

function count_program :: "bytes \<Rightarrow> nat \<Rightarrow> u8 \<Rightarrow> nat \<Rightarrow> nat \<Rightarrow> nat \<Rightarrow> nat option" where
  "count_program f lens ob e p n =
    (if p < e then
       case count_op f lens ob e p of None \<Rightarrow> None
       | Some (k, q, stop) \<Rightarrow> if stop then Some (n + k) else count_program f lens ob e q (n + k)
     else Some n)"
  by pat_completeness auto

termination by (relation "measure (\<lambda>(f, lens, ob, e, p, n). e - p)") (auto dest!: count_op_moves)

declare count_program.simps [simp del]

subsection \<open>The second pass over a program\<close>

record line_entry =
  le_segment :: u16
  le_address :: u32
  le_line :: u32
  le_file :: int
  le_end :: bool

record line_regs =
  r_address :: u32
  r_segment :: u16
  r_line :: u32
  r_file :: u32

record line_header =
  h_min_instr_len :: u8
  h_line_base :: u8
  h_line_range :: u8
  h_opcode_base :: u8
  h_lens :: nat

definition start_regs :: line_regs where
  "start_regs = \<lparr>r_address = 0, r_segment = 0, r_line = 1, r_file = 1\<rparr>"

definition global_file :: "nat list \<Rightarrow> u32 \<Rightarrow> int" where
  "global_file fm file = (if 0 < sint file \<and> sint file < 256 then int (fm ! unat file) else sint file)"

definition row :: "nat list \<Rightarrow> line_regs \<Rightarrow> bool \<Rightarrow> line_entry" where
  "row fm g end_sequence = \<lparr>le_segment = r_segment g, le_address = r_address g, le_line = r_line g,
     le_file = global_file fm (r_file g), le_end = end_sequence\<rparr>"

text \<open>An instruction: the row it stores if any, the registers and the position behind it.\<close>

definition ext_op :: "bytes \<Rightarrow> nat list \<Rightarrow> nat \<Rightarrow> line_regs \<Rightarrow> (line_entry option \<times> line_regs \<times> nat) option" where
  "ext_op f fm p g = do {
     (len0, q0) \<leftarrow> read_uleb128 f p;
     sub \<leftarrow> rd8 f q0;
     let len = len0 - 1;
     let q = q0 + 1;
     if sub = 1 then do { q' \<leftarrow> move f q (unat len); Some (Some (row fm g True), start_regs, q') }
     else if sub = 2 then do {
       g' \<leftarrow> (if len = 2 then map_option (\<lambda>v. g\<lparr>r_address := ucast v\<rparr>) (read_u16_le f q)
             else if len = 4 then map_option (\<lambda>v. g\<lparr>r_address := v\<rparr>) (read_u32_le f q)
             else Some g);
       q' \<leftarrow> move f q (unat len); Some (None, g', q') }
     else if sub = 4 \<or> sub = 0x80 then do {
       g' \<leftarrow> (if len = 2 then map_option (\<lambda>v. g\<lparr>r_segment := v\<rparr>) (read_u16_le f q)
             else if len = 4 then map_option (\<lambda>v. g\<lparr>r_segment := ucast v\<rparr>) (read_u32_le f q)
             else Some g);
       q' \<leftarrow> move f q (unat len); Some (None, g', q') }
     else do { q' \<leftarrow> move f q (unat len); Some (None, g, q') } }"

definition std_op :: "bytes \<Rightarrow> line_header \<Rightarrow> nat list \<Rightarrow> u8 \<Rightarrow> nat \<Rightarrow> line_regs
    \<Rightarrow> (line_entry option \<times> line_regs \<times> nat) option" where
  "std_op f h fm opcode p g =
    (if opcode = 1 then Some (Some (row fm g False), g, p)
     else if opcode = 2 then
       map_option (\<lambda>(adv, q). (None, g\<lparr>r_address := r_address g + adv * ucast (h_min_instr_len h)\<rparr>, q)) (read_uleb128 f p)
     else if opcode = 3 then
       map_option (\<lambda>(adv, q). (None, g\<lparr>r_line := r_line g + adv\<rparr>, q)) (read_sleb128 f p)
     else if opcode = 4 then map_option (\<lambda>(v, q). (None, g\<lparr>r_file := v\<rparr>, q)) (read_uleb128 f p)
     else if opcode = 5 then map_option (\<lambda>(v, q). (None, g, q)) (read_uleb128 f p)
     else if opcode = 6 \<or> opcode = 7 then Some (None, g, p)
     else if opcode = 8 then
       Some (None, g\<lparr>r_address := r_address g + (ucast (h_opcode_base h) - 1) * ucast (h_min_instr_len h),
                     r_line := r_line g + ucast (h_line_range h)\<rparr>, p)
     else if opcode = 9 then do {
       v \<leftarrow> read_u16_le f p;
       Some (None, g\<lparr>r_address := r_address g + ucast v\<rparr>, p + 2) }
     else do {
       n \<leftarrow> rd8 f (h_lens h + unat opcode - 1);
       q \<leftarrow> skip_ulebs f p (unat n);
       Some (None, g, q) })"

definition special_regs :: "line_header \<Rightarrow> u8 \<Rightarrow> line_regs \<Rightarrow> line_regs" where
  "special_regs h adjusted g = g\<lparr>
     r_line := r_line g + (scast (h_line_base h) + ucast (adjusted mod h_line_range h)),
     r_address := r_address g + ucast (adjusted div h_line_range h) * ucast (h_min_instr_len h)\<rparr>"

definition line_op :: "bytes \<Rightarrow> line_header \<Rightarrow> nat list \<Rightarrow> nat \<Rightarrow> line_regs \<Rightarrow> (line_entry option \<times> line_regs \<times> nat) option" where
  "line_op f h fm p g = do {
     opcode \<leftarrow> rd8 f p;
     if opcode = 0 then ext_op f fm (p + 1) g
     else if opcode < h_opcode_base h then std_op f h fm opcode (p + 1) g
     else if h_line_range h = 0 then None
     else let g' = special_regs h (opcode - h_opcode_base h) g in Some (Some (row fm g' False), g', p + 1) }"

lemma ext_op_moves: "ext_op f fm p g = Some (x, g', q) \<Longrightarrow> p < q"
  by (auto simp: ext_op_def Let_def move_def split: bind_splits if_splits dest!: read_uleb128_moves)

lemma std_op_moves: "std_op f h fm opcode p g = Some (x, g', q) \<Longrightarrow> p \<le> q"
  by (auto simp: std_op_def split: bind_splits if_splits
      dest!: read_uleb128_moves read_sleb128_moves skip_ulebs_le)

lemma line_op_moves: "line_op f h fm p g = Some (x, g', q) \<Longrightarrow> p < q"
  by (auto simp: line_op_def Let_def split: bind_splits if_splits dest!: ext_op_moves std_op_moves)

definition add_row :: "'a option \<Rightarrow> 'a list \<Rightarrow> 'a list" where
  "add_row x rows = rows @ (case x of Some r \<Rightarrow> [r] | None \<Rightarrow> [])"

function line_program :: "bytes \<Rightarrow> line_header \<Rightarrow> nat list \<Rightarrow> nat \<Rightarrow> nat \<Rightarrow> nat \<Rightarrow> line_regs \<Rightarrow> line_entry list \<Rightarrow> line_entry list option" where
  "line_program f h fm e cap p g rows =
    (if p < e \<and> length rows < cap then
       case line_op f h fm p g of None \<Rightarrow> None
       | Some (x, g', q) \<Rightarrow> line_program f h fm e cap q g' (add_row x rows)
     else Some rows)"
  by pat_completeness auto

termination by (relation "measure (\<lambda>(f, h, fm, e, cap, p, g, rows). e - p)") (auto dest!: line_op_moves)

declare line_program.simps [simp del]

subsection \<open>Units\<close>

text \<open>Rows and names of all units: the first pass.\<close>

definition count_unit :: "bytes \<Rightarrow> nat \<Rightarrow> u32 \<Rightarrow> nat \<times> nat \<Rightarrow> (nat \<times> nat) option" where
  "count_unit f cursor total_length = (\<lambda>(nlines, nfiles). do {
     opcode_base \<leftarrow> rd8 f (cursor + 14);
     k \<leftarrow> count_unit_files f cursor total_length;
     prologue_length \<leftarrow> read_u32_le f (cursor + 6);
     n \<leftarrow> count_program f (cursor + 15) opcode_base (cursor + 4 + unat total_length) (cursor + 10 + unat prologue_length) nlines;
     Some (n, nfiles + k) })"

function count_units :: "bytes \<Rightarrow> nat \<Rightarrow> nat \<Rightarrow> nat \<times> nat \<Rightarrow> (nat \<times> nat) option" where
  "count_units f e cursor ns =
    (if e < cursor + 4 then Some ns
     else case read_u32_le f cursor of None \<Rightarrow> None
       | Some t \<Rightarrow>
           if t = 0 \<or> e < cursor + 4 + unat t then Some ns
           else case count_unit f cursor t ns of None \<Rightarrow> None
             | Some ns' \<Rightarrow> count_units f e (cursor + 4 + unat t) ns')"
  by pat_completeness auto

termination by (relation "measure (\<lambda>(f, e, c, ns). e - c)") auto

declare count_units.simps [simp del]

definition read_line_header :: "bytes \<Rightarrow> nat \<Rightarrow> line_header option" where
  "read_line_header f cursor = do {
     mil \<leftarrow> rd8 f (cursor + 10); lb \<leftarrow> rd8 f (cursor + 12); lr \<leftarrow> rd8 f (cursor + 13); ob \<leftarrow> rd8 f (cursor + 14);
     Some \<lparr>h_min_instr_len = mil, h_line_base = lb, h_line_range = lr, h_opcode_base = ob, h_lens = cursor + 15\<rparr> }"

definition line_unit :: "bytes \<Rightarrow> nat \<Rightarrow> nat \<Rightarrow> nat \<Rightarrow> u32 \<Rightarrow> bytes list \<times> line_entry list \<Rightarrow> (bytes list \<times> line_entry list) option" where
  "line_unit f lcap fcap cursor total_length = (\<lambda>(names, rows). do {
     prologue_length \<leftarrow> read_u32_le f (cursor + 6);
     h \<leftarrow> read_line_header f cursor;
     (names', fm) \<leftarrow> parse_unit_files f cursor total_length fcap names;
     rows' \<leftarrow> line_program f h fm (cursor + 4 + unat total_length) lcap (cursor + 10 + unat prologue_length) start_regs rows;
     Some (names', rows') })"

function line_units :: "bytes \<Rightarrow> nat \<Rightarrow> nat \<Rightarrow> nat \<Rightarrow> nat \<Rightarrow> bytes list \<times> line_entry list \<Rightarrow> (bytes list \<times> line_entry list) option" where
  "line_units f e lcap fcap cursor tabs =
    (if e < cursor + 4 then Some tabs
     else case read_u32_le f cursor of None \<Rightarrow> None
       | Some t \<Rightarrow>
           if t = 0 \<or> e < cursor + 4 + unat t then Some tabs
           else case line_unit f lcap fcap cursor t tabs of None \<Rightarrow> None
             | Some tabs' \<Rightarrow> line_units f e lcap fcap (cursor + 4 + unat t) tabs')"
  by pat_completeness auto

termination by (relation "measure (\<lambda>(f, e, lc, fc, c, ts). e - c)") auto

declare line_units.simps [simp del]

definition no_row :: line_entry where
  "no_row = \<lparr>le_segment = 0, le_address = 0, le_line = 0, le_file = 0, le_end = False\<rparr>"

text \<open>
  The tables; inside the fault option \<open>None\<close> is \<open>-1\<close>.  The row table keeps the counted size: what the second
  pass does not fill stays cleared.
\<close>

definition parse_debug_line :: "bytes \<Rightarrow> bool \<Rightarrow> bool \<Rightarrow> (nat \<times> u32) option \<Rightarrow> (bytes list \<times> line_entry list) option option" where
  "parse_debug_line f names_ok lines_ok sec =
    (case sec of
       None \<Rightarrow> Some None
     | Some (pos, sz) \<Rightarrow>
         if sz < 10 then Some None
         else do {
           (nlines, nfiles) \<leftarrow> count_units f (pos + unat sz) pos (0, 0);
           if nfiles = 0 then Some (Some ([], []))
           else if \<not> names_ok then Some None
           else if 0 < nlines \<and> \<not> lines_ok then Some None
           else do {
             (names, rows) \<leftarrow> line_units f (pos + unat sz) nlines nfiles pos ([], []);
             Some (Some (names, rows @ replicate (nlines - length rows) no_row)) } })"

subsection \<open>The reference machine\<close>

text \<open>
  The instructions of a line program in DWARF version 2, with the segment instruction of the Watcom compiler, and
  their encoding.
\<close>

datatype line_instr =
    Copy | AdvancePc nat | AdvanceLine int | SetFile nat | SetColumn nat | NegateStmt | BasicBlock
  | ConstAddPc | FixedAdvance u16 | Special u8 | SetAddress u32 | SetSegment u16 | EndSequence

fun enc_instr :: "line_header \<Rightarrow> line_instr \<Rightarrow> bytes" where
  "enc_instr h Copy = [1]"
| "enc_instr h (AdvancePc n) = 2 # enc_uleb128 n"
| "enc_instr h (AdvanceLine i) = 3 # enc_sleb128 i"
| "enc_instr h (SetFile n) = 4 # enc_uleb128 n"
| "enc_instr h (SetColumn n) = 5 # enc_uleb128 n"
| "enc_instr h NegateStmt = [6]"
| "enc_instr h BasicBlock = [7]"
| "enc_instr h ConstAddPc = [8]"
| "enc_instr h (FixedAdvance v) = 9 # bytes16 v"
| "enc_instr h (Special k) = [h_opcode_base h + k]"
| "enc_instr h (SetAddress a) = 0 # 5 # 2 # bytes32 a"
| "enc_instr h (SetSegment s) = 0 # 3 # 0x80 # bytes16 s"
| "enc_instr h EndSequence = [0, 1, 1]"

fun ok_instr :: "line_header \<Rightarrow> line_instr \<Rightarrow> bool" where
  "ok_instr h (AdvancePc n) \<longleftrightarrow> n < 2 ^ 32"
| "ok_instr h (AdvanceLine i) \<longleftrightarrow> - (2 ^ 31) \<le> i \<and> i < 2 ^ 31"
| "ok_instr h (SetFile n) \<longleftrightarrow> n < 2 ^ 32"
| "ok_instr h (SetColumn n) \<longleftrightarrow> n < 2 ^ 32"
| "ok_instr h (Special k) \<longleftrightarrow> unat (h_opcode_base h) + unat k < 256"
| "ok_instr h _ \<longleftrightarrow> True"

definition ok_header :: "line_header \<Rightarrow> bool" where
  "ok_header h \<longleftrightarrow> 10 \<le> h_opcode_base h \<and> h_line_range h \<noteq> 0"

text \<open>
  What each instruction does, as the standard says it, on unbounded numbers.  A row is the state it is made from, with a mark at the end
  of a sequence.
\<close>

record dw_state =
  d_address :: nat
  d_segment :: nat
  d_line :: int
  d_file :: nat

definition dw_start :: dw_state where
  "dw_start = \<lparr>d_address = 0, d_segment = 0, d_line = 1, d_file = 1\<rparr>"

text \<open>The special instruction \<open>k\<close> advances the address by \<open>k div line_range\<close> instructions and the line by \<open>line_base + k mod line_range\<close>.\<close>

definition dw_advance :: "line_header \<Rightarrow> nat \<Rightarrow> nat" where
  "dw_advance h k = k div unat (h_line_range h) * unat (h_min_instr_len h)"

fun dw_step :: "line_header \<Rightarrow> line_instr \<Rightarrow> dw_state \<Rightarrow> dw_state" where
  "dw_step h Copy s = s"
| "dw_step h (AdvancePc n) s = s\<lparr>d_address := d_address s + n * unat (h_min_instr_len h)\<rparr>"
| "dw_step h (AdvanceLine i) s = s\<lparr>d_line := d_line s + i\<rparr>"
| "dw_step h (SetFile n) s = s\<lparr>d_file := n\<rparr>"
| "dw_step h (SetColumn n) s = s"
| "dw_step h NegateStmt s = s"
| "dw_step h BasicBlock s = s"
| "dw_step h ConstAddPc s = s\<lparr>d_address := d_address s + dw_advance h (255 - unat (h_opcode_base h))\<rparr>"
| "dw_step h (FixedAdvance v) s = s\<lparr>d_address := d_address s + unat v\<rparr>"
| "dw_step h (Special k) s = s\<lparr>d_address := d_address s + dw_advance h (unat k),
     d_line := d_line s + sint (h_line_base h) + int (unat k mod unat (h_line_range h))\<rparr>"
| "dw_step h (SetAddress a) s = s\<lparr>d_address := unat a\<rparr>"
| "dw_step h (SetSegment sg) s = s\<lparr>d_segment := unat sg\<rparr>"
| "dw_step h EndSequence s = dw_start"

fun dw_run :: "line_header \<Rightarrow> line_instr list \<Rightarrow> dw_state \<Rightarrow> (dw_state \<times> bool) list" where
  "dw_run h [] s = []"
| "dw_run h (i # is) s =
    (case i of Copy \<Rightarrow> [(s, False)] | Special k \<Rightarrow> [(dw_step h i s, False)] | EndSequence \<Rightarrow> [(s, True)] | _ \<Rightarrow> [])
      @ dw_run h is (dw_step h i s)"

text \<open>
  A row in the table: addresses and lines are kept in 32 bits and segments in 16, and the number of a file of the unit becomes
  that of the whole program by the map, which has 256 entries.
\<close>

definition file_of :: "nat list \<Rightarrow> nat \<Rightarrow> int" where
  "file_of fm n = (let k = n mod 2 ^ 32 in
     if 0 < k \<and> k < 256 then int (fm ! k) else if k < 2 ^ 31 then int k else int k - 2 ^ 32)"

definition table_row :: "nat list \<Rightarrow> dw_state \<times> bool \<Rightarrow> line_entry" where
  "table_row fm = (\<lambda>(s, e). \<lparr>le_segment = of_nat (d_segment s), le_address = of_nat (d_address s), le_line = of_int (d_line s),
     le_file = file_of fm (d_file s), le_end = e\<rparr>)"

text \<open>What the code does with the same instructions: its registers, and the rows it stores.\<close>

fun step_instr :: "line_header \<Rightarrow> line_instr \<Rightarrow> line_regs \<Rightarrow> line_regs" where
  "step_instr h (AdvancePc n) g = g\<lparr>r_address := r_address g + of_nat n * ucast (h_min_instr_len h)\<rparr>"
| "step_instr h (AdvanceLine i) g = g\<lparr>r_line := r_line g + of_int i\<rparr>"
| "step_instr h (SetFile n) g = g\<lparr>r_file := of_nat n\<rparr>"
| "step_instr h ConstAddPc g = g\<lparr>r_address := r_address g + (ucast (h_opcode_base h) - 1) * ucast (h_min_instr_len h),
     r_line := r_line g + ucast (h_line_range h)\<rparr>"
| "step_instr h (FixedAdvance v) g = g\<lparr>r_address := r_address g + ucast v\<rparr>"
| "step_instr h (Special k) g = special_regs h k g"
| "step_instr h (SetAddress a) g = g\<lparr>r_address := a\<rparr>"
| "step_instr h (SetSegment s) g = g\<lparr>r_segment := s\<rparr>"
| "step_instr h EndSequence g = start_regs"
| "step_instr h _ g = g"

text \<open>Which instructions append a row, and from which registers.\<close>

fun row_instr :: "line_header \<Rightarrow> nat list \<Rightarrow> line_instr \<Rightarrow> line_regs \<Rightarrow> line_entry option" where
  "row_instr h fm Copy g = Some (row fm g False)"
| "row_instr h fm (Special k) g = Some (row fm (special_regs h k g) False)"
| "row_instr h fm EndSequence g = Some (row fm g True)"
| "row_instr h fm _ g = None"

fun run_instrs :: "line_header \<Rightarrow> nat list \<Rightarrow> line_instr list \<Rightarrow> line_regs \<Rightarrow> line_entry list" where
  "run_instrs h fm [] g = []"
| "run_instrs h fm (i # is) g =
    (case row_instr h fm i g of Some r \<Rightarrow> [r] | None \<Rightarrow> []) @ run_instrs h fm is (step_instr h i g)"

definition enc_instrs :: "line_header \<Rightarrow> line_instr list \<Rightarrow> bytes" where
  "enc_instrs h is = concat (map (enc_instr h) is)"

lemma rd8_app: "rd8 (pre @ b # r) (length pre) = Some b" "rd8 (pre @ a # b # r) (Suc (length pre)) = Some b"
  "rd8 (pre @ a # c # b # r) (Suc (Suc (length pre))) = Some b"
  by (simp_all add: rd8_def nth_append)

lemma rd16_app: "n = length pre \<Longrightarrow> rd16 (pre @ bytes16 v @ r) n = Some v"
  by (simp add: rd16_def nth_append bytes16_def le16_bytes16)

lemma rd32_app: "n = length pre \<Longrightarrow> rd32 (pre @ bytes32 v @ r) n = Some v"
  by (simp add: rd32_def nth_append bytes32_def le32_bytes32)

lemma enc_uleb128_small: "n < 128 \<Longrightarrow> enc_uleb128 n = [of_nat n]"
  by (simp add: enc_uleb128.simps)

lemma read_uleb128_after: "n < 2 ^ 32 \<Longrightarrow> read_uleb128 (pre @ b # enc_uleb128 n @ r) (Suc (length pre))
    = Some (of_nat n, Suc (length pre) + length (enc_uleb128 n))"
  using read_uleb128_enc [of n "pre @ [b]" r] by simp

lemma read_sleb128_after: "- (2 ^ 31) \<le> i \<Longrightarrow> i < 2 ^ 31 \<Longrightarrow> read_sleb128 (pre @ b # enc_sleb128 i @ r) (Suc (length pre))
    = Some (of_int i, Suc (length pre) + length (enc_sleb128 i))"
  using read_sleb128_enc [of i "pre @ [b]" r] by simp

lemma read_ext_len: "n < 128 \<Longrightarrow> read_uleb128 (pre @ b # of_nat n # r) (Suc (length pre)) = Some (of_nat n, Suc (Suc (length pre)))"
  using read_uleb128_after [of n pre b r] enc_uleb128_small [of n] by simp

lemma special_opcode: "unat ob + unat k < 256 \<Longrightarrow> 10 \<le> ob \<Longrightarrow> \<not> ob + k < ob \<and> ob + k \<noteq> (0 :: u8)"
proof -
  assume a: "unat ob + unat k < 256" "10 \<le> ob"
  then have u: "unat (ob + k) = unat ob + unat k" by (simp add: unat_word_ariths)
  have "10 \<le> unat ob" using a(2) by (simp add: word_le_nat_alt)
  then show ?thesis using u by (auto simp: word_less_nat_alt)
qed

lemma low_opcode: "10 \<le> ob \<Longrightarrow> n < 10 \<Longrightarrow> (of_nat n :: u8) < ob"
  by (simp add: word_le_nat_alt word_less_nat_alt unat_of_nat_u8)

text \<open>Both passes over the code of one instruction inside a program.\<close>

lemma line_op_enc:
  assumes "ok_instr h i" "ok_header h"
  shows "line_op (pre @ enc_instr h i @ r) h fm (length pre) g
    = Some (row_instr h fm i g, step_instr h i g, length pre + length (enc_instr h i))"
proof -
  have ob: "10 \<le> h_opcode_base h" "h_line_range h \<noteq> 0" using assms(2) by (simp_all add: ok_header_def)
  note low = low_opcode [OF ob(1)]
  note ops = low [of 1] low [of 2] low [of 3] low [of 4] low [of 5] low [of 6] low [of 7] low [of 8] low [of 9]
  have len: "read_uleb128 (pre @ 0 # 5 # s) (Suc (length pre)) = Some (5, Suc (Suc (length pre)))"
    "read_uleb128 (pre @ 0 # 3 # s) (Suc (length pre)) = Some (3, Suc (Suc (length pre)))"
    "read_uleb128 (pre @ 0 # 1 # s) (Suc (length pre)) = Some (1, Suc (Suc (length pre)))" for s
    using read_ext_len [of 5 pre 0 s] read_ext_len [of 3 pre 0 s] read_ext_len [of 1 pre 0 s] by simp_all
  show ?thesis
  proof (cases i)
    case (FixedAdvance v)
    then show ?thesis using ops rd16_app [of "Suc (length pre)" "pre @ [9]" v r]
      by (simp add: line_op_def std_op_def rd8_app read_u16_le_def)
  next
    case (Special k)
    then show ?thesis using special_opcode [of "h_opcode_base h" k] assms(1) ob
      by (simp add: line_op_def rd8_app Let_def)
  next
    case (SetAddress a)
    then show ?thesis using rd32_app [of "Suc (Suc (Suc (length pre)))" "pre @ [0, 5, 2]" a r]
      by (simp add: line_op_def ext_op_def rd8_app len Let_def read_u32_le_def move_def)
  next
    case (SetSegment s)
    then show ?thesis using rd16_app [of "Suc (Suc (Suc (length pre)))" "pre @ [0, 3, 0x80]" s r]
      by (simp add: line_op_def ext_op_def rd8_app len Let_def read_u16_le_def move_def)
  next
    case EndSequence
    then show ?thesis
      by (simp add: line_op_def ext_op_def rd8_app len Let_def move_def)
  qed (use ops assms(1) read_uleb128_after [of _ pre _ r] read_sleb128_after [of _ pre _ r] in
      \<open>simp_all add: line_op_def std_op_def rd8_app\<close>)
qed

fun counted :: "line_instr \<Rightarrow> nat" where
  "counted (SetAddress a) = 0"
| "counted (SetSegment s) = 0"
| "counted _ = 1"

lemma count_op_enc:
  assumes "ok_instr h i" "ok_header h" "length pre + length (enc_instr h i) \<le> e"
  shows "count_op (pre @ enc_instr h i @ r) lens (h_opcode_base h) e (length pre)
    = Some (counted i, length pre + length (enc_instr h i), False)"
proof -
  have ob: "10 \<le> h_opcode_base h" "h_line_range h \<noteq> 0" using assms(2) by (simp_all add: ok_header_def)
  note low = low_opcode [OF ob(1)]
  note ops = low [of 1] low [of 2] low [of 3] low [of 4] low [of 5] low [of 6] low [of 7] low [of 8] low [of 9]
  have len: "read_uleb128 (pre @ 0 # 5 # s) (Suc (length pre)) = Some (5, Suc (Suc (length pre)))"
    "read_uleb128 (pre @ 0 # 3 # s) (Suc (length pre)) = Some (3, Suc (Suc (length pre)))"
    "read_uleb128 (pre @ 0 # 1 # s) (Suc (length pre)) = Some (1, Suc (Suc (length pre)))" for s
    using read_ext_len [of 5 pre 0 s] read_ext_len [of 3 pre 0 s] read_ext_len [of 1 pre 0 s] by simp_all
  show ?thesis
  proof (cases i)
    case (Special k)
    then show ?thesis using special_opcode [of "h_opcode_base h" k] assms(1) ob
      by (simp add: count_op_def rd8_app)
  next
    case (SetAddress a)
    then show ?thesis using assms(3) by (simp add: count_op_def rd8_app len move_def)
  next
    case (SetSegment s)
    then show ?thesis using assms(3) by (simp add: count_op_def rd8_app len move_def)
  next
    case EndSequence
    then show ?thesis using assms(3) by (simp add: count_op_def rd8_app len)
  qed (use ops assms(1) read_uleb128_after [of _ pre _ r] read_sleb128_after [of _ pre _ r] in
      \<open>simp_all add: count_op_def std_skip_def rd8_app move_def\<close>)
qed

lemma row_counted: "length (case row_instr h fm i g of Some r \<Rightarrow> [r] | None \<Rightarrow> []) \<le> counted i"
  by (cases i) simp_all

lemma enc_instr_nonempty: "0 < length (enc_instr h i)"
  by (cases i) simp_all

lemma count_program_enc:
  "list_all (ok_instr h) is \<Longrightarrow> ok_header h \<Longrightarrow>
    count_program (pre @ enc_instrs h is @ r) lens (h_opcode_base h) (length pre + length (enc_instrs h is)) (length pre) n
      = Some (n + sum_list (map counted is))"
proof (induction "is" arbitrary: pre n)
  case Nil
  then show ?case by (subst count_program.simps) (simp add: enc_instrs_def)
next
  case (Cons i "is")
  let ?f = "pre @ enc_instrs h (i # is) @ r" and ?e = "length pre + length (enc_instrs h (i # is))"
  have f: "?f = pre @ enc_instr h i @ enc_instrs h is @ r" "?f = (pre @ enc_instr h i) @ enc_instrs h is @ r"
    by (simp_all add: enc_instrs_def)
  have "count_op ?f lens (h_opcode_base h) ?e (length pre) = Some (counted i, length pre + length (enc_instr h i), False)"
    unfolding f(1) by (rule count_op_enc) (use Cons.prems in \<open>simp_all add: enc_instrs_def\<close>)
  then have "count_program ?f lens (h_opcode_base h) ?e (length pre) n
      = count_program ?f lens (h_opcode_base h) ?e (length pre + length (enc_instr h i)) (n + counted i)"
    using enc_instr_nonempty [of h i] by (subst count_program.simps) (simp add: enc_instrs_def)
  also have "\<dots> = Some (n + counted i + sum_list (map counted is))"
    using Cons.IH [of "pre @ enc_instr h i" "n + counted i"] Cons.prems unfolding f(2)
    by (simp add: enc_instrs_def add.assoc)
  finally show ?case by (simp add: add.assoc)
qed

lemma run_instrs_counted: "length (run_instrs h fm is g) \<le> sum_list (map counted is)"
proof (induction "is" arbitrary: g)
  case (Cons i "is")
  then show ?case using row_counted [of h fm i g] Cons.IH [of "step_instr h i g"] by (simp add: add_mono)
qed simp

lemma line_program_enc:
  "list_all (ok_instr h) is \<Longrightarrow> ok_header h \<Longrightarrow> length rows + length (run_instrs h fm is g) \<le> cap \<Longrightarrow>
    line_program (pre @ enc_instrs h is @ r) h fm (length pre + length (enc_instrs h is)) cap (length pre) g rows
      = Some (rows @ run_instrs h fm is g)"
proof (induction "is" arbitrary: pre g rows)
  case Nil
  then show ?case by (subst line_program.simps) (simp add: enc_instrs_def)
next
  case (Cons i "is")
  let ?f = "pre @ enc_instrs h (i # is) @ r" and ?e = "length pre + length (enc_instrs h (i # is))"
  have f: "?f = pre @ enc_instr h i @ enc_instrs h is @ r" "?f = (pre @ enc_instr h i) @ enc_instrs h is @ r"
    by (simp_all add: enc_instrs_def)
  show ?case
  proof (cases "length rows < cap")
    case False
    then have "length (run_instrs h fm (i # is) g) = 0" using Cons.prems(3) by linarith
    then show ?thesis using False by (subst line_program.simps) simp
  next
    case True
    have "line_op ?f h fm (length pre) g = Some (row_instr h fm i g, step_instr h i g, length pre + length (enc_instr h i))"
      unfolding f(1) by (rule line_op_enc) (use Cons.prems in simp_all)
    then have "line_program ?f h fm ?e cap (length pre) g rows = line_program ?f h fm ?e cap
        (length pre + length (enc_instr h i)) (step_instr h i g) (add_row (row_instr h fm i g) rows)"
      using True enc_instr_nonempty [of h i] by (subst line_program.simps) (simp add: enc_instrs_def)
    also have "\<dots> = Some (add_row (row_instr h fm i g) rows @ run_instrs h fm is (step_instr h i g))"
      using Cons.IH [of "add_row (row_instr h fm i g) rows" "step_instr h i g" "pre @ enc_instr h i"] Cons.prems unfolding f(2)
      by (simp add: enc_instrs_def add_row_def add.assoc)
    finally show ?thesis by (simp add: add_row_def)
  qed
qed

lemma line_program_passes:
  assumes "list_all (ok_instr h) is" "ok_header h"
  shows "\<exists>n. count_program (pre @ enc_instrs h is @ r) lens (h_opcode_base h)
        (length pre + length (enc_instrs h is)) (length pre) 0 = Some n \<and>
      line_program (pre @ enc_instrs h is @ r) h fm (length pre + length (enc_instrs h is)) n (length pre) start_regs []
        = Some (run_instrs h fm is start_regs) \<and>
      length (run_instrs h fm is start_regs) \<le> n"
  using count_program_enc [OF assms, of pre r lens 0] run_instrs_counted [of h fm "is" start_regs]
    line_program_enc [OF assms, of "[]" fm start_regs "sum_list (map counted is)" pre r] by simp

subsection \<open>The code against the reference machine\<close>

definition regs_of :: "dw_state \<Rightarrow> line_regs" where
  "regs_of s = \<lparr>r_address = of_nat (d_address s), r_segment = of_nat (d_segment s), r_line = of_int (d_line s), r_file = of_nat (d_file s)\<rparr>"

lemma u8_u32: "(ucast (x :: u8) :: u32) = of_nat (unat x)"
  by simp

lemma special_regs_of:
  "special_regs h k (regs_of s) = regs_of (dw_step h (Special k) s)"
proof -
  have d: "(ucast (k div h_line_range h) :: u32) = of_nat (unat k div unat (h_line_range h))" by (simp only: u8_u32 unat_div)
  have m: "(ucast (k mod h_line_range h) :: u32) = of_nat (unat k mod unat (h_line_range h))" by (simp only: u8_u32 unat_mod)
  have l: "(scast (h_line_base h) :: u32) = of_int (sint (h_line_base h))" by simp
  show ?thesis unfolding special_regs_def d m l u8_u32 [of "h_min_instr_len h"]
    by (simp add: regs_of_def dw_advance_def del: of_nat_unat)
qed

lemma step_instr_of: "i \<noteq> ConstAddPc \<Longrightarrow> step_instr h i (regs_of s) = regs_of (dw_step h i s)"
proof (cases i)
  case (AdvancePc n)
  then show ?thesis by (simp add: regs_of_def u8_u32 del: of_nat_unat)
next
  case (FixedAdvance v)
  have "(ucast v :: u32) = of_nat (unat v)" by simp
  then show ?thesis using FixedAdvance by (simp add: regs_of_def)
next
  case (Special k)
  then show ?thesis using special_regs_of [of h k s] by simp
qed (simp_all add: regs_of_def dw_start_def start_regs_def)

lemma sint_u32: "sint (f :: u32) = (if unat f < 2 ^ 31 then int (unat f) else int (unat f) - 2 ^ 32)"
proof (cases "unat f < 2 ^ 31")
  case True
  then have "uint f < 2 ^ 31" by (simp only: uint_nat of_nat_less_numeral_power_cancel_iff)
  moreover have "- 2147483648 \<le> uint f" by (rule order_trans [OF _ uint_ge_0]) simp
  ultimately have "sint f = uint f" unfolding sint_uint by (intro signed_take_bit_int_eq_self) simp_all
  then show ?thesis using True by (simp only: uint_nat if_True)
next
  case False
  then have n: "2147483648 \<le> unat f" by simp
  then have "2147483648 \<le> int (unat f)" by linarith
  then have l: "2 ^ 31 \<le> uint f" by simp
  have u: "uint f < 2 ^ 32" using uint_bounded [of f] by simp
  have "take_bit (Suc 31) (uint f) = uint f" by (rule take_bit_int_eq_self) (use u in simp_all)
  moreover have "signed_take_bit 31 (uint f) = take_bit (Suc 31) (uint f) - 2 ^ Suc 31 * of_bool (bit (uint f) 31)"
    by (rule signed_take_bit_eq_take_bit_minus)
  moreover have "bit (uint f) 31"
  proof -
    have "uint f div 2 ^ 31 = 1" using l u by (intro int_div_pos_eq [where r = "uint f - 2 ^ 31"]) simp_all
    then show ?thesis unfolding bit_iff_odd by simp
  qed
  ultimately have "sint f = uint f - 2 ^ 32" unfolding sint_uint by simp
  then show ?thesis using False by (simp only: uint_nat if_False)
qed

lemma global_file_of: "global_file fm (of_nat n) = file_of fm n"
proof -
  let ?f = "of_nat n :: u32"
  have u: "unat ?f = n mod 2 ^ 32" by (simp add: unsigned_of_nat take_bit_eq_mod)
  have l: "unat ?f < 2 ^ 32" using unat_u32_less(1) [of ?f] by simp
  have c: "(0 < sint ?f \<and> sint ?f < 256) = (0 < unat ?f \<and> unat ?f < 256)"
  proof (cases "unat ?f < 2 ^ 31")
    case True
    then have "sint ?f = int (unat ?f)" using sint_u32 [of ?f] by (simp only: if_True)
    then show ?thesis by linarith
  next
    case False
    then have s: "sint ?f = int (unat ?f) - 2 ^ 32" using sint_u32 [of ?f] by (simp only: if_False)
    from False have "256 \<le> unat ?f" by simp
    moreover have "int (unat ?f) < int (2 ^ 32)" using l by (simp only: of_nat_less_iff)
    then have "sint ?f < 0" unfolding s by (simp only: of_nat_power of_nat_numeral diff_less_0_iff_less)
    ultimately show ?thesis by linarith
  qed
  show ?thesis unfolding global_file_def file_of_def Let_def u [symmetric] c
    using sint_u32 [of ?f] by (cases "0 < unat ?f \<and> unat ?f < 256") (simp_all only: if_True if_False simp_thms)
qed

lemma row_of: "row fm (regs_of s) e = table_row fm (s, e)"
  by (simp add: row_def table_row_def regs_of_def global_file_of)

lemma run_instrs_of: "ConstAddPc \<notin> set is \<Longrightarrow> run_instrs h fm is (regs_of s) = map (table_row fm) (dw_run h is s)"
proof (induction "is" arbitrary: s)
  case (Cons i "is")
  have i: "i \<noteq> ConstAddPc" "ConstAddPc \<notin> set is" using Cons.prems by auto
  have "(case row_instr h fm i (regs_of s) of Some r \<Rightarrow> [r] | None \<Rightarrow> [])
      = map (table_row fm) (case i of Copy \<Rightarrow> [(s, False)] | Special k \<Rightarrow> [(dw_step h i s, False)] | EndSequence \<Rightarrow> [(s, True)] | _ \<Rightarrow> [])"
    by (cases i) (simp_all add: row_of special_regs_of del: dw_step.simps)
  then show ?case using Cons.IH [OF i(2)] by (simp add: step_instr_of [OF i(1)])
qed simp

text \<open>
  C21. The code of a list of line instructions of DWARF 2 without \<^verbatim>\<open>const_add_pc\<close>, at its place in the file: the first
  pass counts some number of rows, and with a table of that size the second pass stores exactly the rows of the reference machine,
  which fit.  With \<^verbatim>\<open>const_add_pc\<close> the two differ, by the lemma below.
\<close>

theorem line_program_equiv:
  assumes "list_all (ok_instr h) is" "ok_header h" "ConstAddPc \<notin> set is"
  shows "\<exists>n. count_program (pre @ enc_instrs h is @ r) lens (h_opcode_base h)
        (length pre + length (enc_instrs h is)) (length pre) 0 = Some n \<and>
      line_program (pre @ enc_instrs h is @ r) h fm (length pre + length (enc_instrs h is)) n (length pre) start_regs []
        = Some (map (table_row fm) (dw_run h is dw_start)) \<and>
      length (dw_run h is dw_start) \<le> n"
proof -
  have s: "start_regs = regs_of dw_start" by (simp add: start_regs_def regs_of_def dw_start_def)
  have e: "run_instrs h fm is start_regs = map (table_row fm) (dw_run h is dw_start)"
    unfolding s by (rule run_instrs_of [OF assms(3)])
  show ?thesis using line_program_passes [OF assms(1,2), of pre r lens fm] unfolding e length_map .
qed

definition demo_header :: line_header where
  "demo_header = \<lparr>h_min_instr_len = 2, h_line_base = - 1, h_line_range = 4, h_opcode_base = 10, h_lens = 15\<rparr>"

definition demo_line_prog :: "line_instr list" where
  "demo_line_prog = [SetSegment 1, SetAddress 0x1234, AdvanceLine 299, Copy, Special 7, AdvanceLine (- 5), AdvancePc 300, Copy, EndSequence]"

lemma demo_line_prog_ok: "list_all (ok_instr demo_header) demo_line_prog" "ok_header demo_header"
  by (simp_all add: demo_line_prog_def demo_header_def ok_header_def)

theorem line_program_equiv_witness:
  "line_program (enc_instrs demo_header demo_line_prog) demo_header [0, 1] (length (enc_instrs demo_header demo_line_prog)) 7 0 start_regs []
    = Some (map (table_row [0, 1]) (dw_run demo_header demo_line_prog dw_start)) \<and>
   map (\<lambda>(s, e). (d_address s, d_line s)) (dw_run demo_header demo_line_prog dw_start)
    = [(0x1234, 300), (0x1236, 302), (0x148E, 297), (0x148E, 297)]"
proof -
  have c: "ConstAddPc \<notin> set demo_line_prog" by (simp add: demo_line_prog_def)
  obtain n where n: "count_program (enc_instrs demo_header demo_line_prog) 15 (h_opcode_base demo_header)
        (length (enc_instrs demo_header demo_line_prog)) 0 0 = Some n"
      "line_program (enc_instrs demo_header demo_line_prog) demo_header [0, 1] (length (enc_instrs demo_header demo_line_prog)) n 0 start_regs []
        = Some (map (table_row [0, 1]) (dw_run demo_header demo_line_prog dw_start))"
    using line_program_equiv [OF demo_line_prog_ok c, of "[]" "[]" 15 "[0, 1]"] by auto
  have "count_program (enc_instrs demo_header demo_line_prog) 15 (h_opcode_base demo_header)
        (length (enc_instrs demo_header demo_line_prog)) 0 0 = Some 7" by code_simp
  then have "n = 7" using n(1) by simp
  moreover have "map (\<lambda>(s, e). (d_address s, d_line s)) (dw_run demo_header demo_line_prog dw_start)
    = [(0x1234, 300), (0x1236, 302), (0x148E, 297), (0x148E, 297)]"
    by (simp add: demo_line_prog_def demo_header_def dw_start_def dw_advance_def)
  ultimately show ?thesis using n(2) by simp
qed

subsection \<open>Where the code differs\<close>

text \<open>
  \<^verbatim>\<open>const_add_pc\<close> advances the address by what the special instruction 255 would, and leaves the line; the code
  adds the number of standard instructions, and the line range to the line.
\<close>

lemma const_add_pc_differs:
  assumes "line_op (pre @ enc_instr demo_header ConstAddPc @ r) demo_header fm (length pre) (regs_of s) = Some (x, g', q)"
  shows "r_address g' = of_nat (d_address s + 18)" "r_line g' = of_int (d_line s + 4)"
    "d_address (dw_step demo_header ConstAddPc s) = d_address s + 122" "d_line (dw_step demo_header ConstAddPc s) = d_line s"
  using assms by (auto simp: line_op_def std_op_def rd8_app demo_header_def dw_advance_def regs_of_def)

text \<open>The 256th file of the first unit is stored behind the end of \<^verbatim>\<open>file_map\<close>.\<close>

lemma store_names_overruns:
  assumes "p < e" "cstr_at f p = Some s" "s \<noteq> []" "after_name f e p s = Some q" "length names = 255"
  shows "store_names f e cap p 255 names fm = None"
  using assms by (subst store_names.simps) simp

text \<open>Every row of the program is read from the registers, and file numbers up to 255 go through the map.\<close>

lemma global_file_map: "file \<noteq> 0 \<Longrightarrow> file < 256 \<Longrightarrow> global_file fm file = int (fm ! unat file)"
proof -
  assume a: "file \<noteq> 0" "file < 256"
  then have u: "0 < unat file" "unat file < 256" by (simp_all add: unat_gt_0 word_less_nat_alt)
  have n: "uint file = int (unat file)" by (simp only: uint_nat)
  then have "- 2147483648 \<le> uint file" "uint file < 256" using u by linarith+
  then have "sint file = uint file" unfolding sint_uint by (intro signed_take_bit_int_eq_self) simp_all
  then have "sint file = int (unat file)" using n by (simp only:)
  then have "0 < sint file" "sint file < 256" using u by linarith+
  then show ?thesis unfolding global_file_def by (simp only: simp_thms if_True)
qed

end
