(* ===== verification/DebugLdt.thy ===== *)
theory DebugLdt
  imports Paths
begin

section \<open>The debugger's view of the selectors (\<^verbatim>\<open>debugger/ldt_access.c\<close>)\<close>

text \<open>
  The loader and the debugger share a page that mirrors the descriptor table: for each of the 8192 slots the base
  (0 where the slot is free), the limit and the kind of the segment.  A null pointer to the page is \<open>None\<close>.
\<close>

definition LX_MAX_LDT_SLOTS :: nat where "LX_MAX_LDT_SLOTS = 8192"

record shared_state =
  ss_selectors :: "nat \<Rightarrow> u32"
  ss_is_32bit :: "nat \<Rightarrow> u32"
  ss_is_code :: "nat \<Rightarrow> u32"
  ss_limit :: "nat \<Rightarrow> u32"
  ss_ne_segment :: "nat \<Rightarrow> u16"

definition slot_index :: "u16 \<Rightarrow> nat" where
  "slot_index selector = unat (drop_bit 3 selector AND 0x1FFF)"

definition ldt_selector_to_linear :: "shared_state option \<Rightarrow> u16 \<Rightarrow> u16 \<Rightarrow> u32" where
  "ldt_selector_to_linear state selector offset =
    (case state of
       None \<Rightarrow> 0xFFFFFFFF
     | Some s \<Rightarrow>
         if selector AND 4 = 0 then ucast selector * 8 + ucast offset
         else if LX_MAX_LDT_SLOTS \<le> slot_index selector then 0xFFFFFFFF
         else let base = ss_selectors s (slot_index selector) in
           if base = 0 \<and> slot_index selector \<noteq> 0 then 0xFFFFFFFF else base + ucast offset)"

definition in_segment :: "shared_state \<Rightarrow> u32 \<Rightarrow> nat \<Rightarrow> bool" where
  "in_segment s linear i \<longleftrightarrow> ss_selectors s i \<noteq> 0 \<and> ss_selectors s i \<le> linear \<and> linear < ss_selectors s i + ss_limit s i"

definition ldt_linear_to_selector :: "shared_state option \<Rightarrow> u32 \<Rightarrow> (u16 \<times> u16) option" where
  "ldt_linear_to_selector state linear =
    (case state of
       None \<Rightarrow> None
     | Some s \<Rightarrow>
         map_option (\<lambda>i. (push_bit 3 (of_nat i) OR 4 OR 3, ucast (linear - ss_selectors s i)))
           (find (in_segment s linear) [0..<LX_MAX_LDT_SLOTS]))"

definition ldt_get_segment_name :: "shared_state option \<Rightarrow> u16 \<Rightarrow> string" where
  "ldt_get_segment_name state selector =
    (case state of
       None \<Rightarrow> ''???''
     | Some s \<Rightarrow>
         if selector AND 4 = 0 then ''GDT''
         else if LX_MAX_LDT_SLOTS \<le> slot_index selector then ''INV''
         else if ss_selectors s (slot_index selector) = 0 then ''NULL''
         else if selector = 0x5B then ''CODE32''
         else if ss_is_code s (slot_index selector) \<noteq> 0 then ''CODE'' else ''DATA'')"

definition ldt_is_32bit_segment :: "shared_state option \<Rightarrow> u16 \<Rightarrow> bool" where
  "ldt_is_32bit_segment state selector =
    (case state of
       None \<Rightarrow> True
     | Some s \<Rightarrow>
         if selector AND 4 = 0 then True
         else if LX_MAX_LDT_SLOTS \<le> slot_index selector then True
         else if ss_selectors s (slot_index selector) = 0 then True
         else ss_is_32bit s (slot_index selector) \<noteq> 0)"

text \<open>No selector is out of the table, and the name \<^verbatim>\<open>CODE32\<close> is never given: 0x5B is a selector of the global table.\<close>

lemma slot_index_bound: "slot_index selector < LX_MAX_LDT_SLOTS"
proof -
  have "unat (drop_bit 3 selector AND 0x1FFF) = unat (take_bit 13 (drop_bit 3 selector))"
    by (simp add: take_bit_eq_mask mask_eq_exp_minus_1)
  then show ?thesis by (simp add: slot_index_def LX_MAX_LDT_SLOTS_def unat_take_bit_word)
qed

lemma ldt_get_segment_name_code32: "ldt_get_segment_name state selector \<noteq> ''CODE32''"
proof
  assume c: "ldt_get_segment_name state selector = ''CODE32''"
  then have "selector AND 4 \<noteq> 0" "selector = 0x5B"
    by (auto simp: ldt_get_segment_name_def split: option.splits if_splits)
  then show False by simp
qed

text \<open>A selector found for an address in a segment of at most 64K leads back to the address.\<close>

lemma slot_selector: "i < 8192 \<Longrightarrow> slot_index (push_bit 3 (of_nat i) OR 4 OR 3) = i"
  "i < 8192 \<Longrightarrow> (push_bit 3 (of_nat i) OR 4 OR 3 :: u16) AND 4 \<noteq> 0"
proof -
  assume i: "i < 8192"
  have c: "(4 OR 3 :: u16) = mask 3" by (simp add: mask_eq_exp_minus_1)
  have w: "push_bit 3 (of_nat i) OR 4 OR 3 = (push_bit 3 (of_nat i) OR mask 3 :: u16)" unfolding c [symmetric] by (simp add: or.assoc)
  have d: "drop_bit 3 (push_bit 3 (of_nat i) OR mask 3 :: u16) = take_bit 13 (of_nat i)"
    by (rule bit_word_eqI) (auto simp: bit_simps)
  have m: "x AND 0x1FFF = take_bit 13 x" for x :: u16 by (simp add: take_bit_eq_mask mask_eq_exp_minus_1)
  show "slot_index (push_bit 3 (of_nat i) OR 4 OR 3) = i"
    unfolding slot_index_def w d m using i by (simp add: unat_take_bit_word unat_of_nat_u16)
  have "bit (push_bit 3 (of_nat i) OR mask 3 :: u16) 2" by (simp add: bit_simps)
  then show "(push_bit 3 (of_nat i) OR 4 OR 3 :: u16) AND 4 \<noteq> 0"
    unfolding w using and_exp_eq_0_iff_not_bit [of "push_bit 3 (of_nat i) OR mask 3 :: u16" 2] by simp
qed

lemma ldt_linear_roundtrip:
  assumes "ldt_linear_to_selector (Some s) linear = Some (sel, off)" "\<And>i. i < 8192 \<Longrightarrow> unat (ss_limit s i) \<le> 65536"
  shows "ldt_selector_to_linear (Some s) sel off = linear"
proof -
  obtain i where f: "find (in_segment s linear) [0..<LX_MAX_LDT_SLOTS] = Some i"
    and r: "sel = push_bit 3 (of_nat i) OR 4 OR 3" "off = ucast (linear - ss_selectors s i)"
    using assms(1) by (auto simp: ldt_linear_to_selector_def)
  from f have i: "i < 8192" "in_segment s linear i"
    by (auto simp: find_Some_iff LX_MAX_LDT_SLOTS_def)
  then have b: "ss_selectors s i \<noteq> 0" "unat (ss_selectors s i) \<le> unat linear"
    "unat linear < unat (ss_selectors s i + ss_limit s i)"
    by (simp_all add: in_segment_def word_le_nat_alt word_less_nat_alt)
  have "unat (ss_selectors s i + ss_limit s i) \<le> unat (ss_selectors s i) + unat (ss_limit s i)"
    by (simp add: unat_word_ariths)
  then have "unat (linear - ss_selectors s i) < 65536"
    using b(2,3) assms(2) [OF i(1)] unat_diff_u32 [OF b(2)] by linarith
  then have "ucast (ucast (linear - ss_selectors s i) :: u16) = linear - ss_selectors s i"
    by (intro word_unat_eq_iff [THEN iffD2]) (simp add: unsigned_ucast_eq unat_take_bit_word take_bit_nat_eq_self)
  then show ?thesis using b(1) slot_selector [OF i(1)] i(1)
    by (simp add: ldt_selector_to_linear_def r LX_MAX_LDT_SLOTS_def)
qed

end
