(* ===== verification/DwarfLookup.thy ===== *)
theory DwarfLookup
  imports DwarfLine DebugLdt Headers
begin

section \<open>Debug information: lookups and source files (\<^verbatim>\<open>debugger/dwarf_info.c\<close>)\<close>

text \<open>
  The state of the reader, its start, and what the debugger asks of it: the source line of an address, the
  address of a line, and the text of a source file.
\<close>

record dwarf =
  dw_loaded :: bool
  dw_is_ne :: bool
  dw_names :: "bytes list"
  dw_rows :: "line_entry list"
  dw_ranges :: "arange list"
  dw_sources :: "(bytes \<times> bytes list) list"
  dw_prog_dir :: bytes

definition no_dwarf :: dwarf where
  "no_dwarf = \<lparr>dw_loaded = False, dw_is_ne = False, dw_names = [], dw_rows = [], dw_ranges = [], dw_sources = [], dw_prog_dir = []\<rparr>"

subsection \<open>Start\<close>

text \<open>
  The file as it is read (\<open>None\<close> where it cannot be opened or read in full), \<^verbatim>\<open>dirname\<close> of the path, and whether the three
  allocations for sections, names and rows and the one for ranges succeed.
\<close>

definition dwarf_parse :: "bytes \<Rightarrow> bool \<Rightarrow> bool \<Rightarrow> bool \<Rightarrow> bool \<Rightarrow> nat \<Rightarrow> dwarf \<Rightarrow> (int \<times> dwarf) option" where
  "dwarf_parse f sec_ok names_ok lines_ok ranges_ok elf d = do {
     secs \<leftarrow> parse_elf_sections f sec_ok elf;
     case secs of
       None \<Rightarrow> Some (-1, d)
     | Some s \<Rightarrow> do {
         lt \<leftarrow> parse_debug_line f names_ok lines_ok (debug_line s);
         ar \<leftarrow> parse_debug_aranges f ranges_ok (debug_aranges s);
         Some (0, d\<lparr>dw_names := (case lt of Some (ns, rs) \<Rightarrow> ns | None \<Rightarrow> []),
                   dw_rows := (case lt of Some (ns, rs) \<Rightarrow> rs | None \<Rightarrow> []),
                   dw_ranges := (case ar of Some rs \<Rightarrow> rs | None \<Rightarrow> []), dw_loaded := True\<rparr>) } }"

definition dwarf_init :: "bytes option \<Rightarrow> bytes \<Rightarrow> bool \<Rightarrow> bool \<Rightarrow> bool \<Rightarrow> bool \<Rightarrow> (int \<times> dwarf) option" where
  "dwarf_init file dir sec_ok names_ok lines_ok ranges_ok =
    (let d = no_dwarf\<lparr>dw_prog_dir := take 1023 dir\<rparr> in
     case file of
       None \<Rightarrow> Some (-1, d)
     | Some f \<Rightarrow>
         if length f < 64 then Some (-1, d)
         else do {
           ne \<leftarrow> find_elf_debug_ne f;
           case ne of
             Some elf \<Rightarrow> dwarf_parse f sec_ok names_ok lines_ok ranges_ok elf (d\<lparr>dw_is_ne := True\<rparr>)
           | None \<Rightarrow> do {
               lx \<leftarrow> find_elf_debug_lx f;
               case lx of
                 Some elf \<Rightarrow> dwarf_parse f sec_ok names_ok lines_ok ranges_ok elf d
               | None \<Rightarrow> Some (0, d) } })"

definition dwarf_cleanup :: "dwarf \<Rightarrow> dwarf" where
  "dwarf_cleanup d = d\<lparr>dw_loaded := False, dw_names := [], dw_rows := [], dw_ranges := [], dw_sources := []\<rparr>"

subsection \<open>Addresses and lines\<close>

definition end_after :: "line_entry list \<Rightarrow> nat \<Rightarrow> u32" where
  "end_after rows i = (case find le_end (drop (i + 1) rows) of Some r \<Rightarrow> le_address r | None \<Rightarrow> 0xFFFFFFFF)"

definition covers :: "line_entry list \<Rightarrow> u16 \<Rightarrow> u32 \<Rightarrow> nat \<Rightarrow> bool" where
  "covers rows seg off i \<longleftrightarrow> \<not> le_end (rows ! i) \<and> le_segment (rows ! i) = seg \<and> le_address (rows ! i) \<le> off \<and>
    off < end_after rows i"

fun best_row :: "line_entry list \<Rightarrow> u16 \<Rightarrow> u32 \<Rightarrow> nat option \<times> u32 \<Rightarrow> nat list \<Rightarrow> nat option \<times> u32" where
  "best_row rows seg off b [] = b"
| "best_row rows seg off b (i # is) =
    best_row rows seg off
      (if covers rows seg off i \<and> snd b \<le> le_address (rows ! i) then (Some i, le_address (rows ! i)) else b) is"

definition row_file :: "dwarf \<Rightarrow> line_entry \<Rightarrow> bytes option" where
  "row_file d r = (if 0 < le_file r \<and> le_file r \<le> int (length (dw_names d)) then Some (dw_names d ! nat (le_file r - 1)) else None)"

definition dwarf_addr_to_line :: "dwarf \<Rightarrow> u16 \<Rightarrow> u32 \<Rightarrow> (bytes option \<times> u32) option" where
  "dwarf_addr_to_line d seg off =
    (if \<not> dw_loaded d \<or> dw_rows d = [] then None
     else case fst (best_row (dw_rows d) seg off (None, 0) [0..<length (dw_rows d)]) of
         None \<Rightarrow> None
       | Some i \<Rightarrow> Some (row_file d (dw_rows d ! i), le_line (dw_rows d ! i)))"

definition basename_of :: "bytes \<Rightarrow> bytes" where
  "basename_of p = (case last_slash p of Some k \<Rightarrow> drop (Suc k) p | None \<Rightarrow> p)"

definition file_index :: "dwarf \<Rightarrow> bytes \<Rightarrow> nat option" where
  "file_index d filename = find (\<lambda>i. basename_of (dw_names d ! i) = basename_of filename) [0..<length (dw_names d)]"

definition dwarf_line_to_addr :: "dwarf \<Rightarrow> bytes \<Rightarrow> u32 \<Rightarrow> (u16 \<times> u32) option \<times> bytes option" where
  "dwarf_line_to_addr d filename line =
    (if \<not> dw_loaded d \<or> dw_rows d = [] then (None, None)
     else case file_index d filename of
         None \<Rightarrow> (None, None)
       | Some k \<Rightarrow>
           (map_option (\<lambda>r. (le_segment r, le_address r))
              (find (\<lambda>r. \<not> le_end r \<and> le_file r = int k + 1 \<and> le_line r = line) (dw_rows d)),
            Some (dw_names d ! k)))"

text \<open>
  The line of a linear address; the segment and the offset are answered as soon as a range has the address, even
  if no row has.
\<close>

definition in_range :: "u32 \<Rightarrow> arange \<Rightarrow> bool" where
  "in_range off r \<longleftrightarrow> ar_address r \<le> off \<and> off < ar_address r + ar_length r"

definition dwarf_linear_to_line :: "dwarf \<Rightarrow> shared_state option \<Rightarrow> bool \<Rightarrow> u32 \<Rightarrow> u16
    \<Rightarrow> (u16 \<times> u32) option \<times> (bytes option \<times> u32) option" where
  "dwarf_linear_to_line d state is_lx linear cs =
    (let answer = (\<lambda>seg off. (Some (seg, off), dwarf_addr_to_line d seg off)) in
     if \<not> dw_loaded d \<or> dw_ranges d = [] then (None, None)
     else if is_lx then
       (case find (in_range linear) (dw_ranges d) of
          Some r \<Rightarrow> answer (ar_segment r) linear
        | None \<Rightarrow> (None, None))
     else case state of
         None \<Rightarrow> (None, None)
       | Some s \<Rightarrow>
           let slot = unat (drop_bit 3 cs); base = ss_selectors s slot in
           if LX_MAX_LDT_SLOTS \<le> slot \<or> base = 0 \<or> linear < base then (None, None)
           else
             let off = linear - base; ne_seg = ss_ne_segment s slot in
             (case (if ne_seg \<noteq> 0 then find (\<lambda>r. ar_segment r = ne_seg \<and> in_range off r) (dw_ranges d) else None) of
                Some r \<Rightarrow> answer ne_seg off
              | None \<Rightarrow>
                  (case find (in_range off) (dw_ranges d) of
                     Some r \<Rightarrow> answer (ar_segment r) off
                   | None \<Rightarrow> (None, None))))"

definition dwarf_get_file_count :: "dwarf \<Rightarrow> nat" where
  "dwarf_get_file_count d = length (dw_names d)"

definition dwarf_get_file_name :: "dwarf \<Rightarrow> int \<Rightarrow> bytes option" where
  "dwarf_get_file_name d i = (if i < 0 \<or> int (length (dw_names d)) \<le> i then None else Some (dw_names d ! nat i))"

subsection \<open>Source files\<close>

text \<open>The names that are tried for a source file, in their order; a composed path is cut after 2047 bytes.\<close>

definition joined :: "bytes list \<Rightarrow> bytes" where
  "joined parts = take 2047 (concat parts)"

definition lo_name :: "bytes \<Rightarrow> bytes" where
  "lo_name base = (if 4 < length base \<and> drop (length base - 4) base = str ''.asm''
     then take 255 (take (length base - 4) base @ str ''.lo.asm'') else [])"

fun colon_parts :: "bytes \<Rightarrow> bytes \<Rightarrow> bytes list" where
  "colon_parts cur [] = [cur]"
| "colon_parts cur (c # cs) = (if c = COLON then cur # colon_parts [] cs else colon_parts (cur @ [c]) cs)"

definition parent_dir :: "bytes \<Rightarrow> bytes option" where
  "parent_dir filename =
    (case last_slash filename of
       None \<Rightarrow> None
     | Some k \<Rightarrow>
         (case last_slash (take k filename) of
            None \<Rightarrow> None
          | Some j \<Rightarrow> let sub = drop (j + 1) (take k filename) in
              if sub \<noteq> [] \<and> length sub < 256 then Some sub else None))"

definition dir_paths :: "bytes \<Rightarrow> bytes \<Rightarrow> bytes list" where
  "dir_paths filename dir =
    (let base = basename_of filename; lo = lo_name base; S = [SLASH] in
     if dir = [] \<or> 512 \<le> length dir then []
     else [joined [dir, S, base]] @ (if lo \<noteq> [] then [joined [dir, S, lo]] else []) @
       (case parent_dir filename of
          None \<Rightarrow> []
        | Some sub \<Rightarrow> [joined [dir, S, sub, S, base]] @ (if lo \<noteq> [] then [joined [dir, S, sub, S, lo]] else [])))"

definition source_paths :: "bytes \<Rightarrow> bytes option \<Rightarrow> bytes \<Rightarrow> bytes list" where
  "source_paths prog_dir asm_path filename =
    (let base = basename_of filename; lo = lo_name base; S = [SLASH] in
     [filename] @
     (if prog_dir \<noteq> []
      then [joined [prog_dir, S, base]] @ (if lo \<noteq> [] then [joined [prog_dir, S, lo]] else []) @
           [joined [prog_dir, str ''/tests/asm/'', base]]
      else []) @
     (if last_slash filename \<noteq> None then [joined [base]] @ (if lo \<noteq> [] then [joined [lo]] else []) else []) @
     [joined [str ''tests/asm/'', base]] @
     (case asm_path of None \<Rightarrow> [] | Some v \<Rightarrow> concat (map (dir_paths filename) (colon_parts [] v))))"

text \<open>Tabs become spaces up to the next multiple of eight, and carriage returns are dropped.\<close>

fun expand_tabs :: "nat \<Rightarrow> bytes \<Rightarrow> bytes" where
  "expand_tabs col [] = []"
| "expand_tabs col (c # cs) =
    (if c = 0x0D then expand_tabs col cs
     else if c = 0x09 then replicate (8 - col mod 8) 0x20 @ expand_tabs (col + (8 - col mod 8)) cs
     else c # expand_tabs (if c = 0x0A then 0 else col + 1) cs)"

fun split_lines :: "bytes \<Rightarrow> bytes \<Rightarrow> bytes list" where
  "split_lines cur [] = [cur]"
| "split_lines cur (c # cs) = (if c = 0x0A then cur # split_lines [] cs else split_lines (cur @ [c]) cs)"

text \<open>The path that could be opened and the lines; \<open>mem\<close> tells whether the allocations succeed.\<close>

definition load_source_file :: "(bytes \<Rightarrow> bytes option) \<Rightarrow> bool \<Rightarrow> bytes \<Rightarrow> bytes option \<Rightarrow> bytes \<Rightarrow> (bytes \<times> bytes list) option" where
  "load_source_file fopen mem prog_dir asm_path filename =
    (case find (\<lambda>p. fopen p \<noteq> None) (source_paths prog_dir asm_path filename) of
       None \<Rightarrow> None
     | Some p \<Rightarrow>
         if the (fopen p) = [] \<or> \<not> mem then None
         else Some (p, split_lines [] (expand_tabs 0 (the (fopen p)))))"

definition dwarf_get_source :: "(bytes \<Rightarrow> bytes option) \<Rightarrow> bool \<Rightarrow> bytes option \<Rightarrow> dwarf \<Rightarrow> bytes \<Rightarrow> bytes list option \<times> dwarf" where
  "dwarf_get_source fopen mem asm_path d filename =
    (if \<not> dw_loaded d then (None, d)
     else case find (\<lambda>s. fst s = filename) (dw_sources d) of
         Some s \<Rightarrow> (Some (snd s), d)
       | None \<Rightarrow>
           (case load_source_file fopen mem (dw_prog_dir d) asm_path filename of
              None \<Rightarrow> (None, d)
            | Some (p, ls) \<Rightarrow> (Some ls, d\<lparr>dw_sources := dw_sources d @ [(p, ls)]\<rparr>)))"

subsection \<open>The row of an address\<close>

lemma best_row_append: "best_row rows seg off b (is @ js) = best_row rows seg off (best_row rows seg off b is) js"
  by (induction "is" arbitrary: b) simp_all

definition best_inv :: "line_entry list \<Rightarrow> u16 \<Rightarrow> u32 \<Rightarrow> nat \<Rightarrow> nat option \<times> u32 \<Rightarrow> bool" where
  "best_inv rows seg off k b \<longleftrightarrow>
    (case fst b of
       None \<Rightarrow> snd b = 0 \<and> (\<forall>i < k. \<not> covers rows seg off i)
     | Some i \<Rightarrow> i < k \<and> covers rows seg off i \<and> snd b = le_address (rows ! i) \<and>
         (\<forall>j < k. covers rows seg off j \<longrightarrow> le_address (rows ! j) < le_address (rows ! i) \<or>
            le_address (rows ! j) = le_address (rows ! i) \<and> j \<le> i))"

lemma best_row_inv: "best_inv rows seg off k (best_row rows seg off (None, 0) [0..<k])"
proof (induction k)
  case 0
  then show ?case by (simp add: best_inv_def)
next
  case (Suc k)
  obtain i a where b: "best_row rows seg off (None, 0) [0..<k] = (i, a)" by fastforce
  have s: "best_row rows seg off (None, 0) [0..<Suc k]
      = (if covers rows seg off k \<and> a \<le> le_address (rows ! k) then (Some k, le_address (rows ! k)) else (i, a))"
    by (simp add: best_row_append b)
  show ?case
  proof (cases "covers rows seg off k \<and> a \<le> le_address (rows ! k)")
    case True
    then have r: "best_row rows seg off (None, 0) [0..<Suc k] = (Some k, le_address (rows ! k))" using s by simp
    show ?thesis using Suc True unfolding r b
      by (auto simp: best_inv_def less_Suc_eq split: option.splits)
  next
    case False
    have r: "best_row rows seg off (None, 0) [0..<Suc k] = (i, a)" unfolding s by (rule if_not_P [OF False])
    show ?thesis using Suc False unfolding r b
      by (auto simp: best_inv_def less_Suc_eq split: option.splits)
  qed
qed

lemma dwarf_addr_to_line_row:
  assumes "dw_loaded d"
  shows "(dwarf_addr_to_line d seg off = None \<longleftrightarrow> (\<forall>i < length (dw_rows d). \<not> covers (dw_rows d) seg off i)) \<and>
    (\<forall>file line. dwarf_addr_to_line d seg off = Some (file, line) \<longrightarrow>
      (\<exists>i < length (dw_rows d). covers (dw_rows d) seg off i \<and>
        file = row_file d (dw_rows d ! i) \<and> line = le_line (dw_rows d ! i) \<and>
        (\<forall>j < length (dw_rows d). covers (dw_rows d) seg off j \<longrightarrow>
          le_address (dw_rows d ! j) < le_address (dw_rows d ! i) \<or>
          le_address (dw_rows d ! j) = le_address (dw_rows d ! i) \<and> j \<le> i)))"
proof -
  let ?b = "best_row (dw_rows d) seg off (None, 0) [0..<length (dw_rows d)]"
  have inv: "best_inv (dw_rows d) seg off (length (dw_rows d)) ?b" by (rule best_row_inv)
  show ?thesis
  proof (cases "fst ?b")
    case None
    then show ?thesis using inv by (simp add: dwarf_addr_to_line_def best_inv_def)
  next
    case (Some i)
    then have "dwarf_addr_to_line d seg off = Some (row_file d (dw_rows d ! i), le_line (dw_rows d ! i))"
      using assms inv by (auto simp: dwarf_addr_to_line_def best_inv_def)
    then show ?thesis using inv Some by (auto simp: best_inv_def)
  qed
qed

text \<open>
  The rows of a line table as DWARF means them: a row stands for the addresses of its segment from its own up to that of the
  first end of a sequence behind it; a sequence without an end goes on to the last address, which the code leaves out.
\<close>

definition stands_for :: "line_entry list \<Rightarrow> u16 \<Rightarrow> u32 \<Rightarrow> nat \<Rightarrow> bool" where
  "stands_for rows seg off i \<longleftrightarrow> i < length rows \<and>
     (case rows ! i of r \<Rightarrow> \<not> le_end r \<and> le_segment r = seg \<and> le_address r \<le> off) \<and>
     (\<forall>e. i < e \<and> e < length rows \<and> le_end (rows ! e) \<and> (\<forall>k. i < k \<and> k < e \<longrightarrow> \<not> le_end (rows ! k)) \<longrightarrow> off < le_address (rows ! e)) \<and>
     ((\<forall>e. i < e \<and> e < length rows \<longrightarrow> \<not> le_end (rows ! e)) \<longrightarrow> off \<noteq> 0xFFFFFFFF)"

lemma u32_less_max: "(off :: u32) < 0xFFFFFFFF \<longleftrightarrow> off \<noteq> 0xFFFFFFFF"
proof -
  have m: "(0xFFFFFFFF :: u32) = - 1" by simp
  show ?thesis unfolding m word_order.not_eq_extremum ..
qed

lemma end_after_cases:
  "(\<exists>e. i < e \<and> e < length rows \<and> le_end (rows ! e) \<and> (\<forall>k. i < k \<and> k < e \<longrightarrow> \<not> le_end (rows ! k)) \<and> end_after rows i = le_address (rows ! e))
   \<or> (\<forall>e. i < e \<and> e < length rows \<longrightarrow> \<not> le_end (rows ! e)) \<and> end_after rows i = 0xFFFFFFFF"
proof (cases "find le_end (drop (i + 1) rows)")
  case None
  have "\<not> le_end (rows ! e)" if "i < e" "e < length rows" for e
  proof -
    have "drop (i + 1) rows ! (e - (i + 1)) = rows ! e" "e - (i + 1) < length (drop (i + 1) rows)" using that by simp_all
    then have "rows ! e \<in> set (drop (i + 1) rows)" by (metis nth_mem)
    then show ?thesis using None by (simp add: find_None_iff)
  qed
  then show ?thesis using None by (simp add: end_after_def)
next
  case (Some r)
  then obtain n where n: "n < length (drop (i + 1) rows)" "le_end (drop (i + 1) rows ! n)" "r = drop (i + 1) rows ! n"
    "\<forall>j<n. \<not> le_end (drop (i + 1) rows ! j)" unfolding find_Some_iff by blast
  have "\<not> le_end (rows ! k)" if "i < k" "k < i + 1 + n" for k
    using n(4) [rule_format, of "k - (i + 1)"] that n(1) by simp
  then show ?thesis using n Some by (intro disjI1 exI [of _ "i + 1 + n"]) (simp add: end_after_def)
qed

lemma covers_stands_for: "i < length rows \<Longrightarrow> covers rows seg off i = stands_for rows seg off i"
proof -
  assume i: "i < length rows"
  from end_after_cases [of i rows] show ?thesis
  proof (elim disjE exE conjE)
    fix e
    assume e: "i < e" "e < length rows" "le_end (rows ! e)" "\<forall>k. i < k \<and> k < e \<longrightarrow> \<not> le_end (rows ! k)"
      "end_after rows i = le_address (rows ! e)"
    have u: "e' = e" if "i < e'" "le_end (rows ! e')" "\<forall>k. i < k \<and> k < e' \<longrightarrow> \<not> le_end (rows ! k)" for e'
      using that e by (metis linorder_neqE_nat)
    have "(\<forall>e'. i < e' \<and> e' < length rows \<and> le_end (rows ! e') \<and> (\<forall>k. i < k \<and> k < e' \<longrightarrow> \<not> le_end (rows ! k)) \<longrightarrow> off < le_address (rows ! e'))
        \<longleftrightarrow> off < le_address (rows ! e)" using u e by blast
    moreover have "\<not> (\<forall>e'. i < e' \<and> e' < length rows \<longrightarrow> \<not> le_end (rows ! e'))" using e by blast
    ultimately show ?thesis using i e(5) unfolding covers_def stands_for_def by auto
  next
    assume e: "\<forall>e. i < e \<and> e < length rows \<longrightarrow> \<not> le_end (rows ! e)" "end_after rows i = 0xFFFFFFFF"
    then show ?thesis using i by (auto simp: covers_def stands_for_def u32_less_max)
  qed
qed

text \<open>
  C25.  The line of an address is that of the row that stands for it with the highest address, and of equal ones the last, with the name of
  the row's file if there is one of its number; there is no answer exactly if no row stands for the address.
\<close>

theorem dwarf_addr_to_line_best:
  assumes "dw_loaded d"
  shows "(dwarf_addr_to_line d seg off = None \<longleftrightarrow> (\<forall>i. \<not> stands_for (dw_rows d) seg off i)) \<and>
    (\<forall>file line. dwarf_addr_to_line d seg off = Some (file, line) \<longrightarrow>
      (\<exists>i. stands_for (dw_rows d) seg off i \<and> line = le_line (dw_rows d ! i) \<and>
        (\<forall>name. file = Some name \<longleftrightarrow> (\<exists>n < length (dw_names d). le_file (dw_rows d ! i) = int n + 1 \<and> name = dw_names d ! n)) \<and>
        (\<forall>j. stands_for (dw_rows d) seg off j \<longrightarrow>
          le_address (dw_rows d ! j) < le_address (dw_rows d ! i) \<or>
          le_address (dw_rows d ! j) = le_address (dw_rows d ! i) \<and> j \<le> i)))"
proof -
  have s: "stands_for (dw_rows d) seg off i \<longleftrightarrow> i < length (dw_rows d) \<and> covers (dw_rows d) seg off i" for i
    using covers_stands_for [of i "dw_rows d" seg off] by (cases "i < length (dw_rows d)") (auto simp: stands_for_def)
  have f: "row_file d r = Some name \<longleftrightarrow> (\<exists>n < length (dw_names d). le_file r = int n + 1 \<and> name = dw_names d ! n)" for r name
  proof
    assume "row_file d r = Some name"
    then have "0 < le_file r" "le_file r \<le> int (length (dw_names d))" "name = dw_names d ! nat (le_file r - 1)"
      by (auto simp: row_file_def split: if_split_asm)
    then show "\<exists>n < length (dw_names d). le_file r = int n + 1 \<and> name = dw_names d ! n"
      by (intro exI [of _ "nat (le_file r - 1)"]) auto
  qed (auto simp: row_file_def)
  show ?thesis using dwarf_addr_to_line_row [OF assms, of seg off] unfolding s f [symmetric] by blast
qed

definition demo_dwarf :: dwarf where
  "demo_dwarf = no_dwarf\<lparr>dw_loaded := True, dw_names := [str ''ed.asm''],
     dw_rows := run_instrs demo_header [0, 1] demo_line_prog start_regs\<rparr>"

theorem dwarf_addr_to_line_best_witness:
  "dwarf_addr_to_line demo_dwarf 1 0x1240 = Some (Some (str ''ed.asm''), 302) \<and>
   (\<exists>i. stands_for (dw_rows demo_dwarf) 1 0x1240 i \<and> le_line (dw_rows demo_dwarf ! i) = 302) \<and>
   (\<forall>i. \<not> stands_for (dw_rows demo_dwarf) 1 0x148E i)"
proof -
  have l: "dw_loaded demo_dwarf" by (simp add: demo_dwarf_def)
  have r: "dwarf_addr_to_line demo_dwarf 1 0x1240 = Some (Some (str ''ed.asm''), 302)"
    "dwarf_addr_to_line demo_dwarf 1 0x148E = None" by code_simp+
  obtain i where i: "stands_for (dw_rows demo_dwarf) 1 0x1240 i" "302 = le_line (dw_rows demo_dwarf ! i)"
    using dwarf_addr_to_line_best [OF l, of 1 "0x1240", THEN conjunct2, rule_format, OF r(1)] by blast
  have "\<forall>i. \<not> stands_for (dw_rows demo_dwarf) 1 0x148E i"
    using dwarf_addr_to_line_best [OF l, of 1 "0x148E", THEN conjunct1] r(2) by blast
  then show ?thesis using i r(1) by metis
qed

text \<open>
  The rows that the second pass did not fill cover every address of segment 0, which is that of LX modules: where no other
  row covers an address, the answer is a line 0 of no file instead of none.
\<close>

lemma dwarf_addr_to_line_cleared_row:
  assumes "dw_loaded d" "dw_rows d = rs @ replicate (Suc k) no_row" "off \<noteq> 0xFFFFFFFF"
    "\<forall>i < length rs. \<not> covers (dw_rows d) 0 off i"
  shows "dwarf_addr_to_line d 0 off = Some (None, 0)"
proof -
  let ?i = "length rs"
  have rest: "i < length (dw_rows d) \<Longrightarrow> \<not> i < ?i \<Longrightarrow> dw_rows d ! i = no_row" for i
    by (simp add: assms(2) nth_append del: replicate_Suc)
  have "find le_end (drop (?i + 1) (dw_rows d)) = None" by (auto simp: assms(2) find_None_iff no_row_def)
  moreover have "off < 0xFFFFFFFF"
  proof -
    have m: "(0xFFFFFFFF :: u32) = - 1" by simp
    show ?thesis using assms(3) unfolding m word_order.not_eq_extremum .
  qed
  ultimately have "covers (dw_rows d) 0 off ?i"
    using rest [of ?i] by (simp add: covers_def end_after_def assms(2) no_row_def)
  then have "dwarf_addr_to_line d 0 off \<noteq> None"
    using dwarf_addr_to_line_row [OF assms(1), of 0 off] by (auto simp: assms(2))
  then obtain fl ln where a: "dwarf_addr_to_line d 0 off = Some (fl, ln)" by auto
  then obtain i where "i < length (dw_rows d)" "covers (dw_rows d) 0 off i" "fl = row_file d (dw_rows d ! i)"
    "ln = le_line (dw_rows d ! i)" using dwarf_addr_to_line_row [OF assms(1), of 0 off] by blast
  then have "dw_rows d ! i = no_row" "fl = row_file d (dw_rows d ! i)" "ln = le_line (dw_rows d ! i)"
    using assms(4) rest by blast+
  then show ?thesis using a by (simp add: row_file_def no_row_def)
qed

text \<open>A line that has a row leads to an address of the file with that line, by the first such row.\<close>

lemma dwarf_line_to_addr_found:
  assumes "dwarf_line_to_addr d filename line = (Some (seg, off), Some name)"
  shows "basename_of name = basename_of filename \<and>
    (\<exists>r \<in> set (dw_rows d). \<not> le_end r \<and> le_segment r = seg \<and> le_address r = off \<and> le_line r = line)"
proof -
  obtain k where k: "file_index d filename = Some k" "name = dw_names d ! k"
    "map_option (\<lambda>r. (le_segment r, le_address r))
      (find (\<lambda>r. \<not> le_end r \<and> le_file r = int k + 1 \<and> le_line r = line) (dw_rows d)) = Some (seg, off)"
    using assms by (auto simp: dwarf_line_to_addr_def split: if_splits option.splits)
  have "basename_of name = basename_of filename" using k(1,2) by (auto simp: file_index_def find_Some_iff)
  moreover obtain r where "find (\<lambda>r. \<not> le_end r \<and> le_file r = int k + 1 \<and> le_line r = line) (dw_rows d) = Some r"
    "seg = le_segment r" "off = le_address r" using k(3) by auto
  ultimately show ?thesis by (auto simp: find_Some_iff)
qed

subsection \<open>The place of the debug information in an LX header\<close>

text \<open>The two fields are read where the header has the table of imported modules.\<close>

lemma debug_info_misread:
  assumes "read_LxHeader f p = Some lx"
  shows "read_u32_le f (p + LX_DEBUG_INFO_OFFSET) = Some (import_module_table_offset lx)"
    "read_u32_le f (p + LX_DEBUG_INFO_LEN) = Some (num_import_mod_entries lx)"
    "read_u32_le f (p + 0x98) = Some (debug_info_offset lx)"
  using assms by (auto simp: read_LxHeader_def Let_def read_u32_le_def rd32_def LX_DEBUG_INFO_OFFSET_def
      LX_DEBUG_INFO_LEN_def sizeof_LxHeader_def add.assoc split: if_splits)

subsection \<open>Source text\<close>

lemma expand_tabs_plain: "c \<in> set (expand_tabs col cs) \<Longrightarrow> c \<noteq> 0x09 \<and> c \<noteq> 0x0D"
  by (induction col cs rule: expand_tabs.induct) (auto split: if_splits)

text \<open>The text fits in the block that is allocated for it, with its NUL.\<close>

lemma expand_tabs_fits: "length (expand_tabs col cs) \<le> 8 * length cs"
  by (induction col cs rule: expand_tabs.induct) auto

lemma split_lines_count: "length (split_lines cur cs) = Suc (length (filter (\<lambda>c. c = 0x0A) cs))"
  by (induction cur cs rule: split_lines.induct) auto

lemma split_lines_text: "concat (map (\<lambda>l. l @ [0x0A]) (split_lines cur cs)) = cur @ cs @ [0x0A]"
  by (induction cur cs rule: split_lines.induct) auto

lemma find_snoc: "find P xs = None \<Longrightarrow> P x \<Longrightarrow> find P (xs @ [x]) = Some x"
  by (induction xs) (auto split: if_splits)

text \<open>
  A source found under its own name is read once; found elsewhere it is kept under the name it was found by, so the
  next call reads it again and keeps it once more.
\<close>

lemma dwarf_get_source_cached:
  assumes "dwarf_get_source fopen mem asm_path d filename = (Some ls, d')" "find (\<lambda>s. fst s = filename) (dw_sources d) = None"
    "fopen filename \<noteq> None"
  shows "dwarf_get_source fopen' mem' asm_path' d' filename = (Some ls, d')"
proof -
  have p: "find (\<lambda>p. fopen p \<noteq> None) (source_paths (dw_prog_dir d) asm_path filename) = Some filename"
    using assms(3) by (simp add: source_paths_def Let_def)
  then have "d' = d\<lparr>dw_sources := dw_sources d @ [(filename, ls)]\<rparr>" "dw_loaded d"
    using assms(1,2) by (auto simp: dwarf_get_source_def load_source_file_def split: if_splits)
  moreover have "find (\<lambda>s. fst s = filename) (dw_sources d @ [(filename, ls)]) = Some (filename, ls)"
    by (rule find_snoc [OF assms(2)]) simp
  ultimately show ?thesis by (simp add: dwarf_get_source_def)
qed

lemma dwarf_get_source_again:
  assumes "dwarf_get_source fopen mem asm_path d filename = (Some ls, d')" "find (\<lambda>s. fst s = filename) (dw_sources d) = None"
    "fopen filename = None"
  shows "length (dw_sources d') = length (dw_sources d) + 1"
    "dwarf_get_source fopen mem asm_path d' filename = (Some ls, d'\<lparr>dw_sources := dw_sources d' @ [last (dw_sources d')]\<rparr>)"
proof -
  obtain p where l: "dw_loaded d" "load_source_file fopen mem (dw_prog_dir d) asm_path filename = Some (p, ls)"
    and d': "d' = d\<lparr>dw_sources := dw_sources d @ [(p, ls)]\<rparr>"
    using assms(1,2) by (auto simp: dwarf_get_source_def split: if_splits option.splits)
  have "fopen p \<noteq> None" using l(2) by (auto simp: load_source_file_def find_Some_iff split: option.splits if_splits)
  then have "p \<noteq> filename" using assms(3) by auto
  then have n: "find (\<lambda>s. fst s = filename) (dw_sources d @ [(p, ls)]) = None"
    using assms(2) by (auto simp: find_None_iff)
  show "length (dw_sources d') = length (dw_sources d) + 1" by (simp add: d')
  show "dwarf_get_source fopen mem asm_path d' filename = (Some ls, d'\<lparr>dw_sources := dw_sources d' @ [last (dw_sources d')]\<rparr>)"
    using l n by (simp add: dwarf_get_source_def d')
qed

end
