(* ===== verification/Ptrace.thy ===== *)
theory Ptrace
  imports Prelude
begin

section \<open>The memory of the debuggee (\<^verbatim>\<open>debugger/ptrace_wrapper.c\<close>, \<^verbatim>\<open>debugger/td2ine_core.cpp\<close>)\<close>

text \<open>
  \<^verbatim>\<open>ptrace\<close> reads and writes the memory of the program that is debugged a word at a time; the word at an address is the four bytes
  from it, least significant first, and an address that is not mapped is an error (\<open>None\<close>).
\<close>

type_synonym dmem = "u32 \<Rightarrow> u8 option"

definition peek :: "dmem \<Rightarrow> u32 \<Rightarrow> u32 option" where
  "peek m a = do { b0 \<leftarrow> m a; b1 \<leftarrow> m (a + 1); b2 \<leftarrow> m (a + 2); b3 \<leftarrow> m (a + 3); Some (le32 b0 b1 b2 b3) }"

definition poke :: "dmem \<Rightarrow> u32 \<Rightarrow> u32 \<Rightarrow> dmem option" where
  "poke m a w = (if peek m a = None then None
     else Some (m(a \<mapsto> ucast w, a + 1 \<mapsto> ucast (drop_bit 8 w), a + 2 \<mapsto> ucast (drop_bit 16 w), a + 3 \<mapsto> ucast (drop_bit 24 w))))"

subsection \<open>Byte by byte\<close>

text \<open>The functions of the debugger's core read the aligned word for every byte, and write it back with the byte replaced.\<close>

fun ptrace_read_memory :: "dmem \<Rightarrow> u32 \<Rightarrow> nat \<Rightarrow> bytes option" where
  "ptrace_read_memory m a 0 = Some []"
| "ptrace_read_memory m a (Suc n) = do {
     w \<leftarrow> peek m (a AND NOT 3);
     r \<leftarrow> ptrace_read_memory m (a + 1) n;
     Some (ucast (drop_bit (unat (a AND 3) * 8) w) # r) }"

text \<open>A failure leaves the bytes before it written.\<close>

definition put_byte :: "dmem \<Rightarrow> u32 \<Rightarrow> u8 \<Rightarrow> dmem option" where
  "put_byte m a b = do {
     w \<leftarrow> peek m (a AND NOT 3);
     let k = unat (a AND 3) * 8;
     poke m (a AND NOT 3) ((w AND NOT (push_bit k 0xFF)) OR push_bit k (ucast b)) }"

fun ptrace_write_memory :: "dmem \<Rightarrow> u32 \<Rightarrow> bytes \<Rightarrow> bool \<times> dmem" where
  "ptrace_write_memory m a [] = (True, m)"
| "ptrace_write_memory m a (b # bs) =
    (case put_byte m a b of
       None \<Rightarrow> (False, m)
     | Some m' \<Rightarrow> ptrace_write_memory m' (a + 1) bs)"

subsection \<open>Word by word\<close>

text \<open>The functions of the wrapper read each word once; only the first is entered in its middle, at an offset below four.\<close>

function read_words :: "dmem \<Rightarrow> u32 \<Rightarrow> nat \<Rightarrow> nat \<Rightarrow> bytes option" where
  "read_words m aligned offs remaining =
    (if remaining = 0 \<or> 4 \<le> offs then Some []
     else do {
       w \<leftarrow> peek m aligned;
       r \<leftarrow> read_words m (aligned + 4) 0 (remaining - min remaining (4 - offs));
       Some (take (min remaining (4 - offs)) (drop offs (bytes32 w)) @ r) })"
  by pat_completeness auto

termination by (relation "measure (\<lambda>(m, a, offs, n). n)") auto

declare read_words.simps [simp del]

definition ptrace_read_mem :: "dmem \<Rightarrow> u32 \<Rightarrow> nat \<Rightarrow> bytes option" where
  "ptrace_read_mem m addr len = read_words m (addr AND NOT 3) (unat (addr AND 3)) len"

function write_words :: "dmem \<Rightarrow> u32 \<Rightarrow> nat \<Rightarrow> bytes \<Rightarrow> bool \<times> dmem" where
  "write_words m aligned offs src =
    (if src = [] \<or> 4 \<le> offs then (True, m)
     else case peek m aligned of
         None \<Rightarrow> (False, m)
       | Some w \<Rightarrow>
           let bs = blit (bytes32 w) offs (take (min (length src) (4 - offs)) src) in
           (case poke m aligned (le32 (bs ! 0) (bs ! 1) (bs ! 2) (bs ! 3)) of
              None \<Rightarrow> (False, m)
            | Some m' \<Rightarrow> write_words m' (aligned + 4) 0 (drop (min (length src) (4 - offs)) src)))"
  by pat_completeness auto

termination by (relation "measure (\<lambda>(m, a, offs, src). length src)") (auto simp: Let_def)

declare write_words.simps [simp del]

definition ptrace_write_mem :: "dmem \<Rightarrow> u32 \<Rightarrow> bytes \<Rightarrow> bool \<times> dmem" where
  "ptrace_write_mem m addr buf = write_words m (addr AND NOT 3) (unat (addr AND 3)) buf"

subsection \<open>Words and bytes\<close>

text \<open>Memory is mapped in whole words (in whole pages, even).\<close>

definition word_mapped :: "dmem \<Rightarrow> bool" where
  "word_mapped m \<longleftrightarrow> (\<forall>a b. a AND NOT 3 = b AND NOT 3 \<longrightarrow> (m a = None \<longleftrightarrow> m b = None))"

lemma mask_2: "(mask 2 :: u32) = 3"
  by (simp add: mask_eq_exp_minus_1)

lemma aligned_plus: "b AND 3 = b \<Longrightarrow> (a AND NOT 3) + b = (a AND NOT 3) OR (b :: u32)"
proof -
  assume b: "b AND 3 = b"
  have "bit b n \<Longrightarrow> n < 2" for n
    using arg_cong [OF b, of "\<lambda>x. bit x n"] unfolding mask_2 [symmetric] by (auto simp: bit_simps)
  then show ?thesis unfolding mask_2 [symmetric] by (intro disjunctive_add) (auto simp: bit_simps)
qed

lemma align_split: "(a AND NOT 3) + (a AND 3) = (a :: u32)"
proof -
  have "(a AND NOT 3) + (a AND 3) = (a AND NOT 3) OR (a AND 3)" by (rule aligned_plus) (simp add: and.assoc)
  also have "\<dots> = a" unfolding mask_2 [symmetric] by (rule bit_word_eqI) (auto simp: bit_simps)
  finally show ?thesis .
qed

lemma low2: "unat (a AND 3 :: u32) < 4"
  using unat_take_bit_word [of 2 a] by (simp add: and_mask_nums)

lemma low2_cases: "a AND 3 = 0 \<or> a AND 3 = 1 \<or> a AND 3 = 2 \<or> a AND 3 = (3 :: u32)"
proof -
  have "unat (a AND 3) = 0 \<or> unat (a AND 3) = 1 \<or> unat (a AND 3) = 2 \<or> unat (a AND 3) = 3"
    using low2 [of a] by linarith
  then show ?thesis by (simp add: word_unat_eq_iff)
qed

lemma aligned_same: "b = 0 \<or> b = 1 \<or> b = 2 \<or> b = 3 \<Longrightarrow> ((a AND NOT 3) + b) AND NOT 3 = (a AND NOT 3 :: u32)"
proof -
  assume b: "b = 0 \<or> b = 1 \<or> b = 2 \<or> b = (3 :: u32)"
  then have m: "b AND 3 = b" by auto
  have z: "bit b n \<Longrightarrow> n < 2" for n
    using arg_cong [OF m, of "\<lambda>x. bit x n"] unfolding mask_2 [symmetric] by (auto simp: bit_simps)
  show ?thesis unfolding aligned_plus [OF m] unfolding mask_2 [symmetric]
    by (rule bit_word_eqI) (use z in \<open>auto simp: bit_simps\<close>)
qed

text \<open>A byte is its part of the aligned word.\<close>

lemma word_parts: "ucast (le32 b0 b1 b2 b3) = b0" "ucast (drop_bit 8 (le32 b0 b1 b2 b3)) = b1"
  "ucast (drop_bit 16 (le32 b0 b1 b2 b3)) = b2" "ucast (drop_bit 24 (le32 b0 b1 b2 b3)) = b3"
  by (rule bit_word_eqI; auto simp: le32_def bit_simps dest: bit_imp_le_length)+

lemma peek_Some: "peek m a = Some w \<longleftrightarrow> m a = Some (ucast w) \<and> m (a + 1) = Some (ucast (drop_bit 8 w)) \<and>
    m (a + 2) = Some (ucast (drop_bit 16 w)) \<and> m (a + 3) = Some (ucast (drop_bit 24 w))"
proof
  assume "peek m a = Some w"
  then show "m a = Some (ucast w) \<and> m (a + 1) = Some (ucast (drop_bit 8 w)) \<and>
    m (a + 2) = Some (ucast (drop_bit 16 w)) \<and> m (a + 3) = Some (ucast (drop_bit 24 w))"
    by (auto simp: peek_def word_parts split: bind_splits)
next
  assume "m a = Some (ucast w) \<and> m (a + 1) = Some (ucast (drop_bit 8 w)) \<and>
    m (a + 2) = Some (ucast (drop_bit 16 w)) \<and> m (a + 3) = Some (ucast (drop_bit 24 w))"
  then show "peek m a = Some w" by (simp add: peek_def le32_bytes32)
qed

lemma peek_mapped: "word_mapped m \<Longrightarrow> peek m (a AND NOT 3) = None \<longleftrightarrow> m a = None"
proof -
  assume wm: "word_mapped m"
  have e: "m ((a AND NOT 3) + b) = None \<longleftrightarrow> m a = None" if "b = 0 \<or> b = 1 \<or> b = 2 \<or> b = 3" for b
    using wm aligned_same [OF that, of a] unfolding word_mapped_def by blast
  show ?thesis using e [of 0] e [of 1] e [of 2] e [of 3] by (cases "m a") (auto simp: peek_def)
qed

lemma peek_byte: "peek m (a AND NOT 3) = Some w \<Longrightarrow> m a = Some (ucast (drop_bit (unat (a AND 3) * 8) w))"
proof -
  assume "peek m (a AND NOT 3) = Some w"
  then have p: "m (a AND NOT 3) = Some (ucast w)" "m ((a AND NOT 3) + 1) = Some (ucast (drop_bit 8 w))"
    "m ((a AND NOT 3) + 2) = Some (ucast (drop_bit 16 w))" "m ((a AND NOT 3) + 3) = Some (ucast (drop_bit 24 w))"
    by (simp_all only: peek_Some)
  from low2_cases [of a] consider "a AND 3 = 0" | "a AND 3 = 1" | "a AND 3 = 2" | "a AND 3 = 3" by blast
  then show ?thesis
  proof cases
    case 1
    then show ?thesis using p(1) align_split [of a] by simp
  next
    case 2
    then show ?thesis using p(2) align_split [of a] by simp
  next
    case 3
    then show ?thesis using p(3) align_split [of a] by simp
  next
    case 4
    then show ?thesis using p(4) align_split [of a] by simp
  qed
qed

subsection \<open>The memory a range of addresses reads and takes\<close>

fun mem_range :: "dmem \<Rightarrow> u32 \<Rightarrow> nat \<Rightarrow> bytes option" where
  "mem_range m a 0 = Some []"
| "mem_range m a (Suc n) = do { b \<leftarrow> m a; r \<leftarrow> mem_range m (a + 1) n; Some (b # r) }"

fun mem_put :: "dmem \<Rightarrow> u32 \<Rightarrow> bytes \<Rightarrow> dmem" where
  "mem_put m a [] = m"
| "mem_put m a (b # bs) = mem_put (m(a \<mapsto> b)) (a + 1) bs"

lemma ptrace_read_memory_range: "word_mapped m \<Longrightarrow> ptrace_read_memory m a n = mem_range m a n"
proof (induction n arbitrary: a)
  case (Suc n)
  show ?case
  proof (cases "peek m (a AND NOT 3)")
    case None
    then show ?thesis using peek_mapped [OF Suc.prems, of a] by simp
  next
    case (Some w)
    then show ?thesis using peek_byte [OF Some] Suc by simp
  qed
qed simp

lemma mem_range_add: "mem_range m a (n + k) = do { x \<leftarrow> mem_range m a n; y \<leftarrow> mem_range m (a + of_nat n) k; Some (x @ y) }"
proof (induction n arbitrary: a)
  case (Suc n)
  show ?case by (simp add: Suc add.assoc)
qed (cases "mem_range m a k"; simp)

lemma read_words_unfold: "n \<noteq> 0 \<Longrightarrow> offs < 4 \<Longrightarrow> read_words m al offs n = do {
       w \<leftarrow> peek m al;
       r \<leftarrow> read_words m (al + 4) 0 (n - min n (4 - offs));
       Some (take (min n (4 - offs)) (drop offs (bytes32 w)) @ r) }"
  by (subst read_words.simps) simp

lemma word_range: "peek m al = Some w \<Longrightarrow> offs < 4 \<Longrightarrow> c \<le> 4 - offs \<Longrightarrow>
    mem_range m (al + of_nat offs) c = Some (take c (drop offs (bytes32 w)))"
proof -
  assume a: "peek m al = Some w" "offs < 4" "c \<le> 4 - offs"
  then have p: "m al = Some (ucast w)" "m (al + 1) = Some (ucast (drop_bit 8 w))"
    "m (al + 2) = Some (ucast (drop_bit 16 w))" "m (al + 3) = Some (ucast (drop_bit 24 w))"
    by (simp_all only: peek_Some)
  have "offs = 0 \<or> offs = 1 \<or> offs = 2 \<or> offs = 3" "c = 0 \<or> c = 1 \<or> c = 2 \<or> c = 3 \<or> c = 4" using a(2,3) by linarith+
  then show ?thesis using a(3) p by (elim disjE) (simp_all add: bytes32_def add.assoc numeral_eq_Suc)
qed

lemma word_range_None: "word_mapped m \<Longrightarrow> al AND NOT 3 = al \<Longrightarrow> peek m al = None \<Longrightarrow> offs < 4 \<Longrightarrow>
    mem_range m (al + of_nat offs) (Suc c) = None"
proof -
  assume a: "word_mapped m" "al AND NOT 3 = al" "peek m al = None" "offs < 4"
  have "offs = 0 \<or> offs = 1 \<or> offs = 2 \<or> offs = 3" using a(4) by linarith
  then have o4: "of_nat offs = 0 \<or> of_nat offs = 1 \<or> of_nat offs = 2 \<or> of_nat offs = (3 :: u32)" by auto
  have "(al + of_nat offs) AND NOT 3 = al" using aligned_same [OF o4, of al] a(2) by simp
  then have "m (al + of_nat offs) = None" using peek_mapped [OF a(1), of "al + of_nat offs"] a(3) by simp
  then show ?thesis by simp
qed

lemma aligned_low: "(a AND NOT 3) AND 3 = (0 :: u32)"
  by (simp add: and.assoc)

lemma aligned_next: "al AND NOT 3 = al \<Longrightarrow> (al + 4) AND NOT 3 = (al + 4 :: u32)"
proof -
  assume a: "al AND NOT 3 = al"
  have n2: "2 \<le> n \<Longrightarrow> Suc (Suc (n - 2)) = n" for n :: nat by simp
  have p: "push_bit 2 x AND NOT (mask 2) = push_bit 2 x" for x :: u32 by (rule bit_word_eqI) (auto simp: bit_simps)
  have "al = push_bit 2 (drop_bit 2 al)"
    by (subst a [symmetric], unfold mask_2 [symmetric], rule bit_word_eqI) (auto simp: bit_simps not_less n2)
  then have "al + 4 = push_bit 2 (drop_bit 2 al + 1)" by (simp add: push_bit_eq_mult distrib_left mult.commute)
  then show ?thesis using p [of "drop_bit 2 al + 1"] unfolding mask_2 by (simp only:)
qed

lemma read_words_range: "word_mapped m \<Longrightarrow> al AND NOT 3 = al \<Longrightarrow> offs < 4 \<Longrightarrow>
    read_words m al offs n = mem_range m (al + of_nat offs) n"
proof (induction n arbitrary: al offs rule: less_induct)
  case (less n)
  show ?case
  proof (cases "n = 0")
    case True
    then show ?thesis by (subst read_words.simps) simp
  next
    case False
    let ?c = "min n (4 - offs)"
    show ?thesis
    proof (cases "peek m al")
      case None
      then show ?thesis using False read_words_unfold [OF False less.prems(3), of m al]
          word_range_None [OF less.prems(1,2) None less.prems(3), of "n - 1"] by simp
    next
      case (Some w)
      have c: "0 < ?c" "n = ?c + (n - ?c)" using False less.prems(3) by auto
      have w: "mem_range m (al + of_nat offs) ?c = Some (take ?c (drop offs (bytes32 w)))"
        by (rule word_range [OF Some less.prems(3)]) simp
      have IH: "read_words m (al + 4) 0 (n - ?c) = mem_range m (al + 4) (n - ?c)"
        using less.IH [of "n - ?c" "al + 4" 0] less.prems(1) aligned_next [OF less.prems(2)] c(1) False by simp
      have nx: "n - ?c = 0 \<or> al + of_nat offs + of_nat ?c = al + 4"
      proof (cases "n \<le> 4 - offs")
        case False
        then have "of_nat offs + of_nat ?c = (of_nat 4 :: u32)" using less.prems(3)
          by (simp only: of_nat_add [symmetric]) (simp add: min_def)
        then show ?thesis by (simp add: add.assoc)
      qed simp
      have "mem_range m (al + of_nat offs) n = do { y \<leftarrow> mem_range m (al + of_nat offs + of_nat ?c) (n - ?c);
          Some (take ?c (drop offs (bytes32 w)) @ y) }"
        by (subst c(2), subst mem_range_add) (simp add: w)
      also have "\<dots> = do { y \<leftarrow> mem_range m (al + 4) (n - ?c); Some (take ?c (drop offs (bytes32 w)) @ y) }"
        using nx by (elim disjE) (simp_all only: mem_range.simps)
      finally show ?thesis using read_words_unfold [OF False less.prems(3), of m al] Some IH by simp
    qed
  qed
qed

subsection \<open>Writing\<close>

lemma set_part:
  assumes "j < 4" "k < 4"
  shows "(ucast (drop_bit (8 * j) ((w AND NOT (push_bit (8 * k) 0xFF)) OR push_bit (8 * k) (ucast b)) :: u32) :: u8)
    = (if j = k then b else ucast (drop_bit (8 * j) w))"
proof (rule bit_word_eqI)
  fix i :: nat
  assume "i < LENGTH(8)"
  then have i: "i < 8" by simp
  have ff: "(0xFF :: u32) = mask 8" by (simp add: mask_eq_exp_minus_1)
  have at: "8 * k \<le> 8 * j + i \<and> 8 * j + i - 8 * k < 8 \<longleftrightarrow> j = k" using i by presburger
  have n: "8 * j + i < 32" using assms(1) i by simp
  show "bit (ucast (drop_bit (8 * j) ((w AND NOT (push_bit (8 * k) 0xFF)) OR push_bit (8 * k) (ucast b)) :: u32) :: u8) i
      = bit (if j = k then b else ucast (drop_bit (8 * j) w)) i"
  proof (cases "j = k")
    case True
    then show ?thesis using i n unfolding ff by (auto simp: bit_simps)
  next
    case False
    then have "\<not> (8 * k \<le> 8 * j + i \<and> 8 * j + i - 8 * k < 8)" using at by simp
    then show ?thesis using False i n unfolding ff
      by (auto simp: bit_simps dest: bit_imp_le_length)
  qed
qed

lemma poke_parts: "peek m a = Some w \<Longrightarrow> poke m a v = Some (m(a \<mapsto> ucast v, a + 1 \<mapsto> ucast (drop_bit 8 v),
    a + 2 \<mapsto> ucast (drop_bit 16 v), a + 3 \<mapsto> ucast (drop_bit 24 v)))"
  by (simp add: poke_def)

lemma put_byte_put: "word_mapped m \<Longrightarrow> m a \<noteq> None \<Longrightarrow> put_byte m a b = Some (m(a \<mapsto> b))"
proof -
  assume "word_mapped m" "m a \<noteq> None"
  then have "peek m (a AND NOT 3) \<noteq> None" by (simp only: peek_mapped) simp
  then obtain w where w: "peek m (a AND NOT 3) = Some w" by blast
  let ?al = "a AND NOT 3"
  have p: "m ?al = Some (ucast w)" "m (?al + 1) = Some (ucast (drop_bit 8 w))"
    "m (?al + 2) = Some (ucast (drop_bit 16 w))" "m (?al + 3) = Some (ucast (drop_bit 24 w))"
    using w by (simp_all only: peek_Some)
  have s: "put_byte m a b = poke m ?al ((w AND NOT (push_bit (unat (a AND 3) * 8) 0xFF)) OR push_bit (unat (a AND 3) * 8) (ucast b))"
    by (simp only: put_byte_def w Let_def bind.bind_lunit)
  note sp = set_part [of 0 _ w b] set_part [of 1 _ w b] set_part [of 2 _ w b] set_part [of 3 _ w b]
  have d: "?al + 1 \<noteq> ?al" "?al + 2 \<noteq> ?al" "?al + 3 \<noteq> ?al" by simp_all
  from low2_cases [of a] consider "a AND 3 = 0" | "a AND 3 = 1" | "a AND 3 = 2" | "a AND 3 = 3" by blast
  then show ?thesis
  proof cases
    case 1
    then have "a = ?al" using align_split [of a] by simp
    moreover have "put_byte m a b = Some (m(?al \<mapsto> b))"
      unfolding s poke_parts [OF w] using 1 sp(1-4) [of 0] p by (auto simp: fun_eq_iff)
    ultimately show ?thesis by simp
  next
    case 2
    then have "a = ?al + 1" using align_split [of a] by simp
    moreover have "put_byte m a b = Some (m(?al + 1 \<mapsto> b))"
      unfolding s poke_parts [OF w] using 2 sp(1-4) [of 1] p by (auto simp: fun_eq_iff)
    ultimately show ?thesis by simp
  next
    case 3
    then have "a = ?al + 2" using align_split [of a] by simp
    moreover have "put_byte m a b = Some (m(?al + 2 \<mapsto> b))"
      unfolding s poke_parts [OF w] using 3 sp(1-4) [of 2] p by (auto simp: fun_eq_iff)
    ultimately show ?thesis by simp
  next
    case 4
    then have "a = ?al + 3" using align_split [of a] by simp
    moreover have "put_byte m a b = Some (m(?al + 3 \<mapsto> b))"
      unfolding s poke_parts [OF w] using 4 sp(1-4) [of 3] p by (auto simp: fun_eq_iff)
    ultimately show ?thesis by simp
  qed
qed

lemma word_mapped_upd: "word_mapped m \<Longrightarrow> m a \<noteq> None \<Longrightarrow> word_mapped (m(a \<mapsto> b))"
  unfolding word_mapped_def by (metis fun_upd_other fun_upd_same option.distinct(1))

lemma mem_range_upd: "m a \<noteq> None \<Longrightarrow> mem_range m x n \<noteq> None \<Longrightarrow> mem_range (m(a \<mapsto> b)) x n \<noteq> None"
proof (induction n arbitrary: x)
  case (Suc n)
  then have "m x \<noteq> None" "mem_range m (x + 1) n \<noteq> None" by (auto split: bind_splits)
  then show ?case using Suc.IH [of "x + 1"] Suc.prems(1) by (auto split: bind_splits)
qed simp

lemma mem_range_SucD: "mem_range m a (Suc n) \<noteq> None \<Longrightarrow> m a \<noteq> None \<and> mem_range m (a + 1) n \<noteq> None"
  by (auto split: bind_splits)

lemma ptrace_write_memory_put: "word_mapped m \<Longrightarrow> mem_range m a (length bs) \<noteq> None \<Longrightarrow>
    ptrace_write_memory m a bs = (True, mem_put m a bs)"
proof (induction bs arbitrary: m a)
  case (Cons b bs)
  have m: "m a \<noteq> None" "mem_range m (a + 1) (length bs) \<noteq> None"
    using mem_range_SucD [of m a "length bs"] Cons.prems(2) by simp_all
  have "ptrace_write_memory (m(a \<mapsto> b)) (a + 1) bs = (True, mem_put (m(a \<mapsto> b)) (a + 1) bs)"
    by (rule Cons.IH) (rule word_mapped_upd [OF Cons.prems(1) m(1)], rule mem_range_upd [OF m(1) m(2)])
  then show ?case by (simp add: put_byte_put [OF Cons.prems(1) m(1)])
qed simp

lemma mem_put_append: "mem_put m a (xs @ ys) = mem_put (mem_put m a xs) (a + of_nat (length xs)) ys"
  by (induction xs arbitrary: m a) (simp_all add: add.assoc)


lemma word_put:
  assumes "peek m al = Some w" "offs < 4" "length xs \<le> 4 - offs" "bs = blit (bytes32 w) offs xs"
  shows "poke m al (le32 (bs ! 0) (bs ! 1) (bs ! 2) (bs ! 3)) = Some (mem_put m (al + of_nat offs) xs)"
proof -
  have p: "m al = Some (ucast w)" "m (al + 1) = Some (ucast (drop_bit 8 w))"
    "m (al + 2) = Some (ucast (drop_bit 16 w))" "m (al + 3) = Some (ucast (drop_bit 24 w))"
    using assms(1) by (simp_all only: peek_Some)
  have k: "poke m al (le32 (bs ! 0) (bs ! 1) (bs ! 2) (bs ! 3))
      = Some (m(al \<mapsto> bs ! 0, al + 1 \<mapsto> bs ! 1, al + 2 \<mapsto> bs ! 2, al + 3 \<mapsto> bs ! 3))"
    by (simp add: poke_parts [OF assms(1)] word_parts)
  have bs: "bs = take offs (bytes32 w) @ xs @ drop (offs + length xs) (bytes32 w)"
    using assms(4) by (simp add: blit_def)
  have offs: "offs = 0 \<or> offs = 1 \<or> offs = 2 \<or> offs = 3" using assms(2) by linarith
  consider "xs = []" | x where "xs = [x]" | x y where "xs = [x, y]" | x y z where "xs = [x, y, z]"
    | x y z v where "xs = [x, y, z, v]"
  proof -
    have "length xs \<le> 4" using assms(3) by simp
    then show ?thesis using that
      by (cases xs rule: list.exhaust; cases "tl xs"; cases "tl (tl xs)"; cases "tl (tl (tl xs))"; cases "tl (tl (tl (tl xs)))") auto
  qed
  then show ?thesis
  proof cases
    case 1
    then show ?thesis using offs p unfolding k unfolding bs bytes32_def by (elim disjE) (auto simp: fun_eq_iff)
  next
    case (2 x)
    then show ?thesis using offs p unfolding k unfolding bs bytes32_def by (elim disjE) (auto simp: fun_eq_iff)
  next
    case (3 x y)
    then show ?thesis using offs p assms(3) unfolding k unfolding bs bytes32_def by (elim disjE) (auto simp: fun_eq_iff)
  next
    case (4 x y z)
    then show ?thesis using offs p assms(3) unfolding k unfolding bs bytes32_def by (elim disjE) (auto simp: fun_eq_iff)
  next
    case (5 x y z v)
    then show ?thesis using offs p assms(3) unfolding k unfolding bs bytes32_def by (elim disjE) (auto simp: fun_eq_iff)
  qed
qed

lemma mem_put_mapped: "word_mapped m \<Longrightarrow> mem_range m a (length xs) \<noteq> None \<Longrightarrow>
    word_mapped (mem_put m a xs) \<and> (\<forall>x n. mem_range m x n \<noteq> None \<longrightarrow> mem_range (mem_put m a xs) x n \<noteq> None)"
proof (induction xs arbitrary: m a)
  case (Cons b bs)
  have m: "m a \<noteq> None" "mem_range m (a + 1) (length bs) \<noteq> None"
    using mem_range_SucD [of m a "length bs"] Cons.prems(2) by simp_all
  have IH: "word_mapped (mem_put (m(a \<mapsto> b)) (a + 1) bs) \<and>
      (\<forall>x n. mem_range (m(a \<mapsto> b)) x n \<noteq> None \<longrightarrow> mem_range (mem_put (m(a \<mapsto> b)) (a + 1) bs) x n \<noteq> None)"
    by (rule Cons.IH) (rule word_mapped_upd [OF Cons.prems(1) m(1)], rule mem_range_upd [OF m(1) m(2)])
  moreover have "\<forall>x n. mem_range m x n \<noteq> None \<longrightarrow> mem_range (m(a \<mapsto> b)) x n \<noteq> None"
  proof (intro allI impI)
    fix x n
    assume x: "mem_range m x n \<noteq> None"
    show "mem_range (m(a \<mapsto> b)) x n \<noteq> None" by (rule mem_range_upd [OF m(1) x])
  qed
  ultimately show ?case unfolding mem_put.simps by blast
qed simp

lemma mem_range_split: "mem_range m a (n + k) \<noteq> None \<Longrightarrow> mem_range m a n \<noteq> None \<and> mem_range m (a + of_nat n) k \<noteq> None"
  unfolding mem_range_add by (auto split: bind_splits)

lemma write_words_put: "word_mapped m \<Longrightarrow> al AND NOT 3 = al \<Longrightarrow> offs < 4 \<Longrightarrow>
    mem_range m (al + of_nat offs) (length src) \<noteq> None \<Longrightarrow>
    write_words m al offs src = (True, mem_put m (al + of_nat offs) src)"
proof (induction "length src" arbitrary: m al offs src rule: less_induct)
  case less
  show ?case
  proof (cases "src = []")
    case True
    then show ?thesis by (subst write_words.simps) simp
  next
    case False
    define c where "c = min (length src) (4 - offs)"
    have c: "0 < c" "c \<le> length src" "c \<le> 4 - offs" using False less.prems(3) by (auto simp: c_def)
    let ?x = "take c src" and ?y = "drop c src" and ?a = "al + of_nat offs"
    have lx: "length ?x = c" using c(2) by simp
    have r: "mem_range m ?a (c + (length src - c)) \<noteq> None" using less.prems(4) c(2) by simp
    have rx: "mem_range m ?a c \<noteq> None" "mem_range m (?a + of_nat c) (length ?y) \<noteq> None"
      using mem_range_split [OF r] by simp_all
    obtain k where k: "c = Suc k" using c(1) by (cases c) auto
    have "peek m al \<noteq> None"
    proof
      assume n: "peek m al = None"
      show False using word_range_None [OF less.prems(1,2) n less.prems(3), of k] rx(1) k by simp
    qed
    then obtain w where w: "peek m al = Some w" by blast
    let ?m = "mem_put m ?a ?x"
    have mm: "word_mapped ?m" "mem_range ?m (?a + of_nat c) (length ?y) \<noteq> None"
      using mem_put_mapped [OF less.prems(1), of ?a ?x] rx lx by auto
    have p: "poke m al (le32 (blit (bytes32 w) offs ?x ! 0) (blit (bytes32 w) offs ?x ! 1) (blit (bytes32 w) offs ?x ! 2)
        (blit (bytes32 w) offs ?x ! 3)) = Some ?m"
      by (rule word_put [OF w less.prems(3) _ refl]) (use c(3) lx in simp)
    have step: "write_words m al offs src = write_words ?m (al + 4) 0 ?y"
      using False less.prems(3) w p unfolding c_def by (subst write_words.simps) (simp add: Let_def)
    have rest: "write_words ?m (al + 4) 0 ?y = (True, mem_put ?m (?a + of_nat c) ?y)"
    proof (cases "?y = []")
      case True
      then show ?thesis by (subst write_words.simps) simp
    next
      case False
      then have "offs + c = 4" using less.prems(3) by (auto simp: c_def)
      then have "of_nat offs + of_nat c = (4 :: u32)" by (metis of_nat_add of_nat_numeral)
      then have a4: "?a + of_nat c = al + 4" by (simp add: add.assoc)
      have "write_words ?m (al + 4) 0 ?y = (True, mem_put ?m (al + 4 + of_nat 0) ?y)"
        by (rule less.hyps) (use c False mm a4 aligned_next [OF less.prems(2)] in simp_all)
      then show ?thesis by (simp add: a4)
    qed
    have "mem_put m ?a src = mem_put ?m (?a + of_nat c) ?y" using mem_put_append [of m ?a ?x ?y] lx by simp
    then show ?thesis using step rest by simp
  qed
qed

lemma mem_put_other: "\<forall>i < length bs. x \<noteq> a + of_nat i \<Longrightarrow> mem_put m a bs x = m x"
proof (induction bs arbitrary: m a)
  case (Cons b bs)
  have "x \<noteq> a" using Cons.prems by force
  moreover have "\<forall>i < length bs. x \<noteq> a + 1 + of_nat i"
    using Cons.prems by (metis Suc_less_eq add.assoc length_Cons of_nat_Suc)
  ultimately show ?case using Cons.IH by simp
qed simp

lemma mem_put_range: "length bs \<le> 2 ^ 32 \<Longrightarrow> mem_range (mem_put m a bs) a (length bs) = Some bs"
proof (induction bs arbitrary: m a)
  case (Cons b bs)
  have "\<forall>i < length bs. a \<noteq> a + 1 + of_nat i"
  proof (intro allI impI)
    fix i
    assume "i < length bs"
    then have i: "Suc i < 4294967296" using Cons.prems by simp
    have "unat (of_nat (Suc i) :: u32) = Suc i" by (rule unat_of_nat_u32) (use i in simp)
    then have "(of_nat (Suc i) :: u32) \<noteq> 0" by (metis nat.distinct(1) unsigned_0)
    then show "a \<noteq> a + 1 + of_nat i" by (simp add: add.assoc)
  qed
  then have "mem_put (m(a \<mapsto> b)) (a + 1) bs a = Some b" by (subst mem_put_other) simp_all
  then show ?case using Cons by simp
qed simp

lemma ptrace_access:
  assumes "word_mapped m" "mem_range m a (length bs) \<noteq> None" "length bs \<le> 2 ^ 32"
  shows "ptrace_write_mem m a bs = (True, mem_put m a bs)" "ptrace_write_memory m a bs = (True, mem_put m a bs)"
    "ptrace_read_mem m a n = mem_range m a n" "ptrace_read_memory m a n = mem_range m a n"
proof -
  have al: "(a AND NOT 3) AND NOT 3 = (a AND NOT 3)" by (simp add: and.assoc)
  have o4: "unat (a AND 3) < 4" by (rule low2)
  have s: "(a AND NOT 3) + of_nat (unat (a AND 3)) = a" using align_split [of a] by simp
  show "ptrace_write_mem m a bs = (True, mem_put m a bs)"
    using write_words_put [OF assms(1) al o4, of bs] assms(2) unfolding s ptrace_write_mem_def by blast
  show "ptrace_read_mem m a n = mem_range m a n"
    using read_words_range [OF assms(1) al o4, of n] unfolding s ptrace_read_mem_def .
qed (use ptrace_write_memory_put [OF assms(1,2)] ptrace_read_memory_range [OF assms(1)] in auto)

subsection \<open>The properties\<close>

text \<open>
  C15. Where the memory at the addresses is mapped, both implementations write the same and report success, both then read back what was
  written, no other byte changes, and both read at any address exactly the bytes of the range (or fail, when one is not mapped).
\<close>

theorem ptrace_access_roundtrip:
  assumes "word_mapped m" "mem_range m a (length bs) \<noteq> None" "length bs \<le> 2 ^ 32"
  shows "\<exists>m'. ptrace_write_mem m a bs = (True, m') \<and> ptrace_write_memory m a bs = (True, m')
      \<and> ptrace_read_mem m' a (length bs) = Some bs \<and> ptrace_read_memory m' a (length bs) = Some bs
      \<and> (\<forall>x. (\<forall>i < length bs. x \<noteq> a + of_nat i) \<longrightarrow> m' x = m x)
      \<and> (\<forall>x n. ptrace_read_mem m' x n = mem_range m' x n \<and> ptrace_read_memory m' x n = mem_range m' x n)"
proof -
  let ?m = "mem_put m a bs"
  have wm: "word_mapped ?m" using mem_put_mapped [of m a bs] assms(1,2) by blast
  have rd: "ptrace_read_mem ?m x n = mem_range ?m x n" "ptrace_read_memory ?m x n = mem_range ?m x n" for x n
    using ptrace_access(3,4) [of ?m x "[]" n] wm by auto
  have "mem_range ?m a (length bs) = Some bs" by (rule mem_put_range [OF assms(3)])
  moreover have "\<forall>x. (\<forall>i < length bs. x \<noteq> a + of_nat i) \<longrightarrow> ?m x = m x"
    by (intro allI impI) (rule mem_put_other)
  ultimately show ?thesis using ptrace_access(1,2) [OF assms] rd by auto
qed

text \<open>Witness: five bytes written at an address in the middle of a word of a mapped page.\<close>

definition page_4096 :: dmem where
  "page_4096 a = (if a AND NOT 0xFFF = 0x1000 then Some (ucast a) else None)"

lemma page_4096_mapped: "word_mapped page_4096"
  unfolding word_mapped_def
proof (intro allI impI)
  fix a b :: u32
  assume same: "a AND NOT 3 = b AND NOT 3"
  have o3: "(3 OR 0xFFF :: u32) = 0xFFF" by simp
  have n: "NOT 3 AND NOT 0xFFF = (NOT 0xFFF :: u32)"
    unfolding bit.de_Morgan_disj [symmetric] o3 ..
  have "(a AND NOT 3) AND NOT 0xFFF = (b AND NOT 3) AND NOT 0xFFF" using same by (simp only:)
  then have e: "a AND NOT 0xFFF = b AND NOT 0xFFF" unfolding and.assoc n .
  show "(page_4096 a = None) = (page_4096 b = None)" unfolding page_4096_def e by (rule iffI; (split if_split_asm)?; simp split: if_splits)
qed

lemma ptrace_access_roundtrip_witness:
  "\<exists>m'. ptrace_write_mem page_4096 0x1003 [1, 2, 3, 4, 5] = (True, m') \<and> ptrace_read_memory m' 0x1003 (length [1, 2, 3, 4, 5 :: u8]) = Some [1, 2, 3, 4, 5]"
proof -
  have r: "mem_range page_4096 0x1003 (length [1, 2, 3, 4, 5 :: u8]) \<noteq> None" by code_simp
  have l: "length [1, 2, 3, 4, 5 :: u8] \<le> 2 ^ 32" by simp
  show ?thesis using ptrace_access_roundtrip [OF page_4096_mapped r l] by blast
qed

end
