(* ===== verification/CString.thy ===== *)
theory CString
  imports Prelude
begin

section \<open>The functions of the C library on strings\<close>

text \<open>
  What the debugger uses of \<^verbatim>\<open>string.h\<close>, \<^verbatim>\<open>stdlib.h\<close> and \<^verbatim>\<open>stdio.h\<close> on texts: a C string is its list of characters, without the
  zero that ends it.  \<open>strtoul\<close> gives the value and the rest that its end pointer points to; a \<^verbatim>\<open>long\<close> has 32 bits.
\<close>

definition starts :: "string \<Rightarrow> string \<Rightarrow> bool" where
  "starts p s \<longleftrightarrow> take (length p) s = p"

definition strstr :: "string \<Rightarrow> string \<Rightarrow> bool" where
  "strstr s p \<longleftrightarrow> list_ex (\<lambda>i. starts p (drop i s)) [0..<Suc (length s)]"

definition isspace :: "char \<Rightarrow> bool" where
  "isspace c \<longleftrightarrow> (of_char c :: nat) = 32 \<or> (9 \<le> (of_char c :: nat) \<and> (of_char c :: nat) \<le> 13)"

definition digit_value :: "char \<Rightarrow> nat option" where
  "digit_value c = (let n = of_char c :: nat in
     if 48 \<le> n \<and> n \<le> 57 then Some (n - 48)
     else if 97 \<le> n \<and> n \<le> 122 then Some (n - 87)
     else if 65 \<le> n \<and> n \<le> 90 then Some (n - 55)
     else None)"

definition digit_in :: "nat \<Rightarrow> char \<Rightarrow> bool" where
  "digit_in base c \<longleftrightarrow> (case digit_value c of None \<Rightarrow> False | Some d \<Rightarrow> d < base)"

definition digits_value :: "nat \<Rightarrow> string \<Rightarrow> int" where
  "digits_value base ds = fold (\<lambda>c v. v * int base + (case digit_value c of None \<Rightarrow> 0 | Some d \<Rightarrow> int d)) ds 0"

abbreviation is_hex :: "char \<Rightarrow> bool" where
  "is_hex \<equiv> digit_in 16"

text \<open>An optional sign, and the prefix of a hexadecimal number, which counts only before a digit.\<close>

definition strip_sign :: "string \<Rightarrow> bool \<times> string" where
  "strip_sign s = (case s of
     [] \<Rightarrow> (False, [])
   | c # cs \<Rightarrow> if c = CHR ''-'' then (True, cs) else if c = CHR ''+'' then (False, cs) else (False, s))"

definition hex_prefix :: "string \<Rightarrow> bool" where
  "hex_prefix s \<longleftrightarrow> (starts ''0x'' s \<or> starts ''0X'' s) \<and> 2 < length s \<and> is_hex (s ! 2)"

definition strtoul :: "string \<Rightarrow> nat \<Rightarrow> u32 \<times> string" where
  "strtoul s base =
    (let (neg, t) = strip_sign (dropWhile isspace s);
         hex = (base = 0 \<or> base = 16) \<and> hex_prefix t;
         b = (if hex then 16 else if base = 0 then (if starts ''0'' t then 8 else 10) else base);
         u = (if hex then drop 2 t else t);
         ds = takeWhile (digit_in b) u;
         v = digits_value b ds
     in if ds = [] then (0, s)
        else (if 2 ^ 32 \<le> v then 0xFFFFFFFF else if neg then - of_int v else of_int v, drop (length ds) u))"

text \<open>
  The conversion \<^verbatim>\<open>%hx\<close> of \<^verbatim>\<open>sscanf\<close> reads a number to the base 16, cut to 16 bits; a prefix \<^verbatim>\<open>0x\<close> without a digit does not match.
\<close>

definition scan_hx :: "string \<Rightarrow> (u16 \<times> string) option" where
  "scan_hx s =
    (let (neg, t) = strip_sign (dropWhile isspace s)
     in if (starts ''0x'' t \<or> starts ''0X'' t) \<and> \<not> hex_prefix t then None
        else let u = (if hex_prefix t then drop 2 t else t);
                 ds = takeWhile is_hex u
             in if ds = [] then None else Some (ucast (fst (strtoul s 16)), drop (length ds) u))"

text \<open>The format \<^verbatim>\<open>%hx,%hx\<close>: two numbers around a comma.\<close>

definition sscanf_hx_hx :: "string \<Rightarrow> (u16 \<times> u16) option" where
  "sscanf_hx_hx s = do {
     (a, r) \<leftarrow> scan_hx s;
     _ \<leftarrow> guard (starts '','' r);
     (b, r') \<leftarrow> scan_hx (tl r);
     Some (a, b) }"

lemma starts_append [simp]: "starts p (p @ s)"
  by (simp add: starts_def)

lemma strstr_iff: "strstr s p \<longleftrightarrow> (\<exists>a b. s = a @ p @ b)"
proof
  assume "strstr s p"
  then obtain i where "starts p (drop i s)" unfolding strstr_def list_ex_iff by blast
  then have "s = take i s @ p @ drop (length p) (drop i s)"
    by (metis append_take_drop_id starts_def)
  then show "\<exists>a b. s = a @ p @ b" by blast
next
  assume "\<exists>a b. s = a @ p @ b"
  then obtain a b where "s = a @ p @ b" by blast
  then show "strstr s p" unfolding strstr_def list_ex_iff by (intro bexI [of _ "length a"]) auto
qed

text \<open>The digits of a number, four of them as \<^verbatim>\<open>%04x\<close> prints.\<close>

definition hex_digit :: "nat \<Rightarrow> char" where
  "hex_digit d = ''0123456789abcdef'' ! (d mod 16)"

definition hex4 :: "u16 \<Rightarrow> string" where
  "hex4 v = [hex_digit (unat v div 4096), hex_digit (unat v div 256), hex_digit (unat v div 16), hex_digit (unat v)]"

lemma digit_value_hex_digit: "digit_value (hex_digit d) = Some (d mod 16)"
proof -
  have "\<forall>k \<in> {..<16}. digit_value (''0123456789abcdef'' ! k) = Some k" by code_simp
  then show ?thesis by (simp add: hex_digit_def)
qed

lemma is_hex_digit [simp]: "is_hex (hex_digit d)"
  by (simp add: digit_in_def digit_value_hex_digit)

lemma hex4_hex: "\<forall>c \<in> set (hex4 v). is_hex c" and length_hex4 [simp]: "length (hex4 v) = 4"
  by (simp_all add: hex4_def)

lemma digits_value_hex4: "digits_value 16 (hex4 v) = int (unat v)"
proof -
  let ?n = "unat v" and ?x = "unat v div 16"
  have s: "n div 16 * 16 + n mod 16 = n" for n :: nat by simp
  have "?n div 4096 < 16" using unat_u16_less(1) [of v] by linarith
  then have "?n div 4096 mod 16 = ?x div 16 div 16" "?n div 256 = ?x div 16"
    by (simp_all add: div_mult2_eq [symmetric])
  then have "((?n div 4096 mod 16 * 16 + ?n div 256 mod 16) * 16 + ?x mod 16) * 16 + ?n mod 16
      = ((?x div 16 div 16 * 16 + ?x div 16 mod 16) * 16 + ?x mod 16) * 16 + ?n mod 16" by simp
  also have "\<dots> = ?n" unfolding s ..
  finally have e: "((?n div 4096 mod 16 * 16 + ?n div 256 mod 16) * 16 + ?x mod 16) * 16 + ?n mod 16 = ?n" .
  have "digits_value 16 (hex4 v) = int (((?n div 4096 mod 16 * 16 + ?n div 256 mod 16) * 16 + ?x mod 16) * 16 + ?n mod 16)"
    by (simp add: hex4_def digits_value_def digit_value_hex_digit)
  then show ?thesis unfolding e .
qed

end
