(* ===== verification/SymbolMap.thy ===== *)
theory SymbolMap
  imports CString
begin

section \<open>The map file of the linker (\<^verbatim>\<open>debugger/symbol_map.cpp\<close>)\<close>

text \<open>
  A map file is read line by line; its section on the memory map has a line for each symbol, with the segment, the offset and the name.
  The names of the addresses of a trace are looked up in the table this gives.
\<close>

definition MAX_SYMBOLS :: nat where "MAX_SYMBOLS = 1024"
definition MAX_SYMBOL_NAME :: nat where "MAX_SYMBOL_NAME = 256"

record symbol_entry =
  sy_segment :: u16
  sy_offset :: u16
  sy_name :: string

record symbol_map =
  sm_entries :: "symbol_entry list"
  sm_loaded :: bool

definition is_blank :: "char \<Rightarrow> bool" where
  "is_blank c \<longleftrightarrow> c = CHR '' '' \<or> c = CHR 0x09"

definition is_eol :: "char \<Rightarrow> bool" where
  "is_eol c \<longleftrightarrow> c = CHR 0x0A \<or> c = CHR 0x0D"

definition hex_run :: "string \<Rightarrow> string" where
  "hex_run s = takeWhile is_hex (take 4 s)"

definition trim_end :: "string \<Rightarrow> string" where
  "trim_end s = rev (dropWhile is_blank (rev s))"

text \<open>The part of a line behind the address: a star marks a symbol that is not referenced.\<close>

definition symbol_name :: "string \<Rightarrow> string" where
  "symbol_name r =
    (let r1 = (if starts ''*'' r then tl r else r)
     in trim_end (take (MAX_SYMBOL_NAME - 1) (takeWhile (\<lambda>c. \<not> is_eol c) (dropWhile is_blank r1))))"

definition parse_address :: "string \<Rightarrow> (u16 \<times> u16 \<times> string) option" where
  "parse_address line =
    (let seg_str = hex_run line; r = drop (length seg_str) line
     in if \<not> starts '':'' r then None
        else let off_str = hex_run (tl r)
          in if off_str = [] then None
             else Some (of_int (digits_value 16 seg_str), of_int (digits_value 16 off_str), drop (length off_str) (tl r)))"

definition parse_symbol_line :: "string \<Rightarrow> symbol_entry option" where
  "parse_symbol_line text =
    (let line = dropWhile is_blank text
     in if line = [] \<or> is_eol (hd line) then None
        else if starts ''Module:'' line \<or> starts ''Address'' line then None
        else if hd line = CHR ''='' \<or> hd line = CHR ''+'' \<or> hd line = CHR ''*'' then None
        else case parse_address line of
            None \<Rightarrow> None
          | Some (seg, off, r) \<Rightarrow>
              if symbol_name r = [] then None
              else Some \<lparr>sy_segment = seg, sy_offset = off, sy_name = symbol_name r\<rparr>)"

text \<open>
  A line is what \<^verbatim>\<open>fgets\<close> reads into a buffer of 1024 characters: up to 1023 of them, up to and with the end of the line; as a C string it
  ends at a zero.
\<close>

definition line_length :: "string \<Rightarrow> nat" where
  "line_length s = (let n = length (takeWhile (\<lambda>c. c \<noteq> CHR 0x0A) s) in min 1023 (min (length s) (Suc n)))"

function fgets_lines :: "string \<Rightarrow> string list" where
  "fgets_lines s = (if s = [] then [] else takeWhile (\<lambda>c. c \<noteq> CHR 0x00) (take (line_length s) s) # fgets_lines (drop (line_length s) s))"
  by pat_completeness auto

termination by (relation "measure length") (auto simp: line_length_def Let_def)

declare fgets_lines.simps [simp del]

definition skipped_line :: "string \<Rightarrow> bool" where
  "skipped_line l \<longleftrightarrow> (strstr l ''Address'' \<and> strstr l ''Symbol'') \<or> starts ''='' l \<or> starts ''+'' l \<or> starts ''Module:'' l"

fun map_lines :: "bool \<Rightarrow> string list \<Rightarrow> symbol_entry list \<Rightarrow> symbol_entry list" where
  "map_lines in_map [] es = es"
| "map_lines in_map (l # ls) es =
    (if strstr l ''Memory Map'' then map_lines True ls es
     else if in_map \<and> (strstr l ''Imported Symbols'' \<or> strstr l ''Libraries Used'') then es
     else if \<not> in_map \<or> skipped_line l then map_lines in_map ls es
     else case parse_symbol_line l of
         None \<Rightarrow> map_lines in_map ls es
       | Some e \<Rightarrow> map_lines in_map ls
           (if starts ''llvm.'' (sy_name e) \<or> MAX_SYMBOLS \<le> length es then es else es @ [e]))"

definition symbol_map_load :: "string option \<Rightarrow> symbol_map \<Rightarrow> int \<times> symbol_map" where
  "symbol_map_load file sm =
    (case file of
       None \<Rightarrow> (-1, sm)
     | Some text \<Rightarrow> (0, \<lparr>sm_entries = map_lines False (fgets_lines text) [], sm_loaded = True\<rparr>))"

subsection \<open>Lookups\<close>

definition symbol_diff :: "u16 \<Rightarrow> symbol_entry \<Rightarrow> int" where
  "symbol_diff offset e = uint offset - uint (sy_offset e)"

fun closest :: "u16 \<Rightarrow> u16 \<Rightarrow> symbol_entry list \<Rightarrow> symbol_entry option \<Rightarrow> int \<Rightarrow> (symbol_entry \<times> int) option" where
  "closest segment offset [] best best_diff = map_option (\<lambda>e. (e, best_diff)) best"
| "closest segment offset (e # es) best best_diff =
    (if sy_segment e \<noteq> segment then closest segment offset es best best_diff
     else if symbol_diff offset e < 0 then closest segment offset es best best_diff
     else if symbol_diff offset e < best_diff then closest segment offset es (Some e) (symbol_diff offset e)
     else closest segment offset es best best_diff)"

definition symbol_map_lookup :: "symbol_map \<Rightarrow> u16 \<Rightarrow> u16 \<Rightarrow> (string \<times> int) option" where
  "symbol_map_lookup sm segment offset =
    (if \<not> sm_loaded sm then None
     else map_option (\<lambda>(e, d). (sy_name e, d)) (closest segment offset (sm_entries sm) None 0x7FFFFFFF))"

text \<open>The bases of the segments are numbered from 1; an address belongs to the 64 kilobytes from a base.\<close>

definition in_64k :: "u32 \<Rightarrow> u32 \<Rightarrow> bool" where
  "in_64k base linear \<longleftrightarrow> base \<noteq> 0 \<and> base \<le> linear \<and> linear < base + 0x10000"

fun lookup_segments :: "symbol_map \<Rightarrow> u32 \<Rightarrow> u32 list \<Rightarrow> nat list \<Rightarrow> (string \<times> int) option" where
  "lookup_segments sm linear bases [] = None"
| "lookup_segments sm linear bases (seg # segs) =
    (if in_64k (bases ! seg) linear then
       (case symbol_map_lookup sm (of_nat seg) (ucast (linear - bases ! seg)) of
          Some r \<Rightarrow> Some r
        | None \<Rightarrow> lookup_segments sm linear bases segs)
     else lookup_segments sm linear bases segs)"

definition symbol_map_lookup_linear :: "symbol_map \<Rightarrow> u32 \<Rightarrow> u32 list \<Rightarrow> int \<Rightarrow> (string \<times> int) option" where
  "symbol_map_lookup_linear sm linear bases num_segments =
    (if \<not> sm_loaded sm then None else lookup_segments sm linear bases [1..<nat (min (num_segments + 1) 16)])"

subsection \<open>Reading a line back\<close>

lemma hex_run_hex4: "hex_run (hex4 v @ r) = hex4 v"
proof -
  have "take 4 (hex4 v @ r) = hex4 v" by simp
  moreover have "takeWhile is_hex (hex4 v) = hex4 v" using hex4_hex [of v] by (simp add: takeWhile_eq_all_conv)
  ultimately show ?thesis by (simp only: hex_run_def)
qed

lemma of_nat_hex4: "of_int (digits_value 16 (hex4 v)) = v"
  by (simp add: digits_value_hex4)

lemma hex_plain: "is_hex c \<Longrightarrow> \<not> is_blank c \<and> \<not> is_eol c \<and> c \<noteq> CHR ''='' \<and> c \<noteq> CHR ''+'' \<and> c \<noteq> CHR ''*'' \<and> c \<noteq> CHR ''M''"
  by (auto simp: digit_in_def digit_value_def is_blank_def is_eol_def)

lemma trim_end_id: "s = [] \<or> \<not> is_blank (last s) \<Longrightarrow> trim_end s = s"
proof (cases s rule: rev_cases)
  case (snoc t c)
  assume "s = [] \<or> \<not> is_blank (last s)"
  then show ?thesis using snoc by (simp add: trim_end_def)
qed (simp add: trim_end_def)

text \<open>A name a map file can hold: not empty, on one line, without blanks around it, and short enough.\<close>

definition proper_name :: "string \<Rightarrow> bool" where
  "proper_name n \<longleftrightarrow> n \<noteq> [] \<and> \<not> is_blank (hd n) \<and> \<not> is_blank (last n) \<and> (\<forall>c \<in> set n. \<not> is_eol c) \<and> length n < MAX_SYMBOL_NAME"

lemma symbol_name_line:
  assumes "proper_name n" "\<forall>c \<in> set gap. is_blank c" "eol = [] \<or> is_eol (hd eol)" "star = '''' \<or> star = ''*''" "gap \<noteq> []"
  shows "symbol_name (star @ gap @ n @ eol) = n"
proof -
  let ?r = "gap @ n @ eol"
  have g: "\<not> starts ''*'' ?r" using assms(2,5) by (cases gap) (auto simp: starts_def is_blank_def)
  have r1: "(if starts ''*'' (star @ ?r) then tl (star @ ?r) else star @ ?r) = ?r" using assms(4) g by (auto simp: starts_def)
  have n: "n \<noteq> []" "\<not> is_blank (hd n)" "\<not> is_blank (last n)" "\<forall>c \<in> set n. \<not> is_eol c" "length n \<le> MAX_SYMBOL_NAME - 1"
    using assms(1) by (auto simp: proper_name_def)
  have d: "dropWhile is_blank ?r = n @ eol"
    using assms(2) n(1,2) by (simp add: dropWhile_append2) (cases n; simp)
  have "takeWhile (\<lambda>c. \<not> is_eol c) (n @ eol) = n @ takeWhile (\<lambda>c. \<not> is_eol c) eol"
    using n(4) by (simp add: takeWhile_append2)
  also have "takeWhile (\<lambda>c. \<not> is_eol c) eol = []" using assms(3) by (cases eol) auto
  finally have t: "takeWhile (\<lambda>c. \<not> is_eol c) (n @ eol) = n" by simp
  show ?thesis unfolding symbol_name_def Let_def r1 d t using n by (simp add: trim_end_id)
qed

lemma parse_line:
  assumes "proper_name n" "\<forall>c \<in> set gap. is_blank c" "gap \<noteq> []" "eol = [] \<or> is_eol (hd eol)" "star = '''' \<or> star = ''*''"
    "\<forall>c \<in> set indent. is_blank c"
  shows "parse_symbol_line (indent @ hex4 seg @ '':'' @ hex4 off @ star @ gap @ n @ eol)
    = Some \<lparr>sy_segment = seg, sy_offset = off, sy_name = n\<rparr>"
proof -
  let ?r = "star @ gap @ n @ eol" and ?l = "hex4 seg @ '':'' @ hex4 off @ star @ gap @ n @ eol"
  obtain c cs where h: "hex4 seg = c # cs" "is_hex c" using hex4_hex [of seg] by (cases "hex4 seg") (auto simp: hex4_def)
  note c = hex_plain [OF h(2)]
  have d: "dropWhile is_blank (indent @ ?l) = ?l" using assms(6) c h(1) by (simp add: dropWhile_append2)
  have hd: "hd ?l = c" "?l \<noteq> []" using h(1) by simp_all
  have m: "\<not> starts ''Module:'' ?l" using h(1) c by (simp add: starts_def)
  have "is_hex (cs ! 0)" "is_hex (cs ! 1)" "cs \<noteq> []" using hex4_hex [of seg] h(1) by (auto simp: hex4_def)
  then have ad: "\<not> starts ''Address'' ?l"
    using h(1) hex4_hex [of seg] by (auto simp: starts_def hex4_def digit_in_def digit_value_def Cons_eq_append_conv)
  have s: "hex_run ?l = hex4 seg" "drop (length (hex4 seg)) ?l = '':'' @ hex4 off @ ?r"
    by (simp_all add: hex_run_hex4)
  have o: "hex_run (tl ('':'' @ hex4 off @ ?r)) = hex4 off" "drop (length (hex4 off)) (tl ('':'' @ hex4 off @ ?r)) = ?r"
    by (simp_all add: hex_run_hex4)
  have sn: "symbol_name ?r = n" by (rule symbol_name_line) (use assms in auto)
  have ne: "hex4 off \<noteq> []" "n \<noteq> []" using assms(1) by (auto simp: hex4_def proper_name_def)
  have pa: "parse_address ?l = Some (seg, off, ?r)"
    unfolding parse_address_def Let_def s o of_nat_hex4 using ne by (simp add: starts_def)
  show ?thesis unfolding parse_symbol_line_def Let_def d hd(1) pa using hd(2) c m ad ne sn by simp
qed

lemma eight_digits_misread:
  "parse_symbol_line ''0001:00000010      main'' = Some \<lparr>sy_segment = 1, sy_offset = 0, sy_name = ''0010      main''\<rparr>"
  by code_simp

subsection \<open>The table\<close>

lemma map_lines_bound: "length es \<le> MAX_SYMBOLS \<Longrightarrow> length (map_lines in_map ls es) \<le> MAX_SYMBOLS"
  by (induction ls arbitrary: in_map es) (auto split: option.splits)

lemma symbol_name_length: "length (symbol_name r) < MAX_SYMBOL_NAME"
proof -
  have t: "length (trim_end s) \<le> length s" for s
    by (metis length_dropWhile_le length_rev trim_end_def)
  have "length (trim_end (take n s)) \<le> n" for n s
    using t [of "take n s"] by simp
  then have "length (symbol_name r) \<le> MAX_SYMBOL_NAME - 1"
    unfolding symbol_name_def Let_def by blast
  then show ?thesis by (simp add: MAX_SYMBOL_NAME_def)
qed

lemma parse_symbol_line_name: "parse_symbol_line l = Some e \<Longrightarrow> sy_name e \<noteq> [] \<and> length (sy_name e) < MAX_SYMBOL_NAME"
proof -
  assume "parse_symbol_line l = Some e"
  then have p: "(case parse_address (dropWhile is_blank l) of
            None \<Rightarrow> None
          | Some (seg, off, r) \<Rightarrow>
              if symbol_name r = [] then None
              else Some \<lparr>sy_segment = seg, sy_offset = off, sy_name = symbol_name r\<rparr>) = Some e"
    unfolding parse_symbol_line_def Let_def by (simp only: option.distinct split: if_split_asm)
  show ?thesis
  proof (cases "parse_address (dropWhile is_blank l)")
    case (Some a)
    obtain seg off r where a: "a = (seg, off, r)" by (cases a) auto
    have "symbol_name r \<noteq> []" "e = \<lparr>sy_segment = seg, sy_offset = off, sy_name = symbol_name r\<rparr>"
      using p unfolding Some a by (simp_all split: if_split_asm)
    then show ?thesis using symbol_name_length [of r] by simp
  qed (use p in simp)
qed

lemma map_lines_all:
  assumes "\<And>l e. parse_symbol_line l = Some e \<Longrightarrow> P e"
  shows "list_all P es \<Longrightarrow> list_all P (map_lines in_map ls es)"
proof (induction ls arbitrary: in_map es)
  case (Cons l ls)
  show ?case
  proof (cases "parse_symbol_line l")
    case None
    then show ?thesis using Cons by simp
  next
    case (Some e)
    then have "P e" by (rule assms)
    then show ?thesis using Cons Some by simp
  qed
qed simp

subsection \<open>The nearest symbol\<close>

definition candidate :: "u16 \<Rightarrow> u16 \<Rightarrow> symbol_entry \<Rightarrow> bool" where
  "candidate segment offset e \<longleftrightarrow> sy_segment e = segment \<and> sy_offset e \<le> offset"

lemma symbol_diff_nonneg: "\<not> symbol_diff offset e < 0 \<longleftrightarrow> sy_offset e \<le> offset"
  unfolding symbol_diff_def word_le_def by linarith

lemma symbol_diff_less: "symbol_diff offset e < 0x7FFFFFFF"
proof -
  have "uint offset < 65536" "0 \<le> uint (sy_offset e)" using uint_bounded [of offset] by simp_all
  then show ?thesis unfolding symbol_diff_def by linarith
qed

lemma closest_cases:
  assumes "\<forall>b. best = Some b \<longrightarrow> d = symbol_diff offset b \<and> candidate segment offset b"
    "best = None \<longrightarrow> d = 0x7FFFFFFF"
  shows "case closest segment offset es best d of
      None \<Rightarrow> best = None \<and> (\<forall>e \<in> set es. \<not> candidate segment offset e)
    | Some (e, k) \<Rightarrow> (e \<in> set es \<or> best = Some e) \<and> candidate segment offset e \<and> k = symbol_diff offset e \<and> k \<le> d
        \<and> (\<forall>x \<in> set es. candidate segment offset x \<longrightarrow> k \<le> symbol_diff offset x)"
  using assms
proof (induction es arbitrary: best d)
  case Nil
  then show ?case by (cases best) auto
next
  case (Cons e es)
  show ?case
  proof (cases "candidate segment offset e \<and> symbol_diff offset e < d")
    case True
    then have "closest segment offset (e # es) best d = closest segment offset es (Some e) (symbol_diff offset e)"
      by (simp add: candidate_def symbol_diff_nonneg [symmetric])
    then show ?thesis using Cons.IH [of "Some e" "symbol_diff offset e"] True
      by (auto split: option.splits prod.splits)
  next
    case False
    then have s: "closest segment offset (e # es) best d = closest segment offset es best d"
      by (auto simp: candidate_def symbol_diff_nonneg [symmetric])
    have n: "best = None \<Longrightarrow> \<not> candidate segment offset e"
      using False Cons.prems(2) symbol_diff_less [of offset e] by auto
    show ?thesis using Cons.IH [OF Cons.prems] False n unfolding s
      by (cases best) (auto split: option.splits prod.splits)
  qed
qed

lemma closest_lookup:
  "case closest segment offset es None 0x7FFFFFFF of
      None \<Rightarrow> \<forall>e \<in> set es. \<not> candidate segment offset e
    | Some (e, k) \<Rightarrow> e \<in> set es \<and> candidate segment offset e \<and> k = symbol_diff offset e
        \<and> (\<forall>x \<in> set es. candidate segment offset x \<longrightarrow> k \<le> symbol_diff offset x)"
  using closest_cases [of None "0x7FFFFFFF" offset segment es] by (auto split: option.splits prod.splits)

subsection \<open>The properties\<close>

lemma symbol_map_lookup_nearest:
  assumes "symbol_map_load (Some text) sm0 = (0, sm)"
  shows "length (sm_entries sm) \<le> 1024 \<and> (\<forall>e \<in> set (sm_entries sm). 0 < length (sy_name e) \<and> length (sy_name e) < 256)
    \<and> (case symbol_map_lookup sm segment offset of
         None \<Rightarrow> \<forall>e \<in> set (sm_entries sm). sy_segment e = segment \<longrightarrow> offset < sy_offset e
       | Some (n, d) \<Rightarrow> \<exists>e \<in> set (sm_entries sm). sy_name e = n \<and> sy_segment e = segment \<and> uint (sy_offset e) + d = uint offset
           \<and> (\<forall>x \<in> set (sm_entries sm). sy_segment x = segment \<longrightarrow> \<not> (sy_offset e < sy_offset x \<and> sy_offset x \<le> offset)))"
proof (intro conjI)
  have sm: "sm_entries sm = map_lines False (fgets_lines text) []" "sm_loaded sm"
    using assms by (auto simp: symbol_map_load_def)
  show "length (sm_entries sm) \<le> 1024" using map_lines_bound [of "[]"] by (simp add: sm MAX_SYMBOLS_def)
  have "list_all (\<lambda>e. sy_name e \<noteq> [] \<and> length (sy_name e) < MAX_SYMBOL_NAME) (sm_entries sm)"
    unfolding sm by (rule map_lines_all [OF parse_symbol_line_name]) simp_all
  then show "\<forall>e \<in> set (sm_entries sm). 0 < length (sy_name e) \<and> length (sy_name e) < 256"
    by (simp add: list_all_iff MAX_SYMBOL_NAME_def)
  have b: "candidate segment offset x \<Longrightarrow> symbol_diff offset e \<le> symbol_diff offset x \<Longrightarrow> \<not> sy_offset e < sy_offset x" for e x
    by (simp add: symbol_diff_def word_less_def)
  note cl = closest_lookup [where segment = segment and offset = offset and es = "sm_entries sm"]
  show "case symbol_map_lookup sm segment offset of
         None \<Rightarrow> \<forall>e \<in> set (sm_entries sm). sy_segment e = segment \<longrightarrow> offset < sy_offset e
       | Some (n, d) \<Rightarrow> \<exists>e \<in> set (sm_entries sm). sy_name e = n \<and> sy_segment e = segment \<and> uint (sy_offset e) + d = uint offset
           \<and> (\<forall>x \<in> set (sm_entries sm). sy_segment x = segment \<longrightarrow> \<not> (sy_offset e < sy_offset x \<and> sy_offset x \<le> offset))"
  proof (cases "closest segment offset (sm_entries sm) None 0x7FFFFFFF")
    case None
    then show ?thesis using cl sm(2) by (auto simp: symbol_map_lookup_def candidate_def not_le)
  next
    case (Some a)
    obtain e k where a: "a = (e, k)" by (cases a)
    have c: "e \<in> set (sm_entries sm)" "candidate segment offset e" "k = symbol_diff offset e"
      "\<forall>x \<in> set (sm_entries sm). candidate segment offset x \<longrightarrow> k \<le> symbol_diff offset x"
      using cl unfolding Some a by auto
    have "\<forall>x \<in> set (sm_entries sm). sy_segment x = segment \<longrightarrow> \<not> (sy_offset e < sy_offset x \<and> sy_offset x \<le> offset)"
      using c(3,4) b by (auto simp: candidate_def)
    moreover have "sy_segment e = segment" "uint (sy_offset e) + k = uint offset"
      using c(2,3) by (auto simp: candidate_def symbol_diff_def)
    moreover have "symbol_map_lookup sm segment offset = Some (sy_name e, k)"
      using Some sm(2) by (simp add: symbol_map_lookup_def a)
    ultimately show ?thesis using c(1) by auto
  qed
qed

text \<open>
  The lookups of the debugger are those of a table in which every symbol has its address: a line as the linker prints it, with the
  address in four and four digits, is read as the symbol; whatever the map file holds, the table that is read has at most 1024 symbols, with
  names that are not empty and fit their buffer; and a lookup finds the nearest symbol of the segment at or before the offset, with the
  distance from it, and finds none only if no symbol of the segment is at or before the offset.
\<close>

theorem symbol_map_faithful:
  assumes "proper_name n" "list_all is_blank (indent @ gap)" "gap \<noteq> []" "eol = [] \<or> is_eol (hd eol)"
    and "symbol_map_load (Some text) sm0 = (0, sm)"
  shows "parse_symbol_line (indent @ hex4 seg @ '':'' @ hex4 off @ (if used then '''' else ''*'') @ gap @ n @ eol)
      = Some \<lparr>sy_segment = seg, sy_offset = off, sy_name = n\<rparr>
    \<and> length (sm_entries sm) \<le> 1024 \<and> (\<forall>e \<in> set (sm_entries sm). 0 < length (sy_name e) \<and> length (sy_name e) < 256)
    \<and> (case symbol_map_lookup sm segment offset of
         None \<Rightarrow> \<forall>e \<in> set (sm_entries sm). sy_segment e = segment \<longrightarrow> offset < sy_offset e
       | Some (n, d) \<Rightarrow> \<exists>e \<in> set (sm_entries sm). sy_name e = n \<and> sy_segment e = segment \<and> uint (sy_offset e) + d = uint offset
           \<and> (\<forall>x \<in> set (sm_entries sm). sy_segment x = segment \<longrightarrow> \<not> (sy_offset e < sy_offset x \<and> sy_offset x \<le> offset)))"
  by (rule conjI [OF parse_line symbol_map_lookup_nearest [OF assms(5)]]) (use assms in \<open>auto simp: list_all_iff\<close>)

definition wlink_map :: string where
  "wlink_map = ''Memory Map'' @ [CHR 0x0A] @ ''0001:0010      main'' @ [CHR 0x0A] @ ''0001:0020*     exit'' @ [CHR 0x0A]"

lemma symbol_map_faithful_witness:
  "symbol_map_lookup (snd (symbol_map_load (Some wlink_map) \<lparr>sm_entries = [], sm_loaded = False\<rparr>)) 1 0x18 = Some (''main'', 8)
   \<and> (\<exists>e. parse_symbol_line ''  0001:0020*  exit'' = Some e \<and> sy_name e = ''exit'')"
proof
  let ?sm = "snd (symbol_map_load (Some wlink_map) \<lparr>sm_entries = [], sm_loaded = False\<rparr>)"
  show "symbol_map_lookup ?sm 1 0x18 = Some (''main'', 8)" by code_simp
  have p: "proper_name ''exit''" "list_all is_blank (''  '' @ ''  '')" "''  '' \<noteq> []" "[] = [] \<or> is_eol (hd [])"
    "symbol_map_load (Some wlink_map) \<lparr>sm_entries = [], sm_loaded = False\<rparr> = (0, ?sm)" by code_simp+
  have "''  '' @ hex4 1 @ '':'' @ hex4 0x20 @ (if False then '''' else ''*'') @ ''  '' @ ''exit'' @ [] = ''  0001:0020*  exit''"
    by code_simp
  then have t: "parse_symbol_line (''  '' @ hex4 1 @ '':'' @ hex4 0x20 @ (if False then '''' else ''*'') @ ''  '' @ ''exit'' @ [])
      = parse_symbol_line ''  0001:0020*  exit''" by (rule arg_cong)
  show "\<exists>e. parse_symbol_line ''  0001:0020*  exit'' = Some e \<and> sy_name e = ''exit''"
    using conjunct1 [OF symbol_map_faithful [OF p, of 1 "0x20" False]] unfolding t by (metis symbol_entry.select_convs(3))
qed

end
