(* ===== verification/Disasm.thy ===== *)
theory Disasm
  imports CString DebugLdt
begin

section \<open>The disassembler (\<^verbatim>\<open>debugger/disasm.c\<close>)\<close>

text \<open>
  Instructions are decoded by Capstone, which is not part of the repository: it is the parameter \<open>cs\<close> of the definitions that use it, a
  function of the mode (16 bits or not), the bytes, the address of the first of them and the highest number of instructions.  Its texts
  are C strings, without the zero at their end.
\<close>

record insn =
  in_address :: u32
  in_size :: nat
  in_bytes :: bytes
  in_mnemonic :: string
  in_op_str :: string

type_synonym capstone = "bool \<Rightarrow> bytes \<Rightarrow> u32 \<Rightarrow> nat \<Rightarrow> insn list"

record disasm_instr =
  di_address :: u32
  di_bytes :: bytes
  di_bytes_len :: nat
  di_mnemonic :: string
  di_op_str :: string
  di_size :: nat
  di_is_16bit :: bool
  di_api_name :: "string option"

text \<open>The shared page also lists the addresses of the functions of the system; \<open>as_api_entries\<close> are the entries below \<^verbatim>\<open>api_count\<close>.\<close>

record api_shared = shared_state +
  as_api_entries :: "(u32 \<times> string) list"

text \<open>The state of the file: the page and the function that reads memory (which gives the bytes that could be read), if they were set.\<close>

record disasm_env =
  de_api_state :: "api_shared option"
  de_read_memory :: "(u32 \<Rightarrow> nat \<Rightarrow> bytes) option"

definition disasm_set_api_state :: "api_shared option \<Rightarrow> disasm_env \<Rightarrow> disasm_env" where
  "disasm_set_api_state state env = env\<lparr>de_api_state := state\<rparr>"

definition disasm_set_read_memory :: "(u32 \<Rightarrow> nat \<Rightarrow> bytes) option \<Rightarrow> disasm_env \<Rightarrow> disasm_env" where
  "disasm_set_read_memory f env = env\<lparr>de_read_memory := f\<rparr>"

subsection \<open>Names of the system\<close>

definition entry_near :: "u32 \<Rightarrow> u32 \<times> string \<Rightarrow> bool" where
  "entry_near addr e \<longleftrightarrow> fst e \<noteq> 0 \<and> fst e < addr \<and> addr - fst e < 256"

definition resolve_os2_api :: "disasm_env \<Rightarrow> u32 \<Rightarrow> string option" where
  "resolve_os2_api env addr =
    (case de_api_state env of
       None \<Rightarrow> None
     | Some s \<Rightarrow>
         (case find (\<lambda>e. fst e \<noteq> 0 \<and> fst e = addr) (as_api_entries s) of
            Some e \<Rightarrow> Some (snd e)
          | None \<Rightarrow> map_option snd (find (entry_near addr) (as_api_entries s))))"

text \<open>The first call or jump to an address with a name, among the instructions behind a call gate.\<close>

fun followed_name :: "disasm_env \<Rightarrow> insn list \<Rightarrow> string option" where
  "followed_name env [] = None"
| "followed_name env (i # is) =
    (if in_mnemonic i \<in> {''call'', ''jmp'', ''lcall'', ''ljmp''} then
       (let (target, r) = strtoul (in_op_str i) 0
        in if target \<noteq> 0 \<and> r = [] then
             (case resolve_os2_api env target of Some name \<Rightarrow> Some name | None \<Rightarrow> followed_name env is)
           else followed_name env is)
     else followed_name env is)"

definition dispatch_name :: "capstone \<Rightarrow> disasm_env \<Rightarrow> u32 \<Rightarrow> string option" where
  "dispatch_name cs env linear =
    (case de_read_memory env of
       None \<Rightarrow> None
     | Some f \<Rightarrow>
         (let code = f linear 32 in if code = [] then None else followed_name env (cs False code linear 4)))"

definition lcall_linear :: "api_shared \<Rightarrow> u16 \<Rightarrow> u16 \<Rightarrow> u32" where
  "lcall_linear s selector offset =
    (let base = ss_selectors s (slot_index selector) in if base \<noteq> 0 then base + ucast offset else 0)"

definition resolve_lcall_api :: "capstone \<Rightarrow> disasm_env \<Rightarrow> u16 \<Rightarrow> u16 \<Rightarrow> string option" where
  "resolve_lcall_api cs env selector offset =
    (case de_api_state env of
       None \<Rightarrow> None
     | Some s \<Rightarrow>
         if as_api_entries s = [] then None
         else let linear = lcall_linear s selector offset in
           if linear = 0 then None
           else (case find (\<lambda>e. fst e = linear) (as_api_entries s) of
                   Some e \<Rightarrow> Some (snd e)
                 | None \<Rightarrow>
                     (case dispatch_name cs env linear of
                        Some name \<Rightarrow> Some name
                      | None \<Rightarrow> map_option snd (find (entry_near linear) (as_api_entries s)))))"

definition get_api_name_for_call :: "bytes \<Rightarrow> string option" where
  "get_api_name_for_call code = (if code ! 0 = 0xCD then Some ''system_interrupt'' else None)"

subsection \<open>Instructions\<close>

definition call_gate :: "u16 \<Rightarrow> bool" where
  "call_gate seg \<longleftrightarrow> seg = 0xFFFF \<or> seg = 0xFFEF"

definition api_of_far :: "capstone \<Rightarrow> disasm_env \<Rightarrow> string \<Rightarrow> string option" where
  "api_of_far cs env op_str =
    (case sscanf_hx_hx op_str of
       None \<Rightarrow> None
     | Some (seg, off) \<Rightarrow>
         if call_gate seg then
           (case resolve_lcall_api cs env seg off of Some name \<Rightarrow> Some name | None \<Rightarrow> Some ''OS/2_API'')
         else None)"

definition api_of_near :: "disasm_env \<Rightarrow> string \<Rightarrow> string option" where
  "api_of_near env op_str =
    (let (target, r) = strtoul op_str 16;
         name = (if r = [] \<or> hd r = CHR ''h'' then resolve_os2_api env target else None)
     in if starts ''0x'' op_str \<and> fst (strtoul op_str 0) \<noteq> 0 \<and> name = None
        then resolve_os2_api env (fst (strtoul op_str 0)) else name)"

definition api_of_insn :: "capstone \<Rightarrow> disasm_env \<Rightarrow> insn \<Rightarrow> string option" where
  "api_of_insn cs env i =
    (if in_mnemonic i = ''lcall'' \<or> in_mnemonic i = ''ljmp'' then api_of_far cs env (in_op_str i)
     else if in_mnemonic i = ''call'' \<or> in_mnemonic i = ''jmp'' then api_of_near env (in_op_str i)
     else None)"

definition instr_of_insn :: "capstone \<Rightarrow> disasm_env \<Rightarrow> bool \<Rightarrow> insn \<Rightarrow> disasm_instr" where
  "instr_of_insn cs env is_16bit i =
    \<lparr>di_address = in_address i, di_bytes = take 16 (take (in_size i) (in_bytes i)), di_bytes_len = in_size i,
     di_mnemonic = take 63 (in_mnemonic i), di_op_str = take 127 (in_op_str i), di_size = in_size i,
     di_is_16bit = is_16bit, di_api_name = api_of_insn cs env i\<rparr>"

definition hex2 :: "u8 \<Rightarrow> string" where
  "hex2 b = [hex_digit (unat b div 16), hex_digit (unat b)]"

text \<open>
  A byte that is no instruction is shown as data; the address, the mode and the name of the structure keep what they were.
  The 16 bytes at \<open>code\<close> are read in either case.
\<close>

definition disasm_instruction :: "capstone \<Rightarrow> disasm_env \<Rightarrow> bytes \<Rightarrow> u32 \<Rightarrow> disasm_instr \<Rightarrow> bool \<Rightarrow> disasm_instr" where
  "disasm_instruction cs env code address instr is_16bit =
    (case cs is_16bit (take 16 code) address 1 of
       [] \<Rightarrow> instr\<lparr>di_size := 1, di_bytes := [code ! 0], di_bytes_len := 1, di_mnemonic := ''db'', di_op_str := ''0x'' @ hex2 (code ! 0)\<rparr>
     | i # _ \<Rightarrow> instr_of_insn cs env is_16bit i)"

definition disasm_buffer :: "capstone \<Rightarrow> disasm_env \<Rightarrow> bytes \<Rightarrow> u32 \<Rightarrow> nat \<Rightarrow> bool \<Rightarrow> disasm_instr list" where
  "disasm_buffer cs env code start_addr max_instrs is_16bit =
    map (instr_of_insn cs env is_16bit) (take max_instrs (cs is_16bit code start_addr max_instrs))"

text \<open>An address that is an entry gets the name of an entry at this address, also where another is before it in the list.\<close>

lemma resolve_os2_api_exact:
  assumes "de_api_state env = Some s" "(addr, name) \<in> set (as_api_entries s)" "addr \<noteq> 0"
  shows "\<exists>n. resolve_os2_api env addr = Some n \<and> (addr, n) \<in> set (as_api_entries s)"
proof -
  obtain e where e: "find (\<lambda>e. fst e \<noteq> 0 \<and> fst e = addr) (as_api_entries s) = Some e"
    using assms(2,3) by (cases "find (\<lambda>e. fst e \<noteq> 0 \<and> fst e = addr) (as_api_entries s)") (auto simp: find_None_iff)
  then have "e \<in> set (as_api_entries s)" "fst e = addr" by (auto simp: find_Some_iff)
  then show ?thesis using e assms(1) by (auto simp: resolve_os2_api_def intro!: exI [of _ "snd e"])
qed

text \<open>
  A name that is found belongs to an entry at the address or less than 256 bytes before it.
\<close>

lemma resolve_os2_api_near:
  assumes "resolve_os2_api env addr = Some n"
  shows "\<exists>s a. de_api_state env = Some s \<and> (a, n) \<in> set (as_api_entries s) \<and> a \<noteq> 0 \<and> a \<le> addr \<and> addr - a < 256"
proof -
  obtain s where s: "de_api_state env = Some s" using assms by (auto simp: resolve_os2_api_def split: option.splits)
  show ?thesis
  proof (cases "find (\<lambda>e. fst e \<noteq> 0 \<and> fst e = addr) (as_api_entries s)")
    case (Some e)
    then have "e \<in> set (as_api_entries s)" "fst e = addr" "addr \<noteq> 0" by (auto simp: find_Some_iff)
    moreover have "n = snd e" using assms s Some by (simp add: resolve_os2_api_def)
    ultimately have "(addr, n) \<in> set (as_api_entries s)" by (metis prod.collapse)
    then show ?thesis using s \<open>addr \<noteq> 0\<close> by (intro exI [of _ s] exI [of _ addr]) simp
  next
    case None
    then obtain e where e: "find (entry_near addr) (as_api_entries s) = Some e" "n = snd e"
      using assms s by (auto simp: resolve_os2_api_def)
    then have "e \<in> set (as_api_entries s)" "entry_near addr e" by (auto simp: find_Some_iff)
    then show ?thesis using s e(2)
      by (intro exI [of _ s] exI [of _ "fst e"]) (simp add: entry_near_def less_imp_le)
  qed
qed

end
