(* ===== verification/Stepper.thy ===== *)
theory Stepper
  imports Disasm Ptrace
begin

section \<open>Stepping (\<^verbatim>\<open>debugger/td2ine_main.cpp\<close>, \<^verbatim>\<open>debugger/td2ine_core.cpp\<close>, \<^verbatim>\<open>debugger/td2ine_text.cpp\<close>)\<close>

text \<open>
  A 16-bit program cannot be stepped by the processor, because the debugger needs the linear address of the next instruction: it is computed
  from the registers and the instruction, a breakpoint (the byte 0xCC) is put there, and the byte is put back when the breakpoint is hit.
\<close>

record regs =
  rg_eax :: u32
  rg_ebx :: u32
  rg_ecx :: u32
  rg_edx :: u32
  rg_esi :: u32
  rg_edi :: u32
  rg_ebp :: u32
  rg_esp :: u32
  rg_eip :: u32
  rg_eflags :: u32
  rg_xcs :: u32
  rg_xds :: u32
  rg_xes :: u32
  rg_xss :: u32

subsection \<open>Selectors\<close>

text \<open>The base, the limit and the kind of a selector; only a null pointer is refused, since no index is out of the table.\<close>

definition ldt_get_selector_info :: "api_shared option \<Rightarrow> u16 \<Rightarrow> (u32 \<times> u32 \<times> u32) option" where
  "ldt_get_selector_info state selector =
    (case state of
       None \<Rightarrow> None
     | Some s \<Rightarrow>
         (let idx = unat (drop_bit 3 selector)
          in if LX_MAX_LDT_SLOTS \<le> idx then None else Some (ss_selectors s idx, ss_limit s idx, ss_is_32bit s idx)))"

definition linearAddressFromSelectors :: "api_shared option \<Rightarrow> u16 \<Rightarrow> u16 \<Rightarrow> u32" where
  "linearAddressFromSelectors state sel ip =
    (case ldt_get_selector_info state sel of
       None \<Rightarrow> 0
     | Some (base, _, is_32bit) \<Rightarrow> if is_32bit \<noteq> 0 then base + ucast ip else base + ucast (ip AND 0xFFFF))"

subsection \<open>The next instruction\<close>

definition flag :: "regs \<Rightarrow> nat \<Rightarrow> bool" where
  "flag regs n \<longleftrightarrow> bit (rg_eflags regs) n"

definition jump_taken :: "string \<Rightarrow> regs \<Rightarrow> bool" where
  "jump_taken m regs =
    (let CF = flag regs 0; ZF = flag regs 6; SF = flag regs 7; OF = flag regs 11; PF = flag regs 2;
         taken =
           (if m = ''je'' \<or> m = ''jz'' then ZF
            else if m = ''jne'' \<or> m = ''jnz'' then \<not> ZF
            else if m = ''jae'' \<or> m = ''jnc'' \<or> m = ''jge'' then \<not> CF
            else if m = ''jb'' \<or> m = ''jc'' \<or> m = ''jl'' then CF
            else if m = ''ja'' then \<not> CF \<and> \<not> ZF
            else if m = ''jbe'' then CF \<or> ZF
            else if m = ''jg'' then \<not> ZF \<and> SF = OF
            else if m = ''jle'' then ZF \<or> SF \<noteq> OF
            else if m = ''js'' then SF
            else if m = ''jns'' then \<not> SF
            else if m = ''jo'' then OF
            else if m = ''jno'' then \<not> OF
            else if m = ''jp'' \<or> m = ''jpe'' then PF
            else if m = ''jnp'' \<or> m = ''jpo'' then \<not> PF
            else if m = ''jecxz'' \<or> m = ''jcxz'' then rg_ecx regs AND 0xFFFF = 0
            else False)
     in if m = ''jge'' then SF = OF else if m = ''jl'' then SF \<noteq> OF else taken)"

definition or_else :: "u32 \<Rightarrow> u32 \<Rightarrow> u32" where
  "or_else target fall = (if target \<noteq> 0 then target else fall)"

definition next_far_call :: "api_shared option \<Rightarrow> bool \<Rightarrow> bool \<Rightarrow> bool \<Rightarrow> string \<Rightarrow> u32 \<Rightarrow> u32" where
  "next_far_call shared is_16bit into_far into_apis op_str fall =
    (case sscanf_hx_hx op_str of
       None \<Rightarrow> fall
     | Some (seg, off) \<Rightarrow>
         if (if call_gate seg then into_apis else into_far) \<and> is_16bit \<and> shared \<noteq> None
         then or_else (linearAddressFromSelectors shared seg off) fall else fall)"

definition next_far_jump :: "api_shared option \<Rightarrow> bool \<Rightarrow> string \<Rightarrow> u32 \<Rightarrow> u32" where
  "next_far_jump shared is_16bit op_str fall =
    (case sscanf_hx_hx op_str of
       None \<Rightarrow> fall
     | Some (seg, off) \<Rightarrow>
         if is_16bit \<and> shared \<noteq> None then or_else (linearAddressFromSelectors shared seg off) fall else fall)"

definition next_near :: "disasm_instr \<Rightarrow> bool \<Rightarrow> u32 \<Rightarrow> u32" where
  "next_near instr into_apis fall =
    (if di_api_name instr \<noteq> None \<and> \<not> into_apis then fall
     else let (target, r) = strtoul (di_op_str instr) 16
       in if r = [] \<or> hd r = CHR ''h'' then target
          else if starts ''0x'' (di_op_str instr) then or_else (fst (strtoul (di_op_str instr) 0)) fall
          else fall)"

text \<open>A return is taken to be far, from a stack of 16-bit words.\<close>

definition next_return :: "dmem \<Rightarrow> api_shared option \<Rightarrow> regs \<Rightarrow> bool \<Rightarrow> u32 \<Rightarrow> u32" where
  "next_return m shared regs is_16bit fall =
    (if is_16bit \<and> shared \<noteq> None then
       (let linear_sp = linearAddressFromSelectors shared (ucast (rg_xss regs)) 0 + ucast (ucast (rg_esp regs) :: u16)
        in case ptrace_read_memory m linear_sp 4 of
             None \<Rightarrow> fall
           | Some b \<Rightarrow> or_else (linearAddressFromSelectors shared (le16 (b ! 2) (b ! 3)) (le16 (b ! 0) (b ! 1))) fall)
     else fall)"

definition is_conditional :: "string \<Rightarrow> bool" where
  "is_conditional m \<longleftrightarrow> starts ''j'' m \<and> \<not> starts ''jm'' m"

definition next_after :: "dmem \<Rightarrow> api_shared option \<Rightarrow> regs \<Rightarrow> bool \<Rightarrow> bool \<Rightarrow> bool \<Rightarrow> u32 \<Rightarrow> disasm_instr \<Rightarrow> u32" where
  "next_after m shared regs is_16bit into_far into_apis linear instr =
    (let fall = linear + of_nat (di_size instr); mn = di_mnemonic instr
     in if strstr mn ''lcall'' then next_far_call shared is_16bit into_far into_apis (di_op_str instr) fall
        else if strstr mn ''ljmp'' then next_far_jump shared is_16bit (di_op_str instr) fall
        else if strstr mn ''jmp'' \<or> strstr mn ''call'' then next_near instr into_apis fall
        else if is_conditional mn then
          (if jump_taken mn regs then or_else (fst (strtoul (di_op_str instr) 0)) fall else fall)
        else if strstr mn ''ret'' then next_return m shared regs is_16bit fall
        else fall)"

definition no_instr :: disasm_instr where
  "no_instr = \<lparr>di_address = 0, di_bytes = [], di_bytes_len = 0, di_mnemonic = [], di_op_str = [], di_size = 0,
    di_is_16bit = False, di_api_name = None\<rparr>"

definition calculateNextIP :: "capstone \<Rightarrow> disasm_env \<Rightarrow> dmem \<Rightarrow> api_shared option \<Rightarrow> regs \<Rightarrow> bool \<Rightarrow> bool \<Rightarrow> bool \<Rightarrow> u32" where
  "calculateNextIP cs env m shared regs is_16bit into_far into_apis =
    (let eip = rg_eip regs;
         linear = (if is_16bit \<and> shared \<noteq> None then linearAddressFromSelectors shared (ucast (rg_xcs regs)) (ucast eip) else eip)
     in if linear = 0 then eip
        else case ptrace_read_memory m linear 16 of
            None \<Rightarrow> linear + 1
          | Some code \<Rightarrow>
              next_after m shared regs is_16bit into_far into_apis linear (disasm_instruction cs env code linear no_instr is_16bit))"

subsection \<open>Breakpoints\<close>

text \<open>
  The state of the debugger: the memory and the registers of the debuggee, the copy of the registers that is shown, and for each of the two
  kinds of steps the byte the breakpoint replaced, its address and whether it is set.
\<close>

record debugger =
  dg_mem :: dmem
  dg_cpu :: regs
  dg_regs :: regs
  dg_shared :: "api_shared option"
  dg_lx :: bool
  dg_running :: bool
  sw_saved_byte :: u8
  sw_addr :: u32
  sw_active :: bool
  so_byte :: u8
  so_addr :: u32
  so_active :: bool

text \<open>How a function lets the debuggee go on.\<close>

datatype resume = Stopped_still | Single_step | Continued

definition doSoftwareStep :: "capstone \<Rightarrow> disasm_env \<Rightarrow> debugger \<Rightarrow> int \<times> resume \<times> debugger" where
  "doSoftwareStep cs env d =
    (let next = calculateNextIP cs env (dg_mem d) (dg_shared d) (dg_cpu d) (\<not> dg_lx d) True False
     in case ptrace_read_memory (dg_mem d) next 1 of
          None \<Rightarrow> (-1, Stopped_still, d)
        | Some bs \<Rightarrow>
            (let d1 = d\<lparr>sw_saved_byte := hd bs, sw_addr := next, sw_active := True\<rparr>;
                 (ok, m) = ptrace_write_memory (dg_mem d1) next [0xCC]
             in if \<not> ok then (-1, Stopped_still, d1\<lparr>dg_mem := m, sw_active := False\<rparr>)
                else (0, Continued, d1\<lparr>dg_mem := m\<rparr>)))"

text \<open>The instruction pointer for an address: itself, or its offset in the segment of \<^verbatim>\<open>CS\<close>.\<close>

definition eip_at :: "debugger \<Rightarrow> u32 \<Rightarrow> u32" where
  "eip_at d addr =
    (if dg_lx d then addr
     else case dg_shared d of
         None \<Rightarrow> addr AND 0xFFFF
       | Some _ \<Rightarrow>
           (case ldt_get_selector_info (dg_shared d) (ucast (rg_xcs (dg_cpu d))) of
              Some (base, _) \<Rightarrow> addr - base
            | None \<Rightarrow> addr AND 0xFFFF))"

definition handleSoftwareStepBreakpoint :: "debugger \<Rightarrow> int \<times> debugger" where
  "handleSoftwareStepBreakpoint d =
    (if \<not> sw_active d then (0, d)
     else case ptrace_write_memory (dg_mem d) (sw_addr d) [sw_saved_byte d] of
         (False, m) \<Rightarrow> (-1, d\<lparr>dg_mem := m, sw_active := False\<rparr>)
       | (True, m) \<Rightarrow>
           (let r = (dg_cpu d)\<lparr>rg_eip := eip_at d (sw_addr d)\<rparr>
            in (0, d\<lparr>dg_mem := m, dg_cpu := r, dg_regs := r, sw_active := False\<rparr>)))"

definition is_call_mnemonic :: "string \<Rightarrow> bool" where
  "is_call_mnemonic m \<longleftrightarrow> m \<in> {''call'', ''callw'', ''call_far'', ''lcall'', ''int''}"

definition current_linear :: "debugger \<Rightarrow> u32" where
  "current_linear d =
    (let eip = rg_eip (dg_cpu d)
     in if \<not> dg_lx d \<and> dg_shared d \<noteq> None
        then or_else (linearAddressFromSelectors (dg_shared d) (ucast (rg_xcs (dg_cpu d))) (ucast eip)) eip else eip)"

text \<open>The structure for the instruction is not initialised here: what it held is the parameter \<open>instr0\<close>.\<close>

definition doStepOver :: "capstone \<Rightarrow> disasm_env \<Rightarrow> disasm_instr \<Rightarrow> debugger \<Rightarrow> int \<times> resume \<times> debugger" where
  "doStepOver cs env instr0 d =
    (let linear = current_linear d
     in case ptrace_read_memory (dg_mem d) linear 64 of
          None \<Rightarrow> (-1, Stopped_still, d)
        | Some code \<Rightarrow>
            (let instr = disasm_instruction cs env code linear instr0 (\<not> dg_lx d)
             in if di_size instr = 0 then (-1, Stopped_still, d)
                else if \<not> is_call_mnemonic (di_mnemonic instr) then
                  (if \<not> dg_lx d \<and> dg_shared d \<noteq> None then doSoftwareStep cs env d else (0, Single_step, d))
                else let next = linear + of_nat (di_size instr)
                  in case ptrace_read_memory (dg_mem d) next 1 of
                       None \<Rightarrow> (-1, Stopped_still, d)
                     | Some bs \<Rightarrow>
                         (let d1 = d\<lparr>so_addr := next, so_byte := hd bs, so_active := True\<rparr>;
                              (ok, m) = ptrace_write_memory (dg_mem d1) next [0xCC]
                          in if \<not> ok then (-1, Stopped_still, d1\<lparr>dg_mem := m, so_active := False\<rparr>)
                             else (0, Continued, d1\<lparr>dg_mem := m\<rparr>))))"

definition handleStepOverBreakpoint :: "debugger \<Rightarrow> int \<times> debugger" where
  "handleStepOverBreakpoint d =
    (if \<not> so_active d then (0, d)
     else case ptrace_write_memory (dg_mem d) (so_addr d) [so_byte d] of
         (False, m) \<Rightarrow> (-1, d\<lparr>dg_mem := m\<rparr>)
       | (True, m) \<Rightarrow> (0, d\<lparr>dg_mem := m, dg_cpu := (dg_cpu d)\<lparr>rg_eip := eip_at d (so_addr d)\<rparr>, so_active := False\<rparr>))"

subsection \<open>The commands of the text mode\<close>

text \<open>
  What the debuggee does while it runs is a list of events, one for each time \<^verbatim>\<open>waitpid\<close> returns: why it stopped, the bytes it wrote since
  it went on (a write to an address that is not mapped has no effect), its registers and the contents of the shared page.  A wait for which
  there is no event never returns (\<open>None\<close>).
\<close>

datatype wstatus = WExited int | WSignaled int | WStopped int

record event =
  ev_status :: wstatus
  ev_writes :: "(u32 \<times> u8) list"
  ev_cpu :: regs
  ev_shared :: api_shared

definition SIGTRAP :: int where "SIGTRAP = 5"
definition SIGSEGV :: int where "SIGSEGV = 11"

fun apply_writes :: "dmem \<Rightarrow> (u32 \<times> u8) list \<Rightarrow> dmem" where
  "apply_writes m [] = m"
| "apply_writes m ((a, b) # ws) = apply_writes (if m a = None then m else m(a \<mapsto> b)) ws"

definition after_event :: "debugger \<Rightarrow> event \<Rightarrow> debugger" where
  "after_event d e = d\<lparr>dg_mem := apply_writes (dg_mem d) (ev_writes e), dg_cpu := ev_cpu e,
     dg_shared := map_option (\<lambda>_. ev_shared e) (dg_shared d)\<rparr>"

fun wait_for_trap :: "debugger \<Rightarrow> event list \<Rightarrow> (int \<times> debugger \<times> event list) option" where
  "wait_for_trap d [] = None"
| "wait_for_trap d (e # es) =
    (case ev_status e of
       WStopped s \<Rightarrow>
         if s = SIGTRAP then Some (0, after_event d e, es)
         else if s = SIGSEGV then Some (-1, after_event d e, es)
         else wait_for_trap (after_event d e) es
     | WExited _ \<Rightarrow> Some (-1, after_event d e, es)
     | WSignaled _ \<Rightarrow> wait_for_trap (after_event d e) es)"

definition show_regs :: "debugger \<Rightarrow> debugger" where
  "show_regs d = d\<lparr>dg_regs := dg_cpu d\<rparr>"

definition ended :: "debugger \<Rightarrow> debugger" where
  "ended d = d\<lparr>dg_running := False\<rparr>"

text \<open>The command to continue handles a step over a call with code of its own.\<close>

definition restore_step_over :: "debugger \<Rightarrow> debugger" where
  "restore_step_over d =
    (if \<not> so_active d then d
     else d\<lparr>dg_mem := snd (ptrace_write_memory (dg_mem d) (so_addr d) [so_byte d]),
        dg_cpu := (dg_cpu d)\<lparr>rg_eip := (if \<not> dg_lx d \<and> dg_shared d \<noteq> None then eip_at d (so_addr d) else so_addr d)\<rparr>,
        so_active := False\<rparr>)"

definition cmd_continue :: "debugger \<Rightarrow> event list \<Rightarrow> (debugger \<times> event list) option" where
  "cmd_continue d evs =
    (case evs of
       [] \<Rightarrow> None
     | e # es \<Rightarrow>
         (let d1 = after_event d e
          in case ev_status e of
               WStopped s \<Rightarrow>
                 if s = SIGTRAP then Some (show_regs (restore_step_over (snd (handleSoftwareStepBreakpoint d1))), es)
                 else (case es of
                     [] \<Rightarrow> None
                   | e2 # es2 \<Rightarrow>
                       (let d2 = after_event d1 e2
                        in case ev_status e2 of
                             WStopped _ \<Rightarrow> Some (show_regs d2, es2)
                           | WExited _ \<Rightarrow> Some (ended d2, es2)
                           | WSignaled _ \<Rightarrow> Some (d2, es2)))
             | _ \<Rightarrow> Some (ended d1, es)))"

definition cmd_step_16 :: "capstone \<Rightarrow> disasm_env \<Rightarrow> debugger \<Rightarrow> event list \<Rightarrow> (debugger \<times> event list) option" where
  "cmd_step_16 cs env d evs =
    (case doSoftwareStep cs env d of (rc, _, d1) \<Rightarrow>
       if rc \<noteq> 0 then Some (ended d1, evs)
       else (case evs of
           [] \<Rightarrow> None
         | e # es \<Rightarrow>
             (let d2 = after_event d1 e
              in case ev_status e of
                   WStopped s \<Rightarrow>
                     if s = SIGTRAP then Some (snd (handleSoftwareStepBreakpoint d2), es)
                     else (case es of
                         [] \<Rightarrow> None
                       | e2 # es2 \<Rightarrow>
                           (let d3 = after_event d2 e2
                            in if ev_status e2 = WStopped SIGTRAP then Some (snd (handleSoftwareStepBreakpoint d3), es2)
                               else Some (ended d3, es2)))
                 | _ \<Rightarrow> Some (ended d2, es))))"

definition cmd_step :: "capstone \<Rightarrow> disasm_env \<Rightarrow> debugger \<Rightarrow> event list \<Rightarrow> (debugger \<times> event list) option" where
  "cmd_step cs env d evs =
    map_option (apfst show_regs)
      (if \<not> dg_lx d \<and> dg_shared d \<noteq> None then cmd_step_16 cs env d evs
       else (case wait_for_trap d evs of
           None \<Rightarrow> None
         | Some (rc, d1, es) \<Rightarrow> Some (if rc \<noteq> 0 then ended d1 else d1, es)))"

definition cmd_over :: "capstone \<Rightarrow> disasm_env \<Rightarrow> disasm_instr \<Rightarrow> debugger \<Rightarrow> event list \<Rightarrow> (debugger \<times> event list) option" where
  "cmd_over cs env instr0 d evs =
    (case doStepOver cs env instr0 d of (_, _, d1) \<Rightarrow>
       (case wait_for_trap d1 evs of
          None \<Rightarrow> None
        | Some (rc, d2, es) \<Rightarrow>
            Some (show_regs (if rc \<noteq> 0 then ended d2
              else snd (handleSoftwareStepBreakpoint (snd (handleStepOverBreakpoint d2)))), es)))"

datatype command = Cont | Step | Over

definition run_command :: "command \<Rightarrow> capstone \<Rightarrow> disasm_env \<Rightarrow> disasm_instr \<Rightarrow> debugger \<Rightarrow> event list \<Rightarrow> (debugger \<times> event list) option" where
  "run_command c cs env instr0 d evs =
    (case c of
       Cont \<Rightarrow> cmd_continue d evs
     | Step \<Rightarrow> cmd_step cs env d evs
     | Over \<Rightarrow> cmd_over cs env instr0 d evs)"

subsection \<open>A breakpoint is taken away again\<close>

lemma write_byte: "word_mapped m \<Longrightarrow> m a \<noteq> None \<Longrightarrow> ptrace_write_memory m a [b] = (True, m(a \<mapsto> b))"
  by (simp add: put_byte_put)

lemma read_byte: "word_mapped m \<Longrightarrow> ptrace_read_memory m a 1 = map_option (\<lambda>b. [b]) (m a)"
proof -
  assume "word_mapped m"
  then have "ptrace_read_memory m a (Suc 0) = mem_range m a (Suc 0)" by (rule ptrace_read_memory_range)
  then show ?thesis by (cases "m a") simp_all
qed

definition planted_sw :: "debugger \<Rightarrow> u32 \<Rightarrow> u8 \<Rightarrow> debugger \<Rightarrow> bool" where
  "planted_sw d a b d1 \<longleftrightarrow> dg_mem d a = Some b \<and>
     d1 = d\<lparr>dg_mem := (dg_mem d)(a \<mapsto> 0xCC), sw_saved_byte := b, sw_addr := a, sw_active := True\<rparr>"

definition planted_so :: "debugger \<Rightarrow> u32 \<Rightarrow> u8 \<Rightarrow> debugger \<Rightarrow> bool" where
  "planted_so d a b d1 \<longleftrightarrow> dg_mem d a = Some b \<and>
     d1 = d\<lparr>dg_mem := (dg_mem d)(a \<mapsto> 0xCC), so_byte := b, so_addr := a, so_active := True\<rparr>"

lemma doSoftwareStep_cases:
  assumes "word_mapped (dg_mem d)"
  shows "(\<exists>b. planted_sw d (calculateNextIP cs env (dg_mem d) (dg_shared d) (dg_cpu d) (\<not> dg_lx d) True False) b
      (snd (snd (doSoftwareStep cs env d))) \<and> fst (doSoftwareStep cs env d) = 0)
    \<or> snd (snd (doSoftwareStep cs env d)) = d \<and> fst (doSoftwareStep cs env d) = -1"
proof -
  let ?a = "calculateNextIP cs env (dg_mem d) (dg_shared d) (dg_cpu d) (\<not> dg_lx d) True False"
  show ?thesis
  proof (cases "dg_mem d ?a")
    case None
    then show ?thesis using assms by (simp add: doSoftwareStep_def Let_def read_byte del: One_nat_def)
  next
    case (Some b)
    then have "ptrace_read_memory (dg_mem d) ?a 1 = Some [b]" "ptrace_write_memory (dg_mem d) ?a [0xCC] = (True, (dg_mem d)(?a \<mapsto> 0xCC))"
      using assms write_byte [of "dg_mem d" ?a "0xCC"] by (simp_all add: read_byte del: One_nat_def ptrace_write_memory.simps)
    then have "doSoftwareStep cs env d = (0, Continued,
        d\<lparr>sw_saved_byte := b, sw_addr := ?a, sw_active := True, dg_mem := (dg_mem d)(?a \<mapsto> 0xCC)\<rparr>)"
      by (simp add: doSoftwareStep_def Let_def del: One_nat_def ptrace_write_memory.simps)
    then show ?thesis using Some by (simp add: planted_sw_def)
  qed
qed

lemma doStepOver_cases:
  assumes "word_mapped (dg_mem d)" "doStepOver cs env instr0 d = (rc, r, d1)"
  shows "d1 = d \<or> (\<exists>a b. planted_sw d a b d1) \<or> (\<exists>a b. planted_so d a b d1)"
proof -
  let ?l = "current_linear d"
  show ?thesis
  proof (cases "ptrace_read_memory (dg_mem d) ?l 64")
    case None
    then show ?thesis using assms(2) by (simp add: doStepOver_def)
  next
    case (Some code)
    let ?i = "disasm_instruction cs env code ?l instr0 (\<not> dg_lx d)"
    let ?n = "?l + of_nat (di_size ?i)"
    note u = doStepOver_def Let_def Some option.case
    consider (zero) "di_size ?i = 0" | (sw) "di_size ?i \<noteq> 0" "\<not> is_call_mnemonic (di_mnemonic ?i)" "\<not> dg_lx d \<and> dg_shared d \<noteq> None"
      | (hw) "di_size ?i \<noteq> 0" "\<not> is_call_mnemonic (di_mnemonic ?i)" "\<not> (\<not> dg_lx d \<and> dg_shared d \<noteq> None)"
      | (over) "di_size ?i \<noteq> 0" "is_call_mnemonic (di_mnemonic ?i)" by blast
    then show ?thesis
    proof cases
      case zero
      then show ?thesis using assms(2) unfolding u by simp
    next
      case sw
      then have "doSoftwareStep cs env d = (rc, r, d1)" using assms(2) unfolding u by simp
      then show ?thesis using doSoftwareStep_cases [OF assms(1), of cs env] by auto
    next
      case hw
      then show ?thesis using assms(2) unfolding u by (auto split: if_split_asm)
    next
      case over
      show ?thesis
      proof (cases "dg_mem d ?n")
        case None
        then show ?thesis using assms over unfolding u by (simp add: read_byte del: One_nat_def)
      next
        case (Some b)
        then have "ptrace_read_memory (dg_mem d) ?n 1 = Some [b]" "ptrace_write_memory (dg_mem d) ?n [0xCC] = (True, (dg_mem d)(?n \<mapsto> 0xCC))"
          using assms(1) write_byte [of "dg_mem d" ?n "0xCC"] by (simp_all add: read_byte del: One_nat_def ptrace_write_memory.simps)
        then have "planted_so d ?n b d1" using assms(2) over Some unfolding u
          by (auto simp: planted_so_def simp del: One_nat_def ptrace_write_memory.simps)
        then show ?thesis by blast
      qed
    qed
  qed
qed

lemma apply_writes_append: "apply_writes m (xs @ ys) = apply_writes (apply_writes m xs) ys"
  by (induction xs arbitrary: m) auto

lemma apply_writes_None: "apply_writes m ws a = None \<longleftrightarrow> m a = None"
proof (induction ws arbitrary: m)
  case (Cons w ws)
  obtain c b where w: "w = (c, b)" by (cases w)
  show ?case unfolding w apply_writes.simps Cons.IH by simp
qed simp

lemma apply_writes_mapped: "word_mapped m \<Longrightarrow> word_mapped (apply_writes m ws)"
  unfolding word_mapped_def apply_writes_None .

lemma apply_writes_other: "a \<notin> fst ` set ws \<Longrightarrow> apply_writes m ws a = m a"
proof (induction ws arbitrary: m)
  case (Cons w ws)
  obtain c b where w: "w = (c, b)" by (cases w)
  show ?case using Cons.IH [of "if m c = None then m else m(c \<mapsto> b)"] Cons.prems by (simp add: w)
qed simp

lemma apply_writes_around:
  assumes "a \<notin> fst ` set ws" "m a \<noteq> None"
  shows "apply_writes (m(a \<mapsto> x)) ws = (apply_writes m ws)(a \<mapsto> x)"
  using assms
proof (induction ws arbitrary: m)
  case (Cons w ws)
  obtain c b where w: "w = (c, b)" by (cases w)
  have c: "c \<noteq> a" "a \<notin> fst ` set ws" using Cons.prems(1) w by auto
  have "(m(a \<mapsto> x))(c \<mapsto> b) = (m(c \<mapsto> b))(a \<mapsto> x)" using c(1) by (simp add: fun_upd_twist)
  then have s: "(if (m(a \<mapsto> x)) c = None then m(a \<mapsto> x) else (m(a \<mapsto> x))(c \<mapsto> b))
      = (if m c = None then m else m(c \<mapsto> b))(a \<mapsto> x)" using c(1) by simp
  have n: "(if m c = None then m else m(c \<mapsto> b)) a \<noteq> None" using Cons.prems(2) c(1) by simp
  show ?case unfolding w apply_writes.simps s by (rule Cons.IH) (rule c(2), rule n)
qed simp

text \<open>What the debuggee does in a wait.\<close>

definition ran :: "debugger \<Rightarrow> event list \<Rightarrow> debugger \<Rightarrow> bool" where
  "ran d used d1 \<longleftrightarrow> dg_mem d1 = apply_writes (dg_mem d) (concat (map ev_writes used)) \<and>
     d1 = d\<lparr>dg_mem := dg_mem d1, dg_cpu := dg_cpu d1, dg_shared := dg_shared d1\<rparr>"

lemma ran_Nil: "ran d [] d"
  by (simp add: ran_def)

lemma ran_event: "ran d [e] (after_event d e)"
  by (simp add: ran_def after_event_def)

lemma ran_Cons: "ran (after_event d e) es d1 \<Longrightarrow> ran d (e # es) d1"
proof -
  assume r: "ran (after_event d e) es d1"
  then have "dg_mem d1 = apply_writes (dg_mem d) (concat (map ev_writes (e # es)))"
    by (simp add: ran_def after_event_def apply_writes_append)
  moreover have "d1 = d\<lparr>dg_mem := dg_mem d1, dg_cpu := dg_cpu d1, dg_shared := dg_shared d1\<rparr>"
    by (subst conjunct2 [OF r [unfolded ran_def]]) (simp add: after_event_def)
  ultimately show ?thesis unfolding ran_def by (rule conjI)
qed

lemma wait_for_trap_ran: "wait_for_trap d evs = Some (rc, d1, es) \<Longrightarrow> \<exists>used. evs = used @ es \<and> ran d used d1"
proof (induction evs arbitrary: d)
  case (Cons e es')
  let ?d = "after_event d e"
  have "es = es' \<and> d1 = ?d \<or> wait_for_trap ?d es' = Some (rc, d1, es)"
    using Cons.prems by (auto split: wstatus.splits if_split_asm)
  then show ?case
  proof (elim disjE)
    assume "es = es' \<and> d1 = ?d"
    then show ?thesis using ran_event [of d e] by (intro exI [of _ "[e]"]) simp
  next
    assume "wait_for_trap ?d es' = Some (rc, d1, es)"
    then obtain used where "es' = used @ es" "ran ?d used d1" using Cons.IH by blast
    then show ?thesis using ran_Cons by (intro exI [of _ "e # used"]) simp
  qed
qed simp

subsection \<open>Steps are invisible to the program\<close>

text \<open>Between the commands no breakpoint is set.\<close>

definition at_prompt :: "debugger \<Rightarrow> bool" where
  "at_prompt d \<longleftrightarrow> word_mapped (dg_mem d) \<and> \<not> sw_active d \<and> \<not> so_active d"

definition untouched :: "event list \<Rightarrow> u32 \<Rightarrow> bool" where
  "untouched used a \<longleftrightarrow> a \<notin> fst ` set (concat (map ev_writes used))"

text \<open>A command that has ended: the memory is what the writes of the program make of it.\<close>

definition transparent :: "debugger \<Rightarrow> event list \<Rightarrow> debugger \<Rightarrow> bool" where
  "transparent d used d1 \<longleftrightarrow> dg_mem d1 = apply_writes (dg_mem d) (concat (map ev_writes used)) \<and> at_prompt d1"

lemma ran_at_prompt: "at_prompt d \<Longrightarrow> ran d used d1 \<Longrightarrow> transparent d used d1"
proof -
  assume a: "at_prompt d" "ran d used d1"
  then have m: "dg_mem d1 = apply_writes (dg_mem d) (concat (map ev_writes used))" by (simp only: ran_def)
  have "sw_active d1 = sw_active d" "so_active d1 = so_active d"
    by (subst conjunct2 [OF a(2) [unfolded ran_def]], simp)+
  then show ?thesis using a(1) by (simp add: transparent_def at_prompt_def m apply_writes_mapped)
qed

lemma restored:
  assumes "word_mapped m" "m a = Some b" "untouched used a"
  defines "m1 \<equiv> apply_writes (m(a \<mapsto> 0xCC)) (concat (map ev_writes used))"
  shows "ptrace_write_memory m1 a [b] = (True, apply_writes m (concat (map ev_writes used)))"
proof -
  let ?ws = "concat (map ev_writes used)"
  have u: "a \<notin> fst ` set ?ws" using assms(3) by (simp only: untouched_def) simp
  have m1: "m1 = (apply_writes m ?ws)(a \<mapsto> 0xCC)"
    unfolding m1_def by (rule apply_writes_around [OF u]) (simp add: assms(2))
  have "word_mapped (m(a \<mapsto> 0xCC))" by (rule word_mapped_upd [OF assms(1)]) (simp add: assms(2))
  then have "ptrace_write_memory m1 a [b] = (True, m1(a \<mapsto> b))"
    by (intro write_byte) (simp_all add: m1_def apply_writes_mapped apply_writes_None)
  also have "m1(a \<mapsto> b) = (apply_writes m ?ws)(a \<mapsto> b)" by (simp add: m1)
  also have "\<dots> = apply_writes m ?ws" using apply_writes_other [OF u, of m] assms(2) by (simp add: fun_upd_idem)
  finally show ?thesis .
qed

lemma planted_sw_restored:
  assumes "at_prompt d" "planted_sw d a b d1" "ran d1 used d2" "untouched used a"
  shows "\<exists>d3. handleSoftwareStepBreakpoint d2 = (0, d3) \<and> transparent d used d3 \<and> rg_eip (dg_cpu d3) = eip_at d2 a
    \<and> dg_running d3 = dg_running d \<and> sw_addr d3 = a"
proof -
  have b: "dg_mem d a = Some b" and d1: "d1 = d\<lparr>dg_mem := (dg_mem d)(a \<mapsto> 0xCC), sw_saved_byte := b, sw_addr := a, sw_active := True\<rparr>"
    using assms(2) by (simp_all only: planted_sw_def)
  have m2: "dg_mem d2 = apply_writes ((dg_mem d)(a \<mapsto> 0xCC)) (concat (map ev_writes used))"
    and d2: "d2 = d1\<lparr>dg_mem := dg_mem d2, dg_cpu := dg_cpu d2, dg_shared := dg_shared d2\<rparr>"
    using assms(3) d1 by (auto simp only: ran_def) simp
  have f: "sw_active d2" "sw_addr d2 = a" "sw_saved_byte d2 = b" "so_active d2 = so_active d" "dg_running d2 = dg_running d"
    by (subst d2, simp add: d1)+
  have wm: "word_mapped (dg_mem d)" using assms(1) by (simp add: at_prompt_def)
  have w: "ptrace_write_memory (dg_mem d2) a [b] = (True, apply_writes (dg_mem d) (concat (map ev_writes used)))"
    unfolding m2 by (rule restored [OF wm b assms(4)])
  show ?thesis using assms(1) f w
    by (simp add: handleSoftwareStepBreakpoint_def transparent_def at_prompt_def apply_writes_mapped Let_def
        del: ptrace_write_memory.simps)
qed

lemma planted_so_restored:
  assumes "at_prompt d" "planted_so d a b d1" "ran d1 used d2" "untouched used a"
  shows "\<exists>d3. handleStepOverBreakpoint d2 = (0, d3) \<and> transparent d used d3 \<and> rg_eip (dg_cpu d3) = eip_at d2 a
    \<and> dg_running d3 = dg_running d \<and> so_addr d3 = a"
proof -
  have b: "dg_mem d a = Some b" and d1: "d1 = d\<lparr>dg_mem := (dg_mem d)(a \<mapsto> 0xCC), so_byte := b, so_addr := a, so_active := True\<rparr>"
    using assms(2) by (simp_all only: planted_so_def)
  have m2: "dg_mem d2 = apply_writes ((dg_mem d)(a \<mapsto> 0xCC)) (concat (map ev_writes used))"
    and d2: "d2 = d1\<lparr>dg_mem := dg_mem d2, dg_cpu := dg_cpu d2, dg_shared := dg_shared d2\<rparr>"
    using assms(3) d1 by (auto simp only: ran_def) simp
  have f: "so_active d2" "so_addr d2 = a" "so_byte d2 = b" "sw_active d2 = sw_active d" "dg_running d2 = dg_running d"
    by (subst d2, simp add: d1)+
  have wm: "word_mapped (dg_mem d)" using assms(1) by (simp add: at_prompt_def)
  have w: "ptrace_write_memory (dg_mem d2) a [b] = (True, apply_writes (dg_mem d) (concat (map ev_writes used)))"
    unfolding m2 by (rule restored [OF wm b assms(4)])
  show ?thesis using assms(1) f w
    by (simp add: handleStepOverBreakpoint_def transparent_def at_prompt_def apply_writes_mapped Let_def
        del: ptrace_write_memory.simps)
qed

lemma untouched_append: "untouched (used @ es) a \<Longrightarrow> untouched used a"
  by (auto simp: untouched_def)

lemma transparent_show [simp]: "transparent d used (show_regs d1) = transparent d used d1"
  by (simp add: transparent_def at_prompt_def show_regs_def)

lemma show_regs_simps [simp]: "dg_running (show_regs d) = dg_running d" "sw_addr (show_regs d) = sw_addr d"
  "so_addr (show_regs d) = so_addr d" "dg_running (ended d) = False"
  by (simp_all add: show_regs_def ended_def)

lemma handle_inactive: "at_prompt d \<Longrightarrow> handleSoftwareStepBreakpoint d = (0, d)" "at_prompt d \<Longrightarrow> handleStepOverBreakpoint d = (0, d)"
  "at_prompt d \<Longrightarrow> restore_step_over d = d"
  by (simp_all add: handleSoftwareStepBreakpoint_def handleStepOverBreakpoint_def restore_step_over_def at_prompt_def)

lemma transparent_at_prompt: "transparent d used d1 \<Longrightarrow> at_prompt d1"
  by (simp add: transparent_def)

lemma ran2: "ran d [e, e2] (after_event (after_event d e) e2)"
  by (rule ran_Cons [OF ran_event])

lemma cmd_continue_transparent:
  assumes p: "at_prompt d" and c: "cmd_continue d evs = Some (d', rest)" and r: "dg_running d'"
  shows "\<exists>used. evs = used @ rest \<and> transparent d used d'"
proof -
  obtain e es where evs: "evs = e # es" using c by (cases evs) (auto simp: cmd_continue_def)
  let ?d1 = "after_event d e"
  have t1: "transparent d [e] ?d1" by (rule ran_at_prompt [OF p ran_event])
  have t2: "transparent d [e, e2] (after_event ?d1 e2)" for e2 by (rule ran_at_prompt [OF p ran2])
  note h = handle_inactive [OF transparent_at_prompt [OF t1]]
  have "(rest = es \<and> transparent d [e] d') \<or> (\<exists>e2 es2. es = e2 # es2 \<and> rest = es2 \<and> transparent d [e, e2] d')"
    using c r t1 t2 h by (auto simp: cmd_continue_def evs Let_def split: wstatus.splits if_split_asm list.splits)
  then show ?thesis
  proof (elim disjE exE conjE)
    assume "rest = es" "transparent d [e] d'"
    then show ?thesis by (intro exI [of _ "[e]"]) (simp add: evs)
  next
    fix e2 es2
    assume "es = e2 # es2" "rest = es2" "transparent d [e, e2] d'"
    then show ?thesis by (intro exI [of _ "[e, e2]"]) (simp add: evs)
  qed
qed

lemma cmd_step_16_transparent:
  assumes p: "at_prompt d" and c: "cmd_step_16 cs env d evs = Some (d', rest)" and r: "dg_running d'"
    and u: "untouched evs (sw_addr d')"
  shows "\<exists>used. evs = used @ rest \<and> transparent d used d'"
proof -
  obtain rc x d1 where s: "doSoftwareStep cs env d = (rc, x, d1)" by (cases "doSoftwareStep cs env d")
  have rc: "rc = 0" using c r by (auto simp: cmd_step_16_def s split: if_split_asm)
  have "word_mapped (dg_mem d)" using p by (simp add: at_prompt_def)
  then obtain a b where pl: "planted_sw d a b d1" using doSoftwareStep_cases [of d cs env] rc by (auto simp: s)
  obtain e es where evs: "evs = e # es" using c rc by (cases evs) (auto simp: cmd_step_16_def s)
  let ?d2 = "after_event d1 e"
  have "(rest = es \<and> d' = snd (handleSoftwareStepBreakpoint ?d2))
      \<or> (\<exists>e2 es2. es = e2 # es2 \<and> rest = es2 \<and> d' = snd (handleSoftwareStepBreakpoint (after_event ?d2 e2)))"
    using c r rc by (auto simp: cmd_step_16_def s evs Let_def split: wstatus.splits if_split_asm list.splits)
  then obtain used d2 where us: "evs = used @ rest" "ran d1 used d2" "d' = snd (handleSoftwareStepBreakpoint d2)"
  proof (elim disjE exE conjE)
    assume "rest = es" "d' = snd (handleSoftwareStepBreakpoint ?d2)"
    then show thesis using that [of "[e]" ?d2] ran_event evs by simp
  next
    fix e2 es2
    assume "es = e2 # es2" "rest = es2" "d' = snd (handleSoftwareStepBreakpoint (after_event ?d2 e2))"
    then show thesis using that [of "[e, e2]" "after_event ?d2 e2"] ran2 evs by simp
  qed
  have "sw_addr d2 = a"
    by (subst conjunct2 [OF us(2) [unfolded ran_def]]) (use pl in \<open>simp add: planted_sw_def\<close>)
  then have "sw_addr d' = a" unfolding us(3)
    by (auto simp: handleSoftwareStepBreakpoint_def Let_def split: prod.splits bool.splits)
  then have "untouched used a" using u untouched_append unfolding us(1) by simp
  then show ?thesis using planted_sw_restored [OF p pl us(2)] us(1,3) by auto
qed

lemma cmd_step_transparent:
  assumes p: "at_prompt d" and c: "cmd_step cs env d evs = Some (d', rest)" and r: "dg_running d'"
    and u: "untouched evs (sw_addr d')"
  shows "\<exists>used. evs = used @ rest \<and> transparent d used d'"
proof (cases "\<not> dg_lx d \<and> dg_shared d \<noteq> None")
  case True
  then obtain d1 where "cmd_step_16 cs env d evs = Some (d1, rest)" "d' = show_regs d1"
    using c by (auto simp: cmd_step_def)
  then show ?thesis using cmd_step_16_transparent [OF p, of cs env evs d1 rest] r u by simp
next
  case False
  then obtain rc d1 where w: "wait_for_trap d evs = Some (rc, d1, rest)" "d' = show_regs (if rc \<noteq> 0 then ended d1 else d1)"
    using c by (auto simp: cmd_step_def split: option.splits)
  then have "d' = show_regs d1" using r by (auto split: if_split_asm)
  then show ?thesis using wait_for_trap_ran [OF w(1)] ran_at_prompt [OF p] by auto
qed

lemma cmd_over_transparent:
  assumes p: "at_prompt d" and c: "cmd_over cs env instr0 d evs = Some (d', rest)" and r: "dg_running d'"
    and u: "untouched evs (sw_addr d')" "untouched evs (so_addr d')"
  shows "\<exists>used. evs = used @ rest \<and> transparent d used d'"
proof -
  obtain rc0 x d1 where s: "doStepOver cs env instr0 d = (rc0, x, d1)" by (cases "doStepOver cs env instr0 d")
  obtain rc d2 where w: "wait_for_trap d1 evs = Some (rc, d2, rest)"
    and d': "d' = show_regs (if rc \<noteq> 0 then ended d2 else snd (handleSoftwareStepBreakpoint (snd (handleStepOverBreakpoint d2))))"
    using c by (auto simp: cmd_over_def s split: option.splits)
  have rc: "rc = 0" using r d' by (auto split: if_split_asm)
  obtain used where us: "evs = used @ rest" "ran d1 used d2" using wait_for_trap_ran [OF w] by blast
  have e: "d' = show_regs (snd (handleSoftwareStepBreakpoint (snd (handleStepOverBreakpoint d2))))" using d' rc by simp
  have wm: "word_mapped (dg_mem d)" using p by (simp add: at_prompt_def)
  have k: "sw_addr d2 = sw_addr d1" "so_addr d2 = so_addr d1" "so_active d2 = so_active d1"
    by (subst conjunct2 [OF us(2) [unfolded ran_def]], simp)+
  from doStepOver_cases [OF wm s] show ?thesis
  proof (elim disjE exE)
    assume "d1 = d"
    then have t: "transparent d used d2" using ran_at_prompt [OF p] us(2) by simp
    then show ?thesis using e us(1) handle_inactive [OF transparent_at_prompt [OF t]] by auto
  next
    fix a b
    assume pl: "planted_sw d a b d1"
    then have so: "handleStepOverBreakpoint d2 = (0, d2)"
      using p k by (simp add: handleStepOverBreakpoint_def planted_sw_def at_prompt_def)
    have "sw_addr d' = a" unfolding e so using pl k
      by (auto simp: handleSoftwareStepBreakpoint_def Let_def planted_sw_def split: prod.splits bool.splits)
    then have "untouched used a" using u(1) untouched_append unfolding us(1) by simp
    then show ?thesis using planted_sw_restored [OF p pl us(2)] us(1) e so by auto
  next
    fix a b
    assume pl: "planted_so d a b d1"
    have "so_addr (snd (handleStepOverBreakpoint d2)) = a" using pl k
      by (auto simp: handleStepOverBreakpoint_def Let_def planted_so_def split: prod.splits bool.splits)
    then have "so_addr d' = a" unfolding e
      by (auto simp: handleSoftwareStepBreakpoint_def Let_def split: prod.splits bool.splits)
    then have un: "untouched used a" using u(2) untouched_append unfolding us(1) by simp
    obtain d3 where d3: "handleStepOverBreakpoint d2 = (0, d3)" "transparent d used d3"
      using planted_so_restored [OF p pl us(2) un] by blast
    then show ?thesis using us(1) e handle_inactive(1) [OF transparent_at_prompt [OF d3(2)]] by auto
  qed
qed

lemma run_command_clean:
  assumes "at_prompt d" "run_command c cs env instr0 d evs = Some (d', rest)" "dg_running d'"
    and "untouched evs (sw_addr d')" "untouched evs (so_addr d')"
  shows "\<exists>used. evs = used @ rest \<and> transparent d used d'"
  using assms cmd_continue_transparent [of d evs d' rest] cmd_step_transparent [of d cs env evs d' rest]
    cmd_over_transparent [of d cs env instr0 evs d' rest]
  by (cases c) (simp_all add: run_command_def)

text \<open>
  C10. Stepping and continuing are invisible to the program: whatever the debuggee does while it runs, as long as it does not write where the
  breakpoint is, a command of the debugger that returns to its prompt has taken its breakpoint away again, and the memory is exactly what the
  writes of the program make of the memory before the command.
\<close>

theorem run_command_transparent:
  assumes "at_prompt d" "run_command c cs env instr0 d evs = Some (d', rest)" "dg_running d'"
    and "untouched evs (sw_addr d')" "untouched evs (so_addr d')"
  shows "at_prompt d' \<and> (\<exists>used. evs = used @ rest \<and> dg_mem d' = apply_writes (dg_mem d) (concat (map ev_writes used)))"
  using run_command_clean [OF assms] by (auto simp: transparent_def)

text \<open>
  A command of the debugger whose process was not resumed waits for an event that does not come.
\<close>

lemma cmd_over_unreadable:
  "ptrace_read_memory (dg_mem d) (current_linear d) 64 = None \<Longrightarrow> cmd_over cs env instr0 d [] = None"
  by (simp add: cmd_over_def doStepOver_def)

text \<open>The address of the instruction pointer that is stored is the one the breakpoint was at, if it is in the 64 kilobytes of \<^verbatim>\<open>CS\<close>.\<close>

lemma eip_at_linear:
  assumes "\<not> dg_lx d" "dg_shared d = Some s" "ldt_get_selector_info (dg_shared d) (ucast (rg_xcs (dg_cpu d))) = Some (base, lim)"
    and "addr - base < 0x10000" "addr \<noteq> 0"
  shows "current_linear (d\<lparr>dg_cpu := (dg_cpu d)\<lparr>rg_eip := eip_at d addr\<rparr>\<rparr>) = addr"
proof -
  have e: "eip_at d addr = addr - base" using assms(1-3) by (simp add: eip_at_def)
  have f: "(x :: u16) AND 0xFFFF = x" for x
  proof -
    have "(0xFFFF :: u16) = mask 16" by (simp add: mask_eq_exp_minus_1)
    then show ?thesis by (simp only: take_bit_eq_mask [symmetric]) (simp add: take_bit_word_eq_self)
  qed
  have "unat (ucast (ucast (addr - base) :: u16) :: u32) = unat (addr - base)"
    using assms(4) by (simp add: unsigned_ucast_eq unat_take_bit_word word_less_nat_alt)
  then have u: "ucast (ucast (addr - base) :: u16) = addr - base" by (simp only: word_unat_eq_iff)
  obtain l k where lim: "lim = (l, k)" by (cases lim)
  have "linearAddressFromSelectors (dg_shared d) (ucast (rg_xcs (dg_cpu d))) (ucast (eip_at d addr)) = addr"
    using assms(3) by (simp add: linearAddressFromSelectors_def lim f e u)
  then show ?thesis using assms(1,2,5) by (simp add: current_linear_def Let_def or_else_def)
qed

subsection \<open>Conditional jumps\<close>

text \<open>
  The processor numbers its conditions: the three upper bits of the number choose one, the lowest negates it.
\<close>

definition x86_condition :: "nat \<Rightarrow> u32 \<Rightarrow> bool" where
  "x86_condition cc flags =
    (let CF = bit flags 0; PF = bit flags 2; ZF = bit flags 6; SF = bit flags 7; OF = bit flags 11
     in (odd cc \<noteq> ([OF, CF, ZF, CF \<or> ZF, SF, PF, SF \<noteq> OF, ZF \<or> SF \<noteq> OF] ! (cc div 2))))"

definition jcc_names :: "(nat \<times> string) list" where
  "jcc_names = [(0, ''jo''), (1, ''jno''), (2, ''jb''), (2, ''jc''), (3, ''jae''), (3, ''jnc''), (4, ''je''), (4, ''jz''),
     (5, ''jne''), (5, ''jnz''), (6, ''jbe''), (7, ''ja''), (8, ''js''), (9, ''jns''), (10, ''jp''), (10, ''jpe''),
     (11, ''jnp''), (11, ''jpo''), (12, ''jl''), (13, ''jge''), (14, ''jle''), (15, ''jg'')]"

lemma jump_taken_condition:
  "\<forall>(cc, mn) \<in> set jcc_names. jump_taken mn regs = x86_condition cc (rg_eflags regs)"
  unfolding jcc_names_def by (simp add: jump_taken_def x86_condition_def flag_def Let_def)

lemma jcc_plain:
  "\<forall>(cc, mn) \<in> set jcc_names. \<not> strstr mn ''lcall'' \<and> \<not> strstr mn ''ljmp'' \<and> \<not> strstr mn ''jmp'' \<and> \<not> strstr mn ''call''
    \<and> is_conditional mn"
  by code_simp


definition jne_instr :: disasm_instr where
  "jne_instr = no_instr\<lparr>di_mnemonic := ''jne'', di_op_str := ''0x1240'', di_size := 2\<rparr>"

definition zero_regs :: regs where
  "zero_regs = \<lparr>rg_eax = 0, rg_ebx = 0, rg_ecx = 0, rg_edx = 0, rg_esi = 0, rg_edi = 0, rg_ebp = 0, rg_esp = 0, rg_eip = 0,
     rg_eflags = 0, rg_xcs = 0, rg_xds = 0, rg_xes = 0, rg_xss = 0\<rparr>"


text \<open>Other jumps on a condition are not decided as the processor does: \<^verbatim>\<open>jecxz\<close> looks at half of its register, \<^verbatim>\<open>loop\<close> at nothing.\<close>

lemma jecxz_half: "jump_taken ''jecxz'' (zero_regs\<lparr>rg_ecx := 0x10000\<rparr>)"
  by code_simp

lemma loop_not_followed:
  "next_after m shared regs is_16bit into_far into_apis linear (jne_instr\<lparr>di_mnemonic := ''loop''\<rparr>) = linear + 2"
proof -
  have "\<not> strstr ''loop'' ''lcall''" "\<not> strstr ''loop'' ''ljmp''" "\<not> strstr ''loop'' ''jmp''" "\<not> strstr ''loop'' ''call''"
    "\<not> is_conditional ''loop''" "\<not> strstr ''loop'' ''ret''" by code_simp+
  then show ?thesis by (simp add: next_after_def Let_def jne_instr_def no_instr_def)
qed

text \<open>Witness: a call in a 32-bit program is stepped over; while the function runs it writes a byte elsewhere.\<close>

definition call_only :: capstone where
  "call_only mode code a n = [\<lparr>in_address = a, in_size = 5, in_bytes = code, in_mnemonic = ''call'', in_op_str = ''0x1080''\<rparr>]"

definition demo_debugger :: debugger where
  "demo_debugger = \<lparr>dg_mem = page_4096, dg_cpu = zero_regs\<lparr>rg_eip := 0x1000\<rparr>, dg_regs = zero_regs, dg_shared = None, dg_lx = True,
     dg_running = True, sw_saved_byte = 0, sw_addr = 0, sw_active = False, so_byte = 0, so_addr = 0, so_active = False\<rparr>"

definition demo_env :: disasm_env where
  "demo_env = \<lparr>de_api_state = None, de_read_memory = None\<rparr>"

definition empty_shared :: api_shared where
  "empty_shared = \<lparr>ss_selectors = \<lambda>_. 0, ss_is_32bit = \<lambda>_. 0, ss_is_code = \<lambda>_. 0, ss_limit = \<lambda>_. 0, ss_ne_segment = \<lambda>_. 0,
     as_api_entries = []\<rparr>"

definition demo_event :: event where
  "demo_event = \<lparr>ev_status = WStopped 5, ev_writes = [(0x1100, 7)], ev_cpu = zero_regs\<lparr>rg_eip := 0x1006\<rparr>, ev_shared = empty_shared\<rparr>"

lemma demo_steps: "doStepOver call_only demo_env no_instr demo_debugger =
   (0, Continued, demo_debugger\<lparr>so_addr := 0x1005, so_byte := 5, so_active := True, dg_mem := page_4096(0x1005 \<mapsto> 0xCC)\<rparr>)"
proof -
  have m: "mem_range page_4096 0x1000 64 \<noteq> None" by code_simp
  then obtain code where c: "ptrace_read_memory page_4096 0x1000 64 = Some code"
    using ptrace_read_memory_range [OF page_4096_mapped, of "0x1000" 64] by auto
  have b: "page_4096 0x1005 = Some 5" by code_simp
  have r: "ptrace_read_memory page_4096 0x1005 1 = Some [5]" using read_byte [OF page_4096_mapped, of "0x1005"] b by simp
  have w: "ptrace_write_memory page_4096 0x1005 [0xCC] = (True, page_4096(0x1005 \<mapsto> 0xCC))"
    by (rule write_byte [OF page_4096_mapped]) (simp add: b)
  have l: "current_linear demo_debugger = 0x1000" by (simp add: current_linear_def demo_debugger_def Let_def)
  have i: "di_size (disasm_instruction call_only demo_env code 0x1000 no_instr b) = 5"
    "di_mnemonic (disasm_instruction call_only demo_env code 0x1000 no_instr b) = ''call''" for b
    by (simp_all add: disasm_instruction_def call_only_def instr_of_insn_def)
  have d: "dg_mem demo_debugger = page_4096" "dg_lx demo_debugger" by (simp_all add: demo_debugger_def)
  show ?thesis using c r w i unfolding doStepOver_def Let_def l d(1)
    by (simp add: is_call_mnemonic_def d del: One_nat_def ptrace_write_memory.simps ptrace_read_memory.simps)
qed

lemma run_command_transparent_witness:
  "\<exists>d'. run_command Over call_only demo_env no_instr demo_debugger [demo_event] = Some (d', []) \<and> at_prompt d'
     \<and> dg_mem d' 0x1005 = Some 5 \<and> dg_mem d' 0x1100 = Some 7"
proof -
  let ?d1 = "demo_debugger\<lparr>so_addr := 0x1005, so_byte := 5, so_active := True, dg_mem := page_4096(0x1005 \<mapsto> 0xCC)\<rparr>"
  let ?d' = "show_regs (snd (handleSoftwareStepBreakpoint (snd (handleStepOverBreakpoint (after_event ?d1 demo_event)))))"
  have r: "run_command Over call_only demo_env no_instr demo_debugger [demo_event] = Some (?d', [])"
    by (simp add: run_command_def cmd_over_def demo_steps demo_event_def SIGTRAP_def)
  have p: "at_prompt demo_debugger" using page_4096_mapped by (simp add: at_prompt_def demo_debugger_def)
  have a: "dg_running ?d'" "sw_addr ?d' = 0" "so_addr ?d' = 0x1005"
    by (auto simp: handleSoftwareStepBreakpoint_def handleStepOverBreakpoint_def after_event_def demo_debugger_def Let_def
        simp del: ptrace_write_memory.simps split: prod.splits bool.splits)
  have u: "untouched [demo_event] (sw_addr ?d')" "untouched [demo_event] (so_addr ?d')"
    unfolding a by (simp_all add: untouched_def demo_event_def)
  from run_command_transparent [OF p r a(1) u] have t: "at_prompt ?d'" "dg_mem ?d' = apply_writes page_4096 [(0x1100, 7)]"
    by (auto simp: demo_debugger_def demo_event_def)
  have "page_4096 0x1100 \<noteq> None" "page_4096 0x1005 = Some 5" by code_simp+
  then show ?thesis using r t by (intro exI [of _ ?d']) simp
qed

end
