(* ===== verification/Autostep.thy ===== *)
theory Autostep
  imports SymbolMap Stepper "HOL-Library.Multiset"
begin

section \<open>Automatic stepping (\<^verbatim>\<open>run_autostep\<close> of \<^verbatim>\<open>debugger/td2ine_main.cpp\<close>)\<close>

subsection \<open>The table of the segments\<close>

text \<open>The first 16 different bases in the descriptor table, sorted by insertion; the first of them is taken for segment 1.\<close>

fun collect_bases :: "(nat \<Rightarrow> u32) \<Rightarrow> nat list \<Rightarrow> u32 list \<Rightarrow> u32 list" where
  "collect_bases sel [] bases = bases"
| "collect_bases sel (i # is) bases =
    (if 16 \<le> length bases then bases
     else collect_bases sel is (if sel i \<noteq> 0 \<and> sel i \<notin> set bases then bases @ [sel i] else bases))"

fun scan_down :: "u32 list \<Rightarrow> u32 \<Rightarrow> nat \<Rightarrow> nat" where
  "scan_down bases key 0 = 0"
| "scan_down bases key (Suc j) = (if bases ! j > key then scan_down bases key j else Suc j)"

text \<open>One round of the sort: the elements above the key move up by one.\<close>

definition sort_round :: "nat \<Rightarrow> u32 list \<Rightarrow> u32 list" where
  "sort_round i bases =
    (let key = bases ! i; j = scan_down bases key i
     in take j bases @ key # drop j (take i bases) @ drop (Suc i) bases)"

definition sort_bases :: "u32 list \<Rightarrow> u32 list" where
  "sort_bases bases = fold sort_round [1..<length bases] bases"

definition segment_bases :: "(nat \<Rightarrow> u32) \<Rightarrow> u32 list" where
  "segment_bases sel =
    (let bases = take 15 (sort_bases (collect_bases sel [0..<LX_MAX_LDT_SLOTS] []))
     in 0 # bases @ replicate (15 - length bases) 0)"

text \<open>A line of the trace names the first segment whose 64 kilobytes the address is in, also if no symbol is found there.\<close>

definition trace_symbol :: "symbol_map \<Rightarrow> u32 list \<Rightarrow> u32 \<Rightarrow> (string \<times> int) option" where
  "trace_symbol sm seg_bases addr =
    (case find (\<lambda>s. in_64k (seg_bases ! s) addr) [1..<16] of
       None \<Rightarrow> None
     | Some s \<Rightarrow> symbol_map_lookup sm (of_nat s) (ucast (addr - seg_bases ! s)))"

subsection \<open>Loops\<close>

definition LOOP_HISTORY :: nat where "LOOP_HISTORY = 1024"

definition record_address :: "u32 \<Rightarrow> u32 list \<Rightarrow> u32 list" where
  "record_address a h = (if length h < LOOP_HISTORY then h @ [a] else tl h @ [a])"

definition repeats :: "u32 list \<Rightarrow> nat \<Rightarrow> bool" where
  "repeats h n \<longleftrightarrow> n * 3 \<le> length h \<and>
     (let start = length h - n * 3
      in list_all (\<lambda>r. list_all (\<lambda>j. h ! (start + r * n + j) = h ! (start + j)) [0..<n]) [0..<3])"

definition loop_length :: "u32 list \<Rightarrow> nat option" where
  "loop_length h = (if 6 \<le> length h then find (repeats h) [2..<33] else None)"

subsection \<open>The sort sorts\<close>

lemma scan_down_le: "scan_down bases key i \<le> i"
  by (induction i) auto

lemma scan_down_above: "scan_down bases key i \<le> k \<Longrightarrow> k < i \<Longrightarrow> key < bases ! k"
  by (induction i) (auto simp: less_Suc_eq split: if_splits)

lemma scan_down_below: "0 < scan_down bases key i \<Longrightarrow> bases ! (scan_down bases key i - 1) \<le> key"
  by (induction i) (auto split: if_splits)

lemma sort_round_mset: "i < length bases \<Longrightarrow> mset (sort_round i bases) = mset bases \<and> length (sort_round i bases) = length bases"
proof -
  assume i: "i < length bases"
  let ?j = "scan_down bases (bases ! i) i"
  have j: "?j \<le> i" by (rule scan_down_le)
  have e: "bases = take ?j bases @ drop ?j (take i bases) @ bases ! i # drop (Suc i) bases"
  proof -
    have "take ?j bases @ drop ?j (take i bases) = take i bases"
      using append_take_drop_id [of ?j "take i bases"] j by (simp add: min_def)
    then have "take ?j bases @ drop ?j (take i bases) @ bases ! i # drop (Suc i) bases = take i bases @ bases ! i # drop (Suc i) bases"
      by (metis append_assoc)
    then show ?thesis using id_take_nth_drop [OF i] by (simp only:)
  qed
  have "mset (sort_round i bases) = mset (take ?j bases @ drop ?j (take i bases) @ bases ! i # drop (Suc i) bases)"
    by (simp add: sort_round_def Let_def)
  then have "mset (sort_round i bases) = mset bases" by (simp only: e [symmetric])
  then show ?thesis by (metis size_mset)
qed

lemma sorted_insert_at:
  assumes "sorted xs" "j \<le> length xs" "\<forall>k < length xs. j \<le> k \<longrightarrow> (x :: 'a::linorder) < xs ! k" "0 < j \<longrightarrow> xs ! (j - 1) \<le> x"
  shows "sorted (take j xs @ x # drop j xs)"
proof -
  have "\<forall>y \<in> set (take j xs). y \<le> x"
  proof
    fix y
    assume "y \<in> set (take j xs)"
    then obtain k where k: "k < j" "y = xs ! k" using assms(2) by (auto simp: in_set_conv_nth)
    then have "xs ! k \<le> xs ! (j - 1)" using assms(1,2) by (intro sorted_nth_mono) auto
    then show "y \<le> x" using k assms(4) by auto
  qed
  moreover have "\<forall>y \<in> set (drop j xs). x \<le> y"
    using assms(2,3) by (auto simp: in_set_conv_nth less_imp_le)
  ultimately show ?thesis using assms(1) sorted_wrt_take sorted_wrt_drop
    by (auto simp: sorted_append intro: order_trans)
qed

lemma sort_round_sorted:
  assumes "i < length bases" "sorted (take i bases)"
  shows "sorted (take (Suc i) (sort_round i bases))"
proof -
  let ?j = "scan_down bases (bases ! i) i" and ?xs = "take i bases"
  have j: "?j \<le> i" by (rule scan_down_le)
  have "take (Suc i) (sort_round i bases) = take ?j ?xs @ bases ! i # drop ?j ?xs"
    using assms(1) j by (simp add: sort_round_def Let_def min_def Suc_diff_le)
  moreover have "sorted (take ?j ?xs @ bases ! i # drop ?j ?xs)"
  proof (rule sorted_insert_at [OF assms(2)])
    show "?j \<le> length ?xs" using assms(1) j by simp
    show "\<forall>k < length ?xs. ?j \<le> k \<longrightarrow> bases ! i < ?xs ! k" using assms(1) scan_down_above by auto
    show "0 < ?j \<longrightarrow> ?xs ! (?j - 1) \<le> bases ! i" using assms(1) j scan_down_below by auto
  qed
  ultimately show ?thesis by simp
qed

lemma sort_rounds:
  assumes "n \<le> length bases" "0 < n"
  shows "mset (fold sort_round [1..<n] bases) = mset bases \<and> length (fold sort_round [1..<n] bases) = length bases
    \<and> sorted (take n (fold sort_round [1..<n] bases))"
  using assms
proof (induction n)
  case (Suc n)
  show ?case
  proof (cases "n = 0")
    case True
    then show ?thesis by (cases bases) auto
  next
    case False
    let ?b = "fold sort_round [1..<n] bases"
    have IH: "mset ?b = mset bases" "length ?b = length bases" "sorted (take n ?b)" using Suc False by auto
    have "fold sort_round [1..<Suc n] bases = sort_round n ?b" using False by simp
    then show ?thesis using sort_round_mset [of n ?b] sort_round_sorted [of n ?b] IH Suc.prems by simp
  qed
qed simp

lemma sort_bases_sort: "sort_bases bases = sort bases"
proof (cases "bases = []")
  case False
  then have "mset (sort_bases bases) = mset bases" "sorted (sort_bases bases)"
    using sort_rounds [of "length bases" bases] by (auto simp: sort_bases_def)
  then show ?thesis by (metis properties_for_sort)
qed (simp add: sort_bases_def)

lemma collect_bases_distinct:
  "distinct bases \<Longrightarrow> length bases \<le> 16 \<Longrightarrow> 0 \<notin> set bases \<Longrightarrow>
    distinct (collect_bases sel is bases) \<and> length (collect_bases sel is bases) \<le> 16 \<and> 0 \<notin> set (collect_bases sel is bases)
    \<and> set bases \<subseteq> set (collect_bases sel is bases) \<and> set (collect_bases sel is bases) \<subseteq> set bases \<union> sel ` set is
    \<and> (length (collect_bases sel is bases) < 16 \<longrightarrow> sel ` set is - {0} \<subseteq> set (collect_bases sel is bases))"
proof (induction "is" arbitrary: bases)
  case (Cons i "is")
  let ?b = "if sel i \<noteq> 0 \<and> sel i \<notin> set bases then bases @ [sel i] else bases"
  show ?case
  proof (cases "16 \<le> length bases")
    case True
    then show ?thesis using Cons.prems by auto
  next
    case False
    have b: "distinct ?b" "length ?b \<le> 16" "0 \<notin> set ?b" using Cons.prems False by auto
    have s: "set bases \<subseteq> set ?b" "set ?b \<subseteq> set bases \<union> {sel i}" "sel i = 0 \<or> sel i \<in> set ?b" by auto
    have "collect_bases sel (i # is) bases = collect_bases sel is ?b" using False by simp
    then show ?thesis using Cons.IH [OF b] s by auto
  qed
qed simp

text \<open>
  If no more than 15 different bases are in use, the table lists exactly them, in increasing order.
\<close>

lemma segment_bases_all:
  assumes "card (sel ` {0..<LX_MAX_LDT_SLOTS} - {0}) \<le> 15"
  defines "B \<equiv> sel ` {0..<LX_MAX_LDT_SLOTS} - {0}"
  shows "segment_bases sel = 0 # sorted_list_of_set B @ replicate (15 - card B) 0"
proof -
  let ?c = "collect_bases sel [0..<LX_MAX_LDT_SLOTS] []"
  have c: "distinct ?c" "length ?c \<le> 16" "0 \<notin> set ?c" "set ?c \<subseteq> sel ` {0..<LX_MAX_LDT_SLOTS}"
    "length ?c < 16 \<longrightarrow> B \<subseteq> set ?c"
    using collect_bases_distinct [of "[]" sel "[0..<LX_MAX_LDT_SLOTS]"] by (auto simp: B_def)
  have sub: "set ?c \<subseteq> B" using c(3,4) by (auto simp: B_def)
  have fin: "finite B" by (simp add: B_def)
  have "length ?c = card (set ?c)" using c(1) by (simp add: distinct_card)
  also have "\<dots> \<le> card B" by (rule card_mono [OF fin sub])
  finally have l: "length ?c \<le> 15" using assms(1) by (simp add: B_def)
  then have s: "set ?c = B" using c(5) sub by auto
  have "sort ?c = sorted_list_of_set B"
    using c(1) s by (metis sorted_list_of_set_sort_remdups distinct_remdups_id)
  then have so: "sort_bases ?c = sorted_list_of_set B" by (simp add: sort_bases_sort)
  have lc: "length (sorted_list_of_set B) = card B" by simp
  have t: "take 15 (sorted_list_of_set B) = sorted_list_of_set B" using assms(1) by (simp add: B_def)
  show ?thesis unfolding segment_bases_def so Let_def t lc ..
qed

text \<open>A loop is found exactly if the last addresses are three times the same sequence, and the shortest such sequence is reported.\<close>

lemma repeats_iff: "repeats h n \<longleftrightarrow> (\<exists>pre s. length s = n \<and> h = pre @ s @ s @ s)"
proof
  assume r: "repeats h n"
  define k where "k = length h - n * 3"
  have len: "length h = k + n * 3" using r by (simp add: repeats_def k_def)
  let ?s = "take n (drop k h)"
  have eq: "h ! (k + q * n + j) = h ! (k + j)" if "q < 3" "j < n" for q j
  proof -
    have "\<forall>r \<in> {0..<3}. \<forall>j \<in> {0..<n}. h ! (k + r * n + j) = h ! (k + j)"
      using r unfolding repeats_def Let_def list_all_iff set_upt k_def by (rule conjunct2)
    then show ?thesis using that by (simp only: atLeastLessThan_iff Ball_def) simp
  qed
  have part: "take n (drop (k + q * n) h) = ?s" if "q < 3" for q
  proof (rule nth_equalityI)
    have q: "q = 0 \<or> q = 1 \<or> q = 2" using that by linarith
    then show "length (take n (drop (k + q * n) h)) = length ?s" by (elim disjE) (simp_all add: len)
    fix j
    assume "j < length (take n (drop (k + q * n) h))"
    then show "take n (drop (k + q * n) h) ! j = ?s ! j" using eq [OF that, of j] q by (elim disjE) (simp_all add: len)
  qed
  have d: "drop m h = take n (drop m h) @ drop (m + n) h" for m by (metis append_take_drop_id drop_drop add.commute)
  have "drop (k + n + n) h = take n (drop (k + n + n) h)" by (simp add: len)
  then have "drop k h = ?s @ take n (drop (k + 1 * n) h) @ take n (drop (k + 2 * n) h)"
    using d [of k] d [of "k + n"] by (simp add: mult_2 add.assoc)
  then have "drop k h = ?s @ ?s @ ?s" using part [of 1] part [of 2] by simp
  then have "h = take k h @ ?s @ ?s @ ?s" by (metis append_take_drop_id)
  then show "\<exists>pre s. length s = n \<and> h = pre @ s @ s @ s"
    by (intro exI [of _ "take k h"] exI [of _ ?s]) (simp add: len)
next
  assume "\<exists>pre s. length s = n \<and> h = pre @ s @ s @ s"
  then obtain pre s where h: "length s = n" "h = pre @ s @ s @ s" by blast
  have k: "length h - n * 3 = length pre" "n * 3 \<le> length h" using h by auto
  have "h ! (length pre + q * n + j) = s ! j" if "q < 3" "j < n" for q j
  proof -
    have "q = 0 \<or> q = 1 \<or> q = 2" using that(1) by linarith
    then show ?thesis using that(2) h by (elim disjE) (simp_all add: nth_append)
  qed
  from this [of _ ] this [of 0] show "repeats h n" using k by (simp add: repeats_def Let_def list_all_iff)
qed

lemma find_upt: "find P [a..<b] = Some n \<longleftrightarrow> a \<le> n \<and> n < b \<and> P n \<and> (\<forall>k. a \<le> k \<and> k < n \<longrightarrow> \<not> P k)"
proof
  assume "find P [a..<b] = Some n"
  then obtain i where i: "i < b - a" "P (a + i)" "n = a + i" "\<forall>j<i. \<not> P (a + j)"
    unfolding find_Some_iff by auto
  have "\<not> P k" if "a \<le> k" "k < n" for k using i(4) [rule_format, of "k - a"] that i(3) by simp
  then show "a \<le> n \<and> n < b \<and> P n \<and> (\<forall>k. a \<le> k \<and> k < n \<longrightarrow> \<not> P k)" using i(1-3) by auto
next
  assume "a \<le> n \<and> n < b \<and> P n \<and> (\<forall>k. a \<le> k \<and> k < n \<longrightarrow> \<not> P k)"
  then show "find P [a..<b] = Some n" unfolding find_Some_iff by (intro exI [of _ "n - a"]) auto
qed

lemma loop_length_shortest:
  "loop_length h = Some n \<longleftrightarrow> 2 \<le> n \<and> n \<le> 32 \<and> (\<exists>pre s. length s = n \<and> h = pre @ s @ s @ s)
    \<and> (\<forall>k. 2 \<le> k \<and> k < n \<longrightarrow> \<not> (\<exists>pre s. length s = k \<and> h = pre @ s @ s @ s))"
proof -
  have l: "repeats h n \<Longrightarrow> 2 \<le> n \<Longrightarrow> 6 \<le> length h" by (simp add: repeats_def)
  have "loop_length h = Some n \<longleftrightarrow> 6 \<le> length h \<and> find (repeats h) [2..<33] = Some n"
    by (simp add: loop_length_def del: upt_rec_numeral)
  also have "\<dots> \<longleftrightarrow> 2 \<le> n \<and> n \<le> 32 \<and> repeats h n \<and> (\<forall>k. 2 \<le> k \<and> k < n \<longrightarrow> \<not> repeats h k)"
    unfolding find_upt using l by auto
  finally show ?thesis unfolding repeats_iff .
qed

lemma record_address_bound: "length h \<le> LOOP_HISTORY \<Longrightarrow> length (record_address a h) \<le> LOOP_HISTORY"
  by (cases h) (simp_all add: record_address_def LOOP_HISTORY_def)

end
