(* ===== verification/Spec2Isabelle.thy ===== *)
theory Spec2Isabelle
  imports Decompress Ldt Headers Fixups DosSems DosTls DosSegs DosDir DosFind DosThreads Dos16 DosBeep Modules NeLoad Lib2ineRun
    DwarfLookup Ptrace Autostep
begin

text \<open>
  The program runs OS/2 executables on Linux, and has a debugger for them.  Its parts work together like this.  The base library
  (\<^verbatim>\<open>lib2ine.c\<close>) is loaded first: it reads the configuration, finds the drives, builds the process block, and fills the structure
  \<^verbatim>\<open>GLoaderState\<close> with the functions the other parts call.  The loader (\<^verbatim>\<open>lx_loader.c\<close>) reads an LX or NE executable, maps and
  unpacks its objects, collects its exports, loads the modules it imports, patches its code and data (fixups), makes the
  selectors for 16-bit code, and jumps to the entry point.  What the program calls are the functions of the system libraries, of which
  \<^verbatim>\<open>native/doscalls.c\<close> is the central one: files, directories, semaphores, threads, processes, memory.  They use the loader for
  paths, modules and selectors.  The debugger (\<^verbatim>\<open>debugger/\<close>) is another process: it steps the program with \<^verbatim>\<open>ptrace\<close>, sees the
  selectors through a shared page, and maps addresses to source lines and symbols.

  \<^bold>\<open>Theories and sources.\<close>
  \<^item> \<open>Prelude\<close>: bytes and words, reads and writes of a buffer that fail outside it (\<open>None\<close> stands for what C leaves undefined: a fault, a
    failed assertion, a use of freed memory), blocks, C strings in a buffer.
  \<^item> \<open>Decompress\<close>: the two packed page formats of \<^verbatim>\<open>lx_loader.c\<close> (\<^verbatim>\<open>decompressExePack2\<close>, \<^verbatim>\<open>decompressIterated\<close>).
  \<^item> \<open>Headers\<close>: the packed headers of \<^verbatim>\<open>lib2ine.h\<close> and \<^verbatim>\<open>sanityCheckModule\<close>.
  \<^item> \<open>Ldt\<close>: the selector table, \<^verbatim>\<open>lxFindSelector\<close>, the 16:16 conversions, stack tiles and segments of \<^verbatim>\<open>lx_loader.c\<close>, and their variants of
    \<^verbatim>\<open>lib2ine.c\<close>.  The state is the table of tile bases and the memory the process has mapped.
  \<^item> \<open>Exports\<close>: entry tables, name tables and \<^verbatim>\<open>getModuleProcAddr...\<close>; \<open>Trampolines\<close>: the code generated for missing entry points, with a
    model of the instructions it is made of; \<open>Fixups\<close>: \<^verbatim>\<open>fixupPage\<close>, \<^verbatim>\<open>fixupNeSegment\<close>, \<^verbatim>\<open>fixupLinearCodeSegmentReferences\<close>.
  \<^item> \<open>LxLoad\<close>, \<open>NeLoad\<close>: \<^verbatim>\<open>loadLxModule\<close> and \<^verbatim>\<open>loadNeModule\<close> from the admission of a file to the protection of its pages; \<open>Modules\<close>: reference
    counts, dependencies, the list of modules, \<^verbatim>\<open>lxTerminate\<close>, over a heap of module structures.
  \<^item> \<open>Paths\<close>: \<^verbatim>\<open>makeOS2Path\<close>, \<^verbatim>\<open>locatePathCaseInsensitive\<close>, \<^verbatim>\<open>lxMakeUnixPath\<close>.
  \<^item> \<open>Lib2ine\<close>, \<open>Lib2ineRun\<close>: \<^verbatim>\<open>lib2ine.c\<close>, the configuration parser, the drives, process and thread blocks, the sound generators.
  \<^item> \<open>DosFiles\<close>, \<open>DosDir\<close>, \<open>DosFind\<close>, \<open>DosExec\<close>, \<open>DosSems\<close>, \<open>DosThreads\<close>, \<open>DosTls\<close>, \<open>DosSegs\<close>, \<open>DosMisc\<close>, \<open>DosBeep\<close>, \<open>Dos16\<close>: the functions of
    \<^verbatim>\<open>native/doscalls.c\<close>, one theory for each kind of state: the table of handles, the current directories, the search handles, child
    processes, semaphores, the list of dead threads and the exit list, thread-local words, 16-bit segments, small queries, the speaker, and
    the 16-bit variants of the calls.
  \<^item> \<open>Dwarf\<close>, \<open>DwarfLine\<close>, \<open>DwarfLookup\<close>: \<^verbatim>\<open>debugger/dwarf_info.c\<close>; \<open>DebugLdt\<close>: \<^verbatim>\<open>debugger/ldt_access.c\<close>; \<open>Ptrace\<close>: the memory accesses of
    \<^verbatim>\<open>debugger/ptrace_wrapper.c\<close> and \<^verbatim>\<open>debugger/td2ine_core.cpp\<close>; \<open>CString\<close>, \<open>SymbolMap\<close>, \<open>Disasm\<close>, \<open>Stepper\<close>, \<open>Autostep\<close>: the C string functions
    the debugger uses, \<^verbatim>\<open>debugger/symbol_map.cpp\<close>, \<^verbatim>\<open>debugger/disasm.c\<close>, and the stepping of \<^verbatim>\<open>td2ine_main.cpp\<close>, \<^verbatim>\<open>td2ine_core.cpp\<close> and
    \<^verbatim>\<open>td2ine_text.cpp\<close>.

  \<^bold>\<open>Conventions.\<close>  Definitions have the names of the C functions; a part of a function has a name of its own and is composed as the function
  composes it.  Global variables are fields of a record that is passed and returned.  C integers are words of their width (\<open>u8\<close>, \<open>u16\<close>,
  \<open>u32\<close>), sizes of buffers natural numbers, results of the system an \<open>apiret\<close>.  What is not in the repository is a parameter: the kernel
  (\<open>unix\<close> for files, \<open>sys\<close> for selectors), \<^verbatim>\<open>malloc\<close> and \<^verbatim>\<open>realloc\<close>, clocks, Capstone, \<^verbatim>\<open>pthread_mutex_destroy\<close>.  Mutexes of the C library are
  modelled by what POSIX documents for the attributes the code sets.  A lock of the program that covers a whole function makes it one
  step; where a function gives its lock up in the middle it is more than one step, and what other threads do in between is part of the
  model (\<open>ev_step\<close> in \<open>DosSems\<close>, the lists of threads that end in \<open>DosThreads\<close>).

  \<^bold>\<open>Interfaces.\<close>  \<open>selector_table\<close> (\<open>Ldt\<close>): what the clients of the table rely on, interpreted by the loader's table and by that of the base
  library; \<open>segment_provider\<close> (\<open>DosSegs\<close>): the segments from which huge blocks are made, interpreted by the loader's functions;
  \<open>handle_table\<close> (\<open>DosFiles\<close>): opening and closing, interpreted by \<open>DosOpen\<close> and \<open>DosClose_implementation\<close>.

  \<^bold>\<open>What the lemmas show.\<close>
  \<^item> Unpacking (C1 to C4): no access outside the buffers, termination, and the decoded bytes are those an independent encoding denotes.
  \<^item> Selectors (C5 to C9, C32): round trips of far pointers, distinct tiles, stack tiling, segments and huge blocks that are taken or given back
    as a whole; and the addresses below 64k, for which the encoding of a free slot breaks the conversion.
  \<^item> Loading (C11 to C14, C16 to C18, C20, C22, C39): the header check and where it reads outside the file, the two passes over entry tables and
    name lookups, generated code run on an instruction model, relocation of pages and of NE chains, the end of all modules.
  \<^item> System calls (C23, C24, C26 to C38): the table of handles as a finite map, semaphores over all interleavings, spin semaphores
    with a clock, thread-local words, path searches, current directories, directory searches, argument vectors, threads.  Several of these also
    state precisely where the code fails.
  \<^item> Configuration (C40): the table of drives for any configuration file.
  \<^item> Debugger (C10, C15, C19, C21, C25): stepping leaves no trace in the program's memory, both memory accesses agree, conditional jumps are decided
    as the processor does, line programs against a reference machine, the best row of an address.
  Each property is stated in the theory of its component, after a text with its number.  Lemmas without a number are the library, and
  among them are further results: the symbol map (\<open>symbol_map_faithful\<close>), the table of segments and the detection of loops (\<open>Autostep\<close>), races of
  the waits for threads (\<open>DosWaitThread_races\<close>), the end of mutex owners (\<open>owner_died\<close>).

  \<^bold>\<open>Bounds and fuel.\<close>  Loops that end are total functions with a measure.  Fuel is used where a loop follows pointers or callbacks:
  \<open>beep_loop\<close> gets \<open>3 * samples + 4\<close>, which is shown to be enough; freeing a module recurses through its dependencies and gets one more
  than the number of modules, enough by the counting invariant; the exit list needs one more than its length if the handlers leave it alone (a
  handler may put itself back for ever); loading recurses at most 32 levels, the code's own limit.  The polling loops (\<open>sem_poll\<close>,
  \<open>wait_for_trap\<close>, waits for threads) have \<open>None\<close> for not returning, and the properties say when they return.

  \<^bold>\<open>Not modelled.\<close>  The windows of the debugger, its start-up and printing; the libraries for windows, screen, keyboard and sockets, which pass
  calls on to SDL, ncurses and the kernel; libraries of stubs; the signal handler's entry and other assembler parts; the dump tool,
  generators and tests.  The contents of memory that is mapped twice, and signals during system calls, are not modelled either.
\<close>

end
